(* ===== verification/NdPrelude.thy ===== *)
theory NdPrelude
  imports Main "HOL-Library.Word" "HOL-Library.Monad_Syntax" "HOL-Library.Sublist"
begin

text \<open>
  Shared vocabulary of the development: byte strings, C library character
  predicates (``C'' locale), the comparison that \<open>memcmp\<close> computes, the
  conversions of machine integers used by several components, generic lemmas
  on lists and maps, and the hint collections the component proofs use.

  Text (\<open>std::string\<close>, C strings) is a HOL \<open>string\<close>; binary data is a list of
  8-bit words in memory order; a \<open>std::map\<close> or \<open>std::unordered_map\<close> is either a
  HOL map or, where iteration order or the stored sequence matters, an
  association list.
\<close>

named_theorems nd_inv \<open>preservation of component invariants by operations\<close>
named_theorems nd_word \<open>facts on fixed-width integers\<close>

type_synonym byte = "8 word"
type_synonym bytes = "byte list"
type_synonym time_t = int
type_synonym digest = bytes

section \<open>Characters and strings\<close>

definition isspace :: "char \<Rightarrow> bool" where
  "isspace c \<longleftrightarrow> of_char c \<in> {9, 10, 11, 12, 13, 32 :: nat}"

definition isdigit :: "char \<Rightarrow> bool" where
  "isdigit c \<longleftrightarrow> (48 :: nat) \<le> of_char c \<and> of_char c \<le> (57 :: nat)"

definition isupper :: "char \<Rightarrow> bool" where
  "isupper c \<longleftrightarrow> (65 :: nat) \<le> of_char c \<and> of_char c \<le> (90 :: nat)"

definition islower :: "char \<Rightarrow> bool" where
  "islower c \<longleftrightarrow> (97 :: nat) \<le> of_char c \<and> of_char c \<le> (122 :: nat)"

definition isalpha :: "char \<Rightarrow> bool" where
  "isalpha c \<longleftrightarrow> isupper c \<or> islower c"

definition isalnum :: "char \<Rightarrow> bool" where
  "isalnum c \<longleftrightarrow> isalpha c \<or> isdigit c"

definition ispunct :: "char \<Rightarrow> bool" where
  "ispunct c \<longleftrightarrow> (33 :: nat) \<le> of_char c \<and> of_char c \<le> (126 :: nat) \<and> \<not> isalnum c"

definition tolower :: "char \<Rightarrow> char" where
  "tolower c = (if isupper c then char_of (of_char c + 32 :: nat) else c)"

definition toupper :: "char \<Rightarrow> char" where
  "toupper c = (if islower c then char_of (of_char c - 32 :: nat) else c)"

text \<open>\<open>to_string\<close> of a non-negative integer, in base ten, and of a signed one.\<close>

definition digit_char :: "nat \<Rightarrow> char" where
  "digit_char d = ''0123456789'' ! d"

fun nat_to_string :: "nat \<Rightarrow> string" where
  "nat_to_string n = (if n < 10 then [digit_char n]
                      else nat_to_string (n div 10) @ [digit_char (n mod 10)])"

declare nat_to_string.simps [simp del]

lemma nat_to_string_digit [simp]: "n < 10 \<Longrightarrow> nat_to_string n = [digit_char n]"
  by (subst nat_to_string.simps) simp

lemma nat_to_string_step: "10 \<le> n \<Longrightarrow> nat_to_string n = nat_to_string (n div 10) @ [digit_char (n mod 10)]"
  by (subst nat_to_string.simps) simp

definition int_to_string :: "int \<Rightarrow> string" where
  "int_to_string i = (if i < 0 then CHR ''-'' # nat_to_string (nat (- i)) else nat_to_string (nat i))"

text \<open>\<open>find_first_of\<close> and \<open>find_last_of\<close> of one character, \<open>substr\<close>, \<open>find\<close> of a string.\<close>

fun find_first :: "('a \<Rightarrow> bool) \<Rightarrow> 'a list \<Rightarrow> nat option" where
  "find_first P [] = None"
| "find_first P (x # xs) = (if P x then Some 0 else map_option Suc (find_first P xs))"

fun find_last :: "('a \<Rightarrow> bool) \<Rightarrow> 'a list \<Rightarrow> nat option" where
  "find_last P [] = None"
| "find_last P (x # xs) = (case find_last P xs of Some i \<Rightarrow> Some (Suc i)
                           | None \<Rightarrow> (if P x then Some 0 else None))"

fun find_sub :: "'a list \<Rightarrow> 'a list \<Rightarrow> nat option" where
  "find_sub pat [] = (if pat = [] then Some 0 else None)"
| "find_sub pat (x # xs) = (if prefix pat (x # xs) then Some 0
                            else map_option Suc (find_sub pat xs))"

lemma find_first_SomeD:
  "find_first P xs = Some i \<Longrightarrow> i < length xs \<and> P (xs ! i) \<and> (\<forall>x \<in> set (take i xs). \<not> P x)"
  by (induction xs arbitrary: i) (auto split: if_splits)

lemma find_first_None: "find_first P xs = None \<longleftrightarrow> (\<forall>x \<in> set xs. \<not> P x)"
  by (induction xs) auto

lemma find_last_None: "find_last P xs = None \<longleftrightarrow> (\<forall>x \<in> set xs. \<not> P x)"
  by (induction xs) (auto split: option.splits)

lemma find_last_SomeD:
  "find_last P xs = Some i \<Longrightarrow> i < length xs \<and> P (xs ! i) \<and> (\<forall>x \<in> set (drop (Suc i) xs). \<not> P x)"
proof (induction xs arbitrary: i)
  case (Cons x xs)
  show ?case
  proof (cases "find_last P xs")
    case None
    then show ?thesis using Cons.prems by (auto simp: None find_last_None [symmetric] split: if_splits)
  next
    case (Some j)
    then show ?thesis using Cons.prems Cons.IH [of j] by auto
  qed
qed simp

lemma find_sub_SomeD:
  "find_sub pat xs = Some i \<Longrightarrow> i \<le> length xs \<and> prefix pat (drop i xs)"
  by (induction xs arbitrary: i) (auto split: if_splits)

lemma find_sub_None: "find_sub pat xs = None \<longleftrightarrow> \<not> sublist pat xs"
  by (induction xs) (auto simp: sublist_Cons_right)

section \<open>Byte strings\<close>

text \<open>The sign of \<open>memcmp\<close> on two regions of equal length.\<close>

fun memcmp :: "bytes \<Rightarrow> bytes \<Rightarrow> int" where
  "memcmp (a # as) (b # bs) = (if a = b then memcmp as bs else if a < b then -1 else 1)"
| "memcmp _ _ = 0"

lemma memcmp_eq_0: "length as = length bs \<Longrightarrow> memcmp as bs = 0 \<longleftrightarrow> as = bs"
  by (induction as bs rule: memcmp.induct) auto

lemma memcmp_sym: "length as = length bs \<Longrightarrow> memcmp bs as = - memcmp as bs"
  by (induction as bs rule: memcmp.induct) auto

lemma memcmp_refl [simp]: "memcmp as as = 0"
  by (induction as) auto

lemma memcmp_trans:
  "memcmp as bs < 0 \<Longrightarrow> memcmp bs cs < 0 \<Longrightarrow> length as = length bs \<Longrightarrow> length bs = length cs
   \<Longrightarrow> memcmp as cs < 0"
proof (induction as bs arbitrary: cs rule: memcmp.induct)
  case (1 a as b bs)
  then show ?case by (cases cs) (auto split: if_splits)
qed auto

text \<open>Big-endian (network order) and little-endian (host order) readings.\<close>

definition be_nat :: "bytes \<Rightarrow> nat" where
  "be_nat bs = foldl (\<lambda>acc b. acc * 256 + unat b) 0 bs"

fun le_nat :: "bytes \<Rightarrow> nat" where
  "le_nat [] = 0"
| "le_nat (b # bs) = unat b + 256 * le_nat bs"

definition byte_of :: "nat \<Rightarrow> byte" where
  "byte_of n = word_of_nat n"

definition bswap16 :: "16 word \<Rightarrow> 16 word" where
  "bswap16 w = word_of_nat (unat w mod 256 * 256 + unat w div 256)"

lemma unat_byte_lt [simp, nd_word]: "unat (b :: byte) < 256"
  using unsigned_less [of b] by simp

lemma unat_byte_of [simp]: "n < 256 \<Longrightarrow> unat (byte_of n) = n"
  by (simp add: byte_of_def unat_of_nat)

lemma byte_of_unat [simp]: "byte_of (unat b) = b"
  by (simp add: byte_of_def)

lemma unat_16_lt [nd_word]: "unat (w :: 16 word) < 65536"
  using unsigned_less [of w] by simp

lemma unat_bswap16: "unat (bswap16 w) = unat w mod 256 * 256 + unat w div 256"
proof -
  have "unat w div 256 < 256" using unat_16_lt [of w] by (simp add: less_mult_imp_div_less)
  moreover have "unat w mod 256 < 256" by simp
  ultimately have "unat w mod 256 * 256 + unat w div 256 < 65536" by linarith
  then show ?thesis by (simp only: bswap16_def unat_of_nat) simp
qed

lemma bswap16_bswap16 [simp]: "bswap16 (bswap16 w) = w"
proof (rule word_unat_eq_iff [THEN iffD2])
  have "unat w div 256 < 256" using unat_16_lt [of w] by (simp add: less_mult_imp_div_less)
  then have "unat (bswap16 (bswap16 w)) = unat w div 256 * 256 + unat w mod 256"
    by (simp add: unat_bswap16)
  then show "unat (bswap16 (bswap16 w)) = unat w" by simp
qed

lemma bswap16_inject [simp]: "bswap16 a = bswap16 b \<longleftrightarrow> a = b"
  by (metis bswap16_bswap16)

section \<open>Association lists in key order\<close>

text \<open>
  The finite maps whose stored sequence the code reads are association lists;
  \<open>map_of\<close> is their abstraction.
\<close>

fun al_update :: "'k \<Rightarrow> 'v \<Rightarrow> ('k \<times> 'v) list \<Rightarrow> ('k \<times> 'v) list" where
  "al_update k v [] = [(k, v)]"
| "al_update k v ((k', v') # r) = (if k = k' then (k, v) # r else (k', v') # al_update k v r)"

definition al_delete :: "'k \<Rightarrow> ('k \<times> 'v) list \<Rightarrow> ('k \<times> 'v) list" where
  "al_delete k = filter (\<lambda>p. fst p \<noteq> k)"

lemma map_of_al_update [simp]: "map_of (al_update k v xs) = (map_of xs)(k \<mapsto> v)"
  by (induction xs) (auto simp: fun_eq_iff)

lemma map_of_al_delete [simp]: "map_of (al_delete k xs) = (map_of xs)(k := None)"
  by (induction xs) (auto simp: al_delete_def fun_eq_iff)

lemma keys_al_update: "fst ` set (al_update k v xs) = insert k (fst ` set xs)"
  by (simp flip: dom_map_of_conv_image_fst)

lemma distinct_al_update [simp]:
  "distinct (map fst xs) \<Longrightarrow> distinct (map fst (al_update k v xs))"
  by (induction xs) (auto simp: keys_al_update simp del: set_map simp add: set_map)

lemma distinct_al_delete [simp]:
  "distinct (map fst xs) \<Longrightarrow> distinct (map fst (al_delete k xs))"
  by (simp add: al_delete_def distinct_map_filter)

lemma length_al_delete:
  "distinct (map fst xs) \<Longrightarrow>
   length (al_delete k xs) = (if k \<in> fst ` set xs then length xs - 1 else length xs)"
proof (induction xs)
  case (Cons p xs)
  have "k \<notin> fst ` set xs \<Longrightarrow> al_delete k xs = xs"
    unfolding al_delete_def by (rule filter_True) force
  moreover have "k \<in> fst ` set xs \<Longrightarrow> 0 < length xs" by (cases xs) auto
  ultimately show ?case using Cons by (cases "fst p = k") (auto simp: al_delete_def)
qed (simp add: al_delete_def)

lemma length_al_update:
  "length (al_update k v xs) = (if k \<in> fst ` set xs then length xs else Suc (length xs))"
proof (induction xs)
  case (Cons p xs)
  then show ?case by (cases p) (simp add: image_iff)
qed simp

lemma sum_list_map_filter_le: "sum_list (map f (filter P xs)) \<le> (sum_list (map f xs) :: nat)"
  by (induction xs) auto

lemma map_of_filter_value:
  assumes "distinct (map fst xs)"
  shows "map_of (filter (\<lambda>p. P (snd p)) xs) k = (case map_of xs k of Some v \<Rightarrow> if P v then Some v else None | None \<Rightarrow> None)"
  using assms
proof (induction xs)
  case (Cons p xs)
  have "map_of (filter (\<lambda>p. P (snd p)) xs) (fst p) = None" using Cons.prems by (auto simp: map_of_eq_None_iff)
  then show ?case using Cons by auto
qed simp

lemma map_of_rev: "distinct (map fst xs) \<Longrightarrow> map_of (rev xs) = map_of xs"
  by (rule map_of_inject_set [THEN iffD2]) (simp_all flip: rev_map)

text \<open>\<open>getline\<close> until the end: the pieces before each newline, and the rest if there is any.\<close>

fun getlines :: "string \<Rightarrow> string list" where
  "getlines [] = []"
| "getlines (c # s) =
     (if c = CHR 0x0A then [] # getlines s
      else case getlines s of
        [] \<Rightarrow> [[c]]
      | l # ls \<Rightarrow> (c # l) # ls)"

lemma getlines_line: "CHR 0x0A \<notin> set l \<Longrightarrow> getlines (l @ CHR 0x0A # s) = l # getlines s"
  by (induction l) auto

end
