(* ===== verification/NdBase64.thy ===== *)
theory NdBase64
  imports NdPrelude
begin

text \<open>
  Base64 encoding and decoding (\<open>src/src/nd-base64.cpp\<close>). The encoder follows
  the three-byte loop and its one- and two-byte tails; the decoder keeps the
  pointer reads of the source, so that a read past the end of the input is
  the value \<open>None\<close>.
\<close>

unbundle bit_operations_syntax

definition base64_table :: string where
  "base64_table = ''ABCDEFGHIJKLMNOPQRSTUVWXYZabcdefghijklmnopqrstuvwxyz0123456789+/''"

definition b64c :: "byte \<Rightarrow> char" where
  "b64c b = base64_table ! unat b"

fun base64_encode_loop :: "bytes \<Rightarrow> string" where
  "base64_encode_loop (a # b # c # rest) =
     [b64c (drop_bit 2 a),
      b64c (push_bit 4 (a AND 0x03) OR drop_bit 4 b),
      b64c (push_bit 2 (b AND 0x0f) OR drop_bit 6 c),
      b64c (c AND 0x3f)] @ base64_encode_loop rest"
| "base64_encode_loop [a, b] =
     [b64c (drop_bit 2 a),
      b64c (push_bit 4 (a AND 0x03) OR drop_bit 4 b),
      b64c (push_bit 2 (b AND 0x0f)), CHR ''='']"
| "base64_encode_loop [a] =
     [b64c (drop_bit 2 a), b64c (push_bit 4 (a AND 0x03)), CHR ''='', CHR ''='']"
| "base64_encode_loop [] = []"

definition base64_encode :: "bytes \<Rightarrow> string" where
  "base64_encode src =
     (let len = word_of_nat (length src) :: 64 word;
          olen = 4 * ((len + 2) div 3)
      in if olen < len then [] else base64_encode_loop src)"

definition base64_index_list :: "nat list" where
  "base64_index_list =
    [0, 0, 0, 0, 0, 0, 0, 0,
     0, 0, 0, 0, 0, 0, 0, 0, 0, 0, 0, 0, 0, 0, 0, 0, 0, 0, 0,
     0, 0, 0, 0, 0, 0, 0, 0, 0, 0, 0, 0, 0, 0, 0, 0, 62, 63, 62,
     62, 63, 52, 53, 54, 55, 56, 57, 58, 59, 60, 61, 0, 0, 0,
     0, 0, 0, 0, 0, 1, 2, 3, 4, 5, 6, 7, 8, 9, 10, 11, 12, 13,
     14, 15, 16, 17, 18, 19, 20, 21, 22, 23, 24, 25, 0, 0, 0,
     0, 63, 0, 26, 27, 28, 29, 30, 31, 32, 33, 34, 35, 36, 37,
     38, 39, 40, 41, 42, 43, 44, 45, 46, 47, 48, 49, 50, 51]"

text \<open>The array has 256 elements; those without an initialiser are zero.\<close>

definition base64_index :: "char \<Rightarrow> 32 word" where
  "base64_index c = (let i = of_char c :: nat in
     if i < length base64_index_list then word_of_nat (base64_index_list ! i) else 0)"

definition rd :: "'a list \<Rightarrow> nat \<Rightarrow> 'a option" where
  "rd xs i = (if i < length xs then Some (xs ! i) else None)"

definition b64_low :: "32 word \<Rightarrow> byte" where
  "b64_low n = ucast n"

fun base64_decode_loop :: "string \<Rightarrow> nat \<Rightarrow> bytes option" where
  "base64_decode_loop p 0 = Some []"
| "base64_decode_loop (c0 # c1 # c2 # c3 # p) (Suc k) =
     (let n = push_bit 18 (base64_index c0) OR push_bit 12 (base64_index c1)
              OR push_bit 6 (base64_index c2) OR base64_index c3
      in map_option (\<lambda>r. [b64_low (drop_bit 16 n), b64_low (drop_bit 8 n AND 0xFF), b64_low (n AND 0xFF)] @ r)
           (base64_decode_loop p k))"
| "base64_decode_loop _ (Suc k) = None"

definition base64_decode :: "string \<Rightarrow> bytes option" where
  "base64_decode p =
     (let len = length p;
          pad = (if 0 < len \<and> (len mod 4 \<noteq> 0 \<or> p ! (len - 1) = CHR ''='') then 1 else 0);
          L = ((len + 3) div 4 - pad) * 4
      in do {
        body \<leftarrow> base64_decode_loop p (L div 4);
        if pad = 0 then Some body
        else do {
          c0 \<leftarrow> rd p L;
          c1 \<leftarrow> rd p (L + 1);
          let n = push_bit 18 (base64_index c0) OR push_bit 12 (base64_index c1);
          let str = body @ [b64_low (drop_bit 16 n)];
          (case rd p (L + 2) of
             Some c2 \<Rightarrow>
               if c2 \<noteq> CHR ''='' then
                 (let n' = n OR push_bit 6 (base64_index c2)
                  in Some (str @ [b64_low (drop_bit 8 n' AND 0xFF)]))
               else Some str
           | None \<Rightarrow> Some str)
        }
      })"

section \<open>The alphabet\<close>

lemma b64_index_table:
  "map base64_index base64_table = map word_of_nat [0..<64]"
  by (simp add: base64_index_def base64_table_def base64_index_list_def Let_def upt_rec)

lemma b64_table_no_pad: "CHR ''='' \<notin> set base64_table"
  by (simp add: base64_table_def)

lemma length_base64_table: "length base64_table = 64"
  by (simp add: base64_table_def)

lemma b64c_index:
  assumes "unat b < 64"
  shows "base64_index (b64c b) = ucast b" and "b64c b \<noteq> CHR ''=''"
proof -
  have "map base64_index base64_table ! unat b = word_of_nat (unat b)"
    by (simp only: b64_index_table nth_map length_upt nth_upt assms) (simp add: assms)
  then show "base64_index (b64c b) = ucast b"
    using assms by (simp add: b64c_def length_base64_table)
  show "b64c b \<noteq> CHR ''=''"
    using nth_mem [of "unat b" base64_table] assms b64_table_no_pad
    by (metis b64c_def length_base64_table)
qed

lemma byte_eqI:
  assumes "\<And>i. i \<in> {0, 1, 2, 3, 4, 5, 6, 7} \<Longrightarrow> bit (a :: byte) i = bit b i"
  shows "a = b"
proof (rule bit_word_eqI)
  fix i assume "i < LENGTH(8)"
  then have "i \<in> {0, 1, 2, 3, 4, 5, 6, 7}" by auto
  then show "bit a i = bit b i" by (rule assms)
qed

lemma byte_no_bit [simp, nd_word]: "8 \<le> i \<Longrightarrow> \<not> bit (b :: byte) i"
  by (auto dest: bit_imp_le_length)

lemma byte_lt_64:
  assumes "\<not> bit (w :: byte) 6" "\<not> bit w 7"
  shows "unat w < 64"
proof -
  have "w = take_bit 6 w"
    by (rule byte_eqI) (use assms in \<open>auto simp: bit_simps\<close>)
  then have "unat w = take_bit 6 (unat w)" by (metis unsigned_take_bit_eq)
  then have "unat w < 2 ^ 6" by (metis take_bit_nat_less_exp)
  then show ?thesis by simp
qed

text \<open>The four indices of a three-byte block are below 64.\<close>

lemma b64_block_bounds [nd_word]:
  "unat (drop_bit 2 (a :: byte)) < 64"
  "unat (push_bit 4 ((a :: byte) AND 3) OR drop_bit 4 (b :: byte)) < 64"
  "unat (push_bit 2 ((b :: byte) AND 15) OR drop_bit 6 (c :: byte)) < 64"
  "unat (c AND (63 :: byte)) < 64"
  "unat (push_bit 4 ((a :: byte) AND 3)) < 64"
  "unat (push_bit 2 ((b :: byte) AND 15)) < 64"
  by (rule byte_lt_64; simp add: bit_simps)+

text \<open>The decoder's shifts undo the encoder's on each byte of a block.\<close>

definition b64_join :: "byte \<Rightarrow> byte \<Rightarrow> byte \<Rightarrow> byte \<Rightarrow> 32 word" where
  "b64_join i0 i1 i2 i3 =
     push_bit 18 (ucast i0) OR push_bit 12 (ucast i1) OR push_bit 6 (ucast i2) OR ucast i3"

lemma b64_high_bits [nd_word]:
  assumes "unat (w :: byte) < 64" and "6 \<le> i"
  shows "\<not> bit w i"
proof
  assume "bit w i"
  then have "bit (unat w) i" by (simp add: bit_unsigned_iff)
  moreover have "take_bit 6 (unat w) = unat w" using assms(1) by (simp add: take_bit_nat_eq_self)
  ultimately have "bit (take_bit 6 (unat w)) i" by simp
  then show False using assms(2) by (simp add: bit_take_bit_iff)
qed

lemma b64_join_first:
  assumes "unat i2 < 64" "unat i3 < 64"
  shows "b64_low (drop_bit 16 (b64_join (drop_bit 2 a) (push_bit 4 (a AND 3) OR drop_bit 4 b) i2 i3)) = a"
    and "b64_low (drop_bit 16 (b64_join (drop_bit 2 a) (push_bit 4 (a AND 3)) i2 i3)) = a"
  using b64_high_bits [OF assms(1)] b64_high_bits [OF assms(2)]
  by - (rule byte_eqI, elim insertE emptyE;
        simp add: b64_low_def b64_join_def bit_simps)+

lemma b64_join_second:
  assumes "unat i0 < 64" "unat i3 < 64"
  shows "b64_low (drop_bit 8 (b64_join i0 (push_bit 4 (a AND 3) OR drop_bit 4 b)
           (push_bit 2 (b AND 15) OR drop_bit 6 c) i3) AND 255) = b"
    and "b64_low (drop_bit 8 (b64_join i0 (push_bit 4 (a AND 3) OR drop_bit 4 b)
           (push_bit 2 (b AND 15)) i3) AND 255) = b"
  using b64_high_bits [OF assms(1)] b64_high_bits [OF assms(2)]
  by - (rule byte_eqI, elim insertE emptyE;
        simp add: b64_low_def b64_join_def bit_simps)+

lemma b64_join_third:
  "b64_low (b64_join i0 i1 (push_bit 2 (b AND 15) OR drop_bit 6 c) (c AND 63) AND 255) = c"
  by (rule byte_eqI, elim insertE emptyE; simp add: b64_low_def b64_join_def bit_simps)


section \<open>Decoding inverts encoding\<close>

lemmas b64_index_block = b64c_index(1) [OF b64_block_bounds(1)] b64c_index(1) [OF b64_block_bounds(2)]
  b64c_index(1) [OF b64_block_bounds(3)] b64c_index(1) [OF b64_block_bounds(4)]
  b64c_index(1) [OF b64_block_bounds(5)] b64c_index(1) [OF b64_block_bounds(6)]

lemma length_base64_encode_loop:
  "length (base64_encode_loop src) = 4 * ((length src + 2) div 3)"
proof (induction src rule: base64_encode_loop.induct)
  case (1 a b c rest)
  have "(length (a # b # c # rest) + 2) div 3 = Suc ((length rest + 2) div 3)" by simp
  then show ?case using 1 by simp
qed auto

lemma base64_encode_loop_append:
  "length xs mod 3 = 0 \<Longrightarrow> base64_encode_loop (xs @ ys) = base64_encode_loop xs @ base64_encode_loop ys"
  by (induction xs rule: base64_encode_loop.induct) auto

lemma base64_encode_loop_last:
  "length xs mod 3 = 0 \<Longrightarrow> xs \<noteq> [] \<Longrightarrow> last (base64_encode_loop xs) \<noteq> CHR ''=''"
proof (induction xs rule: base64_encode_loop.induct)
  case (1 a b c rest)
  have "base64_encode_loop rest = [] \<longleftrightarrow> rest = []"
    by (cases rest rule: base64_encode_loop.cases) auto
  then show ?case using 1 b64c_index(2) [OF b64_block_bounds(4) [of c]] by auto
qed auto

lemma base64_decode_loop_encode:
  "length xs = 3 * k \<Longrightarrow> base64_decode_loop (base64_encode_loop xs @ ys) k = Some xs"
proof (induction xs arbitrary: k rule: base64_encode_loop.induct)
  case (1 a b c rest)
  then obtain j where k: "k = Suc j" and j: "length rest = 3 * j" by (cases k) auto
  have e: "push_bit 18 (base64_index (b64c i0)) OR push_bit 12 (base64_index (b64c i1)) OR
      push_bit 6 (base64_index (b64c i2)) OR base64_index (b64c i3) = b64_join i0 i1 i2 i3"
    if "unat i0 < 64" "unat i1 < 64" "unat i2 < 64" "unat i3 < 64" for i0 i1 i2 i3
    using that by (simp add: b64_join_def b64c_index)
  show ?case
    by (simp only: k base64_encode_loop.simps append.simps base64_decode_loop.simps Let_def
          e b64_block_bounds "1.IH" [OF j] b64_join_first b64_join_second b64_join_third option.map)
next
  case (2 a b)
  then have False by simp presburger
  then show ?case ..
next
  case (3 a)
  then have False by simp
  then show ?case ..
qed auto

lemma base64_encode_no_overflow:
  assumes "length src < 2 ^ 62"
  shows "base64_encode src = base64_encode_loop src"
proof -
  define n where "n = length src"
  have b: "n < 2 ^ 62" using assms by (simp add: n_def)
  have l: "unat (word_of_nat n :: 64 word) = n" using b by (simp add: unat_of_nat)
  have p: "unat (word_of_nat n + 2 :: 64 word) = n + 2"
    using b by (simp add: unat_word_ariths l)
  have d: "unat ((word_of_nat n + 2) div 3 :: 64 word) = (n + 2) div 3"
    by (simp add: unat_div_distrib p)
  have m: "unat (4 * ((word_of_nat n + 2) div 3) :: 64 word) = 4 * ((n + 2) div 3)"
    using b by (simp add: unat_word_ariths(2) d)
  have "n \<le> 4 * ((n + 2) div 3)" by presburger
  then have "\<not> 4 * ((word_of_nat n + 2) div 3) < (word_of_nat n :: 64 word)"
    by (simp add: word_less_nat_alt m l)
  then show ?thesis by (simp add: base64_encode_def Let_def n_def)
qed

lemma base64_decode_no_pad:
  assumes "length p = 4 * k" "p = [] \<or> last p \<noteq> CHR ''=''"
  shows "base64_decode p = base64_decode_loop p k"
proof -
  have "\<not> (0 < length p \<and> (length p mod 4 \<noteq> 0 \<or> p ! (length p - 1) = CHR ''=''))"
    using assms by (cases "p = []") (auto simp: last_conv_nth)
  moreover have "(4 * k + 3) div 4 = k" by simp
  ultimately show ?thesis
    using assms(1) by (cases "base64_decode_loop p k") (auto simp: base64_decode_def Let_def)
qed

lemma base64_decode_pad_two:
  assumes "length E = 4 * k" "base64_decode_loop (E @ [x, y, CHR ''='', CHR ''='']) k = Some full"
  shows "base64_decode (E @ [x, y, CHR ''='', CHR ''='']) =
    Some (full @ [b64_low (drop_bit 16 (push_bit 18 (base64_index x) OR push_bit 12 (base64_index y)))])"
proof -
  have "(4 * k + 4 + 3) div 4 - 1 = k" by simp
  then show ?thesis
    using assms by (simp add: base64_decode_def rd_def nth_append)
qed

lemma base64_decode_pad_one:
  assumes "length E = 4 * k" "base64_decode_loop (E @ [x, y, z, CHR ''='']) k = Some full"
    and "z \<noteq> CHR ''=''"
  shows "base64_decode (E @ [x, y, z, CHR ''='']) =
    (let n = push_bit 18 (base64_index x) OR push_bit 12 (base64_index y)
     in Some (full @ [b64_low (drop_bit 16 n),
          b64_low (drop_bit 8 (n OR push_bit 6 (base64_index z)) AND 0xFF)]))"
proof -
  have "(4 * k + 4 + 3) div 4 - 1 = k" by simp
  then show ?thesis
    using assms by (simp add: base64_decode_def rd_def nth_append)
qed

lemma base64_decode_encode_tail:
  assumes "length full = 3 * k" "length tail < 3"
  shows "base64_decode (base64_encode_loop (full @ tail)) = Some (full @ tail)"
proof -
  let ?E = "base64_encode_loop full"
  have E: "base64_encode_loop (full @ tail) = ?E @ base64_encode_loop tail"
    using assms(1) by (simp add: base64_encode_loop_append)
  have lE: "length ?E = 4 * k" using assms(1) by (simp add: length_base64_encode_loop)
  consider "tail = []" | a where "tail = [a]" | a b where "tail = [a, b]"
    using assms(2) by (auto simp: less_Suc_eq numeral_3_eq_3 length_Suc_conv)
  then show ?thesis
  proof cases
    case 1
    have "?E = [] \<or> last ?E \<noteq> CHR ''=''"
      using base64_encode_loop_last [of full] assms(1) by (cases "full = []") auto
    then show ?thesis
      using base64_decode_no_pad [OF lE] base64_decode_loop_encode [OF assms(1), of "[]"] 1 by simp
  next
    case (2 a)
    show ?thesis
      using base64_decode_pad_two [OF lE base64_decode_loop_encode [OF assms(1)],
          of "b64c (drop_bit 2 a)" "b64c (push_bit 4 (a AND 3))"]
        b64_join_first(2) [of 0 0 a, unfolded b64_join_def] 2
      unfolding E [unfolded 2] b64_index_block base64_encode_loop.simps 2 by (simp del: push_bit_and)
  next
    case (3 a b)
    show ?thesis
      using base64_decode_pad_one [OF lE base64_decode_loop_encode [OF assms(1)]
          b64c_index(2) [OF b64_block_bounds(6)],
          of "b64c (drop_bit 2 a)" "b64c (push_bit 4 (a AND 3) OR drop_bit 4 b)" b]
        b64_join_first(1) [of 0 0 a b, unfolded b64_join_def]
        b64_join_second(2) [of "drop_bit 2 a" 0 a b, unfolded b64_join_def] b64_block_bounds(1) [of a]
      unfolding E [unfolded 3] b64_index_block base64_encode_loop.simps 3 Let_def by (simp del: push_bit_and add: or.assoc)
  qed
qed

text \<open>
  C38. Base64 round trip: for any input shorter than 2^62 bytes (so that the
  encoder's overflow guard does not fire), decoding the encoder's output reads
  no byte out of range and gives back the input.
\<close>

theorem base64_roundtrip:
  assumes "length src < 2 ^ 62"
  shows "base64_decode (base64_encode src) = Some src"
proof -
  define k where "k = length src div 3"
  have "length (take (3 * k) src) = 3 * k" by (simp add: k_def)
  moreover have "length (drop (3 * k) src) < 3" by (simp add: k_def minus_mult_div_eq_mod)
  ultimately show ?thesis
    using base64_decode_encode_tail [of "take (3 * k) src" k "drop (3 * k) src"]
    by (simp add: base64_encode_no_overflow [OF assms])
qed

theorem base64_roundtrip_witness:
  "base64_decode (base64_encode [0x4e, 0x65, 0x74, 0x21]) = Some [0x4e, 0x65, 0x74, 0x21]"
  by (rule base64_roundtrip) simp

end
