(* ===== verification/NdUtil.thy ===== *)
theory NdUtil
  imports NdPrelude
begin

text \<open>
  The string, identifier and time helpers of \<open>src/src/nd-util.cpp\<close>. Functions
  that write through a reference return the new value; those that also return
  a status return a pair. What comes from the C library or the operating
  system (address parsing, \<open>popen\<close>, \<open>rand\<close>, the protocol database, directory
  listings) is an argument.
\<close>

section \<open>Trimming\<close>

definition trim_char :: "char \<Rightarrow> char \<Rightarrow> bool" where
  "trim_char c ch = (if c = CHR 0x00 then isspace ch else ch = c)"

definition nd_ltrim :: "char \<Rightarrow> string \<Rightarrow> string" where
  "nd_ltrim c s = (case find_first (\<lambda>ch. \<not> trim_char c ch) s of
     None \<Rightarrow> [] | Some i \<Rightarrow> drop i s)"

definition nd_rtrim :: "char \<Rightarrow> string \<Rightarrow> string" where
  "nd_rtrim c s = (case find_last (\<lambda>ch. \<not> trim_char c ch) s of
     None \<Rightarrow> [] | Some i \<Rightarrow> take (Suc i) s)"

definition nd_trim :: "char \<Rightarrow> string \<Rightarrow> string" where
  "nd_trim c s = nd_rtrim c (nd_ltrim c s)"

lemma nd_ltrim_dropWhile: "nd_ltrim c s = dropWhile (trim_char c) s"
proof -
  have "(case find_first (\<lambda>ch. \<not> P ch) s of None \<Rightarrow> [] | Some i \<Rightarrow> drop i s) = dropWhile P s" for P
    by (induction s) (auto split: option.splits)
  then show ?thesis by (simp add: nd_ltrim_def)
qed

lemma nd_rtrim_Cons:
  "nd_rtrim c (x # s) = (if nd_rtrim c s = [] \<and> trim_char c x then [] else x # nd_rtrim c s)"
  by (cases "find_last (\<lambda>ch. \<not> trim_char c ch) s") (auto simp: nd_rtrim_def)

lemma nd_rtrim_Nil [simp]: "nd_rtrim c [] = []"
  by (simp add: nd_rtrim_def)

lemma nd_rtrim_prefix: "prefix (nd_rtrim c s) s"
  by (induction s) (auto simp: nd_rtrim_Cons)

lemma set_nd_rtrim: "set (nd_rtrim c s) \<subseteq> set s"
  using nd_rtrim_prefix by (rule set_mono_prefix)

lemma nd_rtrim_last: "nd_rtrim c s \<noteq> [] \<Longrightarrow> \<not> trim_char c (last (nd_rtrim c s))"
  by (induction s) (auto simp: nd_rtrim_Cons split: if_splits)

lemma nd_rtrim_id: "s = [] \<or> \<not> trim_char c (last s) \<Longrightarrow> nd_rtrim c s = s"
  by (induction s) (auto simp: nd_rtrim_Cons split: if_splits)

lemma nd_rtrim_idem [simp]: "nd_rtrim c (nd_rtrim c s) = nd_rtrim c s"
  by (rule nd_rtrim_id) (use nd_rtrim_last in blast)

lemma length_nd_rtrim: "length (nd_rtrim c s) \<le> length s"
  using nd_rtrim_prefix by (rule prefix_length_le)

section \<open>Hexadecimal text\<close>

definition hex_char :: "nat \<Rightarrow> char" where
  "hex_char d = ''0123456789abcdef'' ! d"

text \<open>\<open>sprintf("%02x")\<close> of a byte.\<close>

definition hex_byte :: "byte \<Rightarrow> string" where
  "hex_byte b = [hex_char (unat b div 16), hex_char (unat b mod 16)]"

definition nd_sha1_to_string :: "bytes \<Rightarrow> string" where
  "nd_sha1_to_string digest_bin = concat (map hex_byte (take 20 digest_bin))"

definition hex_val :: "char \<Rightarrow> nat option" where
  "hex_val c = (if isdigit c then Some (of_char c - 48)
     else if 97 \<le> (of_char c :: nat) \<and> of_char c \<le> (102 :: nat) then Some (of_char c - 87)
     else if 65 \<le> (of_char c :: nat) \<and> of_char c \<le> (70 :: nat) then Some (of_char c - 55)
     else None)"

text \<open>
  \<open>sscanf("%2hhx")\<close>: leading white space is skipped, then at most two
  characters are read, an optional sign and the longest run of hexadecimal
  digits; the prefix \<open>0x\<close> alone is not a number.
\<close>

definition sscanf_2hhx :: "string \<Rightarrow> byte option" where
  "sscanf_2hhx s =
     (case take 2 (dropWhile isspace s) of
        [] \<Rightarrow> None
      | [a] \<Rightarrow> map_option byte_of (hex_val a)
      | a # b # _ \<Rightarrow>
          if a = CHR ''-'' then map_option (\<lambda>v. - byte_of v) (hex_val b)
          else if a = CHR ''+'' then map_option byte_of (hex_val b)
          else if a = CHR ''0'' \<and> (b = CHR ''x'' \<or> b = CHR ''X'') then None
          else (case hex_val a of None \<Rightarrow> None
                | Some v \<Rightarrow> (case hex_val b of None \<Rightarrow> Some (byte_of v)
                             | Some w \<Rightarrow> Some (byte_of (16 * v + w)))))"

text \<open>
  The status and the bytes written to the buffer: the loop stops at the first
  group that does not scan. \<open>ND_STR_ETHALEN\<close> is 17.
\<close>

fun string_to_mac_loop :: "string \<Rightarrow> nat \<Rightarrow> bytes \<Rightarrow> bool \<times> bytes" where
  "string_to_mac_loop s 0 acc = (True, acc)"
| "string_to_mac_loop s (Suc k) acc =
     (case sscanf_2hhx s of None \<Rightarrow> (False, acc)
      | Some b \<Rightarrow> string_to_mac_loop (drop 3 s) k (acc @ [b]))"

definition nd_string_to_mac :: "string \<Rightarrow> bool \<times> bytes" where
  "nd_string_to_mac src =
     (if length src \<noteq> 17 then (False, []) else string_to_mac_loop src 6 [])"

definition mac_to_string :: "bytes \<Rightarrow> string" where
  "mac_to_string m = butlast (concat (map (\<lambda>b. hex_byte b @ '':'') m))"

lemma hex_val_hex_char_all:
  "list_all (\<lambda>d. hex_val (hex_char d) = Some d \<and> \<not> isspace (hex_char d) \<and> hex_char d \<noteq> CHR ''-''
      \<and> hex_char d \<noteq> CHR ''+'' \<and> hex_char d \<noteq> CHR ''x'' \<and> hex_char d \<noteq> CHR ''X''
      \<and> hex_char d \<noteq> CHR '':'') [0..<16]"
  by (simp add: upt_rec hex_char_def hex_val_def isdigit_def isspace_def)

lemma hex_char_props:
  assumes "d < 16"
  shows "hex_val (hex_char d) = Some d" "\<not> isspace (hex_char d)" "hex_char d \<noteq> CHR ''-''"
    "hex_char d \<noteq> CHR ''+''" "hex_char d \<noteq> CHR ''x''" "hex_char d \<noteq> CHR ''X''"
    "hex_char d \<noteq> CHR '':''"
  using hex_val_hex_char_all assms by (auto simp only: list_all_iff set_upt atLeastLessThan_iff)

lemma unat_byte_div_16: "unat (b :: byte) div 16 < 16"
  using unat_byte_lt [of b] by (simp add: less_mult_imp_div_less)

lemma sscanf_hex_byte [simp]: "sscanf_2hhx (hex_byte b @ s) = Some b"
proof -
  have m: "unat b mod 16 < 16" by simp
  have "16 * (unat b div 16) + unat b mod 16 = unat b" by simp
  then show ?thesis
    using hex_char_props [OF unat_byte_div_16 [of b]] hex_char_props [OF m]
    by (simp add: sscanf_2hhx_def hex_byte_def numeral_2_eq_2)
qed

lemma length_hex_byte [simp]: "length (hex_byte b) = 2"
  by (simp add: hex_byte_def)

lemma length_nd_sha1_to_string: "length (nd_sha1_to_string d) = 2 * min 20 (length d)"
proof -
  have "length (concat (map hex_byte xs)) = 2 * length xs" for xs by (induction xs) auto
  then show ?thesis by (simp add: nd_sha1_to_string_def min.commute)
qed

lemma string_to_mac_loop_hex:
  "string_to_mac_loop (butlast (concat (map (\<lambda>b. hex_byte b @ '':'') m)) @ s) (length m) acc = (True, acc @ m)"
  if "m \<noteq> []" for s
  using that
proof (induction m arbitrary: acc)
  case (Cons b m)
  show ?case
  proof (cases "m = []")
    case True
    then show ?thesis by (simp add: butlast_append)
  next
    case False
    then have ne: "concat (map (\<lambda>b. hex_byte b @ '':'') m) \<noteq> []" by (cases m) auto
    then show ?thesis
      using Cons.IH [OF False] by (simp add: butlast_append hex_byte_def [of b] sscanf_hex_byte [of b, unfolded hex_byte_def, simplified])
  qed
qed simp

text \<open>
  A MAC address printed as six colon-separated pairs of lower-case hexadecimal digits is
  read back unchanged by \<open>nd_string_to_mac\<close>.
\<close>

theorem string_to_mac_roundtrip:
  assumes "length m = 6"
  shows "nd_string_to_mac (mac_to_string m) = (True, m)"
proof -
  have l: "length (concat (map (\<lambda>b. hex_byte b @ '':'') xs)) = 3 * length xs" for xs :: bytes
    by (induction xs) auto
  have "m \<noteq> []" using assms by auto
  then show ?thesis
    using string_to_mac_loop_hex [of m "[]" "[]"] assms
    by (simp add: nd_string_to_mac_def mac_to_string_def l)
qed

theorem string_to_mac_roundtrip_witness:
  "nd_string_to_mac (mac_to_string [0x00, 0x1b, 0x21, 0xff, 0x0a, 0x9c]) = (True, [0x00, 0x1b, 0x21, 0xff, 0x0a, 0x9c])"
  by (rule string_to_mac_roundtrip) simp

section \<open>Numbers in application tags\<close>

definition digit_val :: "nat \<Rightarrow> char \<Rightarrow> nat option" where
  "digit_val base c = (case hex_val c of Some v \<Rightarrow> (if v < base then Some v else None) | None \<Rightarrow> None)"

fun strtoul_digits :: "nat \<Rightarrow> nat \<Rightarrow> string \<Rightarrow> nat" where
  "strtoul_digits base acc [] = acc"
| "strtoul_digits base acc (c # cs) =
     (case digit_val base c of None \<Rightarrow> acc | Some v \<Rightarrow> strtoul_digits base (acc * base + v) cs)"

text \<open>
  \<open>strtoul(s, nullptr, 0)\<close> on a 64-bit \<open>unsigned long\<close>: white space, sign, base
  prefix; \<open>ULONG_MAX\<close> on overflow, negation modulo 2^64.
\<close>

definition strtoul0 :: "string \<Rightarrow> nat" where
  "strtoul0 s0 =
     (let s1 = dropWhile isspace s0;
          (neg, s2) = (case s1 of c # r \<Rightarrow> if c = CHR ''-'' then (True, r)
                          else if c = CHR ''+'' then (False, r) else (False, s1) | [] \<Rightarrow> (False, s1));
          v = (case s2 of
                 z # x # h # _ \<Rightarrow>
                   if z = CHR ''0'' \<and> (x = CHR ''x'' \<or> x = CHR ''X'') \<and> hex_val h \<noteq> None
                   then strtoul_digits 16 0 (drop 2 s2)
                   else if z = CHR ''0'' then strtoul_digits 8 0 s2 else strtoul_digits 10 0 s2
               | z # _ \<Rightarrow> if z = CHR ''0'' then strtoul_digits 8 0 s2 else strtoul_digits 10 0 s2
               | [] \<Rightarrow> 0)
      in if v \<ge> 2 ^ 64 then 2 ^ 64 - 1 else if neg then (2 ^ 64 - v) mod 2 ^ 64 else v)"

text \<open>The status, the 32-bit identifier and the name.\<close>

definition nd_parse_app_tag :: "string \<Rightarrow> bool \<times> nat \<times> string" where
  "nd_parse_app_tag tag =
     (case find_first (\<lambda>c. c = CHR ''.'') tag of
        Some p \<Rightarrow> (True, strtoul0 (take p tag) mod 2 ^ 32, drop (Suc p) tag)
      | None \<Rightarrow> (False, 0, []))"

lemma digit_char_all:
  "list_all (\<lambda>d. hex_val (digit_char d) = Some d \<and> \<not> isspace (digit_char d) \<and> digit_char d \<noteq> CHR ''.''
      \<and> digit_char d \<noteq> CHR ''-'' \<and> digit_char d \<noteq> CHR ''+'' \<and> digit_char d \<noteq> CHR ''x''
      \<and> digit_char d \<noteq> CHR ''X'' \<and> (digit_char d = CHR ''0'' \<longleftrightarrow> d = 0)) [0..<10]"
  by (simp add: upt_rec digit_char_def hex_val_def isdigit_def isspace_def)

lemma digit_char_props:
  assumes "d < 10"
  shows "hex_val (digit_char d) = Some d" "\<not> isspace (digit_char d)" "digit_char d \<noteq> CHR ''.''"
    "digit_char d \<noteq> CHR ''-''" "digit_char d \<noteq> CHR ''+''" "digit_char d \<noteq> CHR ''x''"
    "digit_char d \<noteq> CHR ''X''" "digit_char d = CHR ''0'' \<longleftrightarrow> d = 0"
  using bspec [OF digit_char_all [unfolded list_all_iff], of d] assms by simp_all

lemma nat_to_string_chars: "c \<in> set (nat_to_string n) \<Longrightarrow> \<exists>d < 10. c = digit_char d"
proof (induction n rule: nat_to_string.induct)
  case (1 n)
  then show ?case
    by (subst (asm) nat_to_string.simps)
       (auto split: if_splits intro: exI [of _ "n mod 10"])
qed

lemma nat_to_string_first:
  "\<exists>d s. nat_to_string n = digit_char d # s \<and> d < 10 \<and> (d = 0 \<longrightarrow> n = 0)"
proof (induction n rule: nat_to_string.induct)
  case (1 n)
  show ?case
  proof (cases "n < 10")
    case False
    then obtain d s where "nat_to_string (n div 10) = digit_char d # s" "d < 10" "d = 0 \<longrightarrow> n div 10 = 0"
      using 1 by blast
    then show ?thesis using False by (subst nat_to_string.simps) auto
  qed (subst nat_to_string.simps, auto)
qed

lemma strtoul_digits_snoc:
  "\<forall>c \<in> set s. \<exists>d < 10. c = digit_char d \<Longrightarrow>
   strtoul_digits 10 acc (s @ t) = strtoul_digits 10 (strtoul_digits 10 acc s) t"
  by (induction s arbitrary: acc) (auto simp: digit_val_def digit_char_props(1))

lemma strtoul_digits_nat_to_string: "strtoul_digits 10 0 (nat_to_string n) = n"
proof (induction n rule: nat_to_string.induct)
  case (1 n)
  show ?case
  proof (cases "n < 10")
    case True
    then show ?thesis by (subst nat_to_string.simps) (simp add: digit_val_def digit_char_props(1))
  next
    case False
    have "\<forall>c \<in> set (nat_to_string (n div 10)). \<exists>d < 10. c = digit_char d"
      using nat_to_string_chars by blast
    from strtoul_digits_snoc [OF this] show ?thesis
      using 1 [OF False] False
      by (subst nat_to_string.simps) (simp add: digit_val_def digit_char_props(1))
  qed
qed

lemma strtoul0_nat_to_string:
  assumes "n < 2 ^ 64"
  shows "strtoul0 (nat_to_string n) = n"
proof (cases "n = 0")
  case True
  have "hex_val (CHR ''0'') = Some 0" "\<not> isspace CHR ''0''"
    by (simp_all add: hex_val_def isdigit_def isspace_def)
  then show ?thesis
    by (simp add: True strtoul0_def nat_to_string.simps digit_char_def digit_val_def)
next
  case False
  then obtain d s where d: "nat_to_string n = digit_char d # s" "d < 10" "d \<noteq> 0"
    using nat_to_string_first by blast
  have "strtoul_digits 10 0 (digit_char d # s) = n"
    using strtoul_digits_nat_to_string [of n] d(1) by simp
  then show ?thesis
    using assms digit_char_props [OF d(2)] d(3)
    by (simp add: strtoul0_def d(1) split: list.split)
qed

lemma find_first_append:
  "(\<forall>x \<in> set xs. \<not> P x) \<Longrightarrow> P y \<Longrightarrow> find_first P (xs @ y # ys) = Some (length xs)"
  by (induction xs) auto

text \<open>
  An application tag ``<id>.<name>'' printed from a 32-bit identifier is parsed back to
  that identifier and to the whole name, dots in the name included.
\<close>

theorem parse_app_tag_roundtrip:
  assumes "n < 2 ^ 32"
  shows "nd_parse_app_tag (nat_to_string n @ CHR ''.'' # name) = (True, n, name)"
proof -
  have "\<forall>c \<in> set (nat_to_string n). c \<noteq> CHR ''.''"
    by (metis nat_to_string_chars digit_char_props(3))
  then have "find_first (\<lambda>c. c = CHR ''.'') (nat_to_string n @ CHR ''.'' # name) = Some (length (nat_to_string n))"
    by (intro find_first_append) auto
  then show ?thesis using assms strtoul0_nat_to_string [of n] by (simp add: nd_parse_app_tag_def)
qed

theorem parse_app_tag_roundtrip_witness:
  "nd_parse_app_tag (nat_to_string 10150 @ CHR ''.'' # ''netify.example'') = (True, 10150, ''netify.example'')"
  by (rule parse_app_tag_roundtrip) simp

section \<open>Paths, uptime and ages\<close>

definition nd_basename :: "string \<Rightarrow> string" where
  "nd_basename path = (case find_last (\<lambda>c. c = CHR ''/'') path of None \<Rightarrow> path | Some p \<Rightarrow> drop (Suc p) path)"

text \<open>\<open>setfill('0') << setw(2)\<close>.\<close>

definition setw2 :: "int \<Rightarrow> string" where
  "setw2 i = (let s = int_to_string i in replicate (2 - length s) (CHR ''0'') @ s)"

text \<open>The four numbers \<open>nd_uptime\<close> prints; division and subtraction as the code orders them.\<close>

definition uptime_split :: "time_t \<Rightarrow> time_t \<times> time_t \<times> time_t \<times> time_t" where
  "uptime_split ut =
     (let seconds = ut;
          days = (if seconds > 0 then seconds div 86400 else 0);
          seconds = (if seconds > 0 then seconds - days * 86400 else seconds);
          hours = (if seconds > 0 then seconds div 3600 else 0);
          seconds = (if seconds > 0 then seconds - hours * 3600 else seconds);
          minutes = (if seconds > 0 then seconds div 60 else 0);
          seconds = (if seconds > 0 then seconds - minutes * 60 else seconds)
      in (days, hours, minutes, seconds))"

definition nd_uptime :: "time_t \<Rightarrow> string" where
  "nd_uptime ut = (case uptime_split ut of (d, h, m, s) \<Rightarrow>
     int_to_string d @ ''d'' @ '' '' @ setw2 h @ '':'' @ setw2 m @ '':'' @ setw2 s)"

text \<open>\<open>nd_time_ago\<close>: the quotients are integers before \<open>round\<close> sees them.\<close>

definition nd_time_ago :: "time_t \<Rightarrow> string" where
  "nd_time_ago seconds =
     (let unit = (if seconds \<ge> 86400 then ''day'' else if seconds \<ge> 3600 then ''hour''
                  else if seconds \<ge> 60 then ''minute'' else ''second'');
          days = (if seconds \<ge> 86400 then seconds div 86400 else 0);
          hours = (if seconds \<ge> 86400 then 0 else if seconds \<ge> 3600 then seconds div 3600 else 0);
          minutes = (if seconds \<ge> 3600 then 0 else if seconds \<ge> 60 then seconds div 60 else 0);
          value = (if seconds \<ge> 86400 then days else if seconds \<ge> 3600 then hours
                   else if seconds \<ge> 60 then minutes else seconds);
          plural = (if (days \<noteq> 0 \<and> days > 1) \<or> (hours \<noteq> 0 \<and> hours > 1) \<or> (minutes \<noteq> 0 \<and> minutes > 1)
                    then True
                    else days = 0 \<and> hours = 0 \<and> minutes = 0 \<and> seconds \<noteq> 1)
      in int_to_string value @ '' '' @ unit @ (if plural then ''s'' else ''''))"

lemma uptime_split_spec:
  assumes "uptime_split ut = (d, h, m, s)" "0 \<le> ut"
  shows "ut = d * 86400 + h * 3600 + m * 60 + s" "0 \<le> d" "0 \<le> h" "h < 24" "0 \<le> m" "m < 60"
    "0 \<le> s" "s < 60"
proof -
  define r1 where "r1 = ut mod 86400"
  define r2 where "r2 = r1 mod 3600"
  have g: "(if 0 < x then x div k else 0) = x div k"
    "(if 0 < x then x - x div k * k else x) = x mod k" if "0 \<le> x" for x k :: int
    using that by (cases "x = 0"; simp add: minus_div_mult_eq_mod)+
  have b: "0 \<le> r1" "r1 < 86400" "0 \<le> r2" "r2 < 3600" by (simp_all add: r1_def r2_def)
  have "uptime_split ut = (ut div 86400, r1 div 3600, r2 div 60, r2 mod 60)"
    by (simp only: uptime_split_def Let_def g(1) [OF assms(2)] g(2) [OF assms(2)]
          r1_def [symmetric] g [OF b(1)] r2_def [symmetric] g [OF b(3)])
  then have e: "d = ut div 86400" "h = r1 div 3600" "m = r2 div 60" "s = r2 mod 60"
    using assms(1) by simp_all
  have "ut = ut div 86400 * 86400 + r1" "r1 = r1 div 3600 * 3600 + r2" "r2 = r2 div 60 * 60 + r2 mod 60"
    by (simp_all add: r1_def r2_def)
  then show "ut = d * 86400 + h * 3600 + m * 60 + s" using e by linarith
  show "0 \<le> d" "0 \<le> h" "h < 24" "0 \<le> m" "m < 60" "0 \<le> s" "s < 60"
    using assms(2) b by (simp_all add: e pos_imp_zdiv_nonneg_iff div_less_iff_less_mult)
qed

text \<open>
  \<open>nd_uptime\<close> prints days, hours below 24, minutes below 60 and seconds below 60 that add
  up to the uptime.
\<close>

theorem nd_uptime_decomposes:
  assumes "0 \<le> ut"
  shows "\<exists>d h m s. nd_uptime ut = int_to_string d @ ''d '' @ setw2 h @ '':'' @ setw2 m @ '':'' @ setw2 s
    \<and> ut = d * 86400 + h * 3600 + m * 60 + s
    \<and> 0 \<le> d \<and> 0 \<le> h \<and> h < 24 \<and> 0 \<le> m \<and> m < 60 \<and> 0 \<le> s \<and> s < 60"
proof -
  obtain d h m s where e: "uptime_split ut = (d, h, m, s)" by (metis prod_cases4)
  show ?thesis
    by (intro exI [of _ d] exI [of _ h] exI [of _ m] exI [of _ s] conjI uptime_split_spec [OF e assms])
       (simp add: nd_uptime_def e)
qed

theorem nd_uptime_decomposes_witness:
  "nd_uptime 93784 = ''1d 02:03:04'' \<and> (\<exists>d h m s. nd_uptime 93784 = int_to_string d @ ''d '' @ setw2 h @ '':'' @ setw2 m @ '':'' @ setw2 s
    \<and> 93784 = d * 86400 + h * 3600 + m * 60 + s
    \<and> 0 \<le> d \<and> 0 \<le> h \<and> h < 24 \<and> 0 \<le> m \<and> m < 60 \<and> 0 \<le> s \<and> s < 60)"
proof (rule conjI [OF _ nd_uptime_decomposes])
  show "nd_uptime 93784 = ''1d 02:03:04''"
    by (simp add: nd_uptime_def uptime_split_def setw2_def int_to_string_def nat_to_string_step digit_char_def)
qed simp

text \<open>The unit of an age and its length in seconds.\<close>

definition ago_unit :: "time_t \<Rightarrow> string \<times> time_t" where
  "ago_unit seconds = (if seconds \<ge> 86400 then (''day'', 86400) else if seconds \<ge> 3600 then (''hour'', 3600)
     else if seconds \<ge> 60 then (''minute'', 60) else (''second'', 1))"

lemma nd_time_ago_spec:
  assumes "0 \<le> seconds"
  shows "nd_time_ago seconds = (case ago_unit seconds of (unit, len) \<Rightarrow>
    int_to_string (seconds div len) @ '' '' @ unit @ (if seconds div len \<noteq> 1 then ''s'' else ''''))"
proof -
  have "seconds \<ge> 86400 \<Longrightarrow> seconds div 86400 \<ge> 1" "seconds \<ge> 3600 \<Longrightarrow> seconds div 3600 \<ge> 1"
    "seconds \<ge> 60 \<Longrightarrow> seconds div 60 \<ge> 1"
    by (simp_all add: pos_imp_zdiv_pos_iff int_one_le_iff_zero_less)
  then show ?thesis using assms
    by (auto simp: nd_time_ago_def ago_unit_def Let_def)
qed

section \<open>Host names\<close>

definition hostname_char :: "char \<Rightarrow> bool" where
  "hostname_char c \<longleftrightarrow> isalnum c \<or> c = CHR ''-'' \<or> c = CHR ''_'' \<or> c = CHR ''.''"

fun set_hostname_strict :: "string \<Rightarrow> nat \<Rightarrow> string" where
  "set_hostname_strict src 0 = []"
| "set_hostname_strict [] (Suc k) = []"
| "set_hostname_strict (c # src) (Suc k) =
     (if isalnum c \<or> c = CHR ''-'' \<or> c = CHR ''_'' \<or> c = CHR ''.''
      then tolower c # set_hostname_strict src k else [])"

fun set_hostname_lax :: "string \<Rightarrow> nat \<Rightarrow> string" where
  "set_hostname_lax src 0 = []"
| "set_hostname_lax [] (Suc k) = []"
| "set_hostname_lax (c # src) (Suc k) =
     (if isalnum c \<or> ispunct c \<or> c = CHR '' '' \<or> c = CHR 0x00
      then (if c = CHR 0x00 then [c] else c # set_hostname_lax src k)
      else CHR ''_'' # set_hostname_lax src k)"

text \<open>
  The source reads \<open>src[0 .. length-1]\<close>: \<open>src\<close> is the buffer, at least
  \<open>length\<close> bytes long.
\<close>

definition nd_set_hostname :: "string \<Rightarrow> nat \<Rightarrow> bool \<Rightarrow> string" where
  "nd_set_hostname src len strict =
     nd_rtrim (CHR ''.'') (if strict then set_hostname_strict src len else set_hostname_lax src len)"

text \<open>The overload that copies to a character array with \<open>strncpy\<close>.\<close>

definition strncpy :: "string \<Rightarrow> string \<Rightarrow> nat \<Rightarrow> string" where
  "strncpy dst src n = (let t = takeWhile (\<lambda>c. c \<noteq> CHR 0x00) (take n src)
     in t @ replicate (n - length t) (CHR 0x00) @ drop n dst)"

definition nd_set_hostname_buf :: "string \<Rightarrow> string \<Rightarrow> nat \<Rightarrow> bool \<Rightarrow> string" where
  "nd_set_hostname_buf dst src len strict =
     (let buffer = nd_set_hostname src len strict in strncpy dst buffer (min len (length buffer)))"

lemma of_char_lt: "(of_char c :: nat) < 256"
  by simp

lemma tolower_cases: "tolower c = c \<and> \<not> isupper c \<or> isupper c \<and> of_char (tolower c) = (of_char c + 32 :: nat)"
  by (auto simp: tolower_def isupper_def)

lemma tolower_hostname_char:
  assumes "hostname_char c"
  shows "hostname_char (tolower c)" "\<not> isupper (tolower c)"
  using tolower_cases [of c] assms
  by (auto simp: hostname_char_def isalnum_def isalpha_def isupper_def islower_def)

lemma tolower_id: "\<not> isupper c \<Longrightarrow> tolower c = c"
  by (simp add: tolower_def)

lemma set_hostname_strict_chars:
  "c \<in> set (set_hostname_strict src n) \<Longrightarrow> hostname_char c \<and> \<not> isupper c"
proof (induction src n rule: set_hostname_strict.induct)
  case (3 x src k)
  then show ?case using tolower_hostname_char [of x] by (auto simp: hostname_char_def split: if_splits)
qed auto

lemma set_hostname_strict_take:
  "set_hostname_strict src n = map tolower (takeWhile hostname_char (take n src))"
  by (induction src n rule: set_hostname_strict.induct) (auto simp: hostname_char_def)

lemma set_hostname_strict_id:
  "(\<forall>c \<in> set s. hostname_char c \<and> \<not> isupper c) \<Longrightarrow> length s \<le> n \<Longrightarrow> set_hostname_strict s n = s"
  by (simp add: set_hostname_strict_take map_idI tolower_id takeWhile_eq_all_conv [THEN iffD2])

text \<open>
  A strict host name contains only lower-case letters, digits, hyphen, underscore and dot,
  does not end in a dot, is no longer than the length given, is the lower-case image of a prefix of
  the source, and is a fixed point of the sanitiser.
\<close>

theorem set_hostname_strict_sanitised:
  "let h = nd_set_hostname src len True in
     set h \<subseteq> {c. hostname_char c \<and> \<not> isupper c} \<and> length h \<le> len \<and> last (CHR ''-'' # h) \<noteq> CHR ''.''
     \<and> prefix h (map tolower src) \<and> nd_set_hostname h (length h) True = h"
proof -
  define h0 where "h0 = set_hostname_strict src len"
  define h where "h = nd_rtrim (CHR ''.'') h0"
  have hh: "nd_set_hostname src len True = h" by (simp add: h_def h0_def nd_set_hostname_def)
  have sub: "set h \<subseteq> set h0" unfolding h_def by (rule set_nd_rtrim)
  have chars: "\<forall>c \<in> set h. hostname_char c \<and> \<not> isupper c"
    using sub set_hostname_strict_chars unfolding h0_def by blast
  have len0: "length h0 \<le> len"
    using length_takeWhile_le [of hostname_char "take len src"]
    by (simp add: h0_def set_hostname_strict_take)
  have len: "length h \<le> len" using len0 length_nd_rtrim [of "CHR ''.''" h0] by (simp add: h_def)
  have last: "last (CHR ''-'' # h) \<noteq> CHR ''.''"
    using nd_rtrim_last [of "CHR ''.''" h0] by (auto simp: h_def trim_char_def)
  have "prefix (takeWhile hostname_char (take len src)) src"
    by (meson takeWhile_is_prefix take_is_prefix prefix_order.trans)
  then have "prefix h0 (map tolower src)"
    by (simp add: h0_def set_hostname_strict_take map_mono_prefix)
  then have pre: "prefix h (map tolower src)"
    unfolding h_def using nd_rtrim_prefix prefix_order.trans by blast
  have "nd_set_hostname h (length h) True = h"
    using set_hostname_strict_id [OF chars, of "length h"] by (simp add: nd_set_hostname_def h_def)
  then show ?thesis using chars len last pre by (auto simp: hh Let_def)
qed

end
