(* ===== verification/NdSystem.thy ===== *)
theory NdSystem
  imports NdUtil
begin

text \<open>
  The parts of \<open>src/src/nd-util.cpp\<close> that touch the outside world or loop on
  their own output: variable expansion, agent identifiers and the files that
  hold them, log files, timers, the cached protocol names, directory scans.
  A file system is a map from paths to nodes; what \<open>popen\<close>, \<open>rand\<close>, \<open>glob\<close>,
  \<open>inet_pton\<close>, \<open>inet_ntop\<close>, \<open>getprotobynumber\<close> and the clock return is an argument.
\<close>

section \<open>Variable expansion\<close>

text \<open>One turn of the inner loop at position \<open>p\<close>: insert, replace, erase.\<close>

definition expand_step :: "string \<Rightarrow> string \<Rightarrow> string \<Rightarrow> nat \<Rightarrow> string" where
  "expand_step key val output p =
     (let output = (if length val > length key
            then take (p + length key) output @ replicate (length val - length key) (CHR '' '')
                 @ drop (p + length key) output
            else output);
          output = take p output @ val @ drop (p + length val) output
      in if length val < length key
         then take (p + length val) output @ drop (p + length val + (length key - length val)) output
         else output)"

partial_function (option) expand_variable :: "string \<Rightarrow> string \<Rightarrow> string \<Rightarrow> string option" where
  "expand_variable key val output =
     (case find_sub key output of None \<Rightarrow> Some output
      | Some p \<Rightarrow> expand_variable key val (expand_step key val output p))"

fun nd_expand_variables :: "string \<Rightarrow> (string \<times> string) list \<Rightarrow> string option" where
  "nd_expand_variables output [] = Some output"
| "nd_expand_variables output ((key, val) # vars) =
     Option.bind (expand_variable key val output) (\<lambda>output. nd_expand_variables output vars)"

lemma expand_step_replaces:
  assumes "p + length key \<le> length output"
  shows "expand_step key val output p = take p output @ val @ drop (p + length key) output"
proof -
  consider "length val > length key" | "length val = length key" | "length val < length key" by linarith
  then show ?thesis
  proof cases
    case 1
    have m: "min (length output) (p + length key) = p + length key" using assms by simp
    from 1 have "drop (p + length val) (take (p + length key) output
        @ replicate (length val - length key) (CHR '' '') @ drop (p + length key) output)
        = drop (p + length key) output"
      by (simp add: m)
    moreover have "take p (take (p + length key) output @ s) = take p output" for s
      by (simp add: m)
    ultimately show ?thesis using 1 by (simp add: expand_step_def Let_def m)
  next
    case 3
    have "p \<le> length output" using assms by simp
    then show ?thesis using 3
      by (simp add: expand_step_def Let_def add.commute add.left_commute)
  qed (simp add: expand_step_def Let_def)
qed

lemma find_sub_bound: "find_sub pat xs = Some p \<Longrightarrow> p + length pat \<le> length xs"
proof -
  assume "find_sub pat xs = Some p"
  then have "p \<le> length xs" "prefix pat (drop p xs)" using find_sub_SomeD by blast+
  then show ?thesis using prefix_length_le by fastforce
qed

text \<open>
  A variable whose name has a character that its value does not have is
  expanded in finitely many turns: each removes an occurrence of it.
\<close>

lemma expand_variable_terminates:
  assumes "c \<in> set key" "c \<notin> set val"
  shows "\<exists>r. expand_variable key val s = Some r \<and> \<not> sublist key r"
proof (induction "length (filter ((=) c) s)" arbitrary: s rule: less_induct)
  case less
  show ?case
  proof (cases "find_sub key s")
    case None
    then have "\<not> sublist key s" by (simp add: find_sub_None)
    then show ?thesis by (subst expand_variable.simps) (simp add: None)
  next
    case (Some p)
    have b: "p + length key \<le> length s" using find_sub_bound [OF Some] .
    have "prefix key (drop p s)" using find_sub_SomeD [OF Some] by simp
    then have s: "s = take p s @ key @ drop (p + length key) s"
      by (metis add.commute append_eq_conv_conj append_take_drop_id drop_drop prefix_def)
    have "filter ((=) c) val = []" using assms(2) by (auto simp: filter_empty_conv)
    moreover have "filter ((=) c) key \<noteq> []" using assms(1) by (auto simp: filter_empty_conv)
    moreover have "length (filter ((=) c) s) = length (filter ((=) c) (take p s))
        + length (filter ((=) c) key) + length (filter ((=) c) (drop (p + length key) s))"
      by (subst s) (simp del: append_take_drop_id)
    ultimately have "length (filter ((=) c) (expand_step key val s p)) < length (filter ((=) c) s)"
      by (simp add: expand_step_replaces [OF b])
    from less [OF this] show ?thesis
      by (subst expand_variable.simps) (simp add: Some)
  qed
qed

text \<open>
  Expansion of configuration variables returns, whatever the input, when each name has a character
  (such as the dollar sign) that occurs in no value.
\<close>

theorem expand_variables_terminates:
  assumes "\<forall>(key, val) \<in> set vars. c \<in> set key \<and> c \<notin> set val"
  shows "\<exists>r. nd_expand_variables s vars = Some r"
  using assms
proof (induction vars arbitrary: s)
  case (Cons kv vars)
  obtain key val where kv: "kv = (key, val)" by (cases kv)
  with Cons.prems have "c \<in> set key" "c \<notin> set val" by auto
  with expand_variable_terminates [of c key val s] obtain r where "expand_variable key val s = Some r"
    by blast
  then show ?case using Cons by (simp add: kv)
qed simp

theorem expand_variables_terminates_witness:
  "\<exists>r. nd_expand_variables ''${path_state_persistent}/plugins.d''
     [(''${path_state_persistent}'', ''/etc/netify.d''), (''${path_state_volatile}'', ''/run/netifyd'')] = Some r"
  by (rule expand_variables_terminates [of _ "CHR ''$''"]) simp

section \<open>Agent identifiers\<close>

definition uuid_clist :: string where
  "uuid_clist = ''0123456789abcdefghijklmnpqrstuvwxyz''"

fun uuid_digits :: "nat \<Rightarrow> string \<Rightarrow> string" where
  "uuid_digits input result =
     (if input = 0 then result
      else uuid_digits (input div 35) (toupper (uuid_clist ! (input mod 35)) # result))"

declare uuid_digits.simps [simp del]

fun uuid_emit :: "nat \<Rightarrow> string \<Rightarrow> string" where
  "uuid_emit digit [] = []"
| "uuid_emit digit (c # result) =
     (if digit < 8
      then c # (if digit = 1 \<or> digit = 3 \<or> digit = 5 then ''-'' else '''') @ uuid_emit (Suc digit) result
      else [])"

text \<open>The two arguments are the values of the two \<open>rand()\<close> calls.\<close>

definition nd_generate_uuid :: "nat \<Rightarrow> nat \<Rightarrow> string" where
  "nd_generate_uuid rand1 rand2 =
     (let input = (rand1 + rand2 * 2 ^ 32) mod 2 ^ 64;
          result = uuid_digits input [];
          result = result @ replicate (8 - length result) (CHR ''0'')
      in uuid_emit 0 result)"

definition uuid_char :: "char \<Rightarrow> bool" where
  "uuid_char c \<longleftrightarrow> isdigit c \<or> isupper c"

lemma uuid_clist_all: "list_all (\<lambda>i. uuid_char (toupper (uuid_clist ! i))) [0..<35]"
  by (simp add: upt_rec uuid_clist_def uuid_char_def toupper_def islower_def isdigit_def isupper_def)

lemma uuid_digits_chars:
  "\<forall>c \<in> set result. uuid_char c \<Longrightarrow> c \<in> set (uuid_digits n result) \<Longrightarrow> uuid_char c"
proof (induction n result rule: uuid_digits.induct)
  case (1 n result)
  have "uuid_char (toupper (uuid_clist ! (n mod 35)))"
    using bspec [OF uuid_clist_all [unfolded list_all_iff], of "n mod 35"] by simp
  then show ?case using 1 by (subst (asm) uuid_digits.simps) (auto split: if_splits)
qed

lemma uuid_emit_done [simp]: "8 \<le> d \<Longrightarrow> uuid_emit d r = []"
  by (cases r) auto

lemma length_8_split:
  assumes "8 \<le> length xs"
  obtains a b c d e f g h r where "xs = [a, b, c, d, e, f, g, h] @ r"
proof -
  have "\<exists>a b c d e f g h. ys = [a, b, c, d, e, f, g, h]" if "length ys = 8" for ys :: "'a list"
    using that by (auto simp: numeral_eq_Suc length_Suc_conv)
  moreover have "length (take 8 xs) = 8" using assms by simp
  ultimately obtain a b c d e f g h where "take 8 xs = [a, b, c, d, e, f, g, h]" by metis
  then show thesis using that [of a b c d e f g h "drop 8 xs"] by (metis append_take_drop_id)
qed

text \<open>
  A generated agent UUID always has the form \<open>XX-XX-XX-XX\<close> with \<open>X\<close> a digit or upper-case
  letter, eleven characters (\<open>ND_AGENT_UUID_LEN\<close>), whatever the random numbers are.
\<close>

theorem generate_uuid_format:
  "\<exists>a b c d e f g h. nd_generate_uuid r1 r2 = [a, b, CHR ''-'', c, d, CHR ''-'', e, f, CHR ''-'', g, h]
     \<and> list_all uuid_char [a, b, c, d, e, f, g, h]"
proof -
  define ds where "ds = uuid_digits ((r1 + r2 * 2 ^ 32) mod 2 ^ 64) []"
  define xs where "xs = ds @ replicate (8 - length ds) (CHR ''0'')"
  have "8 \<le> length xs" by (simp add: xs_def)
  then obtain a b c d e f g h r where xs: "xs = [a, b, c, d, e, f, g, h] @ r" by (rule length_8_split)
  have "uuid_char CHR ''0''" by (simp add: uuid_char_def isdigit_def)
  moreover have "\<forall>c \<in> set ds. uuid_char c"
    unfolding ds_def using uuid_digits_chars [of "[]"] by auto
  ultimately have "\<forall>c \<in> set xs. uuid_char c" by (auto simp: xs_def)
  moreover have "nd_generate_uuid r1 r2 = uuid_emit 0 xs"
    by (simp add: nd_generate_uuid_def Let_def xs_def ds_def)
  ultimately show ?thesis by (simp add: xs)
qed


text \<open>Files. A node is a regular file, with its owner-execute bit and contents, or something else.\<close>

datatype fnode = RegFile (fn_exec: bool) (fn_data: string) | NotRegular

type_synonym file_system = "string \<Rightarrow> fnode option"

definition c_str :: "string \<Rightarrow> string" where
  "c_str buf = takeWhile (\<lambda>c. c \<noteq> CHR 0x00) buf"

text \<open>
  \<open>nd_load_uuid\<close>: the identifier, or \<open>None\<close> where the code returns false. The
  argument \<open>pipe\<close> is what running an executable file prints and its exit status.
\<close>

definition nd_load_uuid ::
  "file_system \<Rightarrow> (string \<Rightarrow> (string \<times> int) option) \<Rightarrow> string \<Rightarrow> nat \<Rightarrow> string option" where
  "nd_load_uuid fs pipe path len =
     (case fs path of
        None \<Rightarrow> None
      | Some NotRegular \<Rightarrow> None
      | Some (RegFile x contents) \<Rightarrow>
          if x then
            (case pipe path of None \<Rightarrow> None
             | Some (out, rc) \<Rightarrow>
                 let buf = take len out; bytes = length buf
                 in if bytes = 0 \<or> rc \<noteq> 0 then None
                    else Some (nd_rtrim (CHR 0x00) (c_str (take (bytes - 1) buf))))
          else
            (let buf = take len contents
             in if length buf \<noteq> len then None
                else Some (nd_rtrim (CHR 0x00) (c_str buf))))"

text \<open>
  \<open>nd_save_uuid\<close> writes \<open>length\<close> bytes of the C string; a length beyond the
  string and its terminator reads out of bounds (\<open>None\<close>). \<open>writable\<close> tells
  whether \<open>fopen\<close> succeeds.
\<close>

definition nd_save_uuid ::
  "file_system \<Rightarrow> (string \<Rightarrow> bool) \<Rightarrow> string \<Rightarrow> string \<Rightarrow> nat \<Rightarrow> (bool \<times> file_system) option" where
  "nd_save_uuid fs writable uuid path len =
     (if \<not> writable path then Some (False, fs)
      else if length uuid + 1 < len then None
      else Some (True, fs (path \<mapsto> RegFile (case fs path of Some (RegFile x _) \<Rightarrow> x | _ \<Rightarrow> False)
             (take len (uuid @ [CHR 0x00])))))"

lemma c_str_id: "CHR 0x00 \<notin> set s \<Longrightarrow> c_str s = s"
  by (auto simp: c_str_def takeWhile_eq_all_conv)

text \<open>
  A generated UUID saved to a plain file is loaded back unchanged.
\<close>

theorem uuid_save_load:
  assumes "writable path" "\<forall>c. fs path = Some (RegFile True c) \<longrightarrow> False"
    and "uuid = nd_generate_uuid r1 r2" "nd_save_uuid fs writable uuid path 11 = Some (ok, fs')"
  shows "ok \<and> nd_load_uuid fs' pipe path 11 = Some uuid"
proof -
  obtain a b c d e f g h where u: "uuid = [a, b, CHR ''-'', c, d, CHR ''-'', e, f, CHR ''-'', g, h]"
    and ch: "list_all uuid_char [a, b, c, d, e, f, g, h]"
    using generate_uuid_format [of r1 r2] assms(3) by blast
  have nz: "\<not> isspace x \<and> x \<noteq> CHR 0x00" if "uuid_char x" for x
    using that by (auto simp: uuid_char_def isspace_def isdigit_def isupper_def)
  have "CHR 0x00 \<notin> set uuid" using ch nz by (auto simp: u)
  moreover have "nd_rtrim (CHR 0x00) uuid = uuid"
    using ch nz by (intro nd_rtrim_id) (auto simp: u trim_char_def)
  moreover have "length uuid = 11" by (simp add: u)
  moreover have "(case fs path of Some (RegFile x _) \<Rightarrow> x | _ \<Rightarrow> False) = False"
    using assms(2) by (auto split: option.split fnode.split)
  ultimately show ?thesis
    using assms(1,4) by (auto simp: nd_save_uuid_def nd_load_uuid_def Let_def c_str_id)
qed

theorem uuid_save_load_witness:
  "let fs = Map.empty; uuid = nd_generate_uuid 1804289383 846930886 in
   \<exists>fs'. nd_save_uuid fs (\<lambda>_. True) uuid ''/etc/netify.d/agent.uuid'' 11 = Some (True, fs')
     \<and> nd_load_uuid fs' (\<lambda>_. None) ''/etc/netify.d/agent.uuid'' 11 = Some uuid"
proof -
  define uuid where "uuid = nd_generate_uuid 1804289383 846930886"
  define fs' :: file_system where
    "fs' = Map.empty (''/etc/netify.d/agent.uuid'' \<mapsto> RegFile False (take 11 (uuid @ [CHR 0x00])))"
  have "length uuid = 11" using generate_uuid_format [of 1804289383 846930886] by (auto simp: uuid_def)
  then have s: "nd_save_uuid Map.empty (\<lambda>_. True) uuid ''/etc/netify.d/agent.uuid'' 11 = Some (True, fs')"
    by (simp add: nd_save_uuid_def fs'_def)
  have "True \<and> nd_load_uuid fs' (\<lambda>_. None) ''/etc/netify.d/agent.uuid'' 11 = Some uuid"
    by (rule uuid_save_load [OF _ _ uuid_def s]) auto
  then show ?thesis using s by (auto simp: Let_def uuid_def)
qed

text \<open>
  A UUID printed by an executable file loses its last character: the code
  terminates the buffer one byte early, which only fits output that ends in a
  newline within the length read.
\<close>

lemma load_uuid_pipe_truncates:
  assumes "fs path = Some (RegFile True prog)" "pipe path = Some (uuid @ rest, 0)" "length uuid = n" "0 < n"
    and "CHR 0x00 \<notin> set uuid"
  shows "nd_load_uuid fs pipe path n = Some (nd_rtrim (CHR 0x00) (butlast uuid))"
proof -
  have "take (n - 1) uuid = butlast uuid" using assms(3) by (simp add: butlast_conv_take)
  moreover have "c_str (butlast uuid) = butlast uuid"
    using assms(5) by (intro c_str_id) (auto dest: in_set_butlastD)
  ultimately show ?thesis using assms by (auto simp: nd_load_uuid_def Let_def)
qed

section \<open>Process identifier files\<close>

text \<open>
  \<open>nd_load_pid\<close>: -1 when the file cannot be opened or is empty, 0 when it does
  not exist, else the number at the start of its first line; \<open>strtol\<close> is
  given by its value on that line.
\<close>

fun fgets :: "nat \<Rightarrow> string \<Rightarrow> string" where
  "fgets 0 s = []"
| "fgets (Suc k) [] = []"
| "fgets (Suc k) (c # s) = (if c = CHR 0x0A then [c] else c # fgets k s)"

definition nd_load_pid :: "file_system \<Rightarrow> (string \<Rightarrow> int) \<Rightarrow> string \<Rightarrow> int" where
  "nd_load_pid fs strtol pidfile =
     (case fs pidfile of
        None \<Rightarrow> 0
      | Some NotRegular \<Rightarrow> -1
      | Some (RegFile _ contents) \<Rightarrow>
          (let buf = fgets 31 contents in if buf = [] then -1 else strtol buf))"

definition nd_save_pid :: "file_system \<Rightarrow> (string \<Rightarrow> bool) \<Rightarrow> string \<Rightarrow> int \<Rightarrow> int \<times> file_system" where
  "nd_save_pid fs writable pidfile pid =
     (if \<not> writable pidfile then (-1, fs)
      else (0, fs (pidfile \<mapsto> RegFile (case fs pidfile of Some (RegFile x _) \<Rightarrow> x | _ \<Rightarrow> False)
             (int_to_string pid @ [CHR 0x0A]))))"

section \<open>Log directories\<close>

text \<open>
  \<open>hf_cur\<close> is whether a stream is open; \<open>stamp\<close> is the formatted local time.
  \<open>fopen\<close> truncates the hidden file, \<open>rename\<close> replaces the visible one.
\<close>

record log_directory =
  ld_path :: string
  ld_prefix :: string
  ld_suffix :: string
  ld_overwrite :: bool
  ld_hf_cur :: bool
  ld_filename :: string

type_synonym log_files = "string \<Rightarrow> string option"

definition ld_hidden :: "log_directory \<Rightarrow> string" where
  "ld_hidden d = ld_path d @ ''/.'' @ ld_filename d"

definition ld_visible :: "log_directory \<Rightarrow> string" where
  "ld_visible d = ld_path d @ ''/'' @ ld_filename d"

definition log_open ::
  "log_directory \<Rightarrow> log_files \<Rightarrow> (string \<Rightarrow> bool) \<Rightarrow> string \<Rightarrow> string \<Rightarrow> bool \<times> log_directory \<times> log_files" where
  "log_open d fs can_open stamp ext =
     (if ld_hf_cur d then (False, d, fs)
      else let d = d\<lparr>ld_filename := ld_prefix d @ (if ld_overwrite d then [] else stamp) @ ld_suffix d @ ext\<rparr>
           in if can_open (ld_hidden d)
              then (True, d\<lparr>ld_hf_cur := True\<rparr>, fs (ld_hidden d \<mapsto> []))
              else (False, d, fs))"

definition log_write :: "log_directory \<Rightarrow> log_files \<Rightarrow> string \<Rightarrow> log_files" where
  "log_write d fs data = (if ld_hf_cur d
     then fs (ld_hidden d := map_option (\<lambda>old. old @ data) (fs (ld_hidden d))) else fs)"

definition log_close :: "log_directory \<Rightarrow> log_files \<Rightarrow> log_directory \<times> log_files" where
  "log_close d fs =
     (if ld_hf_cur d then
        (let src = ld_hidden d; dst = ld_visible d;
             fs = (if ld_overwrite d then fs (dst := None) else fs);
             fs = (case fs src of None \<Rightarrow> fs | Some data \<Rightarrow> fs (src := None, dst := Some data))
         in (d\<lparr>ld_hf_cur := False\<rparr>, fs))
      else (d, fs))"

definition log_discard :: "log_directory \<Rightarrow> log_files \<Rightarrow> log_directory \<times> log_files" where
  "log_discard d fs =
     (if ld_hf_cur d then (d\<lparr>ld_hf_cur := False\<rparr>, fs (ld_hidden d := None)) else (d, fs))"

lemma ld_hidden_visible: "ld_hidden d \<noteq> ld_visible d"
proof
  assume "ld_hidden d = ld_visible d"
  then have "length (ld_hidden d) = length (ld_visible d)" by simp
  then show False by (simp add: ld_hidden_def ld_visible_def)
qed

text \<open>
  A log file appears under its visible name only when it is closed, then with exactly what was
  written, and a discarded one leaves the directory without the hidden file and with every visible
  file as it was.
\<close>

theorem log_directory_publishes:
  assumes "log_open d fs can_open stamp ext = (True, d', fs')"
  shows "fs' (ld_visible d') = fs (ld_visible d')
    \<and> log_write d' fs' data (ld_visible d') = fs (ld_visible d')
    \<and> snd (log_close d' (log_write d' fs' data)) =
         fs (ld_hidden d' := None, ld_visible d' := Some data)
    \<and> snd (log_discard d' (log_write d' fs' data)) = fs (ld_hidden d' := None)"
proof -
  have o: "ld_hf_cur d'" "fs' = fs (ld_hidden d' \<mapsto> [])"
    using assms by (auto simp: log_open_def Let_def ld_hidden_def split: if_splits)
  have "fs' (ld_visible d') = fs (ld_visible d')"
    and "log_write d' fs' data (ld_visible d') = fs (ld_visible d')"
    using o ld_hidden_visible [of d'] by (auto simp: log_write_def)
  moreover have "snd (log_close d' (log_write d' fs' data)) =
         fs (ld_hidden d' := None, ld_visible d' := Some data)"
    using o ld_hidden_visible [of d'] by (auto simp: log_write_def log_close_def Let_def fun_eq_iff)
  moreover have "snd (log_discard d' (log_write d' fs' data)) = fs (ld_hidden d' := None)"
    using o by (simp add: log_write_def log_discard_def)
  ultimately show ?thesis by simp
qed

theorem log_directory_publishes_witness:
  "let d = \<lparr>ld_path = ''/var/log'', ld_prefix = ''flow-'', ld_suffix = ''.json'', ld_overwrite = True,
            ld_hf_cur = False, ld_filename = []\<rparr>;
       (ok, d', fs') = log_open d Map.empty (\<lambda>_. True) ''20240101-000000'' []
   in ok \<and> snd (log_close d' (log_write d' fs' ''{}'')) (''/var/log/flow-.json'') = Some ''{}''"
proof -
  define d where "d = \<lparr>ld_path = ''/var/log'', ld_prefix = ''flow-'', ld_suffix = ''.json'', ld_overwrite = True,
            ld_hf_cur = False, ld_filename = []\<rparr>"
  obtain d' fs' where o: "log_open d Map.empty (\<lambda>_. True) ''20240101-000000'' [] = (True, d', fs')"
    by (simp add: log_open_def d_def Let_def)
  have v: "ld_visible d' = ''/var/log/flow-.json''"
    using o by (auto simp: log_open_def d_def Let_def ld_visible_def)
  show ?thesis
    using log_directory_publishes [OF o, of "''{}''"] by (simp add: d_def [symmetric] o v Let_def)
qed

section \<open>Timers\<close>

datatype sys_error = EEXIST_timer | EINVAL_timer | Errno int

record nd_timer =
  tm_sig :: int
  tm_valid :: bool
  tm_id :: "nat option"

definition timer_new :: nd_timer where
  "timer_new = \<lparr>tm_sig = -1, tm_valid = False, tm_id = None\<rparr>"

text \<open>The signal is stored before the validity check, so a rejected call has replaced it.\<close>

definition timer_Create :: "nd_timer \<Rightarrow> int \<Rightarrow> (int + nat) \<Rightarrow> sys_error option \<times> nd_timer" where
  "timer_Create t sig timer_create =
     (let t = t\<lparr>tm_sig := sig\<rparr>
      in if tm_valid t then (Some EEXIST_timer, t)
         else (case timer_create of Inl e \<Rightarrow> (Some (Errno e), t)
               | Inr i \<Rightarrow> (None, t\<lparr>tm_id := Some i, tm_valid := True\<rparr>)))"

definition timer_Reset :: "nd_timer \<Rightarrow> nd_timer" where
  "timer_Reset t = (if tm_valid t then t\<lparr>tm_valid := False\<rparr> else t)"

definition timer_Set :: "nd_timer \<Rightarrow> int option \<Rightarrow> sys_error option" where
  "timer_Set t timer_settime =
     (if \<not> tm_valid t then Some EINVAL_timer
      else (case timer_settime of Some e \<Rightarrow> Some (Errno e) | None \<Rightarrow> None))"

definition timer_ok :: "nd_timer \<Rightarrow> bool" where
  "timer_ok t \<longleftrightarrow> (tm_valid t \<longrightarrow> tm_id t \<noteq> None)"

lemma timer_ok_ops [nd_inv]:
  "timer_ok timer_new"
  "timer_ok t \<Longrightarrow> timer_ok (snd (timer_Create t sig r))"
  "timer_ok t \<Longrightarrow> timer_ok (timer_Reset t)"
  by (auto simp: timer_ok_def timer_new_def timer_Create_def timer_Reset_def Let_def split: sum.split)

section \<open>Protocol names\<close>

definition pick_protocol_name :: "(int \<Rightarrow> (string list \<times> string) option) \<Rightarrow> int \<Rightarrow> string option" where
  "pick_protocol_name getproto protocol =
     (case getproto protocol of None \<Rightarrow> None
      | Some (aliases, name) \<Rightarrow> Some (case aliases of a # _ \<Rightarrow> a | [] \<Rightarrow> map toupper name))"

definition nd_get_ip_protocol_name ::
  "(int \<Rightarrow> (string list \<times> string) option) \<Rightarrow> (int \<Rightarrow> string option) \<Rightarrow> int
   \<Rightarrow> string \<times> (int \<Rightarrow> string option)" where
  "nd_get_ip_protocol_name getproto cache protocol =
     (case cache protocol of Some r \<Rightarrow> (r, cache)
      | None \<Rightarrow> (case pick_protocol_name getproto protocol of
           None \<Rightarrow> (int_to_string protocol, cache)
         | Some r \<Rightarrow> (r, cache (protocol \<mapsto> r))))"

fun protocol_names ::
  "(int \<Rightarrow> (string list \<times> string) option) \<Rightarrow> (int \<Rightarrow> string option) \<Rightarrow> int list \<Rightarrow> string list" where
  "protocol_names getproto cache [] = []"
| "protocol_names getproto cache (p # ps) =
     (let (r, cache') = nd_get_ip_protocol_name getproto cache p
      in r # protocol_names getproto cache' ps)"

lemma protocol_name_coherent:
  assumes "cache \<subseteq>\<^sub>m pick_protocol_name getproto"
  shows "fst (nd_get_ip_protocol_name getproto cache p) =
           (case pick_protocol_name getproto p of None \<Rightarrow> int_to_string p | Some r \<Rightarrow> r)"
    and "snd (nd_get_ip_protocol_name getproto cache p) \<subseteq>\<^sub>m pick_protocol_name getproto"
proof -
  have "cache p = None \<or> cache p = pick_protocol_name getproto p"
    using assms by (auto simp: map_le_def dom_def)
  then show "fst (nd_get_ip_protocol_name getproto cache p) =
           (case pick_protocol_name getproto p of None \<Rightarrow> int_to_string p | Some r \<Rightarrow> r)"
    by (auto simp: nd_get_ip_protocol_name_def split: option.splits)
  show "snd (nd_get_ip_protocol_name getproto cache p) \<subseteq>\<^sub>m pick_protocol_name getproto"
    using assms by (auto simp: nd_get_ip_protocol_name_def map_le_def split: option.splits)
qed

text \<open>
  The cache of protocol names is transparent: from an empty cache, every call of a sequence
  returns the name the protocol database gives, or the number when it has none.
\<close>

theorem protocol_names_transparent:
  "protocol_names getproto Map.empty ps =
     map (\<lambda>p. case pick_protocol_name getproto p of None \<Rightarrow> int_to_string p | Some r \<Rightarrow> r) ps"
proof -
  have "protocol_names getproto cache ps =
     map (\<lambda>p. case pick_protocol_name getproto p of None \<Rightarrow> int_to_string p | Some r \<Rightarrow> r) ps"
    if "cache \<subseteq>\<^sub>m pick_protocol_name getproto" for cache
    using that
  proof (induction ps arbitrary: cache)
    case (Cons p ps)
    then show ?case using protocol_name_coherent [OF Cons.prems, of p]
      by (simp add: case_prod_unfold Let_def)
  qed simp
  then show ?thesis by simp
qed

section \<open>Directory scans\<close>

text \<open>The results appended and the error code (\<open>ENOMEM\<close>, \<open>ENOENT\<close>, \<open>EINVAL\<close>).\<close>

definition nd_glob :: "(string \<Rightarrow> int \<times> string list) \<Rightarrow> string \<Rightarrow> string list \<Rightarrow> int \<times> string list" where
  "nd_glob glob pattern results =
     (let (rc, paths) = glob pattern;
          results = (if rc = 0 then results @ paths else results @ [pattern])
      in (if rc = 0 then 0 else if rc = 1 then 12 else if rc = 3 then 2 else 22, results))"

datatype d_type = DT_LNK | DT_REG | DT_UNKNOWN | DT_OTHER

fun scan_dotd_entry :: "d_type \<times> string \<Rightarrow> bool" where
  "scan_dotd_entry (t, name) =
     (t \<noteq> DT_OTHER \<and> (case name of [] \<Rightarrow> False | c # _ \<Rightarrow> isdigit c) \<and>
      (case find_last (\<lambda>c. c = CHR ''.'') name of None \<Rightarrow> False | Some p \<Rightarrow> drop (Suc p) name = ''conf''))"

definition nd_scan_dotd :: "(d_type \<times> string) list option \<Rightarrow> string list \<Rightarrow> bool \<times> string list" where
  "nd_scan_dotd dir files =
     (case dir of None \<Rightarrow> (False, files)
      | Some entries \<Rightarrow> (let files = map snd (filter scan_dotd_entry entries) in (files \<noteq> [], files)))"

section \<open>Addresses as text\<close>

datatype sa_family = AF_UNSPEC | AF_INET | AF_INET6 | AF_PACKET | AF_OTHER nat

type_synonym inet_pton = "sa_family \<Rightarrow> string \<Rightarrow> bytes option"
type_synonym inet_ntop = "sa_family \<Rightarrow> bytes \<Rightarrow> string"

definition nd_string_to_ip :: "inet_pton \<Rightarrow> string \<Rightarrow> sa_family \<times> bytes" where
  "nd_string_to_ip pton src =
     (case pton AF_INET src of Some a \<Rightarrow> (AF_INET, a)
      | None \<Rightarrow> (case pton AF_INET6 src of Some a \<Rightarrow> (AF_INET6, a) | None \<Rightarrow> (AF_UNSPEC, [])))"

definition nd_ip_to_string :: "inet_ntop \<Rightarrow> sa_family \<Rightarrow> bytes \<Rightarrow> string option" where
  "nd_ip_to_string ntop af addr =
     (case af of AF_INET \<Rightarrow> Some (ntop AF_INET addr) | AF_INET6 \<Rightarrow> Some (ntop AF_INET6 addr) | _ \<Rightarrow> None)"

definition nd_is_ipaddr :: "inet_pton \<Rightarrow> string \<Rightarrow> bool" where
  "nd_is_ipaddr pton ip = (pton AF_INET ip \<noteq> None \<or> pton AF_INET6 ip \<noteq> None)"

lemma nd_is_ipaddr_iff: "nd_is_ipaddr pton ip \<longleftrightarrow> fst (nd_string_to_ip pton ip) \<noteq> AF_UNSPEC"
  by (auto simp: nd_is_ipaddr_def nd_string_to_ip_def split: option.split)

end
