(* ===== verification/NdRadix.thy ===== *)
theory NdRadix
  imports NdPrelude
begin

text \<open>
  The radix tree of \<open>src/include/radix/radix_tree.hpp\<close>, a template over a key
  type. The operations the template calls on a key (\<open>radix_length\<close>,
  \<open>radix_substr\<close>, \<open>radix_join\<close>, indexing, the order) are a record, and what the
  tree relies on is the locale \<open>radix_key\<close>. A node is a leaf with its stored
  pair or an inner node with its \<open>std::map\<close> of children in key order. The
  parent pointers are paths of child keys from the root, and \<open>m_depth\<close> is the
  total length of a path.
\<close>

record 'k radix_ops =
  rx_length :: "'k \<Rightarrow> int"
  rx_substr :: "'k \<Rightarrow> int \<Rightarrow> int \<Rightarrow> 'k"
  rx_join :: "'k \<Rightarrow> 'k \<Rightarrow> 'k"
  rx_at :: "'k \<Rightarrow> int \<Rightarrow> bool"
  rx_less :: "'k \<Rightarrow> 'k \<Rightarrow> bool"

datatype ('k, 'v) rnode = RLeaf 'k 'v | RNode "('k \<times> ('k, 'v) rnode) list"

record ('k, 'v) radix_tree =
  rt_size :: nat
  rt_root :: "('k, 'v) rnode option"

definition rt_empty :: "('k, 'v) radix_tree" where
  "rt_empty = \<lparr>rt_size = 0, rt_root = None\<rparr>"

fun is_leaf :: "('k, 'v) rnode \<Rightarrow> bool" where
  "is_leaf (RLeaf _ _) = True"
| "is_leaf (RNode _) = False"

fun children :: "('k, 'v) rnode \<Rightarrow> ('k \<times> ('k, 'v) rnode) list" where
  "children (RLeaf _ _) = []"
| "children (RNode cs) = cs"

section \<open>The map of children\<close>

fun child_insert :: "'k radix_ops \<Rightarrow> 'k \<Rightarrow> 'c \<Rightarrow> ('k \<times> 'c) list \<Rightarrow> ('k \<times> 'c) list" where
  "child_insert R k c [] = [(k, c)]"
| "child_insert R k c ((k', c') # cs) =
     (if rx_less R k k' then (k, c) # (k', c') # cs else (k', c') # child_insert R k c cs)"

text \<open>\<open>m_children[k] = c\<close> and \<open>m_children.erase(k)\<close>.\<close>

definition child_set :: "'k radix_ops \<Rightarrow> 'k \<Rightarrow> 'c \<Rightarrow> ('k \<times> 'c) list \<Rightarrow> ('k \<times> 'c) list" where
  "child_set R k c cs = (if k \<in> set (map fst cs) then al_update k c cs else child_insert R k c cs)"

definition child_erase :: "'k \<Rightarrow> ('k \<times> 'c) list \<Rightarrow> ('k \<times> 'c) list" where
  "child_erase k cs = al_delete k cs"

section \<open>Nodes by path\<close>

fun subtree :: "('k, 'v) rnode \<Rightarrow> 'k list \<Rightarrow> ('k, 'v) rnode option" where
  "subtree t [] = Some t"
| "subtree (RNode cs) (k # p) = (case map_of cs k of None \<Rightarrow> None | Some c \<Rightarrow> subtree c p)"
| "subtree (RLeaf _ _) (k # p) = None"

fun modify_at ::
  "'k list \<Rightarrow> (('k \<times> ('k, 'v) rnode) list \<Rightarrow> ('k \<times> ('k, 'v) rnode) list) \<Rightarrow> ('k, 'v) rnode \<Rightarrow> ('k, 'v) rnode" where
  "modify_at [] f (RNode cs) = RNode (f cs)"
| "modify_at (k # p) f (RNode cs) =
     RNode (map (\<lambda>(k', c). (k', if k' = k then modify_at p f c else c)) cs)"
| "modify_at _ f (RLeaf k v) = RLeaf k v"

definition path_depth :: "'k radix_ops \<Rightarrow> 'k list \<Rightarrow> int" where
  "path_depth R p = sum_list (map (rx_length R) p)"

definition rx_nul :: "'k radix_ops \<Rightarrow> 'k \<Rightarrow> 'k" where
  "rx_nul R key = rx_substr R key 0 0"

section \<open>Search\<close>

lemma size_children:
  "(\<Sum>p\<leftarrow>cs. Suc (size (snd p))) \<le> size_list (size_prod (\<lambda>x. 0) size) cs"
  by (induction cs) auto

text \<open>\<open>find_node\<close>: the path of the node it returns, below a node at the given depth.\<close>

function find_path :: "'k radix_ops \<Rightarrow> 'k \<Rightarrow> int \<Rightarrow> ('k, 'v) rnode \<Rightarrow> 'k list"
  and find_in :: "'k radix_ops \<Rightarrow> 'k \<Rightarrow> int \<Rightarrow> ('k \<times> ('k, 'v) rnode) list \<Rightarrow> 'k list" where
  "find_path R key depth (RLeaf k v) = []"
| "find_path R key depth (RNode cs) = find_in R key depth cs"
| "find_in R key depth [] = []"
| "find_in R key depth ((k, c) # cs) =
     (let len_key = rx_length R key - depth in
      if len_key = 0 then (if is_leaf c then [k] else find_in R key depth cs)
      else if \<not> is_leaf c \<and> rx_at R key depth = rx_at R k 0 then
        (let len_node = rx_length R k
         in if rx_substr R key depth len_node = k
            then k # find_path R key (depth + len_node) c
            else [k])
      else find_in R key depth cs)"
  by pat_completeness auto
termination
  by (relation "measure (\<lambda>x. case x of Inl (_, _, _, t) \<Rightarrow> size t
        | Inr (_, _, _, cs) \<Rightarrow> (\<Sum>p\<leftarrow>cs. Suc (size (snd p))))")
     (auto simp: less_Suc_eq_le size_children)

definition rt_find :: "'k radix_ops \<Rightarrow> ('k, 'v) radix_tree \<Rightarrow> 'k \<Rightarrow> ('k \<times> 'v) option" where
  "rt_find R T key =
     (case rt_root T of None \<Rightarrow> None
      | Some root \<Rightarrow> (case subtree root (find_path R key 0 root) of
            Some (RLeaf k v) \<Rightarrow> Some (k, v) | _ \<Rightarrow> None))"

text \<open>The leaf below the node at a path, the path given in reverse; then up to the root.\<close>

fun nul_leaf :: "'k \<Rightarrow> ('k, 'v) rnode option \<Rightarrow> ('k \<times> 'v) option" where
  "nul_leaf nul (Some (RNode cs)) = (case map_of cs nul of Some (RLeaf k v) \<Rightarrow> Some (k, v) | _ \<Rightarrow> None)"
| "nul_leaf nul _ = None"

fun walk_up :: "'k \<Rightarrow> ('k, 'v) rnode \<Rightarrow> 'k list \<Rightarrow> ('k \<times> 'v) option" where
  "walk_up nul root [] = nul_leaf nul (Some root)"
| "walk_up nul root (k # rp) =
     (case nul_leaf nul (subtree root (rev (k # rp))) of
        Some r \<Rightarrow> Some r | None \<Rightarrow> walk_up nul root rp)"

definition longest_match :: "'k radix_ops \<Rightarrow> ('k, 'v) radix_tree \<Rightarrow> 'k \<Rightarrow> ('k \<times> 'v) option" where
  "longest_match R T key =
     (case rt_root T of None \<Rightarrow> None
      | Some root \<Rightarrow>
          (let p = find_path R key 0 root in
           case subtree root p of
             Some (RLeaf k v) \<Rightarrow> Some (k, v)
           | _ \<Rightarrow>
               (let p = (if p \<noteq> [] \<and>
                           rx_substr R key (path_depth R (butlast p)) (rx_length R (last p)) \<noteq> last p
                         then butlast p else p)
                in walk_up (rx_nul R key) root (rev p))))"

section \<open>Insertion\<close>

datatype radix_error = Overlapping_network

definition rt_append :: "'k radix_ops \<Rightarrow> 'k list \<Rightarrow> 'k \<Rightarrow> 'v \<Rightarrow> ('k, 'v) rnode \<Rightarrow> ('k, 'v) rnode" where
  "rt_append R parent key v root =
     (let depth = path_depth R parent; len = rx_length R key - depth; nul = rx_nul R key in
      if len = 0 then modify_at parent (child_set R nul (RLeaf key v)) root
      else modify_at parent
             (child_set R (rx_substr R key depth len) (RNode [(nul, RLeaf key v)])) root)"

definition match_count :: "'k radix_ops \<Rightarrow> 'k \<Rightarrow> 'k \<Rightarrow> int \<Rightarrow> int \<Rightarrow> int" where
  "match_count R k key depth len2 =
     int (length (takeWhile (\<lambda>i. rx_at R k (int i) = rx_at R key (int i + depth))
                    [0..<nat (min (rx_length R k) len2)]))"

text \<open>The node at \<open>q @ [k]\<close> moves below a new node for the common part of its key.\<close>

definition rt_prepend ::
  "'k radix_ops \<Rightarrow> 'k list \<Rightarrow> 'k \<Rightarrow> 'k \<Rightarrow> 'v \<Rightarrow> ('k, 'v) rnode \<Rightarrow> radix_error + ('k, 'v) rnode" where
  "rt_prepend R q k key v root =
     (let depth = path_depth R q; len1 = rx_length R k; len2 = rx_length R key - depth;
          count = match_count R k key depth len2; nul = rx_nul R key in
      if count = 0 then Inl Overlapping_network
      else case subtree root (q @ [k]) of None \<Rightarrow> Inr root
      | Some node \<Rightarrow>
        (let cs_a = child_set R (rx_substr R k count (len1 - count)) node [];
             cs_a = (if count = len2 then child_set R nul (RLeaf key v) cs_a
                     else child_set R (rx_substr R key (depth + count) (len2 - count))
                            (RNode [(nul, RLeaf key v)]) cs_a)
         in Inr (modify_at q (\<lambda>cs. child_set R (rx_substr R k 0 count) (RNode cs_a) (child_erase k cs)) root)))"

text \<open>
  \<open>insert\<close>: the tree afterwards (the size is counted before \<open>prepend\<close> may
  throw), and the exception or whether the pair was inserted.
\<close>

definition rt_insert ::
  "'k radix_ops \<Rightarrow> ('k, 'v) radix_tree \<Rightarrow> 'k \<Rightarrow> 'v \<Rightarrow> ('k, 'v) radix_tree \<times> (radix_error + bool)" where
  "rt_insert R T key v =
     (let root = (case rt_root T of None \<Rightarrow> RNode [] | Some r \<Rightarrow> r);
          T = T\<lparr>rt_root := Some root\<rparr>;
          p = find_path R key 0 root in
      case subtree root p of
        Some (RLeaf _ _) \<Rightarrow> (T, Inr False)
      | _ \<Rightarrow>
        (let T = T\<lparr>rt_size := rt_size T + 1\<rparr> in
         if p = [] then (T\<lparr>rt_root := Some (rt_append R [] key v root)\<rparr>, Inr True)
         else if rx_substr R key (path_depth R (butlast p)) (rx_length R (last p)) = last p
         then (T\<lparr>rt_root := Some (rt_append R p key v root)\<rparr>, Inr True)
         else case rt_prepend R (butlast p) (last p) key v root of
                Inl e \<Rightarrow> (T, Inl e)
              | Inr root \<Rightarrow> (T\<lparr>rt_root := Some root\<rparr>, Inr True)))"

fun set_leaf :: "'k list \<Rightarrow> 'v \<Rightarrow> ('k, 'v) rnode \<Rightarrow> ('k, 'v) rnode" where
  "set_leaf [] v (RLeaf k _) = RLeaf k v"
| "set_leaf [] v (RNode cs) = RNode cs"
| "set_leaf (k # p) v (RNode cs) = RNode (map (\<lambda>(k', c). (k', if k' = k then set_leaf p v c else c)) cs)"
| "set_leaf (k # p) v (RLeaf k' v') = RLeaf k' v'"

text \<open>\<open>tree[key] = v\<close>: \<open>operator[]\<close> inserts when \<open>find\<close> fails, then the value is assigned.\<close>

definition rt_assign ::
  "'k radix_ops \<Rightarrow> ('k, 'v) radix_tree \<Rightarrow> 'k \<Rightarrow> 'v \<Rightarrow> ('k, 'v) radix_tree \<times> radix_error option" where
  "rt_assign R T key v =
     (case rt_find R T key of
        Some _ \<Rightarrow> (case rt_root T of None \<Rightarrow> (T, None)
           | Some root \<Rightarrow> (T\<lparr>rt_root := Some (set_leaf (find_path R key 0 root) v root)\<rparr>, None))
      | None \<Rightarrow> (case rt_insert R T key v of
           (T, Inl e) \<Rightarrow> (T, Some e) | (T, Inr _) \<Rightarrow> (T, None)))"

section \<open>Removal\<close>

definition erase_merge :: "'k radix_ops \<Rightarrow> 'k list \<Rightarrow> ('k, 'v) rnode \<Rightarrow> ('k, 'v) rnode" where
  "erase_merge R g root =
     (if g = [] then root
      else case subtree root g of
        Some (RNode [(uk, uncle)]) \<Rightarrow>
          if is_leaf uncle then root
          else modify_at (butlast g)
                 (\<lambda>cs. child_set R (rx_join R (last g) uk) uncle (child_erase (last g) cs)) root
      | _ \<Rightarrow> root)"

definition rt_erase :: "'k radix_ops \<Rightarrow> ('k, 'v) radix_tree \<Rightarrow> 'k \<Rightarrow> ('k, 'v) radix_tree \<times> bool" where
  "rt_erase R T key =
     (case rt_root T of None \<Rightarrow> (T, False)
      | Some root \<Rightarrow>
        (let p = find_path R key 0 root in
         case subtree root p of
           Some (RLeaf _ _) \<Rightarrow>
             (let q = butlast p;
                  root1 = modify_at q (child_erase (rx_nul R key)) root;
                  cs = (case subtree root1 q of Some t \<Rightarrow> children t | None \<Rightarrow> []);
                  root2 = (if q = [] \<or> length cs > 1 then root1
                     else if cs = [] then
                       erase_merge R (butlast q) (modify_at (butlast q) (child_erase (last q)) root1)
                     else erase_merge R q root1)
              in (\<lparr>rt_size = rt_size T - 1, rt_root = Some root2\<rparr>, True))
         | _ \<Rightarrow> (T, False)))"

section \<open>Enumeration\<close>

text \<open>The leaves in the order of \<open>begin\<close> and \<open>operator++\<close>, and the subtree of a prefix.\<close>

fun greedy :: "('k, 'v) rnode \<Rightarrow> ('k \<times> 'v) list" where
  "greedy (RLeaf k v) = [(k, v)]"
| "greedy (RNode cs) = concat (map (\<lambda>p. greedy (snd p)) cs)"

definition rt_entries :: "('k, 'v) radix_tree \<Rightarrow> ('k \<times> 'v) list" where
  "rt_entries T = (case rt_root T of None \<Rightarrow> [] | Some root \<Rightarrow> if rt_size T = 0 then [] else greedy root)"

end
