(* ===== verification/NdRadixSpec.thy ===== *)
theory NdRadixSpec
  imports NdRadix
begin

text \<open>
  The contract of the radix tree: what it relies on of its keys (locale
  \<open>radix_key\<close>), the well-formedness of a tree, and the proof that under them
  \<open>find\<close>, \<open>insert\<close>, \<open>erase\<close> and \<open>longest_match\<close> implement a finite map from bit
  prefixes, with the side condition insertion needs.
\<close>

definition zext :: "nat \<Rightarrow> bool list \<Rightarrow> bool list" where
  "zext n bs = bs @ replicate (n - length bs) False"

text \<open>
  Path compression: an inner node below the root has children, and an only
  child is a leaf.
\<close>

fun compact :: "('k, 'v) rnode \<Rightarrow> bool" where
  "compact (RLeaf _ _) \<longleftrightarrow> True"
| "compact (RNode cs) \<longleftrightarrow> (case cs of [] \<Rightarrow> False | [x] \<Rightarrow> is_leaf (snd x) | _ \<Rightarrow> True)"

text \<open>
  Well-formedness below the bits \<open>pre\<close> of the path: child keys are distinct, exactly the leaves
  have the empty key, inner nodes below the root are compact, and the keys
  of two inner siblings differ in their first bit.
\<close>

fun rwf :: "('k \<Rightarrow> bool list) \<Rightarrow> ('k \<Rightarrow> bool) \<Rightarrow> bool list \<Rightarrow> ('k, 'v) rnode \<Rightarrow> bool" where
  "rwf bits ok pre (RLeaf k v) \<longleftrightarrow> ok k \<and> bits k = pre"
| "rwf bits ok pre (RNode cs) \<longleftrightarrow> distinct (map fst cs)
     \<and> (\<forall>p \<in> set cs. ok (fst p) \<and> is_leaf (snd p) = (bits (fst p) = [])
          \<and> compact (snd p) \<and> rwf bits ok (pre @ bits (fst p)) (snd p))
     \<and> (\<forall>p \<in> set cs. \<forall>q \<in> set cs. \<not> is_leaf (snd p) \<and> \<not> is_leaf (snd q)
          \<and> hd (bits (fst p)) = hd (bits (fst q)) \<longrightarrow> p = q)"

text \<open>The stored pairs, and a tree whose size counts them.\<close>

definition rt_set :: "('k, 'v) radix_tree \<Rightarrow> ('k \<times> 'v) set" where
  "rt_set T = (case rt_root T of None \<Rightarrow> {} | Some root \<Rightarrow> set (greedy root))"

definition rt_wf :: "('k \<Rightarrow> bool list) \<Rightarrow> ('k \<Rightarrow> bool) \<Rightarrow> ('k, 'v) radix_tree \<Rightarrow> bool" where
  "rt_wf bits ok T \<longleftrightarrow> (case rt_root T of None \<Rightarrow> rt_size T = 0
     | Some root \<Rightarrow> \<not> is_leaf root \<and> rwf bits ok [] root \<and> rt_size T = card (set (greedy root)))"

text \<open>
  The side condition of insertion: no stored key continues the new one with a
  zero bit, which \<open>radix_substr\<close> cannot tell from the end of the key.
\<close>

definition rt_safe :: "('k \<Rightarrow> bool list) \<Rightarrow> ('k, 'v) radix_tree \<Rightarrow> 'k \<Rightarrow> bool" where
  "rt_safe bits T key \<longleftrightarrow> (\<forall>kv \<in> rt_set T. \<not> prefix (bits key @ [False]) (bits (fst kv)))"

locale radix_key =
  fixes R :: "'k radix_ops" and bits :: "'k \<Rightarrow> bool list" and ok :: "'k \<Rightarrow> bool" and N :: nat
  assumes bits_inject: "ok j \<Longrightarrow> ok k \<Longrightarrow> bits j = bits k \<Longrightarrow> j = k"
    and length_bits: "ok k \<Longrightarrow> rx_length R k = int (length (bits k))"
    and length_le: "ok k \<Longrightarrow> length (bits k) \<le> N"
    and ok_substr: "ok k \<Longrightarrow> i + l \<le> N \<Longrightarrow> ok (rx_substr R k (int i) (int l))"
    and bits_substr: "ok k \<Longrightarrow> i + l \<le> N \<Longrightarrow>
       bits (rx_substr R k (int i) (int l)) = take l (drop i (zext N (bits k)))"
    and at_bits: "ok k \<Longrightarrow> i < N \<Longrightarrow> rx_at R k (int i) = zext N (bits k) ! i"
    and ok_join: "ok j \<Longrightarrow> ok k \<Longrightarrow> length (bits j) + length (bits k) \<le> N \<Longrightarrow> ok (rx_join R j k)"
    and bits_join: "ok j \<Longrightarrow> ok k \<Longrightarrow> length (bits j) + length (bits k) \<le> N \<Longrightarrow>
       bits (rx_join R j k) = bits j @ bits k"
begin

abbreviation wf :: "bool list \<Rightarrow> ('k, 'v) rnode \<Rightarrow> bool" where
  "wf \<equiv> rwf bits ok"

abbreviation pbits :: "'k list \<Rightarrow> bool list" where
  "pbits p \<equiv> concat (map bits p)"

abbreviation zbits :: "'k \<Rightarrow> bool list" where
  "zbits k \<equiv> zext N (bits k)"

lemma length_zbits [simp]: "ok k \<Longrightarrow> length (zbits k) = N"
  using length_le [of k] by (simp add: zext_def)

lemma take_zbits: "n \<le> length (bits k) \<Longrightarrow> take n (zbits k) = take n (bits k)"
  by (simp add: zext_def)

lemma zbits_full: "length (bits k) = N \<Longrightarrow> zbits k = bits k"
  by (simp add: zext_def)

lemma wf_greedy: "wf pre t \<Longrightarrow> (k, v) \<in> set (greedy t) \<Longrightarrow> ok k \<and> prefix pre (bits k)"
proof (induction t arbitrary: pre rule: greedy.induct)
  case (2 cs)
  then obtain p where p: "p \<in> set cs" "(k, v) \<in> set (greedy (snd p))" by auto
  moreover have "wf (pre @ bits (fst p)) (snd p)" using 2(2) p(1) by auto
  ultimately have "ok k \<and> prefix (pre @ bits (fst p)) (bits k)" using 2(1) by blast
  then show ?case by (metis append_prefixD)
qed simp

lemma wf_nonempty: "wf pre t \<Longrightarrow> t \<noteq> RNode [] \<Longrightarrow> greedy t \<noteq> []"
proof (induction t arbitrary: pre rule: greedy.induct)
  case (2 cs)
  then obtain p where p: "p \<in> set cs" by (cases cs) auto
  then have "wf (pre @ bits (fst p)) (snd p)" "compact (snd p)" using 2(2) by auto
  moreover from this have "snd p \<noteq> RNode []" by auto
  ultimately have "greedy (snd p) \<noteq> []" using 2(1) p by blast
  then show ?case using p by auto
qed simp

lemma hd_append_eq: "xs @ ys = xs' @ ys' \<Longrightarrow> xs \<noteq> [] \<Longrightarrow> xs' \<noteq> [] \<Longrightarrow> hd xs = hd xs'"
  by (cases xs; cases xs') auto

lemma prefix_same_hd:
  assumes "prefix (pre @ xs) b" "prefix (pre @ ys) b" "xs \<noteq> []" "ys \<noteq> []"
  shows "hd xs = hd ys"
proof -
  obtain u where u: "b = (pre @ xs) @ u" using assms(1) by (rule prefixE)
  obtain v where "b = (pre @ ys) @ v" using assms(2) by (rule prefixE)
  with u have "xs @ u = ys @ v" by simp
  then show ?thesis using assms(3,4) by (rule hd_append_eq)
qed

lemma wf_child:
  assumes "wf pre (RNode cs)" "(k, c) \<in> set cs"
  shows "ok k" "is_leaf c = (bits k = [])" "c \<noteq> RNode []" "wf (pre @ bits k) c" "map_of cs k = Some c"
    "compact c"
  using assms by (auto simp: map_of_is_SomeI)

lemma wf_child_unique:
  assumes "wf pre (RNode cs)" "(k, c) \<in> set cs" "(k', c') \<in> set cs" "\<not> is_leaf c" "\<not> is_leaf c'"
    and "hd (bits k) = hd (bits k')"
  shows "k = k' \<and> c = c'"
  using assms by fastforce

lemma subtree_wf:
  "wf pre t \<Longrightarrow> subtree t p = Some s \<Longrightarrow> wf (pre @ pbits p) s \<and> (p \<noteq> [] \<longrightarrow> compact s)
     \<and> (\<forall>k \<in> set p. ok k)"
proof (induction p arbitrary: pre t)
  case (Cons k p)
  then obtain cs c where t: "t = RNode cs" and c: "map_of cs k = Some c" "subtree c p = Some s"
    by (cases t) (auto split: option.splits)
  have kc: "(k, c) \<in> set cs" using c(1) by (rule map_of_SomeD)
  note w = wf_child [OF Cons.prems(1) [unfolded t] kc]
  show ?case using Cons.IH [OF w(4) c(2)] w(1,6) c(2) by (cases "p = []") auto
qed simp

lemma subtree_append: "subtree t (p @ q) = Option.bind (subtree t p) (\<lambda>s. subtree s q)"
  by (induction t p rule: subtree.induct) (auto split: option.splits)

lemma subtree_nonleaf_path:
  assumes "subtree t (p @ [k]) = Some s"
  obtains cs where "subtree t p = Some (RNode cs)" "map_of cs k = Some s"
proof -
  obtain u where u: "subtree t p = Some u" "subtree u [k] = Some s"
    using assms by (auto simp: subtree_append bind_eq_Some_conv)
  then show thesis using that by (cases u) (auto split: option.splits)
qed

text \<open>The entries below an inner node are those its path is a prefix of.\<close>

lemma subtree_greedy:
  assumes "wf pre t" "subtree t p = Some (RNode cs)"
  shows "(k, v) \<in> set (greedy (RNode cs)) \<longleftrightarrow> (k, v) \<in> set (greedy t) \<and> prefix (pre @ pbits p) (bits k)"
  using assms
proof (induction p arbitrary: pre t)
  case Nil
  then have "t = RNode cs" by simp
  then show ?case using wf_greedy [OF Nil.prems(1)] by auto
next
  case (Cons j p)
  then obtain ds c where t: "t = RNode ds" and c: "map_of ds j = Some c" "subtree c p = Some (RNode cs)"
    by (cases t) (auto split: option.splits)
  have jc: "(j, c) \<in> set ds" using c(1) by (rule map_of_SomeD)
  note w = wf_child [OF Cons.prems(1) [unfolded t] jc]
  have nl: "\<not> is_leaf c" using c(2) by (cases c; cases p) auto
  then have ne: "bits j \<noteq> []" using w(2) by simp
  have "(k, v) \<in> set (greedy c) \<longleftrightarrow> (k, v) \<in> set (greedy t)"
    if pk: "prefix (pre @ bits j @ pbits p) (bits k)"
  proof
    assume "(k, v) \<in> set (greedy t)"
    then obtain j' c' where jc': "(j', c') \<in> set ds" and kv: "(k, v) \<in> set (greedy c')"
      by (auto simp: t)
    note w' = wf_child [OF Cons.prems(1) [unfolded t] jc']
    have p': "prefix (pre @ bits j') (bits k)" using wf_greedy [OF w'(4) kv] by simp
    have "\<not> is_leaf c'"
    proof
      assume "is_leaf c'"
      then have "bits k = pre" using w'(2,4) kv by (cases c') auto
      then show False using pk ne by (auto simp: prefix_def)
    qed
    moreover from this have "bits j' \<noteq> []" using w'(2) by simp
    moreover have "hd (bits j) = hd (bits j')"
    proof (rule prefix_same_hd [OF _ p' ne calculation(2)])
      show "prefix (pre @ bits j) (bits k)" using pk by (metis append_prefixD append.assoc)
    qed
    ultimately have "c' = c" using wf_child_unique [OF Cons.prems(1) [unfolded t] jc jc' nl] by simp
    then show "(k, v) \<in> set (greedy c)" using kv by simp
  qed (use jc in \<open>force simp: t\<close>)
  then show ?case using Cons.IH [OF w(4) c(2)] by auto
qed

text \<open>Replacing the children of an inner node.\<close>

lemma modify_leaf: "is_leaf (modify_at p f t) = is_leaf t"
  by (cases t; cases p; auto)

lemma modify_compact: "compact t \<Longrightarrow> p \<noteq> [] \<Longrightarrow> compact (modify_at p f t)"
  by (cases t; cases p) (auto simp: modify_leaf case_prod_unfold split: list.splits)

lemma modify_wf:
  assumes "wf pre t" "subtree t p = Some (RNode cs)" "wf (pre @ pbits p) (RNode (f cs))"
    and "p \<noteq> [] \<longrightarrow> compact (RNode (f cs))"
  shows "wf pre (modify_at p f t)"
  using assms
proof (induction p arbitrary: pre t)
  case (Cons j p)
  then obtain ds c where t: "t = RNode ds" and c: "map_of ds j = Some c" "subtree c p = Some (RNode cs)"
    by (cases t) (auto split: option.splits)
  have jc: "(j, c) \<in> set ds" using c(1) by (rule map_of_SomeD)
  note w = wf_child [OF Cons.prems(1) [unfolded t] jc]
  let ?g = "\<lambda>(k', c). (k', if k' = j then modify_at p f c else c)"
  have wc: "wf (pre @ bits j) (modify_at p f c)"
    using Cons.IH [OF w(4) c(2)] Cons.prems(3,4) by (simp del: compact.simps)
  have ne: "compact (modify_at p f c)"
    using Cons.prems(4) c(2) modify_compact [OF w(6)] by (cases "p = []") (auto simp del: compact.simps)
  have d: "distinct (map fst ds)" and u: "\<And>p q. p \<in> set ds \<Longrightarrow> q \<in> set ds \<Longrightarrow> \<not> is_leaf (snd p) \<Longrightarrow> \<not> is_leaf (snd q)
      \<Longrightarrow> hd (bits (fst p)) = hd (bits (fst q)) \<Longrightarrow> p = q"
    using Cons.prems(1) by (auto simp: t)
  have 1: "map fst (map ?g ds) = map fst ds" by (auto simp: case_prod_unfold)
  have 2: "ok (fst (?g q)) \<and> is_leaf (snd (?g q)) = (bits (fst (?g q)) = []) \<and> compact (snd (?g q))
      \<and> wf (pre @ bits (fst (?g q))) (snd (?g q))" if q: "q \<in> set ds" for q
  proof (cases "fst q = j")
    case True
    then have "q = (j, c)" using q jc d by (metis eq_key_imp_eq_value prod.collapse)
    then show ?thesis using w wc ne by (simp add: modify_leaf)
  next
    case False
    then show ?thesis using Cons.prems(1) q by (cases q) (auto simp: t)
  qed
  have 3: "?g q = ?g r" if q: "q \<in> set ds" "r \<in> set ds" "\<not> is_leaf (snd (?g q))" "\<not> is_leaf (snd (?g r))"
      "hd (bits (fst (?g q))) = hd (bits (fst (?g r)))" for q r
  proof -
    have "\<not> is_leaf (snd q)" "\<not> is_leaf (snd r)" "hd (bits (fst q)) = hd (bits (fst r))"
      using q(3-5) by (cases q; cases r; auto simp: modify_leaf split: if_splits)+
    then show ?thesis using u [OF q(1,2)] by simp
  qed
  show ?case using 2 3
    by (simp only: t modify_at.simps rwf.simps 1 d set_map image_iff bex_simps ball_simps) (auto simp: d)
qed simp

lemma modify_greedy:
  assumes "wf pre t" "subtree t p = Some (RNode cs)"
  shows "set (greedy (modify_at p f t)) =
    {kv \<in> set (greedy t). \<not> prefix (pre @ pbits p) (bits (fst kv))} \<union> set (greedy (RNode (f cs)))"
  using assms
proof (induction p arbitrary: pre t)
  case Nil
  have e: "{kv \<in> set (greedy t). \<not> prefix pre (bits (fst kv))} = {}"
    using wf_greedy [OF Nil.prems(1)] by auto
  show ?case unfolding list.map concat.simps append_Nil2 e using Nil.prems(2) by simp
next
  case (Cons j p)
  then obtain ds c where t: "t = RNode ds" and c: "map_of ds j = Some c" "subtree c p = Some (RNode cs)"
    by (cases t) (auto split: option.splits)
  have jc: "(j, c) \<in> set ds" using c(1) by (rule map_of_SomeD)
  note w = wf_child [OF Cons.prems(1) [unfolded t] jc]
  have d: "distinct (map fst ds)" using Cons.prems(1) by (simp add: t)
  have nl: "\<not> is_leaf c" using c(2) by (cases c; cases p) auto
  then have ne: "bits j \<noteq> []" using w(2) by simp
  let ?P = "pre @ bits j @ pbits p"
  have other: "\<not> prefix ?P (bits k)"
    if q: "q \<in> set ds" "fst q \<noteq> j" "(k, v) \<in> set (greedy (snd q))" for q k v
  proof
    assume pk: "prefix ?P (bits k)"
    have q': "(fst q, snd q) \<in> set ds" using q(1) by simp
    note w' = wf_child [OF Cons.prems(1) [unfolded t] q']
    have p': "prefix (pre @ bits (fst q)) (bits k)" using wf_greedy [OF w'(4) q(3)] by simp
    have nl': "\<not> is_leaf (snd q)"
    proof
      assume "is_leaf (snd q)"
      then have "bits k = pre" using w'(2,4) q(3) by (cases "snd q") auto
      then show False using pk ne by (auto simp: prefix_def)
    qed
    then have "bits (fst q) \<noteq> []" using w'(2) by simp
    then have "hd (bits j) = hd (bits (fst q))"
      using prefix_same_hd [OF _ p' ne] pk by (metis append_prefixD append.assoc)
    then show False using wf_child_unique [OF Cons.prems(1) [unfolded t] jc q' nl nl'] q(2) by simp
  qed
  have jq: "q = (j, c)" if "q \<in> set ds" "fst q = j" for q
    using that jc d by (metis eq_key_imp_eq_value prod.collapse)
  have un: "(\<Union>q \<in> set ds. set (greedy (if fst q = j then g (snd q) else snd q))) =
      (\<Union>q \<in> {q \<in> set ds. fst q \<noteq> j}. set (greedy (snd q))) \<union> set (greedy (g c))" for g
  proof (intro set_eqI iffI)
    fix x assume "x \<in> (\<Union>q \<in> set ds. set (greedy (if fst q = j then g (snd q) else snd q)))"
    then obtain q where q: "q \<in> set ds" "x \<in> set (greedy (if fst q = j then g (snd q) else snd q))" by blast
    show "x \<in> (\<Union>q \<in> {q \<in> set ds. fst q \<noteq> j}. set (greedy (snd q))) \<union> set (greedy (g c))"
    proof (cases "fst q = j")
      case True
      then show ?thesis using jq [OF q(1) True] q(2) by simp
    next
      case False
      then show ?thesis using q by (intro UnI1 UN_I [of q]) simp_all
    qed
  next
    fix x assume "x \<in> (\<Union>q \<in> {q \<in> set ds. fst q \<noteq> j}. set (greedy (snd q))) \<union> set (greedy (g c))"
    then consider q where "q \<in> set ds" "fst q \<noteq> j" "x \<in> set (greedy (snd q))" | "x \<in> set (greedy (g c))" by blast
    then show "x \<in> (\<Union>q \<in> set ds. set (greedy (if fst q = j then g (snd q) else snd q)))"
    proof cases
      case 2
      then show ?thesis using jc by (intro UN_I [of "(j, c)"]) auto
    qed (rule UN_I, auto)
  qed
  have split: "set (greedy (modify_at (j # p) f t)) =
      (\<Union>q \<in> {q \<in> set ds. fst q \<noteq> j}. set (greedy (snd q))) \<union> set (greedy (modify_at p f c))"
    using un [of "modify_at p f"] by (simp add: t case_prod_unfold)
  have split': "set (greedy t) = (\<Union>q \<in> {q \<in> set ds. fst q \<noteq> j}. set (greedy (snd q))) \<union> set (greedy c)"
    using un [of "\<lambda>c. c"] by (simp add: t)
  have "set (greedy (modify_at p f c)) =
     {kv \<in> set (greedy c). \<not> prefix ?P (bits (fst kv))} \<union> set (greedy (RNode (f cs)))"
    using Cons.IH [OF w(4) c(2)] by simp
  then show ?case unfolding split split' using other by fastforce
qed

text \<open>Search: one level of \<open>find_node\<close> picks the child that a key selects.\<close>

definition selects :: "'k \<Rightarrow> int \<Rightarrow> 'k \<times> ('k, 'v) rnode \<Rightarrow> bool" where
  "selects key d x \<longleftrightarrow> (if rx_length R key - d = 0 then is_leaf (snd x)
     else \<not> is_leaf (snd x) \<and> rx_at R key d = rx_at R (fst x) 0)"

lemma find_in_selects:
  "find_in R key d cs = (case List.find (selects key d) cs of None \<Rightarrow> []
     | Some (k, c) \<Rightarrow> if rx_length R key - d = 0 then [k]
         else if rx_substr R key d (rx_length R k) = k then k # find_path R key (d + rx_length R k) c
         else [k])"
  by (induction cs) (auto simp: selects_def Let_def)

lemma find_SomeD: "List.find Q xs = Some x \<Longrightarrow> x \<in> set xs \<and> Q x"
  by (auto simp: find_Some_iff)

lemma find_unique:
  assumes "x \<in> set xs" "Q x" "\<And>y. y \<in> set xs \<Longrightarrow> Q y \<Longrightarrow> y = x"
  shows "List.find Q xs = Some x"
proof (cases "List.find Q xs")
  case None
  then show ?thesis using assms(1,2) by (auto simp: find_None_iff)
next
  case (Some y)
  then show ?thesis using find_SomeD [OF Some] assms(3) by simp
qed

lemma at_hd: "ok k \<Longrightarrow> bits k \<noteq> [] \<Longrightarrow> rx_at R k 0 = hd (bits k)"
  using at_bits [of k 0] length_le [of k] by (cases "bits k") (auto simp: zext_def)

lemma inner_child_length:
  assumes "wf pre (RNode cs)" "(k, c) \<in> set cs"
  shows "length pre + length (bits k) \<le> N"
proof -
  note w = wf_child [OF assms]
  obtain kv where "kv \<in> set (greedy c)" using wf_nonempty [OF w(4,3)] by (cases "greedy c") auto
  then have "ok (fst kv)" "prefix (pre @ bits k) (bits (fst kv))"
    using wf_greedy [OF w(4), of "fst kv" "snd kv"] by auto
  then show ?thesis using prefix_length_le [of "pre @ bits k"] length_le [of "fst kv"] by fastforce
qed

lemma selects_inner:
  assumes "wf pre (RNode cs)" "ok key" "length pre \<noteq> length (bits key)" "(k, c) \<in> set cs"
  shows "selects key (int (length pre)) (k, c) \<longleftrightarrow> \<not> is_leaf c \<and> zbits key ! length pre = hd (bits k)"
proof (cases "is_leaf c")
  case False
  note w = wf_child [OF assms(1,4)]
  have ne: "bits k \<noteq> []" using w(2) False by simp
  then have "length pre < N" using inner_child_length [OF assms(1,4)] by (cases "bits k") auto
  then show ?thesis using assms(2,3) False w(1) ne
    by (simp add: selects_def length_bits at_bits at_hd)
qed (use assms in \<open>simp add: selects_def length_bits\<close>)

lemma selects_leaf:
  "ok key \<Longrightarrow> length pre = length (bits key) \<Longrightarrow> selects key (int (length pre)) x \<longleftrightarrow> is_leaf (snd x)"
  by (simp add: selects_def length_bits)

lemma find_complete:
  assumes "wf pre t" "(key, v) \<in> set (greedy t)"
  shows "subtree t (find_path R key (int (length pre)) t) = Some (RLeaf key v)"
  using assms
proof (induction t arbitrary: pre rule: greedy.induct)
  case (2 cs)
  then obtain k c where kc: "(k, c) \<in> set cs" and kv: "(key, v) \<in> set (greedy c)" by auto
  note w = wf_child [OF 2(2) kc]
  have key: "ok key" "prefix (pre @ bits k) (bits key)" using wf_greedy [OF w(4) kv] by auto
  show ?case
  proof (cases "is_leaf c")
    case True
    then have c: "c = RLeaf key v" "bits k = []" "bits key = pre" using kv w(2,4) by (cases c; auto)+
    have "List.find (selects key (int (length pre))) cs = Some (k, c)"
    proof (rule find_unique [OF kc])
      show "selects key (int (length pre)) (k, c)" using True key c by (simp add: selects_leaf)
      fix y assume y: "y \<in> set cs" "selects key (int (length pre)) y"
      then have "is_leaf (snd y)" using key(1) c(3) by (simp add: selects_leaf)
      moreover have y': "(fst y, snd y) \<in> set cs" using y(1) by simp
      ultimately have "bits (fst y) = []" "ok (fst y)" using wf_child [OF 2(2) y'] by simp_all
      then have "fst y = k" using bits_inject w(1) c(2) by simp
      then show "y = (k, c)" using wf_child(5) [OF 2(2) y'] w(5) by (cases y) simp
    qed
    then show ?thesis using key(1) c w(5) by (simp add: find_in_selects length_bits)
  next
    case False
    then have ne: "bits k \<noteq> []" using w(2) by simp
    obtain z where z: "bits key = (pre @ bits k) @ z" using key(2) by (rule prefixE)
    have lt: "length pre < length (bits key)" using z ne by simp
    have le: "length pre + length (bits k) \<le> N" using inner_child_length [OF 2(2) kc] .
    have nth: "zbits key ! length pre = hd (bits k)"
      using z ne by (simp add: zext_def nth_append hd_conv_nth)
    have "List.find (selects key (int (length pre))) cs = Some (k, c)"
    proof (rule find_unique [OF kc])
      show "selects key (int (length pre)) (k, c)"
        using selects_inner [OF 2(2) key(1) _ kc] lt False nth by simp
      fix y assume y: "y \<in> set cs" "selects key (int (length pre)) y"
      have y': "(fst y, snd y) \<in> set cs" using y(1) by simp
      then have "\<not> is_leaf (snd y)" "hd (bits (fst y)) = hd (bits k)"
        using selects_inner [OF 2(2) key(1) _ y'] lt y(2) nth by auto
      then show "y = (k, c)" using wf_child_unique [OF 2(2) y' kc _ False] by (cases y) simp
    qed
    moreover have "rx_substr R key (int (length pre)) (rx_length R k) = k"
    proof (rule bits_inject)
      show "ok k" "ok (rx_substr R key (int (length pre)) (rx_length R k))"
        using w(1) key(1) le by (simp_all add: length_bits ok_substr)
      show "bits (rx_substr R key (int (length pre)) (rx_length R k)) = bits k"
        using w(1) key(1) le z by (simp add: length_bits bits_substr zext_def)
    qed
    moreover have "rx_length R key - int (length pre) \<noteq> 0" using lt key(1) by (simp add: length_bits)
    moreover have "subtree c (find_path R key (int (length (pre @ bits k))) c) = Some (RLeaf key v)"
      using 2(1) [OF kc, of "pre @ bits k"] w(4) kv by simp
    ultimately show ?thesis using w(1,5) by (simp add: find_in_selects length_bits)
  qed
qed auto

lemma find_sound:
  assumes "wf pre t" "\<not> is_leaf t" "ok key" "pre = take (length pre) (zbits key)"
    and "subtree t (find_path R key (int (length pre)) t) = Some (RLeaf k' v)"
  shows "k' = key \<and> (key, v) \<in> set (greedy t) \<and>
    (\<exists>q k. find_path R key (int (length pre)) t = q @ [k] \<and> bits k = [] \<and> pre @ pbits q = bits key)"
  using assms
proof (induction t arbitrary: pre rule: greedy.induct)
  case (2 cs)
  let ?d = "int (length pre)"
  obtain k c where f: "List.find (selects key ?d) cs = Some (k, c)"
    using "2.prems"(5) by (cases "List.find (selects key ?d) cs") (auto simp: find_in_selects)
  have kc: "(k, c) \<in> set cs" and sel: "selects key ?d (k, c)" using find_SomeD [OF f] by auto
  note w = wf_child [OF 2(2) kc]
  show ?case
  proof (cases "length pre = length (bits key)")
    case True
    then have leaf: "is_leaf c" using sel "2.prems"(3) by (simp add: selects_leaf)
    have path: "find_path R key ?d (RNode cs) = [k]"
      using f True "2.prems"(3) by (simp add: find_in_selects length_bits)
    then have c: "c = RLeaf k' v" using "2.prems"(5) w(5) by simp
    have pre: "pre = bits key" using "2.prems"(4) True by (simp add: take_zbits)
    then have "k' = key" using c w(4,2) leaf "2.prems"(3) bits_inject [of k' key] by simp
    then show ?thesis using path pre c kc w(2) leaf by force
  next
    case False
    then have nl: "\<not> is_leaf c" and hd: "zbits key ! length pre = hd (bits k)"
      using sel selects_inner [OF 2(2) "2.prems"(3) False kc] by simp_all
    have le: "length pre + length (bits k) \<le> N" using inner_child_length [OF 2(2) kc] .
    have ne: "?d \<noteq> rx_length R key" using False "2.prems"(3) by (simp add: length_bits)
    have sub: "rx_substr R key ?d (rx_length R k) = k"
      using "2.prems"(5) f ne w(5) nl by (cases c) (auto simp: find_in_selects split: if_splits)
    have path: "find_path R key ?d (RNode cs) = k # find_path R key (int (length (pre @ bits k))) c"
      using f ne sub w(1) by (simp add: find_in_selects length_bits)
    have "bits k = take (length (bits k)) (drop (length pre) (zbits key))"
      using bits_substr [OF "2.prems"(3) le] sub w(1) by (simp add: length_bits)
    then have m: "pre @ bits k = take (length (pre @ bits k)) (zbits key)"
      using "2.prems"(4) by (metis length_append take_add)
    have "subtree c (find_path R key (int (length (pre @ bits k))) c) = Some (RLeaf k' v)"
      using "2.prems"(5) path w(5) by simp
    note 2(1) [OF kc, unfolded snd_conv, OF w(4) nl "2.prems"(3) m this]
    then obtain q j where "k' = key" "(key, v) \<in> set (greedy c)" "bits j = []"
        "find_path R key (int (length (pre @ bits k))) c = q @ [j]" "(pre @ bits k) @ pbits q = bits key" by blast
    then have "find_path R key ?d (RNode cs) = (k # q) @ [j]" "pre @ pbits (k # q) = bits key"
      "k' = key" "(key, v) \<in> set (greedy (RNode cs))" "bits j = []"
      using path kc by (auto intro: bexI [OF _ kc])
    then show ?thesis by blast
  qed
qed simp

text \<open>Where an unsuccessful search stops: at a node without a matching child, or at a child whose key differs.\<close>

definition stops_at :: "'k \<Rightarrow> bool list \<Rightarrow> 'k list \<Rightarrow> ('k, 'v) rnode \<Rightarrow> 'k list \<Rightarrow> bool" where
  "stops_at key pre p t q \<longleftrightarrow> (\<exists>cs. subtree t q = Some (RNode cs) \<and>
     (let P = pre @ pbits q in P = take (length P) (zbits key) \<and> length P \<le> N \<and>
      (p = q \<and> (length P = length (bits key) \<longrightarrow> (\<forall>x \<in> set cs. \<not> is_leaf (snd x)))
             \<and> (length P \<noteq> length (bits key) \<longrightarrow>
                  (\<forall>x \<in> set cs. \<not> is_leaf (snd x) \<longrightarrow> hd (bits (fst x)) \<noteq> zbits key ! length P))
       \<or> (\<exists>k c. p = q @ [k] \<and> (k, c) \<in> set cs \<and> \<not> is_leaf c \<and> length P \<noteq> length (bits key)
             \<and> hd (bits k) = zbits key ! length P
             \<and> bits k \<noteq> take (length (bits k)) (drop (length P) (zbits key))))))"

lemma find_stops:
  assumes "wf pre t" "\<not> is_leaf t" "ok key" "pre = take (length pre) (zbits key)" "length pre \<le> N"
    and "subtree t (find_path R key (int (length pre)) t) = Some (RNode ds)"
  shows "\<exists>q. stops_at key pre (find_path R key (int (length pre)) t) t q"
  using assms
proof (induction t arbitrary: pre rule: greedy.induct)
  case (2 cs)
  let ?d = "int (length pre)"
  show ?case
  proof (cases "List.find (selects key ?d) cs")
    case None
    then have none: "\<And>x. x \<in> set cs \<Longrightarrow> \<not> selects key ?d x" by (auto simp: find_None_iff)
    have "\<forall>x \<in> set cs. \<not> is_leaf (snd x)" if "length pre = length (bits key)"
      using none selects_leaf [OF "2.prems"(3) that] by blast
    moreover have "\<forall>x \<in> set cs. \<not> is_leaf (snd x) \<longrightarrow> hd (bits (fst x)) \<noteq> zbits key ! length pre"
      if "length pre \<noteq> length (bits key)"
      using none selects_inner [OF 2(2) "2.prems"(3) that] by (metis prod.collapse)
    moreover have "find_path R key ?d (RNode cs) = []" using None by (simp add: find_in_selects)
    ultimately have "stops_at key pre (find_path R key ?d (RNode cs)) (RNode cs) []"
      using "2.prems"(4,5) by (auto simp: stops_at_def Let_def)
    then show ?thesis ..
  next
    case (Some x)
    obtain k c where f: "List.find (selects key ?d) cs = Some (k, c)" using Some by (cases x) simp
    have kc: "(k, c) \<in> set cs" and sel: "selects key ?d (k, c)" using find_SomeD [OF f] by auto
    note w = wf_child [OF 2(2) kc]
    have len: "length pre \<noteq> length (bits key)"
    proof
      assume l: "length pre = length (bits key)"
      then have "is_leaf c" using sel "2.prems"(3) by (simp add: selects_leaf)
      moreover have "find_path R key ?d (RNode cs) = [k]"
        using f l "2.prems"(3) by (simp add: find_in_selects length_bits)
      ultimately show False using "2.prems"(6) w(5) by simp
    qed
    then have nl: "\<not> is_leaf c" and hd: "zbits key ! length pre = hd (bits k)"
      using sel selects_inner [OF 2(2) "2.prems"(3) len kc] by simp_all
    have le: "length pre + length (bits k) \<le> N" using inner_child_length [OF 2(2) kc] .
    have ne: "?d \<noteq> rx_length R key" using len "2.prems"(3) by (simp add: length_bits)
    have sb: "bits (rx_substr R key ?d (rx_length R k)) = take (length (bits k)) (drop (length pre) (zbits key))"
      "ok (rx_substr R key ?d (rx_length R k))"
      using bits_substr [OF "2.prems"(3) le] ok_substr [OF "2.prems"(3) le] w(1) by (simp_all add: length_bits)
    show ?thesis
    proof (cases "rx_substr R key ?d (rx_length R k) = k")
      case True
      have path: "find_path R key ?d (RNode cs) = k # find_path R key (int (length (pre @ bits k))) c"
        using f ne True w(1) by (simp add: find_in_selects length_bits)
      have "pre @ bits k = take (length (pre @ bits k)) (zbits key)"
        using "2.prems"(4) sb(1) True by (metis length_append take_add)
      moreover have "subtree c (find_path R key (int (length (pre @ bits k))) c) = Some (RNode ds)"
        using "2.prems"(6) path w(5) by simp
      ultimately obtain q where "stops_at key (pre @ bits k) (find_path R key (int (length (pre @ bits k))) c) c q"
        using 2(1) [OF kc, unfolded snd_conv, OF w(4) nl "2.prems"(3)] le by (metis length_append)
      then have "stops_at key pre (find_path R key ?d (RNode cs)) (RNode cs) (k # q)"
        using w(5) unfolding path stops_at_def Let_def by simp
      then show ?thesis ..
    next
      case False
      then have "bits k \<noteq> take (length (bits k)) (drop (length pre) (zbits key))"
        using sb w(1) bits_inject by metis
      moreover have "find_path R key ?d (RNode cs) = [k]"
        using f ne False by (simp add: find_in_selects)
      ultimately have "stops_at key pre (find_path R key ?d (RNode cs)) (RNode cs) []"
        using "2.prems"(4,5) kc nl len hd by (auto simp: stops_at_def Let_def)
      then show ?thesis ..
    qed
  qed
qed simp

text \<open>Changes to the children of one node.\<close>

lemma set_child_insert: "set (child_insert R k c cs) = insert (k, c) (set cs)"
  by (induction cs) (auto split: if_splits)

lemma length_child_insert: "length (child_insert R k c cs) = Suc (length cs)"
  by (induction cs) auto

lemma distinct_child_insert:
  "k \<notin> set (map fst cs) \<Longrightarrow> distinct (map fst cs) \<Longrightarrow> distinct (map fst (child_insert R k c cs))"
proof (induction cs)
  case (Cons x cs)
  have "fst ` set (child_insert R k c cs) = insert k (fst ` set cs)" by (simp add: set_child_insert)
  then show ?case using Cons by (cases x) (auto simp del: set_child_insert)
qed simp

lemmas child_insert_props = set_child_insert distinct_child_insert

lemma child_set_new:
  assumes "k \<notin> set (map fst cs)"
  shows "set (child_set R k c cs) = insert (k, c) (set cs)"
    and "distinct (map fst cs) \<Longrightarrow> distinct (map fst (child_set R k c cs))"
  using assms child_insert_props by (simp_all add: child_set_def)

lemma compact_single: "compact (RNode [(j, RLeaf k v)])"
  by simp

lemma child_set_compact:
  assumes "k \<notin> set (map fst cs)" "is_leaf c \<or> cs \<noteq> []"
  shows "compact (RNode (child_set R k c cs))"
proof (cases cs)
  case (Cons x xs)
  have "length (child_set R k c cs) = Suc (length cs)"
    using assms(1) by (simp add: child_set_def length_child_insert)
  then show ?thesis using Cons by (cases "child_set R k c cs") (auto split: list.splits)
qed (use assms in \<open>auto simp: child_set_def\<close>)

lemma wf_add_leaf:
  assumes "wf P (RNode cs)" "\<forall>x \<in> set cs. \<not> is_leaf (snd x)" "ok j" "bits j = []" "ok key" "bits key = P"
  shows "wf P (RNode (child_set R j (RLeaf key v) cs))"
    and "set (greedy (RNode (child_set R j (RLeaf key v) cs))) = insert (key, v) (set (greedy (RNode cs)))"
    and "compact (RNode (child_set R j (RLeaf key v) cs))"
proof -
  have new: "j \<notin> set (map fst cs)" using assms(1,2,4) by fastforce
  show "wf P (RNode (child_set R j (RLeaf key v) cs))"
    using assms child_set_new [OF new, of "RLeaf key v"] by auto
  show "set (greedy (RNode (child_set R j (RLeaf key v) cs))) = insert (key, v) (set (greedy (RNode cs)))"
    using child_set_new(1) [OF new, of "RLeaf key v"] by auto
  show "compact (RNode (child_set R j (RLeaf key v) cs))"
    using child_set_compact [OF new, of "RLeaf key v"] by simp
qed

lemma wf_add_inner:
  assumes "wf P (RNode cs)" "ok j" "bits j \<noteq> []" "wf (P @ bits j) c" "\<not> is_leaf c" "compact c"
    and "\<forall>x \<in> set cs. \<not> is_leaf (snd x) \<longrightarrow> hd (bits (fst x)) \<noteq> hd (bits j)"
  shows "wf P (RNode (child_set R j c cs))"
    and "set (greedy (RNode (child_set R j c cs))) = set (greedy c) \<union> set (greedy (RNode cs))"
    and "cs \<noteq> [] \<Longrightarrow> compact (RNode (child_set R j c cs))"
proof -
  have new: "j \<notin> set (map fst cs)" using assms(1,3,7) by fastforce
  show "wf P (RNode (child_set R j c cs))"
    using assms child_set_new [OF new, of c] by fastforce
  show "set (greedy (RNode (child_set R j c cs))) = set (greedy c) \<union> set (greedy (RNode cs))"
    using child_set_new(1) [OF new, of c] by auto
  show "cs \<noteq> [] \<Longrightarrow> compact (RNode (child_set R j c cs))"
    using child_set_compact [OF new, of c] by simp
qed

lemma wf_erase:
  assumes "wf P (RNode cs)"
  shows "wf P (RNode (child_erase j cs))"
proof -
  have "distinct (map fst (child_erase j cs))" using assms by (simp add: child_erase_def)
  moreover have "set (child_erase j cs) \<subseteq> set cs" by (auto simp: child_erase_def al_delete_def)
  ultimately show ?thesis using assms unfolding rwf.simps by blast
qed

lemma erase_greedy:
  assumes "wf P (RNode cs)" "(j, c) \<in> set cs"
  shows "set (greedy (RNode cs)) = set (greedy c) \<union> set (greedy (RNode (child_erase j cs)))"
proof -
  have d: "distinct (map fst cs)" using assms(1) by simp
  have "set cs = insert (j, c) (set (child_erase j cs))"
    using assms(2) eq_key_imp_eq_value [OF d] by (auto simp: child_erase_def al_delete_def)
  then show ?thesis by simp
qed

lemma modify_insert:
  assumes "wf [] t" "subtree t q = Some (RNode cs)" "wf (pbits q) (RNode (f cs))"
    and "q \<noteq> [] \<longrightarrow> compact (RNode (f cs))"
    and "set (greedy (RNode (f cs))) = insert x (set (greedy (RNode cs)))"
  shows "wf [] (modify_at q f t)" and "set (greedy (modify_at q f t)) = insert x (set (greedy t))"
    and "\<not> is_leaf (modify_at q f t) = (\<not> is_leaf t)"
proof -
  show "wf [] (modify_at q f t)" using modify_wf [OF assms(1,2), of f] assms(3,4) by simp
  have "kv \<in> set (greedy (RNode cs)) \<longleftrightarrow> kv \<in> set (greedy t) \<and> prefix (pbits q) (bits (fst kv))" for kv
    using subtree_greedy [OF assms(1,2), of "fst kv" "snd kv"] by simp
  then show "set (greedy (modify_at q f t)) = insert x (set (greedy t))"
    unfolding modify_greedy [OF assms(1,2), of f] assms(5) append_Nil by blast
qed (simp add: modify_leaf)

lemma path_depth: "\<forall>k \<in> set q. ok k \<Longrightarrow> path_depth R q = int (length (pbits q))"
  by (induction q) (simp_all add: path_depth_def length_bits)

lemma nul_props: "ok key \<Longrightarrow> ok (rx_nul R key) \<and> bits (rx_nul R key) = []"
  using ok_substr [of key 0 0] bits_substr [of key 0 0] by (simp add: rx_nul_def)

lemma child_set_not_Nil: "child_set R k c cs \<noteq> []"
proof -
  have "(k, c) \<in> set (child_insert R k c cs)" by (simp add: child_insert_props)
  moreover have "k \<in> set (map fst cs) \<Longrightarrow> al_update k c cs \<noteq> []" by (cases cs) (auto split: if_splits)
  ultimately show ?thesis by (auto simp: child_set_def)
qed

text \<open>Appending below a node without a child for the rest of the key.\<close>

lemma append_correct:
  assumes t: "wf [] t" "subtree t q = Some (RNode cs)" and key: "ok key" "pbits q = take (length (pbits q)) (bits key)"
    and le: "length (pbits q) \<le> length (bits key)"
    and leaf: "length (pbits q) = length (bits key) \<longrightarrow> (\<forall>x \<in> set cs. \<not> is_leaf (snd x))"
    and inner: "length (pbits q) \<noteq> length (bits key) \<longrightarrow>
      (\<forall>x \<in> set cs. \<not> is_leaf (snd x) \<longrightarrow> hd (bits (fst x)) \<noteq> bits key ! length (pbits q))"
  shows "wf [] (rt_append R q key v t) \<and> set (greedy (rt_append R q key v t)) = insert (key, v) (set (greedy t))
    \<and> is_leaf (rt_append R q key v t) = is_leaf t"
proof -
  have w: "wf (pbits q) (RNode cs)" and q: "\<forall>k \<in> set q. ok k" and cq: "q \<noteq> [] \<longrightarrow> compact (RNode cs)"
    using subtree_wf [OF t] by (auto simp del: compact.simps)
  have cn: "q \<noteq> [] \<longrightarrow> cs \<noteq> []" using cq by auto
  note nul = nul_props [OF key(1)]
  let ?n = "length (pbits q)"
  show ?thesis
  proof (cases "?n = length (bits key)")
    case True
    have b: "bits key = pbits q" using key(2) True by simp
    have "rt_append R q key v t = modify_at q (child_set R (rx_nul R key) (RLeaf key v)) t"
      using True key(1) by (simp add: rt_append_def path_depth [OF q] length_bits)
    then show ?thesis
      using modify_insert [OF t, of "child_set R (rx_nul R key) (RLeaf key v)" "(key, v)"]
        wf_add_leaf [OF w _ _ _ key(1) b, of "rx_nul R key" v] leaf True nul by (simp del: rwf.simps greedy.simps compact.simps)
  next
    case False
    define m where "m = length (bits key) - ?n"
    define j where "j = rx_substr R key (int ?n) (int m)"
    have m: "?n + m = length (bits key)" using le by (simp add: m_def)
    have nm: "?n + m \<le> N" using m length_le [OF key(1)] by simp
    have j: "ok j" "bits j = drop ?n (bits key)"
      using ok_substr [OF key(1) nm] bits_substr [OF key(1) nm] m by (simp_all add: j_def zext_def)
    have bk: "bits key = pbits q @ bits j" using key(2) j(2) by (metis append_take_drop_id)
    have jn: "bits j \<noteq> []" "hd (bits j) = bits key ! ?n"
      using j(2) False le by (simp_all add: hd_drop_conv_nth)
    let ?c = "RNode [(rx_nul R key, RLeaf key v)]"
    have "rt_append R q key v t = modify_at q (child_set R j ?c) t"
      using False key(1) le
      by (simp add: rt_append_def path_depth [OF q] length_bits j_def m_def Let_def of_nat_diff)
    moreover have "wf (pbits q @ bits j) ?c" using nul key(1) bk by simp
    ultimately show ?thesis
      using modify_insert [OF t, of "child_set R j ?c" "(key, v)"]
        wf_add_inner [OF w j(1) jn(1), of ?c] inner False jn(2) cn by (simp add: compact_single del: rwf.simps(2) compact.simps(2))
  qed
qed

text \<open>Splitting a node whose key agrees with the new key on some bits only.\<close>

lemma match_count_spec:
  assumes "ok k" "ok key" "int d = depth" "length (bits k) + d \<le> N" "d \<le> length (bits key)"
  obtains c where "match_count R k key depth (int (length (bits key) - d)) = int c"
    and "c \<le> length (bits k)" "c \<le> length (bits key) - d"
    and "take c (bits k) = take c (drop d (bits key))"
    and "c < length (bits k) \<Longrightarrow> c < length (bits key) - d \<Longrightarrow> bits k ! c \<noteq> bits key ! (d + c)"
proof -
  define m where "m = min (length (bits k)) (length (bits key) - d)"
  define Q where "Q = (\<lambda>i. rx_at R k (int i) = rx_at R key (int i + depth))"
  define c where "c = length (takeWhile Q [0..<m])"
  have Q: "Q i \<longleftrightarrow> bits k ! i = bits key ! (d + i)" if "i < m" for i
  proof -
    have "int i + depth = int (d + i)" using assms(3) by simp
    moreover have "d + i < N" "i < N" using that assms(4) length_le [OF assms(1)] by (simp_all add: m_def)
    ultimately have "Q i \<longleftrightarrow> zbits k ! i = zbits key ! (d + i)"
      using assms(1,2) by (simp add: Q_def at_bits del: of_nat_add)
    then show ?thesis using that by (simp add: zext_def nth_append m_def less_diff_conv add.commute)
  qed
  have cm: "c \<le> m" unfolding c_def using length_takeWhile_le [of Q "[0..<m]"] by simp
  have "bits k ! i = bits key ! (d + i)" if i: "i < c" for i
  proof -
    have "takeWhile Q [0..<m] ! i = i" using i cm by (simp add: takeWhile_nth c_def)
    moreover have "takeWhile Q [0..<m] ! i \<in> set (takeWhile Q [0..<m])" using i by (simp add: c_def)
    ultimately have "Q i" by (metis set_takeWhileD)
    then show ?thesis using Q i cm by simp
  qed
  then have tk: "take c (bits k) = take c (drop d (bits key))"
    using cm assms(5) by (intro nth_equalityI) (auto simp: m_def)
  have "\<not> Q c" if "c < m"
    using nth_length_takeWhile [of Q "[0..<m]"] that by (simp add: c_def)
  then have "c < length (bits k) \<Longrightarrow> c < length (bits key) - d \<Longrightarrow> bits k ! c \<noteq> bits key ! (d + c)"
    using Q by (simp add: m_def)
  moreover have "match_count R k key depth (int (length (bits key) - d)) = int c"
    using assms(1) by (simp add: match_count_def c_def Q_def length_bits m_def min_def nat_le_iff
        del: of_nat_diff)
  ultimately show thesis using that [of c] cm tk by (simp add: m_def)
qed

lemma prepend_correct:
  assumes t: "wf [] t" "subtree t q = Some (RNode cs)" and key: "ok key" "pbits q = take (length (pbits q)) (bits key)"
    and lt: "length (pbits q) < length (bits key)"
    and kc: "(k, c) \<in> set cs" "\<not> is_leaf c" "hd (bits k) = bits key ! length (pbits q)"
      "bits k \<noteq> take (length (bits k)) (drop (length (pbits q)) (zbits key))"
  shows "\<exists>t'. rt_prepend R q k key v t = Inr t' \<and> wf [] t' \<and> set (greedy t') = insert (key, v) (set (greedy t))
    \<and> is_leaf t' = is_leaf t"
proof -
  have w: "wf (pbits q) (RNode cs)" and q: "\<forall>k \<in> set q. ok k" and cq: "q \<noteq> [] \<longrightarrow> compact (RNode cs)"
    using subtree_wf [OF t] by (auto simp del: compact.simps)
  have cn: "q \<noteq> [] \<longrightarrow> cs \<noteq> []" using cq by auto
  note nul = nul_props [OF key(1)] and wc = wf_child [OF w kc(1)]
  let ?P = "pbits q" and ?n = "length (pbits q)"
  have kn: "bits k \<noteq> []" using wc(2) kc(2) by simp
  have kN: "length (bits k) + ?n \<le> N" using inner_child_length [OF w kc(1)] by simp
  obtain m where m: "match_count R k key (int ?n) (int (length (bits key) - ?n)) = int m"
    "m \<le> length (bits k)" "m \<le> length (bits key) - ?n" "take m (bits k) = take m (drop ?n (bits key))"
    "m < length (bits k) \<Longrightarrow> m < length (bits key) - ?n \<Longrightarrow> bits k ! m \<noteq> bits key ! (?n + m)"
    using match_count_spec [OF wc(1) key(1) refl kN] lt by auto
  have mk: "m < length (bits k)"
  proof (rule ccontr)
    assume "\<not> m < length (bits k)"
    then have e: "m = length (bits k)" using m(2) by simp
    then have "bits k = take (length (bits k)) (drop ?n (bits key))" using m(4) by simp
    also have "\<dots> = take (length (bits k)) (drop ?n (zbits key))" using m(3) e lt by (simp add: zext_def)
    finally show False using kc(4) by simp
  qed
  have m0: "0 < m"
    using m(5) [of] mk lt kc(3) kn by (cases m) (auto simp: hd_conv_nth)
  define ka where "ka = rx_substr R k 0 (int m)"
  define kb where "kb = rx_substr R k (int m) (int (length (bits k) - m))"
  have ka: "ok ka" "bits ka = take m (bits k)" "bits ka \<noteq> []" "hd (bits ka) = hd (bits k)"
    using ok_substr [OF wc(1), of 0 m] bits_substr [OF wc(1), of 0 m] mk kN m0
    by (auto simp: ka_def zext_def hd_take)
  have kb: "ok kb" "bits kb = drop m (bits k)" "bits kb \<noteq> []" "hd (bits kb) = bits k ! m"
    using ok_substr [OF wc(1), of m "length (bits k) - m"] bits_substr [OF wc(1), of m "length (bits k) - m"] mk kN
    by (auto simp: kb_def zext_def hd_drop_conv_nth)
  have Pa: "?P @ bits ka = take (?n + m) (bits key)"
    using key(2) m(4) ka(2) by (metis take_add)
  have wkb: "wf ((?P @ bits ka) @ bits kb) c" using wc(4) ka(2) kb(2) by simp
  define A where "A = child_set R kb c []"
  have A: "wf (?P @ bits ka) (RNode A)" "set (greedy (RNode A)) = set (greedy c)"
    using wf_add_inner [of "?P @ bits ka" "[]", OF _ kb(1,3) wkb kc(2) wc(6)] by (auto simp: A_def)
  have setA: "set A = {(kb, c)}" by (simp add: A_def child_set_def)
  define B where "B = (if m = length (bits key) - ?n then child_set R (rx_nul R key) (RLeaf key v) A
    else child_set R (rx_substr R key (int (?n + m)) (int (length (bits key) - ?n - m)))
           (RNode [(rx_nul R key, RLeaf key v)]) A)"
  have An: "A \<noteq> []" using setA by auto
  have B: "wf (?P @ bits ka) (RNode B) \<and> set (greedy (RNode B)) = insert (key, v) (set (greedy c))
      \<and> compact (RNode B)"
  proof (cases "m = length (bits key) - ?n")
    case True
    then have "bits key = ?P @ bits ka" using Pa lt by simp
    then show ?thesis
      using wf_add_leaf [OF A(1) _ _ _ key(1), of "rx_nul R key" v] True nul kc(2) A(2) setA
      by (simp add: B_def del: rwf.simps greedy.simps compact.simps)
  next
    case False
    define kr where "kr = rx_substr R key (int (?n + m)) (int (length (bits key) - ?n - m))"
    have le: "?n + m + (length (bits key) - ?n - m) \<le> N" using length_le [OF key(1)] m(3) lt by simp
    have kr: "ok kr" "bits kr = drop (?n + m) (bits key)"
      using ok_substr [OF key(1) le] bits_substr [OF key(1) le] m(3) lt by (simp_all add: kr_def zext_def)
    have krn: "bits kr \<noteq> []" "hd (bits kr) = bits key ! (?n + m)"
      using kr(2) False m(3) lt by (simp_all add: hd_drop_conv_nth)
    have "bits key = (?P @ bits ka) @ bits kr" using Pa kr(2) by (metis append_take_drop_id)
    then have wr: "wf ((?P @ bits ka) @ bits kr) (RNode [(rx_nul R key, RLeaf key v)])"
      using nul key(1) by simp
    have "hd (bits kb) \<noteq> hd (bits kr)" using kb(4) krn(2) m(5) mk m(3) False by simp
    then have "\<forall>x \<in> set A. \<not> is_leaf (snd x) \<longrightarrow> hd (bits (fst x)) \<noteq> hd (bits kr)" using setA by simp
    from wf_add_inner [OF A(1) kr(1) krn(1) wr _ _ this] show ?thesis
      using False A(2) An by (simp add: B_def kr_def compact_single del: rwf.simps(2) compact.simps(2) of_nat_add of_nat_diff)
  qed
  define f where "f = (\<lambda>cs. child_set R ka (RNode B) (child_erase k cs))"
  have uniq: "\<forall>x \<in> set (child_erase k cs). \<not> is_leaf (snd x) \<longrightarrow> hd (bits (fst x)) \<noteq> hd (bits ka)"
  proof (intro ballI impI)
    fix x assume x: "x \<in> set (child_erase k cs)" "\<not> is_leaf (snd x)"
    then have "(fst x, snd x) \<in> set cs" "fst x \<noteq> k" by (auto simp: child_erase_def al_delete_def)
    then show "hd (bits (fst x)) \<noteq> hd (bits ka)"
      using wf_child_unique [OF w _ kc(1) x(2) kc(2)] ka(4) by metis
  qed
  have wfB: "wf (?P @ bits ka) (RNode B)" and Bn: "compact (RNode B)" using B by blast+
  note fw = wf_add_inner [OF wf_erase [OF w, of k] ka(1,3) wfB _ Bn uniq]
  have ne: "q \<noteq> [] \<longrightarrow> child_erase k cs \<noteq> []"
  proof
    assume "q \<noteq> []"
    then have co: "compact (RNode cs)" using cq by blast
    have "child_erase k cs \<noteq> []"
    proof
      assume "child_erase k cs = []"
      then have "\<forall>x \<in> set cs. fst x = k" by (auto simp: child_erase_def al_delete_def filter_empty_conv)
      moreover have "distinct (map fst cs)" using w by simp
      ultimately have "cs = [(k, c)]" using kc(1)
        by (cases cs; cases "tl cs") auto
      then show False using co kc(2) by simp
    qed
    then show "child_erase k cs \<noteq> []" .
  qed
  have fg: "set (greedy (RNode (f cs))) = insert (key, v) (set (greedy (RNode cs)))"
    using fw(2) B erase_greedy [OF w kc(1)] by (simp add: f_def)
  have "rt_prepend R q k key v t = Inr (modify_at q f t)"
  proof -
    have sub: "subtree t (q @ [k]) = Some c" using t(2) wc(5) by (simp add: subtree_append)
    have l: "rx_length R k = int (length (bits k))" using wc(1) by (rule length_bits)
    have l2: "rx_length R key - int ?n = int (length (bits key) - ?n)"
      using key(1) lt by (simp add: length_bits of_nat_diff)
    have e: "int (length (bits k)) - int m = int (length (bits k) - m)"
      "int (length (bits key) - ?n) - int m = int (length (bits key) - ?n - m)"
      "int ?n + int m = int (?n + m)"
      using mk m(3) by (simp_all add: of_nat_diff)
    have m0': "int m \<noteq> 0" using m0 by simp
    show ?thesis
      unfolding rt_prepend_def Let_def path_depth [OF q] l l2 m(1) e sub option.case if_not_P [OF m0']
      by (simp only: f_def B_def A_def ka_def kb_def of_nat_eq_iff)
  qed
  then show ?thesis
    using modify_insert [OF t, of f "(key, v)"] fw(1) fg
      fw(3) ne by (simp add: f_def del: rwf.simps greedy.simps compact.simps)
qed

text \<open>The operations on trees.\<close>

lemma wf_unique:
  assumes "wf pre t" "(k, v) \<in> set (greedy t)" "(k, v') \<in> set (greedy t)"
  shows "v = v'"
  using find_complete [OF assms(1,2)] find_complete [OF assms(1,3)] by simp

lemma rt_find_iff:
  assumes "rt_wf bits ok T" "ok key"
  shows "rt_find R T key = Some (k, v) \<longleftrightarrow> k = key \<and> (key, v) \<in> rt_set T"
proof (cases "rt_root T")
  case (Some root)
  have w: "wf [] root" "\<not> is_leaf root" using assms(1) Some by (auto simp: rt_wf_def)
  show ?thesis
  proof
    assume "rt_find R T key = Some (k, v)"
    then have "subtree root (find_path R key 0 root) = Some (RLeaf k v)"
      using Some by (auto simp: rt_find_def split: option.splits rnode.splits)
    then show "k = key \<and> (key, v) \<in> rt_set T"
      using find_sound [OF w assms(2), of k v] Some by (simp add: rt_set_def)
  next
    assume "k = key \<and> (key, v) \<in> rt_set T"
    then show "rt_find R T key = Some (k, v)"
      using find_complete [OF w(1), of key v] Some by (simp add: rt_set_def rt_find_def)
  qed
qed (simp add: rt_find_def rt_set_def)

lemma rt_set_unique: "rt_wf bits ok T \<Longrightarrow> (k, v) \<in> rt_set T \<Longrightarrow> (k, v') \<in> rt_set T \<Longrightarrow> v = v'"
  using wf_unique by (auto simp: rt_wf_def rt_set_def split: option.splits)

lemma rt_set_ok: "rt_wf bits ok T \<Longrightarrow> (k, v) \<in> rt_set T \<Longrightarrow> ok k"
  by (auto simp: rt_wf_def rt_set_def dest: wf_greedy split: option.splits)

lemma find_path_subtree: "wf pre t \<Longrightarrow> subtree t (find_path R key d t) \<noteq> None"
proof (induction t arbitrary: pre d rule: greedy.induct)
  case (2 cs)
  then show ?case
  proof (cases "List.find (selects key d) cs")
    case (Some x)
    obtain k c where f: "List.find (selects key d) cs = Some (k, c)" using Some by (cases x) simp
    then have kc: "(k, c) \<in> set cs" using find_SomeD [OF f] by simp
    note w = wf_child [OF 2(2) kc]
    have "subtree c (find_path R key (d + rx_length R k) c) \<noteq> None"
      by (rule 2(1) [OF kc, unfolded snd_conv, OF w(4)])
    then show ?thesis using f w(5) by (simp add: find_in_selects del: not_None_eq)
  qed (simp add: find_in_selects)
qed simp

lemma stop_within_key:
  assumes "wf [] root" "subtree root q = Some (RNode cs)" "pbits q = take (length (pbits q)) (zbits key)"
    and safe: "\<forall>kv \<in> set (greedy root). \<not> prefix (bits key @ [False]) (bits (fst kv))" and "ok key"
  shows "length (pbits q) \<le> length (bits key)"
proof (rule ccontr)
  assume "\<not> length (pbits q) \<le> length (bits key)"
  then have lt: "length (bits key) < length (pbits q)" by simp
  then have "q \<noteq> []" by auto
  then have "RNode cs \<noteq> RNode []" "wf (pbits q) (RNode cs)"
    using subtree_wf [OF assms(1,2)] by auto
  then have "greedy (RNode cs) \<noteq> []" using wf_nonempty by blast
  then obtain kv where kv: "kv \<in> set (greedy (RNode cs))" by (metis list.set_intros(1) neq_Nil_conv)
  then have s: "kv \<in> set (greedy root)" "prefix (pbits q) (bits (fst kv))"
    using subtree_greedy [OF assms(1,2), of "fst kv" "snd kv"] by auto
  have "length (pbits q) \<le> N"
    using s wf_greedy [OF assms(1), of "fst kv" "snd kv"] prefix_length_le [OF s(2)] length_le [of "fst kv"]
    by fastforce
  then have "replicate (N - length (bits key)) False = False # replicate (N - Suc (length (bits key))) False"
    using lt by (metis Suc_diff_Suc le_less_trans less_le_trans replicate_Suc not_le)
  then have "zbits key = (bits key @ [False]) @ replicate (N - Suc (length (bits key))) False"
    by (simp add: zext_def)
  then have "take (length (bits key) + 1) (zbits key) = bits key @ [False]" by simp
  moreover have "prefix (take (length (bits key) + 1) (zbits key)) (take (length (pbits q)) (zbits key))"
    using lt by (simp add: take_is_prefix prefix_def) (metis append_take_drop_id min.absorb1 take_take Suc_leI)
  ultimately have "prefix (bits key @ [False]) (pbits q)" using assms(3) by metis
  then show False using safe s prefix_order.trans by blast
qed

lemma rt_insert_correct:
  assumes "rt_wf bits ok T" "ok key" "rt_safe bits T key"
  shows "case rt_insert R T key v of (T', r) \<Rightarrow> rt_wf bits ok T'
    \<and> (if \<exists>v0. (key, v0) \<in> rt_set T then r = Inr False \<and> rt_set T' = rt_set T
       else r = Inr True \<and> rt_set T' = insert (key, v) (rt_set T))"
proof -
  define root where "root = (case rt_root T of None \<Rightarrow> RNode [] | Some r \<Rightarrow> r)"
  have w: "wf [] root" "\<not> is_leaf root" and sz: "rt_size T = card (set (greedy root))"
    and st: "rt_set T = set (greedy root)"
    using assms(1) by (auto simp: rt_wf_def root_def rt_set_def split: option.splits)
  have safe: "\<forall>kv \<in> set (greedy root). \<not> prefix (bits key @ [False]) (bits (fst kv))"
    using assms(3) by (simp add: rt_safe_def st)
  let ?p = "find_path R key 0 root"
  have sub: "subtree root ?p \<noteq> None" using find_path_subtree [OF w(1)] by (simp del: not_None_eq)
  show ?thesis
  proof (cases "\<exists>v0. (key, v0) \<in> rt_set T")
    case True
    then obtain v0 where "(key, v0) \<in> set (greedy root)" by (auto simp: st)
    then have "subtree root ?p = Some (RLeaf key v0)" using find_complete [OF w(1)] by fastforce
    then have "rt_insert R T key v = (T\<lparr>rt_root := Some root\<rparr>, Inr False)"
      by (simp add: rt_insert_def root_def [symmetric] Let_def)
    then show ?thesis using w sz True st by (simp add: rt_wf_def rt_set_def)
  next
    case False
    have nl: "\<exists>ds. subtree root ?p = Some (RNode ds)"
    proof (cases "subtree root ?p")
      case (Some s)
      then show ?thesis
      proof (cases s)
        case (RLeaf k' v')
        then have "(key, v') \<in> set (greedy root)"
          using find_sound [OF w assms(2), of k' v'] Some by simp
        then show ?thesis using False by (auto simp: st)
      qed auto
    qed (use sub in simp)
    then obtain ds where ds: "subtree root ?p = Some (RNode ds)" by blast
    obtain q where "stops_at key [] ?p root q"
      using find_stops [OF w assms(2), of ds] ds by auto
    then obtain cs where q: "subtree root q = Some (RNode cs)" "pbits q = take (length (pbits q)) (zbits key)"
      "length (pbits q) \<le> N"
      and alt: "?p = q \<and> (length (pbits q) = length (bits key) \<longrightarrow> (\<forall>x \<in> set cs. \<not> is_leaf (snd x)))
             \<and> (length (pbits q) \<noteq> length (bits key) \<longrightarrow>
                  (\<forall>x \<in> set cs. \<not> is_leaf (snd x) \<longrightarrow> hd (bits (fst x)) \<noteq> zbits key ! length (pbits q)))
       \<or> (\<exists>k c. ?p = q @ [k] \<and> (k, c) \<in> set cs \<and> \<not> is_leaf c \<and> length (pbits q) \<noteq> length (bits key)
             \<and> hd (bits k) = zbits key ! length (pbits q)
             \<and> bits k \<noteq> take (length (bits k)) (drop (length (pbits q)) (zbits key)))"
      by (auto simp: stops_at_def Let_def)
    have le: "length (pbits q) \<le> length (bits key)"
      using stop_within_key [OF w(1) q(1,2) safe assms(2)] .
    have tk: "pbits q = take (length (pbits q)) (bits key)" using q(2) take_zbits [OF le] by simp
    have nth: "length (pbits q) \<noteq> length (bits key) \<Longrightarrow> zbits key ! length (pbits q) = bits key ! length (pbits q)"
      using le by (simp add: zext_def nth_append)
    have okq: "\<forall>k \<in> set q. ok k" using subtree_wf [OF w(1) q(1)] by simp
    have goal: ?thesis if ins: "rt_insert R T key v = (T\<lparr>rt_size := rt_size T + 1, rt_root := Some t'\<rparr>, Inr True)"
      and t': "wf [] t'" "set (greedy t') = insert (key, v) (set (greedy root))" "is_leaf t' = is_leaf root" for t'
    proof -
      have "(key, v) \<notin> set (greedy root)" using False by (simp add: st)
      then have "card (set (greedy t')) = rt_size T + 1" by (simp add: t'(2) sz)
      then show ?thesis using ins t' w(2) False st by (simp add: rt_wf_def rt_set_def)
    qed
    from alt show ?thesis
    proof (elim disjE)
      assume a: "?p = q \<and> (length (pbits q) = length (bits key) \<longrightarrow> (\<forall>x \<in> set cs. \<not> is_leaf (snd x)))
             \<and> (length (pbits q) \<noteq> length (bits key) \<longrightarrow>
                  (\<forall>x \<in> set cs. \<not> is_leaf (snd x) \<longrightarrow> hd (bits (fst x)) \<noteq> zbits key ! length (pbits q)))"
      then have pq: "?p = q" by (rule conjunct1)
      have ap: "wf [] (rt_append R q key v root)
          \<and> set (greedy (rt_append R q key v root)) = insert (key, v) (set (greedy root))
          \<and> is_leaf (rt_append R q key v root) = is_leaf root"
      proof (rule append_correct [OF w(1) q(1) assms(2) tk le])
        show "length (pbits q) = length (bits key) \<longrightarrow> (\<forall>x \<in> set cs. \<not> is_leaf (snd x))"
          by (rule conjunct1 [OF conjunct2 [OF a]])
        show "length (pbits q) \<noteq> length (bits key) \<longrightarrow>
            (\<forall>x \<in> set cs. \<not> is_leaf (snd x) \<longrightarrow> hd (bits (fst x)) \<noteq> bits key ! length (pbits q))"
        proof
          assume ne: "length (pbits q) \<noteq> length (bits key)"
          show "\<forall>x \<in> set cs. \<not> is_leaf (snd x) \<longrightarrow> hd (bits (fst x)) \<noteq> bits key ! length (pbits q)"
            unfolding nth [OF ne, symmetric] by (rule mp [OF conjunct2 [OF conjunct2 [OF a]] ne])
        qed
      qed
      have "rx_substr R key (path_depth R (butlast q)) (rx_length R (last q)) = last q" if "q \<noteq> []"
      proof -
        have ql: "pbits q = pbits (butlast q) @ bits (last q)" "ok (last q)"
          using that okq by (cases q rule: rev_cases; simp)+
        have "\<forall>k \<in> set (butlast q). ok k" using okq by (auto dest: in_set_butlastD)
        then have d: "path_depth R (butlast q) = int (length (pbits (butlast q)))" by (rule path_depth)
        have nle: "length (pbits (butlast q)) + length (bits (last q)) \<le> N" using ql q(3) by simp
        have "bits (last q) = take (length (bits (last q))) (drop (length (pbits (butlast q))) (zbits key))"
          using q(2) ql(1) by (metis append_eq_conv_conj drop_take length_append add_diff_cancel_left')
        then show ?thesis
          using bits_substr [OF assms(2) nle] ok_substr [OF assms(2) nle] ql(2) bits_inject d
          by (simp add: length_bits)
      qed
      then have "rt_insert R T key v = (T\<lparr>rt_size := rt_size T + 1, rt_root := Some (rt_append R q key v root)\<rparr>, Inr True)"
        using ds pq by (simp add: rt_insert_def root_def [symmetric] Let_def)
      then show ?thesis by (rule goal) (use ap in blast)+
    next
      assume "\<exists>k c. ?p = q @ [k] \<and> (k, c) \<in> set cs \<and> \<not> is_leaf c \<and> length (pbits q) \<noteq> length (bits key)
             \<and> hd (bits k) = zbits key ! length (pbits q)
             \<and> bits k \<noteq> take (length (bits k)) (drop (length (pbits q)) (zbits key))"
      then obtain k c where a: "?p = q @ [k]" "(k, c) \<in> set cs" "\<not> is_leaf c"
          "length (pbits q) \<noteq> length (bits key)" "hd (bits k) = bits key ! length (pbits q)"
          "bits k \<noteq> take (length (bits k)) (drop (length (pbits q)) (zbits key))"
        using nth by auto
      have lt: "length (pbits q) < length (bits key)" using a(4) le by simp
      obtain t' where t': "rt_prepend R q k key v root = Inr t'" "wf [] t'"
          "set (greedy t') = insert (key, v) (set (greedy root))" "is_leaf t' = is_leaf root"
        using prepend_correct [OF w(1) q(1) assms(2) tk lt a(2,3,5,6), of v] by blast
      have wq: "wf (pbits q) (RNode cs)" using subtree_wf [OF w(1) q(1)] by simp
      note wk = wf_child [OF wq a(2)]
      have nle: "length (pbits q) + length (bits k) \<le> N" using inner_child_length [OF wq a(2)] .
      have "rx_substr R key (path_depth R q) (rx_length R k) \<noteq> k"
        using bits_substr [OF assms(2) nle] a(6) wk(1) by (metis length_bits path_depth [OF okq])
      then have "rt_insert R T key v = (T\<lparr>rt_size := rt_size T + 1, rt_root := Some t'\<rparr>, Inr True)"
        using ds a(1) t'(1) by (simp add: rt_insert_def root_def [symmetric] Let_def)
      then show ?thesis by (rule goal) (use t' in blast)+
    qed
  qed
qed

text \<open>Assignment through \<open>operator[]\<close>.\<close>

lemma child_disjoint:
  assumes wt: "wf pre (RNode ds)" and jc: "(j, c) \<in> set ds" and jc': "(j', c') \<in> set ds"
    and kv: "(k, v) \<in> set (greedy c)" "(k, v') \<in> set (greedy c')"
  shows "j = j'"
proof (rule ccontr)
  assume ne: "j \<noteq> j'"
  note w = wf_child [OF wt jc] and w' = wf_child [OF wt jc']
  have p: "prefix (pre @ bits j) (bits k)" "prefix (pre @ bits j') (bits k)"
    using wf_greedy [OF w(4) kv(1)] wf_greedy [OF w'(4) kv(2)] by auto
  have "\<not> is_leaf c' \<or> \<not> is_leaf c"
    using bits_inject [OF w'(1) w(1)] w'(2) w(2) ne by metis
  moreover have "bits k = pre" if "is_leaf c" using that kv(1) w(2,4) by (cases c) auto
  moreover have "bits k = pre" if "is_leaf c'" using that kv(2) w'(2,4) by (cases c') auto
  ultimately have nl: "\<not> is_leaf c" "\<not> is_leaf c'" using p w(2) w'(2) by (auto simp: prefix_def)
  then have "hd (bits j) = hd (bits j')"
    using prefix_same_hd [OF p] w(2) w'(2) by simp
  then show False using wf_child_unique [OF wt jc jc' nl] ne by simp
qed

lemma set_leaf_leaf: "is_leaf (set_leaf q v u) = is_leaf u"
  by (cases "(q, v, u)" rule: set_leaf.cases) auto

lemma set_leaf_props:
  assumes "wf pre t" "subtree t p = Some (RLeaf k v0)"
  shows "wf pre (set_leaf p v t) \<and> is_leaf (set_leaf p v t) = is_leaf t \<and> (compact t \<longrightarrow> compact (set_leaf p v t))
    \<and> set (greedy (set_leaf p v t)) = insert (k, v) {kv \<in> set (greedy t). fst kv \<noteq> k}"
  using assms
proof (induction p arbitrary: pre t)
  case Nil
  then show ?case by auto
next
  case (Cons j p)
  then obtain ds c where t: "t = RNode ds" and c: "map_of ds j = Some c" "subtree c p = Some (RLeaf k v0)"
    by (cases t) (auto split: option.splits)
  have jc: "(j, c) \<in> set ds" using c(1) by (rule map_of_SomeD)
  note wt = Cons.prems(1) [unfolded t]
  note w = wf_child [OF wt jc]
  note ih = Cons.IH [OF w(4) c(2)]
  note lf = set_leaf_leaf
  have d: "distinct (map fst ds)" using wt by simp
  have jq: "q = (j, c)" if "q \<in> set ds" "fst q = j" for q
    using that jc d by (metis eq_key_imp_eq_value prod.collapse)
  define g where "g q = (fst q, if fst q = j then set_leaf p v (snd q) else snd q)" for q
  have e: "set_leaf (j # p) v t = RNode (map g ds)" by (simp add: t g_def case_prod_unfold)
  have fg: "map fst (map g ds) = map fst ds" by (simp add: g_def)
  have g1: "ok (fst (g q)) \<and> is_leaf (snd (g q)) = (bits (fst (g q)) = []) \<and> compact (snd (g q))
      \<and> wf (pre @ bits (fst (g q))) (snd (g q))" if q: "q \<in> set ds" for q
  proof (cases "fst q = j")
    case True
    then have "q = (j, c)" using q jq by simp
    then show ?thesis using w ih by (simp add: g_def lf)
  next
    case False
    have "(fst q, snd q) \<in> set ds" using q by simp
    from wf_child [OF wt this] False show ?thesis by (simp add: g_def)
  qed
  have g2: "g q = g r" if "q \<in> set ds" "r \<in> set ds" "\<not> is_leaf (snd (g q))" "\<not> is_leaf (snd (g r))"
      "hd (bits (fst (g q))) = hd (bits (fst (g r)))" for q r
  proof -
    have "\<not> is_leaf (snd q)" "\<not> is_leaf (snd r)" "hd (bits (fst q)) = hd (bits (fst r))"
      using that(3-5) by (simp_all add: g_def lf split: if_splits)
    moreover have "(fst q, snd q) \<in> set ds" "(fst r, snd r) \<in> set ds" using that(1,2) by simp_all
    ultimately have "fst q = fst r \<and> snd q = snd r" using wf_child_unique [OF wt] by metis
    then show ?thesis by (simp add: g_def)
  qed
  have 1: "wf pre (set_leaf (j # p) v t)"
    unfolding e rwf.simps fg using d g1 g2 by auto
  have 2: "compact t \<longrightarrow> compact (set_leaf (j # p) v t)"
    by (auto simp: e t g_def lf split: list.splits)
  have kc: "(k, v0) \<in> set (greedy c)"
  proof -
    have "(k, v0) \<in> set (greedy u)" if "subtree u q = Some (RLeaf k v0)" for q u
      using that
    proof (induction u q rule: subtree.induct)
      case (2 cs j q)
      then obtain c' where c': "map_of cs j = Some c'" "subtree c' q = Some (RLeaf k v0)" by (auto split: option.splits)
      then have "(k, v0) \<in> set (greedy c')" using 2 by simp
      then show ?case using map_of_SomeD [OF c'(1)] by force
    qed auto
    then show ?thesis using c(2) by blast
  qed
  have other: "fst kv \<noteq> k" if "q \<in> set ds" "fst q \<noteq> j" "kv \<in> set (greedy (snd q))" for q kv
  proof
    assume "fst kv = k"
    then have "(k, snd kv) \<in> set (greedy (snd q))" using that(3) by (cases kv) auto
    then show False using child_disjoint [OF wt jc _ kc, of "fst q" "snd q" "snd kv"] that(1,2) by simp
  qed
  have 3: "set (greedy (set_leaf (j # p) v t)) = insert (k, v) {kv \<in> set (greedy t). fst kv \<noteq> k}"
  proof (intro set_eqI iffI)
    fix x assume "x \<in> set (greedy (set_leaf (j # p) v t))"
    then obtain q where q: "q \<in> set ds" "x \<in> set (greedy (snd (g q)))" by (auto simp: e)
    then show "x \<in> insert (k, v) {kv \<in> set (greedy t). fst kv \<noteq> k}"
    proof (cases "fst q = j")
      case True
      then have "x \<in> set (greedy (set_leaf p v c))" using q(2) jq [OF q(1) True] by (simp add: g_def)
      then have "x \<in> insert (k, v) {kv \<in> set (greedy c). fst kv \<noteq> k}" using ih by blast
      moreover have "set (greedy c) \<subseteq> set (greedy t)" using jc by (force simp: t)
      ultimately show ?thesis by blast
    next
      case False
      then have "x \<in> set (greedy (snd q))" using q(2) by (simp add: g_def)
      then show ?thesis using other [OF q(1) False] q(1) by (auto simp: t)
    qed
  next
    fix x assume x: "x \<in> insert (k, v) {kv \<in> set (greedy t). fst kv \<noteq> k}"
    show "x \<in> set (greedy (set_leaf (j # p) v t))"
    proof (cases "x = (k, v)")
      case True
      then have "x \<in> set (greedy (snd (g (j, c))))" using ih by (simp add: g_def)
      then show ?thesis using jc by (force simp: e)
    next
      case False
      then obtain q where q: "q \<in> set ds" "x \<in> set (greedy (snd q))" "fst x \<noteq> k" using x by (auto simp: t)
      have "x \<in> set (greedy (snd (g q)))"
        using q jq [OF q(1)] ih by (cases "fst q = j") (auto simp: g_def)
      then show ?thesis using q(1) by (force simp: e)
    qed
  qed
  show ?case using 1 2 3 by (simp add: lf)
qed

lemma rt_assign_correct:
  assumes "rt_wf bits ok T" "ok key" "rt_safe bits T key"
  shows "case rt_assign R T key v of (T', e) \<Rightarrow> e = None \<and> rt_wf bits ok T'
    \<and> rt_set T' = insert (key, v) {kv \<in> rt_set T. fst kv \<noteq> key}"
proof (cases "rt_find R T key")
  case None
  then have new: "\<not> (\<exists>v0. (key, v0) \<in> rt_set T)" using rt_find_iff [OF assms(1,2)] by (metis option.distinct(1))
  then have "{kv \<in> rt_set T. fst kv \<noteq> key} = rt_set T" by force
  then show ?thesis using rt_insert_correct [OF assms, of v] new None
    by (auto simp: rt_assign_def split: prod.splits)
next
  case (Some kv)
  obtain v0 where kv: "kv = (key, v0)" "(key, v0) \<in> rt_set T"
    using Some rt_find_iff [OF assms(1,2)] by (cases kv) auto
  then obtain root where root: "rt_root T = Some root" by (auto simp: rt_set_def split: option.splits)
  then have w: "wf [] root" "\<not> is_leaf root" and sz: "rt_size T = card (set (greedy root))"
    using assms(1) by (auto simp: rt_wf_def)
  have st: "rt_set T = set (greedy root)" by (simp add: rt_set_def root)
  have "subtree root (find_path R key 0 root) = Some (RLeaf key v0)"
    using find_complete [OF w(1)] kv(2) st by fastforce
  note s = set_leaf_props [OF w(1) this, of v]
  define S where "S = {kv \<in> set (greedy root). fst kv \<noteq> key}"
  have "set (greedy root) = insert (key, v0) S"
    using kv(2) wf_unique [OF w(1)] st by (auto simp: S_def prod_eq_iff)
  moreover have "card (insert x S) = Suc (card S)" if "fst x = key" for x
    using that by (intro card_insert_disjoint) (auto simp: S_def)
  ultimately have "rt_size T = card (insert (key, v) S)" by (simp add: sz)
  then show ?thesis using s w(2) Some root by (simp add: rt_assign_def rt_wf_def rt_set_def S_def)
qed

text \<open>Removal.\<close>

lemma child_erase_mapped:
  "child_erase k (map (\<lambda>(k', c). (k', if k' = k then h c else c)) cs) = child_erase k cs"
  by (induction cs) (auto simp: child_erase_def al_delete_def)

lemma modify_modify_erase:
  "modify_at q (\<lambda>cs. F (child_erase k cs)) (modify_at (q @ [k]) h t) = modify_at q (\<lambda>cs. F (child_erase k cs)) t"
proof (induction q arbitrary: t)
  case Nil
  show ?case by (cases t) (simp_all add: child_erase_mapped)
next
  case (Cons j q)
  then show ?case by (cases t) auto
qed

lemma map_of_mapped:
  "map_of (map (\<lambda>(k', c). (k', if k' = k then h c else c)) cs) k = map_option h (map_of cs k)"
  by (induction cs) auto

lemma subtree_modify: "subtree t q = Some (RNode cs) \<Longrightarrow> subtree (modify_at q f t) q = Some (RNode (f cs))"
proof (induction q arbitrary: t)
  case (Cons j q)
  then show ?case by (cases t) (auto simp: map_of_mapped split: option.splits)
qed simp

lemma modify_delete:
  assumes "wf [] t" "subtree t q = Some (RNode cs)" "prefix (pbits q) (bits key)"
    and "wf (pbits q) (RNode (f cs))" "q \<noteq> [] \<longrightarrow> compact (RNode (f cs))"
    and "set (greedy (RNode (f cs))) = {kv \<in> set (greedy (RNode cs)). fst kv \<noteq> key}"
  shows "wf [] (modify_at q f t) \<and> set (greedy (modify_at q f t)) = {kv \<in> set (greedy t). fst kv \<noteq> key}
    \<and> is_leaf (modify_at q f t) = is_leaf t"
proof -
  have "kv \<in> set (greedy (RNode cs)) \<longleftrightarrow> kv \<in> set (greedy t) \<and> prefix (pbits q) (bits (fst kv))" for kv
    using subtree_greedy [OF assms(1,2), of "fst kv" "snd kv"] by simp
  then have "set (greedy (modify_at q f t)) = {kv \<in> set (greedy t). fst kv \<noteq> key}"
    unfolding modify_greedy [OF assms(1,2), of f] assms(6) append_Nil using assms(3) by blast
  moreover have "wf [] (modify_at q f t)" using modify_wf [OF assms(1,2), of f] assms(4,5) by simp
  ultimately show ?thesis by (simp add: modify_leaf)
qed

lemma erase_child_greedy:
  assumes w: "wf P (RNode cs)" and jc: "(j, c) \<in> set cs" and kv: "(key, v) \<in> set (greedy c)"
    and one: "{kv \<in> set (greedy c). fst kv \<noteq> key} = X"
  shows "set (greedy (RNode (child_erase j cs))) \<union> X = {kv \<in> set (greedy (RNode cs)). fst kv \<noteq> key}"
proof -
  have "fst kv \<noteq> key" if mem: "kv \<in> set (greedy (RNode (child_erase j cs)))" for kv
  proof
    assume "fst kv = key"
    then have e: "(key, snd kv) = kv" by (cases kv) simp
    obtain q where "q \<in> set (child_erase j cs)" "kv \<in> set (greedy (snd q))" using mem by auto
    then have "q \<in> set cs" "fst q \<noteq> j" "(key, snd kv) \<in> set (greedy (snd q))"
      unfolding e by (simp_all add: child_erase_def al_delete_def)
    then show False using child_disjoint [OF w jc _ kv, of "fst q" "snd q" "snd kv"] by simp
  qed
  then show ?thesis unfolding erase_greedy [OF w jc] one [symmetric] by blast
qed

lemma compact_inner_length:
  assumes "compact (RNode cs)" "(j, c) \<in> set cs" "\<not> is_leaf c" "wf P (RNode cs)"
  shows "child_erase j cs \<noteq> []"
proof
  assume "child_erase j cs = []"
  then have "\<forall>x \<in> set cs. fst x = j" by (auto simp: child_erase_def al_delete_def filter_empty_conv)
  moreover have "distinct (map fst cs)" using assms(4) by simp
  ultimately have "cs = [(j, c)]" using assms(2) by (cases cs; cases "tl cs") auto
  then show False using assms(1,3) by simp
qed

lemma merge_children:
  assumes w: "wf P (RNode cs)" and jc: "(j, RNode ds) \<in> set cs" and uk: "(uk, u) \<in> set ds" "\<not> is_leaf u"
    and kv: "(key, v) \<in> set (greedy (RNode ds))" "{kv \<in> set (greedy (RNode ds)). fst kv \<noteq> key} = set (greedy u)"
  shows "wf P (RNode (child_set R (rx_join R j uk) u (child_erase j cs)))"
    and "set (greedy (RNode (child_set R (rx_join R j uk) u (child_erase j cs)))) =
      {kv \<in> set (greedy (RNode cs)). fst kv \<noteq> key}"
    and "compact (RNode cs) \<Longrightarrow> compact (RNode (child_set R (rx_join R j uk) u (child_erase j cs)))"
proof -
  note wj = wf_child [OF w jc]
  note wu = wf_child [OF wj(4) uk(1)]
  have "length (bits j) + length (bits uk) \<le> N" using inner_child_length [OF wj(4) uk(1)] by simp
  then have jn: "ok (rx_join R j uk)" "bits (rx_join R j uk) = bits j @ bits uk"
    using ok_join [OF wj(1) wu(1)] bits_join [OF wj(1) wu(1)] by auto
  have ne: "bits j \<noteq> []" using wj(2) by simp
  then have hd: "hd (bits (rx_join R j uk)) = hd (bits j)" by (simp add: jn(2))
  have uniq: "\<forall>x \<in> set (child_erase j cs). \<not> is_leaf (snd x) \<longrightarrow> hd (bits (fst x)) \<noteq> hd (bits (rx_join R j uk))"
  proof (intro ballI impI)
    fix x assume x: "x \<in> set (child_erase j cs)" "\<not> is_leaf (snd x)"
    then have "(fst x, snd x) \<in> set cs" "fst x \<noteq> j" by (auto simp: child_erase_def al_delete_def)
    then show "hd (bits (fst x)) \<noteq> hd (bits (rx_join R j uk))"
      using wf_child_unique [OF w _ jc x(2)] hd by fastforce
  qed
  have jn': "bits (rx_join R j uk) \<noteq> []" using ne jn(2) by simp
  have wu': "wf (P @ bits (rx_join R j uk)) u" using wu(4) jn(2) by simp
  note a = wf_add_inner [OF wf_erase [OF w, of j] jn(1) jn' wu' uk(2) wu(6) uniq]
  show "wf P (RNode (child_set R (rx_join R j uk) u (child_erase j cs)))" by (rule a(1))
  show "set (greedy (RNode (child_set R (rx_join R j uk) u (child_erase j cs)))) =
      {kv \<in> set (greedy (RNode cs)). fst kv \<noteq> key}"
    unfolding a(2) erase_child_greedy [OF w jc kv, symmetric] by blast
  show "compact (RNode cs) \<Longrightarrow> compact (RNode (child_set R (rx_join R j uk) u (child_erase j cs)))"
    using a(3) compact_inner_length [OF _ jc _ w] by (simp del: compact.simps)
qed

lemma rt_erase_correct:
  assumes "rt_wf bits ok T" "ok key"
  shows "case rt_erase R T key of (T', b) \<Rightarrow> rt_wf bits ok T' \<and> b = (\<exists>v. (key, v) \<in> rt_set T)
    \<and> rt_set T' = {kv \<in> rt_set T. fst kv \<noteq> key}"
proof (cases "rt_root T")
  case None
  then show ?thesis using assms(1) by (simp add: rt_erase_def rt_set_def)
next
  case (Some root)
  have w: "wf [] root" "\<not> is_leaf root" and sz: "rt_size T = card (set (greedy root))"
    and st: "rt_set T = set (greedy root)"
    using assms(1) Some by (auto simp: rt_wf_def rt_set_def)
  let ?p = "find_path R key 0 root"
  show ?thesis
  proof (cases "\<exists>v. (key, v) \<in> rt_set T")
    case False
    have "\<not> (\<exists>k v. subtree root ?p = Some (RLeaf k v))"
      using find_sound [OF w assms(2)] False by (auto simp: st)
    then have "rt_erase R T key = (T, False)"
      by (auto simp: rt_erase_def Some Let_def split: option.splits rnode.splits)
    moreover have "{kv \<in> rt_set T. fst kv \<noteq> key} = rt_set T" using False by force
    ultimately show ?thesis using assms(1) False by simp
  next
    case True
    then obtain v where v: "(key, v) \<in> set (greedy root)" by (auto simp: st)
    have leaf: "subtree root ?p = Some (RLeaf key v)" using find_complete [OF w(1) v] by simp
    obtain q k where q: "?p = q @ [k]" "bits k = []" "pbits q = bits key"
      using find_sound [OF w assms(2)] leaf by auto
    obtain cs where cs: "subtree root q = Some (RNode cs)" "map_of cs k = Some (RLeaf key v)"
      using subtree_nonleaf_path [of root q k] leaf q(1) by metis
    have wq: "wf (pbits q) (RNode cs)" using subtree_wf [OF w(1) cs(1)] by simp
    have kc: "(k, RLeaf key v) \<in> set cs" using cs(2) by (rule map_of_SomeD)
    have nul: "rx_nul R key = k"
      using nul_props [OF assms(2)] wf_child(1) [OF wq kc] q(2) bits_inject by simp
    define cs1 where "cs1 = child_erase k cs"
    have w1: "wf (pbits q) (RNode cs1)" unfolding cs1_def by (rule wf_erase [OF wq])
    have g1: "set (greedy (RNode cs1)) = {kv \<in> set (greedy (RNode cs)). fst kv \<noteq> key}"
      using erase_child_greedy [OF wq kc, of key v "{}"] by (simp add: cs1_def)
    define root1 where "root1 = modify_at q (child_erase k) root"
    have sub1: "subtree root1 q = Some (RNode cs1)"
      unfolding root1_def cs1_def by (rule subtree_modify [OF cs(1)])
    define root2 where "root2 = (if q = [] \<or> length cs1 > 1 then root1
       else if cs1 = [] then erase_merge R (butlast q) (modify_at (butlast q) (child_erase (last q)) root1)
       else erase_merge R q root1)"
    have er: "rt_erase R T key = (\<lparr>rt_size = rt_size T - 1, rt_root = Some root2\<rparr>, True)"
      by (simp add: rt_erase_def Some Let_def leaf [unfolded q(1)] q(1) nul root1_def [symmetric] sub1 root2_def)
    define good where "good t \<longleftrightarrow> wf [] t \<and> set (greedy t) = {kv \<in> set (greedy root). fst kv \<noteq> key}
        \<and> is_leaf t = is_leaf root" for t
    have pq: "prefix (pbits r) (bits key)" if "prefix r q" for r
      using that q(3) by (metis concat_append map_append prefixE prefixI)
    have del: "good (modify_at r f root)"
      if "prefix r q" "subtree root r = Some (RNode ds)" "wf (pbits r) (RNode (f ds))"
        "r \<noteq> [] \<longrightarrow> compact (RNode (f ds))"
        "set (greedy (RNode (f ds))) = {kv \<in> set (greedy (RNode ds)). fst kv \<noteq> key}" for r f ds
      using modify_delete [OF w(1) that(2) pq [OF that(1)], of f] that(3-5) unfolding good_def by blast
    have "good root2"
    proof -
      consider "q = [] \<or> length cs1 > 1" | "q \<noteq> []" "cs1 = []" | x where "q \<noteq> []" "cs1 = [x]"
        by (cases cs1; cases "tl cs1") auto
      then show ?thesis
      proof cases
        case 1
        have "q \<noteq> [] \<longrightarrow> compact (RNode (child_erase k cs))"
          using 1 by (auto simp: cs1_def split: list.splits)
        then have "good root1"
          unfolding root1_def using del [OF _ cs(1), of "child_erase k"] w1 g1 unfolding cs1_def by blast
        then show ?thesis using 1 by (simp add: root2_def)
      next
        case 2
        then obtain g j where qg: "q = g @ [j]" by (cases q rule: rev_cases) auto
        obtain ds where ds: "subtree root g = Some (RNode ds)" "map_of ds j = Some (RNode cs)"
          using subtree_nonleaf_path [of root g j] cs(1) qg by metis
        have wg: "wf (pbits g) (RNode ds)" and cg: "g \<noteq> [] \<longrightarrow> compact (RNode ds)"
          using subtree_wf [OF w(1) ds(1)] by (simp_all del: compact.simps rwf.simps)
        have jd: "(j, RNode cs) \<in> set ds" using ds(2) by (rule map_of_SomeD)
        have kvd: "(key, v) \<in> set (greedy (RNode cs))" using kc by force
        have g2: "set (greedy (RNode (child_erase j ds))) = {kv \<in> set (greedy (RNode ds)). fst kv \<noteq> key}"
          using erase_child_greedy [OF wg jd kvd, of "{}"] g1 2(2) by simp
        have w2: "wf (pbits g) (RNode (child_erase j ds))" by (rule wf_erase [OF wg])
        have r2: "modify_at g (child_erase j) root1 = modify_at g (child_erase j) root"
          unfolding root1_def qg by (rule modify_modify_erase [of g "\<lambda>x. x" j])
        have root2: "root2 = erase_merge R g (modify_at g (child_erase j) root)"
          using 2 by (simp add: root2_def qg r2)
        have pg: "prefix g q" by (simp add: qg)
        show ?thesis
        proof (cases "g = [] \<or> (\<forall>uk u. child_erase j ds = [(uk, u)] \<longrightarrow> is_leaf u)")
          case True
          have "g \<noteq> [] \<longrightarrow> compact (RNode (child_erase j ds))"
            using True cg compact_inner_length [OF _ jd _ wg]
            by (auto split: list.splits)
          then have "good (modify_at g (child_erase j) root)"
            using del [OF pg ds(1), of "child_erase j"] w2 g2 by blast
          moreover have "root2 = modify_at g (child_erase j) root"
            using True subtree_modify [OF ds(1), of "child_erase j"]
            by (auto simp: root2 erase_merge_def split: option.splits rnode.splits list.splits)
          ultimately show ?thesis by simp
        next
          case False
          then obtain uk u where u: "child_erase j ds = [(uk, u)]" "\<not> is_leaf u" and gn: "g \<noteq> []" by auto
          obtain h i where gh: "g = h @ [i]" using gn by (cases g rule: rev_cases) auto
          obtain es where es: "subtree root h = Some (RNode es)" "map_of es i = Some (RNode ds)"
            using subtree_nonleaf_path [of root h i] ds(1) gh by metis
          have wh: "wf (pbits h) (RNode es)" and ch: "h \<noteq> [] \<longrightarrow> compact (RNode es)"
            using subtree_wf [OF w(1) es(1)] by (simp_all del: compact.simps rwf.simps)
          have ie: "(i, RNode ds) \<in> set es" using es(2) by (rule map_of_SomeD)
          have ud: "(uk, u) \<in> set ds" using u(1) by (auto simp: child_erase_def al_delete_def dest: filter_eq_ConsD)
          have kve: "(key, v) \<in> set (greedy (RNode ds))" using jd kvd by force
          have gu: "{kv \<in> set (greedy (RNode ds)). fst kv \<noteq> key} = set (greedy u)"
            using g2 u(1) by simp
          define F where "F = (\<lambda>cs. child_set R (rx_join R i uk) u (child_erase i cs))"
          note m = merge_children [OF wh ie ud u(2) kve gu]
          have "good (modify_at h F root)"
          proof (rule del [OF _ es(1)])
            show "prefix h q" by (simp add: qg gh)
            show "h \<noteq> [] \<longrightarrow> compact (RNode (F es))" using m(3) ch unfolding F_def by blast
          qed (use m(1,2) in \<open>simp_all only: F_def\<close>)
          moreover have "root2 = modify_at h F root"
            using subtree_modify [OF ds(1), of "child_erase j"] u
              modify_modify_erase [of h "\<lambda>cs. child_set R (rx_join R i uk) u cs" i "child_erase j" root]
            by (simp add: root2 erase_merge_def gh F_def)
          ultimately show ?thesis by simp
        qed
      next
        case (3 x)
        obtain uk u where x: "x = (uk, u)" by (cases x)
        obtain g j where qg: "q = g @ [j]" using 3(1) by (cases q rule: rev_cases) auto
        have root2: "root2 = erase_merge R q root1" using 3 by (simp add: root2_def)
        show ?thesis
        proof (cases "is_leaf u")
          case True
          then have "compact (RNode (child_erase k cs))" using 3(2) x by (simp add: cs1_def)
          then have "good root1"
            unfolding root1_def using del [OF _ cs(1), of "child_erase k"] w1 g1 unfolding cs1_def by blast
          moreover have "root2 = root1" using True sub1 3 x by (simp add: root2 erase_merge_def)
          ultimately show ?thesis by simp
        next
          case False
          obtain ds where ds: "subtree root g = Some (RNode ds)" "map_of ds j = Some (RNode cs)"
            using subtree_nonleaf_path [of root g j] cs(1) qg by metis
          have wg: "wf (pbits g) (RNode ds)" and cg: "g \<noteq> [] \<longrightarrow> compact (RNode ds)"
            using subtree_wf [OF w(1) ds(1)] by (simp_all del: compact.simps rwf.simps)
          have jd: "(j, RNode cs) \<in> set ds" using ds(2) by (rule map_of_SomeD)
          have kvd: "(key, v) \<in> set (greedy (RNode cs))" using kc by force
          have uc: "(uk, u) \<in> set cs"
            using 3(2) x by (auto simp: cs1_def child_erase_def al_delete_def dest: filter_eq_ConsD)
          have gu: "{kv \<in> set (greedy (RNode cs)). fst kv \<noteq> key} = set (greedy u)"
            using g1 3(2) x by simp
          define F where "F = (\<lambda>cs. child_set R (rx_join R j uk) u (child_erase j cs))"
          note m = merge_children [OF wg jd uc False kvd gu]
          have "good (modify_at g F root)"
          proof (rule del [OF _ ds(1)])
            show "prefix g q" by (simp add: qg)
            show "g \<noteq> [] \<longrightarrow> compact (RNode (F ds))" using m(3) cg unfolding F_def by blast
          qed (use m(1,2) in \<open>simp_all only: F_def\<close>)
          moreover have "root2 = modify_at g F root"
            using sub1 3 x False
              modify_modify_erase [of g "\<lambda>cs. child_set R (rx_join R j uk) u cs" j "child_erase k" root]
            by (simp add: root2 erase_merge_def qg F_def root1_def)
          ultimately show ?thesis by simp
        qed
      qed
    qed
    moreover have "card {kv \<in> set (greedy root). fst kv \<noteq> key} = rt_size T - 1"
    proof -
      have "{kv \<in> set (greedy root). fst kv \<noteq> key} = set (greedy root) - {(key, v)}"
        using v wf_unique [OF w(1)] by (auto simp: prod_eq_iff)
      then show ?thesis using v by (simp add: sz)
    qed
    ultimately show ?thesis using er True w(2) st by (simp add: rt_wf_def rt_set_def good_def)
  qed
qed

text \<open>
  Longest match of a full-length key. No inner child of the node where the
  search stops lies on the way to the key, so every stored prefix of the key
  is a leaf directly below a node of the path.
\<close>

lemma stored_prefix_on_path:
  assumes "wf pre t" "subtree t q = Some (RNode cs)" "ok key" "prefix (pre @ pbits q) (bits key)"
    and stuck: "\<And>j c. (j, c) \<in> set cs \<Longrightarrow> \<not> is_leaf c \<Longrightarrow> \<not> prefix (pre @ pbits q @ bits j) (bits key)"
    and "(k, v) \<in> set (greedy t)" "prefix (bits k) (bits key)"
  shows "\<exists>r. prefix r q \<and> pre @ pbits r = bits k \<and> nul_leaf (rx_nul R key) (subtree t r) = Some (k, v)"
  using assms
proof (induction q arbitrary: pre t)
  case Nil
  then obtain j c where jc: "(j, c) \<in> set cs" "(k, v) \<in> set (greedy c)" by auto
  have w0: "wf pre (RNode cs)" using Nil.prems(1,2) by simp
  note w = wf_child [OF w0 jc(1)]
  have pk: "prefix (pre @ bits j) (bits k)" using wf_greedy [OF w(4) jc(2)] by simp
  have "prefix (pre @ bits j) (bits key)" using pk Nil.prems(7) by (rule prefix_order.trans)
  then have leaf: "is_leaf c" using Nil.prems(5) [OF jc(1)] by auto
  then have c: "c = RLeaf k v" "bits j = []" "bits k = pre" using jc(2) w(2,4) by (cases c; auto)+
  then have "rx_nul R key = j" using nul_props [OF Nil.prems(3)] w(1) bits_inject by simp
  then show ?case using c w(5) Nil.prems(2) by auto
next
  case (Cons i q)
  then obtain ds d where t: "t = RNode ds" and d: "map_of ds i = Some d" "subtree d q = Some (RNode cs)"
    by (cases t) (auto split: option.splits)
  have id: "(i, d) \<in> set ds" using d(1) by (rule map_of_SomeD)
  note wt = Cons.prems(1) [unfolded t]
  note wi = wf_child [OF wt id]
  have nld: "\<not> is_leaf d" using d(2) by (cases d; cases q) auto
  obtain j c where jc: "(j, c) \<in> set ds" "(k, v) \<in> set (greedy c)" using Cons.prems(6) by (auto simp: t)
  note w = wf_child [OF wt jc(1)]
  have pk: "prefix (pre @ bits j) (bits k)" using wf_greedy [OF w(4) jc(2)] by simp
  show ?case
  proof (cases "is_leaf c")
    case True
    then have c: "c = RLeaf k v" "bits j = []" "bits k = pre" using jc(2) w(2,4) by (cases c; auto)+
    then have "rx_nul R key = j" using nul_props [OF Cons.prems(3)] w(1) bits_inject by simp
    then have "nul_leaf (rx_nul R key) (subtree t []) = Some (k, v)" using c w(5) by (simp add: t)
    then show ?thesis using c by (intro exI [of _ "[]"]) simp
  next
    case False
    have "prefix (pre @ bits j) (bits key)" using pk Cons.prems(7) by (rule prefix_order.trans)
    moreover have "prefix (pre @ bits i) (bits key)" using Cons.prems(4) by (auto simp: prefix_def)
    ultimately have "hd (bits j) = hd (bits i)"
      using prefix_same_hd w(2) wi(2) False nld by blast
    then have e: "j = i" "c = d" using wf_child_unique [OF wt jc(1) id False nld] by auto
    have "\<exists>r. prefix r q \<and> (pre @ bits i) @ pbits r = bits k
        \<and> nul_leaf (rx_nul R key) (subtree d r) = Some (k, v)"
      using Cons.IH [OF wi(4) d(2) Cons.prems(3)] Cons.prems(4,5,7) jc(2) e by simp
    then obtain r where "prefix r q" "(pre @ bits i) @ pbits r = bits k"
        "nul_leaf (rx_nul R key) (subtree d r) = Some (k, v)" by blast
    then show ?thesis using d(1) by (intro exI [of _ "i # r"]) (simp add: t)
  qed
qed

lemma walk_up_spec:
  assumes "walk_up nul root rp = Some kv"
  shows "\<exists>r. prefix r (rev rp) \<and> nul_leaf nul (subtree root r) = Some kv
    \<and> (\<forall>s x. prefix s (rev rp) \<and> nul_leaf nul (subtree root s) = Some x \<longrightarrow> prefix s r)"
  using assms
proof (induction rp)
  case Nil
  then show ?case by simp
next
  case (Cons j rp)
  show ?case
  proof (cases "nul_leaf nul (subtree root (rev (j # rp)))")
    case (Some x)
    then show ?thesis using Cons.prems by (intro exI [of _ "rev (j # rp)"]) simp
  next
    case None
    then obtain r where r: "prefix r (rev rp)" "nul_leaf nul (subtree root r) = Some kv"
        "\<forall>s x. prefix s (rev rp) \<and> nul_leaf nul (subtree root s) = Some x \<longrightarrow> prefix s r"
      using Cons by auto
    then show ?thesis using None
      by (intro exI [of _ r]) (auto simp: prefix_append prefix_Cons)
  qed
qed

lemma walk_up_None: "walk_up nul root rp = None \<Longrightarrow> prefix s (rev rp) \<Longrightarrow> nul_leaf nul (subtree root s) = None"
proof (induction rp)
  case (Cons j rp)
  have "nul_leaf nul (subtree root (rev (j # rp))) = None" "walk_up nul root rp = None"
    using Cons.prems(1) by (auto split: option.splits)
  moreover have "s = rev (j # rp) \<or> prefix s (rev rp)"
    using Cons.prems(2) by (simp add: prefix_snoc)
  ultimately show ?case using Cons.IH by auto
qed simp

lemma nul_leaf_stored:
  assumes "wf [] root" "nul_leaf (rx_nul R key) (subtree root r) = Some (k, v)" "ok key"
  shows "(k, v) \<in> set (greedy root) \<and> bits k = pbits r"
proof -
  obtain cs where cs: "subtree root r = Some (RNode cs)" "map_of cs (rx_nul R key) = Some (RLeaf k v)"
    using assms(2) by (cases "(rx_nul R key, subtree root r)" rule: nul_leaf.cases)
      (auto split: option.splits rnode.splits)
  have w: "wf (pbits r) (RNode cs)" using subtree_wf [OF assms(1) cs(1)] by simp
  have m: "(rx_nul R key, RLeaf k v) \<in> set cs" using cs(2) by (rule map_of_SomeD)
  have "(k, v) \<in> set (greedy (RNode cs))" using m by force
  then have "(k, v) \<in> set (greedy root)" using subtree_greedy [OF assms(1) cs(1)] by blast
  moreover have "bits k = pbits r" using wf_child(4) [OF w m] nul_props [OF assms(3)] by simp
  ultimately show ?thesis ..
qed

lemma longest_match_correct:
  assumes "rt_wf bits ok T" "ok key" "length (bits key) = N"
  shows "case longest_match R T key of
      Some (k, v) \<Rightarrow> (k, v) \<in> rt_set T \<and> prefix (bits k) (bits key)
        \<and> (\<forall>kv \<in> rt_set T. prefix (bits (fst kv)) (bits key) \<longrightarrow> length (bits (fst kv)) \<le> length (bits k))
    | None \<Rightarrow> (\<forall>kv \<in> rt_set T. \<not> prefix (bits (fst kv)) (bits key))"
proof (cases "rt_root T")
  case None
  then show ?thesis by (simp add: longest_match_def rt_set_def)
next
  case (Some root)
  have w: "wf [] root" "\<not> is_leaf root" and st: "rt_set T = set (greedy root)"
    using assms(1) Some by (auto simp: rt_wf_def rt_set_def)
  have zb: "zbits key = bits key" using assms(3) by (rule zbits_full)
  let ?p = "find_path R key 0 root"
  show ?thesis
  proof (cases "\<exists>k v. subtree root ?p = Some (RLeaf k v)")
    case True
    then obtain v where v: "subtree root ?p = Some (RLeaf key v)" "(key, v) \<in> set (greedy root)"
      using find_sound [OF w assms(2)] by fastforce
    then show ?thesis by (simp add: longest_match_def Some st prefix_length_le)
  next
    case False
    have "\<exists>ds. subtree root ?p = Some (RNode ds)"
    proof -
      obtain s where "subtree root ?p = Some s" using find_path_subtree [OF w(1)] by blast
      then show ?thesis using False by (cases s) auto
    qed
    then obtain ds where ds: "subtree root ?p = Some (RNode ds)" by blast
    obtain q where "stops_at key [] ?p root q"
      using find_stops [OF w assms(2), of ds] ds by auto
    then obtain cs where q: "subtree root q = Some (RNode cs)" "pbits q = take (length (pbits q)) (bits key)"
      and alt: "?p = q \<and> (length (pbits q) \<noteq> N \<longrightarrow>
                  (\<forall>x \<in> set cs. \<not> is_leaf (snd x) \<longrightarrow> hd (bits (fst x)) \<noteq> bits key ! length (pbits q)))
       \<or> (\<exists>k c. ?p = q @ [k] \<and> (k, c) \<in> set cs \<and> \<not> is_leaf c
             \<and> hd (bits k) = bits key ! length (pbits q)
             \<and> bits k \<noteq> take (length (bits k)) (drop (length (pbits q)) (bits key)))"
      unfolding stops_at_def Let_def zb append_Nil assms(3) by blast
    have wq: "wf (pbits q) (RNode cs)" and okq: "\<forall>k \<in> set q. ok k" using subtree_wf [OF w(1) q(1)] by auto
    have pq: "prefix (pbits q) (bits key)" using q(2) by (metis take_is_prefix)
    have stuck: "\<not> prefix (pbits q @ bits j) (bits key)" if jc: "(j, c) \<in> set cs" "\<not> is_leaf c" for j c
    proof
      assume pj: "prefix (pbits q @ bits j) (bits key)"
      note wj = wf_child [OF wq jc(1)]
      have jn: "bits j \<noteq> []" using wj(2) jc(2) by simp
      obtain z where z: "bits key = (pbits q @ bits j) @ z" using pj by (rule prefixE)
      have nth: "bits key ! length (pbits q) = hd (bits j)" using z jn by (simp add: nth_append hd_conv_nth)
      have ln: "length (pbits q) \<noteq> N" using z jn assms(3) by auto
      from alt show False
      proof
        assume a: "?p = q \<and> (length (pbits q) \<noteq> N \<longrightarrow>
                  (\<forall>x \<in> set cs. \<not> is_leaf (snd x) \<longrightarrow> hd (bits (fst x)) \<noteq> bits key ! length (pbits q)))"
        from bspec [OF mp [OF conjunct2 [OF a] ln] jc(1)] show False using jc(2) nth by simp
      next
        assume "\<exists>k c. ?p = q @ [k] \<and> (k, c) \<in> set cs \<and> \<not> is_leaf c
             \<and> hd (bits k) = bits key ! length (pbits q)
             \<and> bits k \<noteq> take (length (bits k)) (drop (length (pbits q)) (bits key))"
        then obtain k d where k: "(k, d) \<in> set cs" "\<not> is_leaf d" "hd (bits k) = bits key ! length (pbits q)"
            "bits k \<noteq> take (length (bits k)) (drop (length (pbits q)) (bits key))" by blast
        have "k = j" using wf_child_unique [OF wq k(1) jc(1) k(2) jc(2)] k(3) nth by simp
        then show False using k(4) z by simp
      qed
    qed
    have lm: "longest_match R T key = walk_up (rx_nul R key) root (rev q)"
    proof -
      have sub: "rx_substr R key (path_depth R r) (rx_length R j) = j \<longleftrightarrow>
          bits j = take (length (bits j)) (drop (length (pbits r)) (bits key))"
        if "\<forall>k \<in> set r. ok k" "ok j" "length (pbits r) + length (bits j) \<le> N" for r j
        using bits_substr [OF assms(2) that(3)] ok_substr [OF assms(2) that(3)] that(2) bits_inject
        by (metis length_bits path_depth [OF that(1)] zb)
      from alt show ?thesis
      proof
        assume a: "?p = q \<and> (length (pbits q) \<noteq> N \<longrightarrow>
                  (\<forall>x \<in> set cs. \<not> is_leaf (snd x) \<longrightarrow> hd (bits (fst x)) \<noteq> bits key ! length (pbits q)))"
        then have pq': "?p = q" by (rule conjunct1)
        have "rx_substr R key (path_depth R (butlast q)) (rx_length R (last q)) = last q" if "q \<noteq> []"
        proof -
          have ql: "pbits q = pbits (butlast q) @ bits (last q)" "ok (last q)"
            using that okq by (cases q rule: rev_cases; simp)+
          have le: "length (pbits (butlast q)) + length (bits (last q)) \<le> N"
            using prefix_length_le [OF pq] ql(1) assms(3) by simp
          have "bits (last q) = take (length (bits (last q))) (drop (length (pbits (butlast q))) (bits key))"
            using pq ql(1) by (auto simp: prefix_def)
          then show ?thesis using sub [of "butlast q" "last q"] okq ql(2) le by (auto dest: in_set_butlastD)
        qed
        then show ?thesis using ds pq' by (auto simp: longest_match_def Some Let_def)
      next
        assume "\<exists>k c. ?p = q @ [k] \<and> (k, c) \<in> set cs \<and> \<not> is_leaf c
             \<and> hd (bits k) = bits key ! length (pbits q)
             \<and> bits k \<noteq> take (length (bits k)) (drop (length (pbits q)) (bits key))"
        then obtain k c where k: "?p = q @ [k]" "(k, c) \<in> set cs"
            "bits k \<noteq> take (length (bits k)) (drop (length (pbits q)) (bits key))" by blast
        have "rx_substr R key (path_depth R q) (rx_length R k) \<noteq> k"
          using sub [OF okq] wf_child(1) [OF wq k(2)] inner_child_length [OF wq k(2)] k(3) by blast
        then show ?thesis using ds k(1) by (simp add: longest_match_def Some Let_def)
      qed
    qed
    have on_path: "\<exists>r. prefix r q \<and> pbits r = bits (fst kv) \<and> nul_leaf (rx_nul R key) (subtree root r) = Some kv"
      if "kv \<in> rt_set T" "prefix (bits (fst kv)) (bits key)" for kv
      using stored_prefix_on_path [OF w(1) q(1) assms(2), of "fst kv" "snd kv"] pq stuck that by (simp add: st)
    show ?thesis
    proof (cases "walk_up (rx_nul R key) root (rev q)")
      case None
      have "\<not> prefix (bits (fst kv)) (bits key)" if "kv \<in> rt_set T" for kv
        using on_path [OF that] walk_up_None [OF None] by fastforce
      then show ?thesis using lm None by simp
    next
      case (Some kv)
      obtain k v where kv: "kv = (k, v)" by (cases kv)
      obtain r where r: "prefix r q" "nul_leaf (rx_nul R key) (subtree root r) = Some (k, v)"
          "\<forall>s x. prefix s q \<and> nul_leaf (rx_nul R key) (subtree root s) = Some x \<longrightarrow> prefix s r"
        using walk_up_spec [OF Some] kv by auto
      have m: "(k, v) \<in> rt_set T" "bits k = pbits r" using nul_leaf_stored [OF w(1) r(2) assms(2)] st by auto
      have "prefix (pbits s) (pbits r)" if "prefix s r" for s r
        using that by (auto simp: prefix_def)
      then have "prefix (bits k) (bits key)" "\<And>x. x \<in> rt_set T \<Longrightarrow> prefix (bits (fst x)) (bits key)
          \<Longrightarrow> length (bits (fst x)) \<le> length (bits k)"
        using pq r(1,3) m(2) on_path by (metis prefix_order.trans, metis prefix_length_le)
      then show ?thesis using lm Some kv m(1) by simp
    qed
  qed
qed

end

end
