(* ===== verification/NdAddr.thy ===== *)
theory NdAddr
  imports NdSystem
begin

unbundle bit_operations_syntax

text \<open>
  Addresses (\<open>class ndAddr\<close> of \<open>src/include/nd-addr.hpp\<close>, \<open>src/src/nd-addr.cpp\<close>), on Linux.
  The union of socket addresses is a datatype with the fields of each variant;
  IP and hardware addresses are byte lists in network order, a port is the
  16-bit value stored in network order (so \<open>ntohs\<close> is \<open>bswap16\<close> on the
  little-endian hosts assumed). A \<open>Create\<close> function takes the object it fills
  and returns the status with the new object.
\<close>

datatype addr_type =
  atNONE | atLOCAL | atLOCALNET | atRESERVED | atMULTICAST | atBROADCAST | atOTHER | atERROR

datatype sockaddr =
    SA_unspec
  | SA_ll (ll_protocol: "16 word") (ll_ifindex: "32 word") (ll_hatype: "16 word")
          (ll_pkttype: byte) (ll_halen: byte) (ll_addr: bytes)
  | SA_in (in_port: "16 word") (in_addr: bytes) (in_zero: bytes)
  | SA_in6 (in6_port: "16 word") (in6_flowinfo: "32 word") (in6_addr: bytes) (in6_scope: "32 word")
  | SA_other nat

fun ss_family :: "sockaddr \<Rightarrow> sa_family" where
  "ss_family SA_unspec = AF_UNSPEC"
| "ss_family (SA_ll _ _ _ _ _ _) = AF_PACKET"
| "ss_family (SA_in _ _ _) = AF_INET"
| "ss_family (SA_in6 _ _ _ _) = AF_INET6"
| "ss_family (SA_other n) = AF_OTHER n"

record nd_addr =
  na_addr :: sockaddr
  na_prefix :: nat
  na_cached_flags :: byte
  na_cached_addr :: string
  na_comparison_flags :: byte

text \<open>\<open>cfADDR\<close>, \<open>cfPORT\<close>, \<open>cfPREFIX\<close> are bits 0, 1, 2; \<open>mfPREFIX\<close>, \<open>mfPORT\<close> bits 0, 1.\<close>

definition cfALL :: byte where "cfALL = 7"
definition mfALL :: byte where "mfALL = 3"

definition nd_addr_new :: "nat \<Rightarrow> nd_addr" where
  "nd_addr_new plen = \<lparr>na_addr = SA_unspec, na_prefix = plen, na_cached_flags = 0,
     na_cached_addr = [], na_comparison_flags = cfALL\<rparr>"

abbreviation na_family :: "nd_addr \<Rightarrow> sa_family" where
  "na_family a \<equiv> ss_family (na_addr a)"

definition IsValid :: "nd_addr \<Rightarrow> bool" where
  "IsValid a \<longleftrightarrow> na_family a \<noteq> AF_UNSPEC"

definition HasValidPrefix :: "nd_addr \<Rightarrow> bool" where
  "HasValidPrefix a \<longleftrightarrow> na_prefix a > 0 \<and>
     (na_family a = AF_INET \<and> na_prefix a \<le> 32 \<or> na_family a = AF_INET6 \<and> na_prefix a \<le> 128)"

definition IsNetwork :: "nd_addr \<Rightarrow> bool" where
  "IsNetwork a \<longleftrightarrow> (if \<not> HasValidPrefix a then False
     else if na_family a = AF_INET \<and> na_prefix a \<noteq> 32 then True
     else na_family a = AF_INET6 \<and> na_prefix a \<noteq> 128)"

definition ARPHRD_ETHER :: "16 word" where "ARPHRD_ETHER = 1"

definition IsEthernet :: "nd_addr \<Rightarrow> bool" where
  "IsEthernet a \<longleftrightarrow> (case na_addr a of SA_ll _ _ ha _ hl _ \<Rightarrow> ha = ARPHRD_ETHER \<and> hl = 6 | _ \<Rightarrow> False)"

definition IsIPv4 :: "nd_addr \<Rightarrow> bool" where
  "IsIPv4 a \<longleftrightarrow> na_family a = AF_INET"

definition IsIPv6 :: "nd_addr \<Rightarrow> bool" where
  "IsIPv6 a \<longleftrightarrow> na_family a = AF_INET6"

definition IsIP :: "nd_addr \<Rightarrow> bool" where
  "IsIP a \<longleftrightarrow> na_family a = AF_INET \<or> na_family a = AF_INET6"

section \<open>Construction\<close>

text \<open>\<open>std::stoul\<close>: \<open>None\<close> is an exception (no digits, or out of the 64-bit range).\<close>

definition stoul :: "nat \<Rightarrow> string \<Rightarrow> nat option" where
  "stoul base s0 =
     (let s1 = dropWhile isspace s0;
          (neg, s2) = (case s1 of c # r \<Rightarrow> if c = CHR ''-'' then (True, r)
                          else if c = CHR ''+'' then (False, r) else (False, s1) | [] \<Rightarrow> (False, s1));
          s3 = (case s2 of z # x # h # r \<Rightarrow>
                  if base = 16 \<and> z = CHR ''0'' \<and> (x = CHR ''x'' \<or> x = CHR ''X'') \<and> hex_val h \<noteq> None
                  then h # r else s2 | _ \<Rightarrow> s2);
          v = strtoul_digits base 0 s3
      in (case s3 of [] \<Rightarrow> None
          | c # _ \<Rightarrow> if digit_val base c = None \<or> v \<ge> 2 ^ 64 then None
                    else Some (if neg then (2 ^ 64 - v) mod 2 ^ 64 else v)))"

text \<open>Creation from a hardware address of a given length.\<close>

definition Create_hw :: "nd_addr \<Rightarrow> bytes \<Rightarrow> nat \<Rightarrow> bool \<times> nd_addr" where
  "Create_hw a hw_addr len =
     (if len = 6 then
        (True, a\<lparr>na_addr := (case na_addr a of
            SA_ll pr ix _ pk _ old \<Rightarrow> SA_ll pr ix ARPHRD_ETHER pk 6 (take 6 hw_addr @ drop 6 old)
          | _ \<Rightarrow> SA_ll 0 0 ARPHRD_ETHER 0 6 (take 6 hw_addr @ [0, 0]))\<rparr>)
      else (False, a))"

definition Create_ss :: "nd_addr \<Rightarrow> sockaddr \<Rightarrow> nat \<Rightarrow> bool \<times> nd_addr" where
  "Create_ss a ss plen =
     (case ss_family ss of
        AF_INET \<Rightarrow> if plen > 32 then (False, a)
          else (True, a\<lparr>na_prefix := (if plen \<noteq> 0 then plen else 32), na_addr := ss\<rparr>)
      | AF_INET6 \<Rightarrow> if plen > 128 then (False, a)
          else (True, a\<lparr>na_prefix := (if plen \<noteq> 0 then plen else 128), na_addr := ss\<rparr>)
      | _ \<Rightarrow> (False, a))"

definition Create_in :: "nd_addr \<Rightarrow> sockaddr \<Rightarrow> nat \<Rightarrow> bool \<times> nd_addr" where
  "Create_in a ss_in plen =
     (if ss_family ss_in \<noteq> AF_INET then (False, a)
      else if plen > 32 then (False, a)
      else (True, a\<lparr>na_addr := ss_in, na_prefix := (if plen \<noteq> 0 then plen else 32)\<rparr>))"

definition Create_in6 :: "nd_addr \<Rightarrow> sockaddr \<Rightarrow> nat \<Rightarrow> bool \<times> nd_addr" where
  "Create_in6 a ss_in6 plen =
     (if ss_family ss_in6 \<noteq> AF_INET6 then (False, a)
      else if plen > 128 then (False, a)
      else (True, a\<lparr>na_addr := ss_in6, na_prefix := (if plen \<noteq> 0 then plen else 128)\<rparr>))"

text \<open>The members of the union that a raw address leaves alone.\<close>

fun old_zero :: "sockaddr \<Rightarrow> bytes" where
  "old_zero (SA_in _ _ z) = z"
| "old_zero _ = replicate 8 0"

fun old_port :: "sockaddr \<Rightarrow> 16 word" where
  "old_port (SA_in p _ _) = p"
| "old_port (SA_in6 p _ _ _) = p"
| "old_port _ = 0"

fun old_flowinfo_scope :: "sockaddr \<Rightarrow> 32 word \<times> 32 word" where
  "old_flowinfo_scope (SA_in6 _ f _ s) = (f, s)"
| "old_flowinfo_scope _ = (0, 0)"

definition Create_in_addr :: "nd_addr \<Rightarrow> bytes \<Rightarrow> nat \<Rightarrow> bool \<times> nd_addr" where
  "Create_in_addr a addr plen =
     (if plen > 32 then (False, a)
      else (True, a\<lparr>na_addr := SA_in 0 addr (old_zero (na_addr a)),
                    na_prefix := (if plen \<noteq> 0 then plen else 32)\<rparr>))"

definition Create_in6_addr :: "nd_addr \<Rightarrow> bytes \<Rightarrow> nat \<Rightarrow> bool \<times> nd_addr" where
  "Create_in6_addr a addr plen =
     (if plen > 128 then (False, a)
      else (True, a\<lparr>na_addr := (case old_flowinfo_scope (na_addr a) of (f, s) \<Rightarrow> SA_in6 0 f addr s),
                    na_prefix := (if plen \<noteq> 0 then plen else 128)\<rparr>))"

text \<open>
  Creation from text: the hardware branch scans octets with \<open>getline\<close> on
  colons, \<open>None\<close> being the stream at its end.
\<close>

primrec hw_loop :: "nat \<Rightarrow> string option \<Rightarrow> bytes \<Rightarrow> bytes option" where
  "hw_loop 0 ss hw = Some hw"
| "hw_loop (Suc k) ss hw =
     (case ss of None \<Rightarrow> Some hw
      | Some s \<Rightarrow>
        (let byte = takeWhile (\<lambda>c. c \<noteq> CHR '':'') s; r = dropWhile (\<lambda>c. c \<noteq> CHR '':'') s
         in case stoul 16 byte of None \<Rightarrow> None
            | Some v \<Rightarrow> hw_loop k (if r = [] then None else Some (tl r)) (hw @ [byte_of (v mod 256)])))"

definition Create_str :: "inet_pton \<Rightarrow> nd_addr \<Rightarrow> string \<Rightarrow> bool \<times> nd_addr" where
  "Create_str pton a addr =
     (let (exn, a, addr') =
        (case find_first (\<lambda>c. c = CHR ''/'') addr of
           None \<Rightarrow> (False, a, addr)
         | Some p \<Rightarrow> (case stoul 10 (drop (Suc p) addr) of
               None \<Rightarrow> (True, a, addr)
             | Some v \<Rightarrow> (False, a\<lparr>na_prefix := v mod 256\<rparr>, take p addr)))
      in if exn then (False, a)
         else case pton AF_INET addr' of
           Some ip \<Rightarrow>
             if na_prefix a > 32 then (False, a)
             else (True, a\<lparr>na_addr := SA_in (old_port (na_addr a)) ip (old_zero (na_addr a))\<rparr>)
         | None \<Rightarrow>
             (case pton AF_INET6 addr' of
                Some ip \<Rightarrow>
                  if na_prefix a > 128 then (False, a)
                  else (True, a\<lparr>na_addr := (case old_flowinfo_scope (na_addr a) of
                                   (f, s) \<Rightarrow> SA_in6 (old_port (na_addr a)) f ip s)\<rparr>)
              | None \<Rightarrow>
                  if length addr = 17 then
                    (case hw_loop 6 (Some addr) [] of
                       None \<Rightarrow> (False, a)
                     | Some hw \<Rightarrow> if length hw = 6 then Create_hw a hw 6 else (False, a))
                  else (False, a)))"

text \<open>The constructors: the status is dropped.\<close>

definition ndAddr_str :: "inet_pton \<Rightarrow> string \<Rightarrow> nd_addr" where
  "ndAddr_str pton addr = snd (Create_str pton (nd_addr_new 0) addr)"

definition ndAddr_hw :: "bytes \<Rightarrow> nd_addr" where
  "ndAddr_hw hw = snd (Create_hw (nd_addr_new 0) hw 6)"

definition ndAddr_in :: "bytes \<Rightarrow> nat \<Rightarrow> nd_addr" where
  "ndAddr_in ip plen = snd (Create_in_addr (nd_addr_new 0) ip plen)"

definition ndAddr_in6 :: "bytes \<Rightarrow> nat \<Rightarrow> nd_addr" where
  "ndAddr_in6 ip plen = snd (Create_in6_addr (nd_addr_new 0) ip plen)"

section \<open>Access\<close>

definition GetAddress :: "nd_addr \<Rightarrow> bytes option" where
  "GetAddress a = (if \<not> IsValid a then None else
     case na_addr a of SA_in _ ip _ \<Rightarrow> Some ip | SA_in6 _ _ ip _ \<Rightarrow> Some ip | _ \<Rightarrow> None)"

definition GetAddressSize :: "nd_addr \<Rightarrow> nat" where
  "GetAddressSize a = (if \<not> IsValid a then 0 else if IsIPv4 a then 4 else if IsIPv6 a then 16 else 0)"

definition GetPort :: "nd_addr \<Rightarrow> bool \<Rightarrow> 16 word" where
  "GetPort a byte_swap = (if \<not> IsValid a then 0 else
     case na_addr a of
       SA_in p _ _ \<Rightarrow> (if byte_swap then bswap16 p else p)
     | SA_in6 p _ _ _ \<Rightarrow> (if byte_swap then bswap16 p else p)
     | _ \<Rightarrow> 0)"

definition SetPort :: "nd_addr \<Rightarrow> 16 word \<Rightarrow> bool \<times> nd_addr" where
  "SetPort a port = (if \<not> IsValid a then (False, a) else
     case na_addr a of
       SA_in _ ip z \<Rightarrow> (True, a\<lparr>na_addr := SA_in port ip z\<rparr>)
     | SA_in6 _ f ip s \<Rightarrow> (True, a\<lparr>na_addr := SA_in6 port f ip s\<rparr>)
     | _ \<Rightarrow> (False, a))"

section \<open>Text\<close>

fun mac_loop :: "bytes \<Rightarrow> nat \<Rightarrow> nat \<Rightarrow> string" where
  "mac_loop addr i 0 = []"
| "mac_loop addr i (Suc k) =
     hex_byte (addr ! i) @ (if k \<noteq> 0 then '':'' else []) @ mac_loop addr (Suc i) k"

definition MakeString :: "inet_ntop \<Rightarrow> nd_addr \<Rightarrow> byte \<Rightarrow> string option" where
  "MakeString ntop a flags =
     (if \<not> IsValid a then None else
      case na_addr a of
        SA_ll _ _ ha _ hl addr \<Rightarrow>
          if ha = ARPHRD_ETHER then Some (mac_loop addr 0 (unat hl)) else None
      | SA_in port ip _ \<Rightarrow>
          Some (ntop AF_INET ip
            @ (if bit flags 0 \<and> na_prefix a > 0 \<and> na_prefix a \<noteq> 32
               then CHR ''/'' # nat_to_string (na_prefix a) else [])
            @ (if bit flags 1 \<and> port \<noteq> 0 then CHR '':'' # nat_to_string (unat (bswap16 port)) else []))
      | SA_in6 port _ ip _ \<Rightarrow>
          Some (ntop AF_INET6 ip
            @ (if bit flags 0 \<and> na_prefix a > 0 \<and> na_prefix a \<noteq> 128
               then CHR ''/'' # nat_to_string (na_prefix a) else [])
            @ (if bit flags 1 \<and> port \<noteq> 0 then CHR '':'' # nat_to_string (unat (bswap16 port)) else []))
      | _ \<Rightarrow> None)"

definition GetString :: "inet_ntop \<Rightarrow> nd_addr \<Rightarrow> byte \<Rightarrow> string \<times> nd_addr" where
  "GetString ntop a flags =
     (if flags \<noteq> na_cached_flags a \<or> na_cached_addr a = [] then
        (let a = a\<lparr>na_cached_flags := flags\<rparr>;
             a = (case MakeString ntop a flags of None \<Rightarrow> a | Some s \<Rightarrow> a\<lparr>na_cached_addr := s\<rparr>)
         in (na_cached_addr a, a))
      else (na_cached_addr a, a))"

section \<open>Comparison and hashing\<close>

definition addr_eq :: "nd_addr \<Rightarrow> nd_addr \<Rightarrow> bool" where
  "addr_eq this a =
     (let cf = na_comparison_flags this in
      if na_family a \<noteq> na_family this then False
      else if bit cf 2 \<and> na_prefix a \<noteq> na_prefix this then False
      else case (na_addr this, na_addr a) of
        (SA_ll p i h k l d, SA_ll p' i' h' k' l' d') \<Rightarrow>
          if \<not> bit cf 0 then True else SA_ll p i h k l d = SA_ll p' i' h' k' l' d'
      | (SA_in p ip z, SA_in p' ip' z') \<Rightarrow>
          if bit cf 0 \<and> bit cf 1 then p = p' \<and> ip = ip' \<and> z = z'
          else if bit cf 0 \<and> ip = ip' then True
          else if bit cf 1 \<and> p = p' then True
          else False
      | (SA_in6 p f ip s, SA_in6 p' f' ip' s') \<Rightarrow>
          if bit cf 0 \<and> bit cf 1 then p = p' \<and> f = f' \<and> ip = ip' \<and> s = s'
          else if bit cf 0 \<and> ip = ip' then True
          else if bit cf 1 \<and> p = p' then True
          else False
      | _ \<Rightarrow> False)"

definition addr_neq :: "nd_addr \<Rightarrow> nd_addr \<Rightarrow> bool" where
  "addr_neq this a \<longleftrightarrow> \<not> addr_eq a this"

text \<open>
  \<open>hash_combine\<close> on a 64-bit \<open>size_t\<close>; \<open>std::hash\<close> of an unsigned integer is the
  argument \<open>hasher\<close>, of its value.
\<close>

definition hash_combine :: "(nat \<Rightarrow> 64 word) \<Rightarrow> 64 word \<Rightarrow> nat \<Rightarrow> 64 word" where
  "hash_combine hasher seed v =
     seed XOR (hasher v + 0x9e3779b9 + push_bit 6 seed + drop_bit 2 seed)"

fun words32 :: "bytes \<Rightarrow> nat list" where
  "words32 (a # b # c # d # r) = le_nat [a, b, c, d] # words32 r"
| "words32 _ = []"

definition addr_hash :: "(nat \<Rightarrow> 64 word) \<Rightarrow> nd_addr \<Rightarrow> 64 word" where
  "addr_hash hasher a =
     (case na_addr a of
        SA_ll _ _ _ _ _ addr \<Rightarrow> foldl (hash_combine hasher) 0 (map unat (take 6 addr))
      | SA_in _ ip _ \<Rightarrow> hash_combine hasher 0 (le_nat ip)
      | SA_in6 _ _ ip _ \<Rightarrow> foldl (hash_combine hasher) 0 (words32 ip)
      | _ \<Rightarrow> 0)"

fun family_code :: "sa_family \<Rightarrow> nat" where
  "family_code AF_UNSPEC = 0"
| "family_code AF_INET = 2"
| "family_code AF_INET6 = 10"
| "family_code AF_PACKET = 17"
| "family_code (AF_OTHER n) = n"

definition addr_hash_all :: "(nat \<Rightarrow> 64 word) \<Rightarrow> nd_addr \<Rightarrow> 64 word" where
  "addr_hash_all hasher a =
     (let h = hash_combine hasher (hash_combine hasher 0 (na_prefix a)) (family_code (na_family a))
      in case na_addr a of
        SA_ll _ _ _ _ _ addr \<Rightarrow> foldl (hash_combine hasher) h (map unat (take 6 addr))
      | SA_in p ip _ \<Rightarrow> hash_combine hasher (hash_combine hasher h (unat p)) (le_nat ip)
      | SA_in6 p _ ip _ \<Rightarrow> foldl (hash_combine hasher) (hash_combine hasher h (unat p)) (words32 ip)
      | _ \<Rightarrow> h)"

definition addr_equal :: "nd_addr \<Rightarrow> nd_addr \<Rightarrow> bool" where
  "addr_equal a1 a2 =
     (case (na_addr a1, na_addr a2) of
        (SA_ll p i h k l d, SA_ll p' i' h' k' l' d') \<Rightarrow> SA_ll p i h k l d = SA_ll p' i' h' k' l' d'
      | (SA_in _ ip _, SA_in _ ip' _) \<Rightarrow> ip = ip'
      | (SA_in6 _ _ ip _, SA_in6 _ _ ip' _) \<Rightarrow> ip = ip'
      | _ \<Rightarrow> False)"

definition addr_equal_all :: "nd_addr \<Rightarrow> nd_addr \<Rightarrow> bool" where
  "addr_equal_all a1 a2 = addr_eq a1 a2"

section \<open>Properties\<close>

lemma stoul_hex_byte: "stoul 16 (hex_byte b) = Some (unat b)"
proof -
  have m: "unat b mod 16 < 16" by simp
  have "16 * (unat b div 16) + unat b mod 16 = unat b" by simp
  moreover have "unat b < 2 ^ 64" by (rule order.strict_trans [OF unat_byte_lt]) simp
  ultimately show ?thesis
    using hex_char_props [OF unat_byte_div_16 [of b]] hex_char_props [OF m] unat_byte_div_16 [of b]
    by (simp add: stoul_def hex_byte_def digit_val_def Let_def mult.commute [of _ 16])
qed

lemma takeWhile_hex_byte:
  "takeWhile (\<lambda>c. c \<noteq> CHR '':'') (hex_byte b @ s) = hex_byte b @ takeWhile (\<lambda>c. c \<noteq> CHR '':'') s"
  "dropWhile (\<lambda>c. c \<noteq> CHR '':'') (hex_byte b @ s) = dropWhile (\<lambda>c. c \<noteq> CHR '':'') s"
  using hex_char_props(7) [OF unat_byte_div_16 [of b]] hex_char_props(7) [of "unat b mod 16"]
  by (simp_all add: hex_byte_def)

lemma hw_loop_mac:
  "k + i = length m \<Longrightarrow> 0 < k \<Longrightarrow> hw_loop k (Some (mac_loop m i k)) hw = Some (hw @ drop i m)"
proof (induction k arbitrary: i hw)
  case (Suc k)
  have b: "byte_of (unat (m ! i) mod 256) = m ! i" by simp
  have d: "drop i m = m ! i # drop (Suc i) m" using Suc.prems by (simp add: Cons_nth_drop_Suc)
  show ?case
  proof (cases "k = 0")
    case True
    then have "drop (Suc i) m = []" using Suc.prems by simp
    then show ?thesis using True d b
      by (simp add: takeWhile_hex_byte [of _ "[]", unfolded append_Nil2 takeWhile.simps dropWhile.simps]
          stoul_hex_byte)
  next
    case False
    then show ?thesis using Suc.IH [of "Suc i" "hw @ [m ! i]"] Suc.prems d b
      by (simp add: takeWhile_hex_byte stoul_hex_byte)
  qed
qed simp

lemma mac_loop_no_slash: "CHR ''/'' \<notin> set (mac_loop m i k)"
proof -
  have "CHR ''/'' \<noteq> hex_char d" if "d < 16" for d
  proof -
    have "hex_val CHR ''/'' = None" by (simp add: hex_val_def isdigit_def)
    then show ?thesis using hex_char_props(1) [OF that] by (metis option.distinct(1))
  qed
  then have "CHR ''/'' \<notin> set (hex_byte b)" for b
    using unat_byte_div_16 [of b] by (simp add: hex_byte_def)
  then show ?thesis by (induction k arbitrary: i) auto
qed

lemma length_mac_loop: "0 < k \<Longrightarrow> length (mac_loop m i k) = 3 * k - 1"
proof (induction k arbitrary: i)
  case (Suc k)
  then show ?case by (cases k) auto
qed simp

lemma mac_loop_append: "i + k \<le> length m \<Longrightarrow> mac_loop (m @ z) i k = mac_loop m i k"
  by (induction k arbitrary: i) (auto simp: nth_append)

lemma mac_loop_six:
  "mac_loop [a, b, c, d, e, f] 0 6 = hex_byte a @ '':'' @ hex_byte b @ '':'' @ hex_byte c @ '':''
     @ hex_byte d @ '':'' @ hex_byte e @ '':'' @ hex_byte f"
  by (simp add: eval_nat_numeral)

lemma MakeString_hw:
  "length m = 6 \<Longrightarrow> MakeString ntop (ndAddr_hw m) flags = Some (mac_loop m 0 6)"
  using mac_loop_append [of 0 6 m "[0, 0]"]
  by (simp add: MakeString_def ndAddr_hw_def Create_hw_def nd_addr_new_def IsValid_def)

lemma find_first_slash_None: "CHR ''/'' \<notin> set s \<Longrightarrow> find_first (\<lambda>c. c = CHR ''/'') s = None"
  by (auto simp: find_first_None)

text \<open>
  The text of an Ethernet address, as \<open>MakeString\<close> prints it, constructs the same address again,
  provided \<open>inet_pton\<close> accepts it in neither IP family.
\<close>

theorem ether_text_roundtrip:
  assumes "length m = 6" "MakeString ntop (ndAddr_hw m) flags = Some s"
    and "pton AF_INET s = None" "pton AF_INET6 s = None"
  shows "Create_str pton (nd_addr_new 0) s = (True, ndAddr_hw m) \<and> IsEthernet (ndAddr_hw m)"
proof -
  have s: "s = mac_loop m 0 6" using assms(1,2) MakeString_hw [OF assms(1)] by simp
  have "find_first (\<lambda>c. c = CHR ''/'') s = None"
    unfolding s by (intro find_first_slash_None mac_loop_no_slash)
  moreover have "length s = 17" unfolding s by (simp add: length_mac_loop)
  moreover have "hw_loop 6 (Some s) [] = Some m"
    unfolding s using hw_loop_mac [of 6 0 m "[]"] assms(1) by simp
  ultimately show ?thesis
    using assms by (simp add: Create_str_def ndAddr_hw_def Create_hw_def nd_addr_new_def IsEthernet_def)
qed

theorem ether_text_roundtrip_witness:
  "Create_str (\<lambda>_ _. None) (nd_addr_new 0) ''00:1b:21:ff:0a:9c'' =
     (True, ndAddr_hw [0x00, 0x1b, 0x21, 0xff, 0x0a, 0x9c])
   \<and> IsEthernet (ndAddr_hw [0x00, 0x1b, 0x21, 0xff, 0x0a, 0x9c])"
proof (rule ether_text_roundtrip [where ntop = "\<lambda>_ _. []" and flags = 0])
  show "MakeString (\<lambda>_ _. []) (ndAddr_hw [0x00, 0x1b, 0x21, 0xff, 0x0a, 0x9c]) 0 = Some ''00:1b:21:ff:0a:9c''"
    by (subst MakeString_hw) (simp_all add: mac_loop_six hex_byte_def hex_char_def)
qed simp_all

lemma stoul_nat_to_string:
  assumes "n < 2 ^ 64"
  shows "stoul 10 (nat_to_string n) = Some n"
proof -
  obtain d s where d: "nat_to_string n = digit_char d # s" "d < 10"
    using nat_to_string_first by blast
  have "strtoul_digits 10 0 (digit_char d # s) = n"
    using strtoul_digits_nat_to_string [of n] d(1) by simp
  moreover have "(case xs of [] \<Rightarrow> y | [z] \<Rightarrow> y | z # x # r \<Rightarrow> y) = y" for xs :: string and y :: string
    by (auto split: list.split)
  ultimately show ?thesis
    using assms digit_char_props [OF d(2)] d(2)
    by (simp add: stoul_def d(1) digit_val_def Let_def)
qed

text \<open>The prefix length that a text stands for: none is written for a host.\<close>

definition full_prefix :: "nd_addr \<Rightarrow> nat" where
  "full_prefix a = (if na_prefix a = 0 then (if IsIPv6 a then 128 else 32) else na_prefix a)"

text \<open>
  C39. The text of an IP address with its prefix length (\<open>mfPREFIX\<close>) constructs an address with the
  same family, bytes and effective prefix length, for any text conversion that \<open>inet_pton\<close> inverts and
  that contains no slash.
\<close>

theorem ip_text_roundtrip:
  assumes "\<And>ip. pton AF_INET (ntop AF_INET ip) = Some ip" "\<And>ip. pton AF_INET6 (ntop AF_INET6 ip) = Some ip"
    and "\<And>ip. pton AF_INET (ntop AF_INET6 ip) = None"
    and "\<And>af ip. CHR ''/'' \<notin> set (ntop af ip)"
    and "a = ndAddr_in ip p \<and> p \<le> 32 \<or> a = ndAddr_in6 ip p \<and> p \<le> 128"
    and "MakeString ntop a 1 = Some s" "Create_str pton (nd_addr_new 0) s = (ok, b)"
  shows "ok \<and> na_family b = na_family a \<and> GetAddress b = GetAddress a \<and> full_prefix b = full_prefix a"
proof -
  note defs = MakeString_def ndAddr_in_def ndAddr_in6_def Create_in_addr_def Create_in6_addr_def
    nd_addr_new_def IsValid_def Create_str_def GetAddress_def full_prefix_def IsIPv6_def
  have st: "stoul 10 (nat_to_string q) = Some q" if "q \<le> 128" for q
    using that by (intro stoul_nat_to_string) simp
  have nf: "find_first (\<lambda>c. c = CHR ''/'') (ntop af ip) = None" for af ip
    using assms(4) by (rule find_first_slash_None)
  have sl: "find_first (\<lambda>c. c = CHR ''/'') (ntop af ip @ CHR ''/'' # t) = Some (length (ntop af ip))" for af ip t
    using assms(4) by (intro find_first_append) auto
  have b: "bit (1 :: byte) 0" "\<not> bit (1 :: byte) 1" by simp_all
  from assms(5) show ?thesis
  proof
    assume "a = ndAddr_in ip p \<and> p \<le> 32"
    then show ?thesis using assms(6,7) b
      by (cases "p = 0 \<or> p = 32") (auto simp: defs assms(1,2,3) nf sl st)
  next
    assume "a = ndAddr_in6 ip p \<and> p \<le> 128"
    then show ?thesis using assms(6,7) b
      by (cases "p = 0 \<or> p = 128") (auto simp: defs assms(1,2,3) nf sl st)
  qed
qed

text \<open>A text conversion for the witness: the digits of the address behind a family letter.\<close>

fun hex_ntop :: inet_ntop where
  "hex_ntop af ip = (if af = AF_INET then CHR ''v'' else CHR ''w'') # concat (map hex_byte ip)"

fun unhex :: "string \<Rightarrow> bytes" where
  "unhex (a # b # r) = the (sscanf_2hhx [a, b]) # unhex r"
| "unhex _ = []"

fun hex_pton :: inet_pton where
  "hex_pton af [] = None"
| "hex_pton af (c # s) = (if c = (if af = AF_INET then CHR ''v'' else CHR ''w'') then Some (unhex s) else None)"

lemma unhex_hex: "unhex (concat (map hex_byte ip)) = ip"
proof (induction ip)
  case (Cons b ip)
  then show ?case using sscanf_hex_byte [of b "[]"] by (simp add: hex_byte_def)
qed simp

lemma hex_ntop_no_slash: "CHR ''/'' \<notin> set (hex_ntop af ip)"
proof -
  have "set (hex_byte b) \<subseteq> set (mac_loop [b] 0 (Suc 0))" for b by auto
  then have "CHR ''/'' \<notin> set (hex_byte b)" for b using mac_loop_no_slash by blast
  then show ?thesis by auto
qed

theorem ip_text_roundtrip_witness:
  "let a = ndAddr_in [192, 168, 0, 0] 16; s = the (MakeString hex_ntop a 1);
       (ok, b) = Create_str hex_pton (nd_addr_new 0) s
   in ok \<and> GetAddress b = GetAddress a \<and> full_prefix b = full_prefix a"
proof -
  define a where "a = ndAddr_in [192, 168, 0, 0] 16"
  define s where "s = the (MakeString hex_ntop a 1)"
  obtain ok b where c: "Create_str hex_pton (nd_addr_new 0) s = (ok, b)" by force
  have s: "MakeString hex_ntop a 1 = Some s"
    by (simp add: s_def a_def MakeString_def ndAddr_in_def Create_in_addr_def nd_addr_new_def IsValid_def)
  have a: "a = ndAddr_in [192, 168, 0, 0] 16 \<and> (16 :: nat) \<le> 32 \<or> a = ndAddr_in6 [192, 168, 0, 0] 16 \<and> (16 :: nat) \<le> 128"
    by (simp add: a_def)
  show ?thesis
    using ip_text_roundtrip [of hex_pton hex_ntop, OF _ _ _ hex_ntop_no_slash a s c]
    by (simp add: unhex_hex a_def [symmetric] s_def [symmetric] c Let_def)
qed

text \<open>
  C40. The hash functions respect the equalities they are paired with in the unordered containers:
  equal addresses (\<open>ndAddrEqual\<close>) have equal \<open>ndAddrHash\<close>, and addresses equal under all comparison
  flags (\<open>ndAddrEqualAll\<close>) have equal \<open>ndAddrHashAll\<close>.
\<close>

theorem addr_hash_respects_equality:
  "(addr_equal a b \<longrightarrow> addr_hash h a = addr_hash h b)
   \<and> (na_comparison_flags a = cfALL \<and> addr_equal_all a b \<longrightarrow> addr_hash_all h a = addr_hash_all h b)"
proof (intro conjI impI)
  assume "addr_equal a b"
  then show "addr_hash h a = addr_hash h b"
    by (auto simp: addr_equal_def addr_hash_def split: sockaddr.splits)
next
  assume e: "na_comparison_flags a = cfALL \<and> addr_equal_all a b"
  have f: "bit cfALL 0" "bit cfALL 1" "bit cfALL 2" by (simp_all add: cfALL_def)
  have p: "na_prefix a = na_prefix b" and s: "na_family a = na_family b"
    using e f by (auto simp: addr_equal_all_def addr_eq_def Let_def split: if_splits)
  have "na_addr a = na_addr b"
    using e f s by (auto simp: addr_equal_all_def addr_eq_def Let_def split: if_splits sockaddr.splits)
  then show "addr_hash_all h a = addr_hash_all h b" using p by (simp add: addr_hash_all_def)
qed

theorem addr_hash_respects_equality_witness:
  "addr_hash word_of_nat (ndAddr_in [192, 168, 1, 1] 32) =
   addr_hash word_of_nat (snd (SetPort (ndAddr_in [192, 168, 1, 1] 32) 443))"
  using addr_hash_respects_equality [of "ndAddr_in [192, 168, 1, 1] 32"
      "snd (SetPort (ndAddr_in [192, 168, 1, 1] 32) 443)" word_of_nat]
  by (simp add: addr_equal_def ndAddr_in_def Create_in_addr_def nd_addr_new_def SetPort_def IsValid_def)

text \<open>
  The cached text is keyed by the flags only: after \<open>SetPort\<close> the old text is
  returned for the flags it was made with.
\<close>

lemma GetString_stale:
  assumes "GetString ntop a flags = (s, a')" "s \<noteq> []" "SetPort a' port = (True, a'')"
  shows "fst (GetString ntop a'' flags) = s"
proof -
  have "na_cached_flags a' = flags" "na_cached_addr a' = s"
    using assms(1) by (auto simp: GetString_def Let_def split: if_splits option.splits)
  moreover have "na_cached_flags a'' = na_cached_flags a'" "na_cached_addr a'' = na_cached_addr a'"
    using assms(3) by (auto simp: SetPort_def split: if_splits sockaddr.splits)
  ultimately show ?thesis using assms(2) by (simp add: GetString_def)
qed

end
