(* ===== verification/NdRadixKey.thy ===== *)
theory NdRadixKey
  imports NdRadixSpec NdAddr
begin

unbundle bit_operations_syntax

text \<open>
  The keys of the address trees (\<open>ndRadixNetworkEntry\<close> and the functions
  \<open>radix_length\<close>, \<open>radix_substr\<close>, \<open>radix_join\<close> of \<open>src/include/nd-addr.hpp\<close>). A
  \<open>bitset<N>\<close> is a word of \<open>N\<close> bits, a \<open>size_t\<close> a 64-bit word; bit \<open>n\<close> of a key,
  counted from the most significant, is bit \<open>N - 1 - n\<close> of the word. The
  interpretations at the end show that these keys satisfy \<open>radix_key\<close>, for 32
  and 128 bits.
\<close>

datatype 'w rentry = REntry (re_addr: 'w) (re_len: "64 word")

section \<open>Operations of bitset\<close>

text \<open>\<open>operator<\<close>: from the most significant bit down; \<open>operator-=\<close>: from the least significant bit up.\<close>

fun bitset_less_from :: "('n :: len) word \<Rightarrow> 'n word \<Rightarrow> nat \<Rightarrow> bool" where
  "bitset_less_from x y 0 = False"
| "bitset_less_from x y (Suc i) = (if bit x i \<noteq> bit y i then bit y i else bitset_less_from x y i)"

definition bitset_less :: "('n :: len) word \<Rightarrow> 'n word \<Rightarrow> bool" where
  "bitset_less x y = bitset_less_from x y LENGTH('n)"

fun sub_bits :: "bool \<Rightarrow> (bool \<times> bool) list \<Rightarrow> bool list" where
  "sub_bits borrow [] = []"
| "sub_bits borrow ((x, y) # r) =
     (if borrow then
        (if x then y # sub_bits y r else (\<not> y) # sub_bits True r)
      else
        (if x then (\<not> y) # sub_bits False r else y # sub_bits y r))"

definition bitset_sub :: "('n :: len) word \<Rightarrow> nat \<Rightarrow> 'n word" where
  "bitset_sub x y =
     (let y2 = (word_of_nat y :: 'n word)
      in horner_sum of_bool 2
           (sub_bits False (zip (map (bit x) [0..<LENGTH('n)]) (map (bit y2) [0..<LENGTH('n)]))))"

definition bitset_shl :: "('n :: len) word \<Rightarrow> 64 word \<Rightarrow> 'n word" where
  "bitset_shl x c = (if unat c < LENGTH('n) then push_bit (unat c) x else 0)"

definition bitset_shr :: "('n :: len) word \<Rightarrow> 64 word \<Rightarrow> 'n word" where
  "bitset_shr x c = (if unat c < LENGTH('n) then drop_bit (unat c) x else 0)"

section \<open>Entries\<close>

text \<open>The prefix mask: all bits set, then the low ones flipped.\<close>

definition re_mask :: "nat \<Rightarrow> ('n :: len) word" where
  "re_mask plen = (let shift = LENGTH('n) - plen in
     if shift < LENGTH('n) then foldl (\<lambda>m i. flip_bit i m) (- 1) [0..<shift] else 0)"

text \<open>The address: one \<open>ntohl\<close> for IPv4, four shifted together for IPv6.\<close>

definition re_load4 :: "bytes \<Rightarrow> 32 word" where
  "re_load4 ip = word_of_nat (be_nat ip)"

definition re_load6 :: "bytes \<Rightarrow> 128 word" where
  "re_load6 ip =
     (let w = (\<lambda>i. word_of_nat (be_nat (take 4 (drop (4 * i) ip))) :: 128 word)
      in push_bit 32 (push_bit 32 (push_bit 32 (w 0) OR w 1) OR w 2) OR w 3)"

definition rentry_create :: "(bytes \<Rightarrow> ('n :: len) word) \<Rightarrow> nd_addr \<Rightarrow> 'n word rentry option" where
  "rentry_create load a =
     (if \<not> IsValid a then None
      else let plen = (if na_prefix a = 0 then LENGTH('n) else na_prefix a)
           in if plen > LENGTH('n) then None
              else Some (REntry (load (case GetAddress a of Some ip \<Rightarrow> ip | None \<Rightarrow> []) AND re_mask plen)
                           (word_of_nat plen)))"

definition rentry_query :: "(bytes \<Rightarrow> ('n :: len) word) \<Rightarrow> nd_addr \<Rightarrow> 'n word rentry option" where
  "rentry_query load a =
     (if \<not> IsValid a then None
      else Some (REntry (load (case GetAddress a of Some ip \<Rightarrow> ip | None \<Rightarrow> [])) (word_of_nat LENGTH('n))))"

definition rentry_at :: "('n :: len) word rentry \<Rightarrow> int \<Rightarrow> bool" where
  "rentry_at e n = bit (re_addr e) (unat (word_of_nat LENGTH('n) - 1 - word_of_int n :: 64 word))"

definition rentry_less :: "('n :: len) word rentry \<Rightarrow> 'n word rentry \<Rightarrow> bool" where
  "rentry_less l r = (if re_addr l = re_addr r then re_len l < re_len r
                      else bitset_less (re_addr l) (re_addr r))"

definition radix_length :: "('n :: len) word rentry \<Rightarrow> int" where
  "radix_length e = sint (ucast (re_len e) :: 32 word)"

definition radix_substr :: "('n :: len) word rentry \<Rightarrow> int \<Rightarrow> int \<Rightarrow> 'n word rentry" where
  "radix_substr e offset len =
     (let n = word_of_nat LENGTH('n) :: 64 word;
          mask = (if word_of_int len = n then 0 else bitset_shl 1 (word_of_int len)) :: 'n word;
          mask = bitset_sub mask 1;
          mask = bitset_shl mask (n - word_of_int len - word_of_int offset)
      in REntry (bitset_shl (re_addr e AND mask) (word_of_int offset)) (word_of_int len))"

definition radix_join :: "('n :: len) word rentry \<Rightarrow> 'n word rentry \<Rightarrow> 'n word rentry" where
  "radix_join x y = REntry (re_addr x OR bitset_shr (re_addr y) (re_len x)) (re_len x + re_len y)"

definition rentry_ops :: "('n :: len) word rentry radix_ops" where
  "rentry_ops = \<lparr>rx_length = radix_length, rx_substr = radix_substr, rx_join = radix_join,
     rx_at = rentry_at, rx_less = rentry_less\<rparr>"

text \<open>\<open>GetString\<close>: the address back from the key.\<close>

definition rentry_bytes4 :: "32 word \<Rightarrow> bytes" where
  "rentry_bytes4 w = map (\<lambda>i. ucast (drop_bit (24 - 8 * i) w)) [0..<4]"

definition rentry_bytes6 :: "128 word \<Rightarrow> bytes" where
  "rentry_bytes6 w = concat (map (\<lambda>i. rentry_bytes4 (ucast (drop_bit (96 - 32 * i) w))) [0..<4])"

definition rentry_string4 :: "inet_ntop \<Rightarrow> 32 word rentry \<Rightarrow> string option" where
  "rentry_string4 ntop e =
     MakeString ntop ((nd_addr_new (unat (re_len e) mod 256))\<lparr>na_addr :=
       SA_in 0 (rentry_bytes4 (re_addr e)) (replicate 8 0)\<rparr>) mfALL"

definition rentry_string6 :: "inet_ntop \<Rightarrow> 128 word rentry \<Rightarrow> string option" where
  "rentry_string6 ntop e =
     MakeString ntop ((nd_addr_new (unat (re_len e) mod 256))\<lparr>na_addr :=
       SA_in6 0 0 (rentry_bytes6 (re_addr e)) 0\<rparr>) mfALL"

section \<open>The bitset operations are the word operations\<close>

lemma bitset_less_from_iff: "bitset_less_from x y n \<longleftrightarrow> take_bit n (uint x) < take_bit n (uint y)"
proof (induction n)
  case (Suc n)
  have t: "take_bit (Suc n) (uint z) = of_bool (bit z n) * 2 ^ n + take_bit n (uint z)" for z :: "'a word"
    by (auto simp: take_bit_Suc_from_most bit_uint_iff dest: bit_imp_le_length)
  have b: "take_bit n (uint z) < 2 ^ n" "0 \<le> take_bit n (uint z)" for z :: "'a word"
    by (simp_all add: take_bit_int_less_exp)
  show ?case
    by (cases "bit x n"; cases "bit y n"; simp add: t Suc; use b [of x] b [of y] in linarith)
qed simp

lemma bitset_less_iff: "bitset_less x y \<longleftrightarrow> x < y"
  by (simp add: bitset_less_def bitset_less_from_iff word_less_def take_bit_int_eq_self unsigned_less)

lemma horner_sub_bits:
  "length xs = length ys \<Longrightarrow>
   (horner_sum of_bool 2 (sub_bits b (zip xs ys)) :: int) =
   (horner_sum of_bool 2 xs - horner_sum of_bool 2 ys - of_bool b) mod 2 ^ length xs"
proof (induction xs ys arbitrary: b rule: list_induct2)
  case (Cons x xs y ys)
  have *: "(of_bool p + 2 * ((X - Y - of_bool q) mod 2 ^ n) :: int) =
      (of_bool x + 2 * X - (of_bool y + 2 * Y) - of_bool b) mod 2 ^ Suc n"
    if "of_bool p - 2 * of_bool q = (of_bool x - of_bool y - of_bool b :: int)" for p q X Y n
  proof -
    have "(of_bool x + 2 * X - (of_bool y + 2 * Y) - of_bool b :: int) =
        of_bool p + 2 * (X - Y - of_bool q)"
      using that by (simp add: algebra_simps)
    also have "(of_bool p + 2 * (X - Y - of_bool q)) mod 2 ^ Suc n =
        of_bool p + 2 * ((X - Y - of_bool q) mod (2 ^ n :: int))"
    proof -
      have *: "(of_bool p + 2 * Z) mod (2 * 2 ^ n :: int) = of_bool p + 2 * (Z mod 2 ^ n)" for Z
        using mod_mult2_eq' [of "of_bool p + 2 * Z" "2" "2 ^ n"] by (cases p) simp_all
      show ?thesis by (simp only: power_Suc *)
    qed
    finally show ?thesis by simp
  qed
  define p where "p \<longleftrightarrow> x \<noteq> (y \<noteq> b)"
  define q where "q \<longleftrightarrow> (if x then y \<and> b else y \<or> b)"
  have "sub_bits b (zip (x # xs) (y # ys)) = p # sub_bits q (zip xs ys)"
    by (cases b; cases x; cases y) (simp_all add: p_def q_def)
  moreover have "of_bool p - 2 * of_bool q = (of_bool x - of_bool y - of_bool b :: int)"
    by (cases b; cases x; cases y) (simp_all add: p_def q_def)
  ultimately show ?case using * [of p q] by (simp only: horner_sum_simps Cons.IH list.size add_Suc_right add_0_right)
qed simp


lemma bitset_sub_eq: "bitset_sub (x :: ('n :: len) word) y = x - word_of_nat y"
proof -
  let ?xs = "map (bit x) [0..<LENGTH('n)]" and ?ys = "map (bit (word_of_nat y :: 'n word)) [0..<LENGTH('n)]"
  have v: "(horner_sum of_bool 2 (map (bit z) [0..<LENGTH('n)]) :: int) = uint z" for z :: "'n word"
  proof -
    have m: "map (bit z) [0..<LENGTH('n)] = map (bit (uint z)) [0..<LENGTH('n)]"
      by (simp add: bit_uint_iff)
    show ?thesis by (subst m) (simp add: horner_sum_bit_eq_take_bit take_bit_int_eq_self unsigned_less)
  qed
  have h: "(horner_sum of_bool 2 bs :: 'n word) = word_of_int (horner_sum of_bool 2 bs)" for bs
    by (induction bs) simp_all
  have "bitset_sub x y = word_of_int (horner_sum of_bool 2 (sub_bits False (zip ?xs ?ys)))"
    by (simp only: bitset_sub_def Let_def h)
  also have "\<dots> = word_of_int ((uint x - uint (word_of_nat y :: 'n word)) mod 2 ^ LENGTH('n))"
    by (subst horner_sub_bits) (simp_all add: v)
  also have "\<dots> = x - word_of_nat y"
  proof -
    have "word_of_int (take_bit LENGTH('n) k) = (word_of_int k :: 'n word)" for k
      by (rule bit_word_eqI) (simp add: bit_simps)
    then show ?thesis by (simp only: take_bit_eq_mod [symmetric]) (simp add: uint_word_ariths)
  qed
  finally show ?thesis .
qed

lemma re_mask_bits: "bit (re_mask plen :: ('n :: len) word) i \<longleftrightarrow> i < LENGTH('n) \<and> LENGTH('n) - plen \<le> i \<and> 0 < plen"
proof -
  have f: "bit (foldl (\<lambda>m i. flip_bit i m) (- 1 :: 'n word) [0..<k]) i \<longleftrightarrow> i < LENGTH('n) \<and> k \<le> i"
    if "k \<le> LENGTH('n)" for k
    using that by (induction k) (auto simp: bit_flip_bit_iff)
  have "LENGTH('n) - plen < LENGTH('n) \<longleftrightarrow> 0 < plen" by (cases plen) auto
  then show ?thesis using f [of "LENGTH('n) - plen"] by (auto simp: re_mask_def Let_def)
qed

section \<open>Keys as bit sequences\<close>

definition rentry_bits :: "('n :: len) word rentry \<Rightarrow> bool list" where
  "rentry_bits e = map (\<lambda>i. bit (re_addr e) (LENGTH('n) - 1 - i)) [0..<unat (re_len e)]"

definition rentry_ok :: "('n :: len) word rentry \<Rightarrow> bool" where
  "rentry_ok e \<longleftrightarrow> unat (re_len e) \<le> LENGTH('n)
     \<and> (\<forall>i < LENGTH('n) - unat (re_len e). \<not> bit (re_addr e) i)"

lemma length_rentry_bits [simp]: "length (rentry_bits e) = unat (re_len e)"
  by (simp add: rentry_bits_def)

lemma rentry_zext:
  fixes e :: "('n :: len) word rentry"
  assumes "rentry_ok e" "i < LENGTH('n)"
  shows "zext LENGTH('n) (rentry_bits e) ! i \<longleftrightarrow> bit (re_addr e) (LENGTH('n) - 1 - i)"
proof (cases "i < unat (re_len e)")
  case False
  then have "LENGTH('n) - 1 - i < LENGTH('n) - unat (re_len e)" using assms(2) by simp
  then show ?thesis using assms False by (auto simp: zext_def nth_append rentry_ok_def)
qed (simp add: zext_def nth_append rentry_bits_def)

lemma unat64_of_nat: "n < 2 ^ 31 \<Longrightarrow> unat (word_of_nat n :: 64 word) = n"
  by (simp add: unat_of_nat)

lemma unat64_of_int: "n < 2 ^ 31 \<Longrightarrow> unat (word_of_int (int n) :: 64 word) = n"
  by (simp add: unat_of_nat)

text \<open>The laws hold for keys of at most 128 bits, where a length fits in an \<open>int\<close>.\<close>

lemma rentry_bits_inject:
  assumes "rentry_ok (d :: ('n :: len) word rentry)" "rentry_ok e" "rentry_bits d = rentry_bits e"
  shows "d = e"
proof -
  have "length (rentry_bits d) = length (rentry_bits e)" using assms(3) by simp
  then have l: "re_len d = re_len e" by (simp only: length_rentry_bits word_unat_eq_iff)
  have "bit (re_addr d) i = bit (re_addr e) i" if i: "i < LENGTH('n)" for i
  proof -
    have "LENGTH('n) - 1 - (LENGTH('n) - 1 - i) = i" using i by simp
    moreover have "LENGTH('n) - 1 - i < LENGTH('n)" using i by simp
    ultimately show ?thesis
      using rentry_zext [OF assms(1), of "LENGTH('n) - 1 - i"] rentry_zext [OF assms(2), of "LENGTH('n) - 1 - i"]
        assms(3) by simp
  qed
  then have "re_addr d = re_addr e" by (rule bit_word_eqI)
  then show ?thesis using l by (simp add: rentry.expand)
qed

lemma radix_length_bits:
  assumes "LENGTH('n) \<le> 128" "rentry_ok (e :: ('n :: len) word rentry)"
  shows "radix_length e = int (length (rentry_bits e))"
proof -
  have b: "unat (re_len e) \<le> 128" using assms by (simp add: rentry_ok_def)
  have "int (unat (re_len e)) \<le> int 128" using b by (simp only: of_nat_le_iff)
  then have u: "uint (ucast (re_len e) :: 32 word) = uint (re_len e)" and b': "uint (re_len e) \<le> 128"
    by (simp_all add: unsigned_ucast_eq take_bit_int_eq_self)
  have "sint (ucast (re_len e) :: 32 word) = uint (ucast (re_len e) :: 32 word)"
  proof -
    have "- 2147483648 \<le> uint (re_len e)" by (rule order.trans [OF _ unsigned_greater_eq]) simp
    then show ?thesis
      unfolding sint_uint u using b' by (subst signed_take_bit_int_eq_self_iff) simp
  qed
  then show ?thesis using u by (simp add: radix_length_def)
qed

lemma bitset_shl_of_int:
  assumes "LENGTH('n) \<le> 128" "i \<le> LENGTH('n)"
  shows "bitset_shl (x :: ('n :: len) word) (word_of_int (int i)) = push_bit i x"
proof -
  have "unat (word_of_int (int i) :: 64 word) = i" using assms by (intro unat64_of_int) simp
  moreover have "push_bit i x = 0" if "\<not> i < LENGTH('n)"
    using that by (intro bit_word_eqI) (simp add: bit_simps)
  ultimately show ?thesis by (simp add: bitset_shl_def del: of_int_of_nat_eq)
qed

text \<open>The mask of \<open>radix_substr\<close> selects the bits of the substring.\<close>

lemma radix_substr_eq:
  assumes "LENGTH('n) \<le> 128" "i + l \<le> LENGTH('n)"
  shows "radix_substr (e :: ('n :: len) word rentry) (int i) (int l) =
    REntry (push_bit i (re_addr e AND push_bit (LENGTH('n) - l - i) (mask l))) (word_of_nat l)"
proof -
  let ?n = "word_of_nat LENGTH('n) :: 64 word" and ?l = "word_of_int (int l) :: 64 word"
    and ?i = "word_of_int (int i) :: 64 word"
  have u: "unat ?n = LENGTH('n)" "unat ?l = l" "unat ?i = i"
    using assms by (simp_all add: unat_of_nat)
  have e: "?l = ?n \<longleftrightarrow> l = LENGTH('n)" using u by (metis word_unat_eq_iff)
  have m1: "(if ?l = ?n then 0 else bitset_shl 1 ?l) = (push_bit l 1 :: 'n word)"
  proof (cases "l = LENGTH('n)")
    case True
    then have "push_bit l 1 = (0 :: 'n word)" by (intro bit_word_eqI) (simp add: bit_simps)
    then show ?thesis using True e by simp
  next
    case False
    then show ?thesis using e assms by (simp add: bitset_shl_of_int del: of_int_of_nat_eq)
  qed
  have m2: "bitset_sub (push_bit l 1 :: 'n word) 1 = mask l"
    by (simp add: bitset_sub_eq mask_eq_exp_minus_1 push_bit_eq_mult)
  have m3: "?n - ?l - ?i = word_of_int (int (LENGTH('n) - l - i))"
    using assms(2) by (simp add: of_nat_diff)
  have s: "bitset_shl x (word_of_int (int i)) = push_bit i x"
    "bitset_shl x (word_of_int (int (LENGTH('n) - l - i))) = push_bit (LENGTH('n) - l - i) x" for x :: "'n word"
    using assms by (simp_all only: bitset_shl_of_int)
  show ?thesis
    unfolding radix_substr_def Let_def m1 m2 m3 s unfolding of_int_of_nat_eq ..
qed

lemma radix_substr_bit:
  assumes "LENGTH('n) \<le> 128" "i + l \<le> LENGTH('n)" "j < LENGTH('n)"
  shows "bit (re_addr (radix_substr (e :: ('n :: len) word rentry) (int i) (int l))) j \<longleftrightarrow>
    LENGTH('n) - l \<le> j \<and> bit (re_addr e) (j - i)"
  using assms by (auto simp: radix_substr_eq bit_simps)

lemma radix_substr_len:
  assumes "LENGTH('n) \<le> 128" "i + l \<le> LENGTH('n)"
  shows "unat (re_len (radix_substr (e :: ('n :: len) word rentry) (int i) (int l))) = l"
  using assms by (simp add: radix_substr_eq unat_of_nat)

lemma radix_substr_laws:
  assumes "LENGTH('n) \<le> 128" "rentry_ok (e :: ('n :: len) word rentry)" "i + l \<le> LENGTH('n)"
  shows "rentry_ok (radix_substr e (int i) (int l))"
    and "rentry_bits (radix_substr e (int i) (int l)) = take l (drop i (zext LENGTH('n) (rentry_bits e)))"
proof -
  show "rentry_ok (radix_substr e (int i) (int l))"
    using assms by (simp add: rentry_ok_def radix_substr_len radix_substr_bit)
  have le: "length (zext LENGTH('n) (rentry_bits e)) = LENGTH('n)"
    using assms(2) by (simp add: zext_def rentry_ok_def)
  show "rentry_bits (radix_substr e (int i) (int l)) = take l (drop i (zext LENGTH('n) (rentry_bits e)))"
  proof (rule nth_equalityI)
    show "length (rentry_bits (radix_substr e (int i) (int l))) = length (take l (drop i (zext LENGTH('n) (rentry_bits e))))"
      using assms le by (simp add: radix_substr_len)
    fix j assume "j < length (rentry_bits (radix_substr e (int i) (int l)))"
    then have j: "j < l" using assms by (simp add: radix_substr_len)
    have "LENGTH('n) - 1 - (i + j) = LENGTH('n) - 1 - j - i" "LENGTH('n) - l \<le> LENGTH('n) - Suc j"
      using j by simp_all
    then show "rentry_bits (radix_substr e (int i) (int l)) ! j = take l (drop i (zext LENGTH('n) (rentry_bits e))) ! j"
      using j assms rentry_zext [OF assms(2), of "i + j"] le
      by (simp add: rentry_bits_def radix_substr_len radix_substr_bit)
  qed
qed

lemma rentry_at_bits:
  assumes "LENGTH('n) \<le> 128" "rentry_ok (e :: ('n :: len) word rentry)" "i < LENGTH('n)"
  shows "rentry_at e (int i) = zext LENGTH('n) (rentry_bits e) ! i"
proof -
  have "(word_of_nat LENGTH('n) - 1 - word_of_int (int i) :: 64 word) = word_of_nat (LENGTH('n) - 1 - i)"
    using assms(3) by (simp add: of_nat_diff)
  moreover have "unat (word_of_nat (LENGTH('n) - 1 - i) :: 64 word) = LENGTH('n) - 1 - i"
    using assms(1) by (intro unat64_of_nat) simp
  ultimately show ?thesis using rentry_zext [OF assms(2,3)] by (simp only: rentry_at_def)
qed

lemma radix_join_laws:
  assumes "LENGTH('n) \<le> 128" "rentry_ok (d :: ('n :: len) word rentry)" "rentry_ok e"
    and "length (rentry_bits d) + length (rentry_bits e) \<le> LENGTH('n)"
  shows "rentry_ok (radix_join d e)" and "rentry_bits (radix_join d e) = rentry_bits d @ rentry_bits e"
proof -
  let ?m = "unat (re_len d)" and ?n = "unat (re_len e)"
  have le: "?m + ?n \<le> LENGTH('n)" using assms(4) by simp
  have l: "unat (re_len (radix_join d e)) = ?m + ?n"
    using le assms(1) by (simp add: radix_join_def unat_word_ariths)
  have b: "bit (re_addr (radix_join d e)) j \<longleftrightarrow> bit (re_addr d) j \<or> j + ?m < LENGTH('n) \<and> bit (re_addr e) (j + ?m)"
    if "j < LENGTH('n)" for j
    using that by (auto simp: radix_join_def bitset_shr_def bit_simps add.commute dest: bit_imp_le_length)
  have z: "\<not> bit (re_addr d) j" if "j < LENGTH('n) - ?m" for j
    using assms(2) that by (simp add: rentry_ok_def)
  have z': "\<not> bit (re_addr e) j" if "j < LENGTH('n) - ?n" for j
    using assms(3) that by (simp add: rentry_ok_def)
  show "rentry_ok (radix_join d e)"
    using le by (auto simp: rentry_ok_def l b z z')
  show "rentry_bits (radix_join d e) = rentry_bits d @ rentry_bits e"
  proof (rule nth_equalityI)
    fix j assume "j < length (rentry_bits (radix_join d e))"
    then have j: "j < ?m + ?n" by (simp add: l)
    show "rentry_bits (radix_join d e) ! j = (rentry_bits d @ rentry_bits e) ! j"
    proof (cases "j < ?m")
      case True
      then have "\<not> LENGTH('n) - 1 - j + ?m < LENGTH('n)" using le by simp
      then show ?thesis using True le by (simp add: rentry_bits_def l b nth_append)
    next
      case False
      then have "LENGTH('n) - 1 - j < LENGTH('n) - ?m" using le j by simp
      moreover have "LENGTH('n) - 1 - j + ?m = LENGTH('n) - 1 - (j - ?m)"
        "LENGTH('n) + ?m - Suc j < LENGTH('n)" using False j le by simp_all
      ultimately show ?thesis using False j le z by (simp add: rentry_bits_def l b nth_append)
    qed
  qed (simp add: l)
qed

lemma rentry_radix_key:
  assumes "LENGTH('n) \<le> 128"
  shows "radix_key (rentry_ops :: ('n :: len) word rentry radix_ops) rentry_bits rentry_ok LENGTH('n)"
proof
  fix d e :: "'n word rentry" and i l :: nat
  show "rentry_ok d \<Longrightarrow> rentry_ok e \<Longrightarrow> rentry_bits d = rentry_bits e \<Longrightarrow> d = e"
    by (rule rentry_bits_inject)
  show "rentry_ok e \<Longrightarrow> rx_length rentry_ops e = int (length (rentry_bits e))"
    using radix_length_bits [OF assms] by (simp add: rentry_ops_def)
  show "rentry_ok e \<Longrightarrow> length (rentry_bits e) \<le> LENGTH('n)"
    by (simp add: rentry_ok_def)
  show "rentry_ok e \<Longrightarrow> i + l \<le> LENGTH('n) \<Longrightarrow> rentry_ok (rx_substr rentry_ops e (int i) (int l))"
    using radix_substr_laws(1) [OF assms] by (simp add: rentry_ops_def)
  show "rentry_ok e \<Longrightarrow> i + l \<le> LENGTH('n) \<Longrightarrow>
      rentry_bits (rx_substr rentry_ops e (int i) (int l)) = take l (drop i (zext LENGTH('n) (rentry_bits e)))"
    using radix_substr_laws(2) [OF assms] by (simp add: rentry_ops_def)
  show "rentry_ok e \<Longrightarrow> i < LENGTH('n) \<Longrightarrow> rx_at rentry_ops e (int i) = zext LENGTH('n) (rentry_bits e) ! i"
    using rentry_at_bits [OF assms] by (simp add: rentry_ops_def)
  show "rentry_ok d \<Longrightarrow> rentry_ok e \<Longrightarrow> length (rentry_bits d) + length (rentry_bits e) \<le> LENGTH('n) \<Longrightarrow>
      rentry_ok (rx_join rentry_ops d e)"
    using radix_join_laws(1) [OF assms] by (simp add: rentry_ops_def)
  show "rentry_ok d \<Longrightarrow> rentry_ok e \<Longrightarrow> length (rentry_bits d) + length (rentry_bits e) \<le> LENGTH('n) \<Longrightarrow>
      rentry_bits (rx_join rentry_ops d e) = rentry_bits d @ rentry_bits e"
    using radix_join_laws(2) [OF assms] by (simp add: rentry_ops_def)
qed

interpretation rn4: radix_key "rentry_ops :: 32 word rentry radix_ops" rentry_bits rentry_ok 32
  using rentry_radix_key [where 'n = 32] by simp

interpretation rn6: radix_key "rentry_ops :: 128 word rentry radix_ops" rentry_bits rentry_ok 128
  using rentry_radix_key [where 'n = 128] by simp

text \<open>Keys are linearly ordered, as \<open>std::map\<close> requires.\<close>

instantiation rentry :: (linorder) linorder
begin

definition less_rentry :: "'a rentry \<Rightarrow> 'a rentry \<Rightarrow> bool" where
  "l < r \<longleftrightarrow> (if re_addr l = re_addr r then re_len l < re_len r else re_addr l < re_addr r)"

definition less_eq_rentry :: "'a rentry \<Rightarrow> 'a rentry \<Rightarrow> bool" where
  "(l :: 'a rentry) \<le> r \<longleftrightarrow> l < r \<or> l = r"

instance
proof
  fix x y z :: "'a rentry"
  show "x < y \<longleftrightarrow> x \<le> y \<and> \<not> y \<le> x"
    by (cases x; cases y) (auto simp: less_rentry_def less_eq_rentry_def)
  show "x \<le> x" by (simp add: less_eq_rentry_def)
  show "x \<le> y \<Longrightarrow> y \<le> z \<Longrightarrow> x \<le> z"
    by (cases x; cases y; cases z) (auto simp: less_rentry_def less_eq_rentry_def split: if_splits)
  show "x \<le> y \<Longrightarrow> y \<le> x \<Longrightarrow> x = y"
    by (cases x; cases y) (auto simp: less_rentry_def less_eq_rentry_def split: if_splits)
  show "x \<le> y \<or> y \<le> x"
    by (cases x; cases y) (auto simp: less_rentry_def less_eq_rentry_def)
qed

end

lemma rentry_less_iff: "rentry_less l r \<longleftrightarrow> l < r"
  by (simp add: rentry_less_def less_rentry_def bitset_less_iff)

end
