(* ===== verification/NdAddrType.thy ===== *)
theory NdAddrType
  imports NdRadixKey
begin

unbundle bit_operations_syntax

text \<open>
  Address classification (\<open>class ndAddrType\<close> of \<open>src/src/nd-addr.cpp\<close>): the
  reserved MAC addresses, the global IPv4 and IPv6 prefix trees and the trees
  of each interface. An unordered map of trees is an association list in its
  iteration order. An exception of the tree leaves the state the tree has then
  and makes the operation return false.
\<close>

type_synonym rn4 = "(32 word rentry, addr_type) radix_tree"
type_synonym rn6 = "(128 word rentry, addr_type) radix_tree"

record addr_types =
  at_ether :: "string \<Rightarrow> addr_type option"
  at_ipv4 :: rn4
  at_ipv6 :: rn6
  at_ipv4_iface :: "(string \<times> rn4) list"
  at_ipv6_iface :: "(string \<times> rn6) list"

definition addr_types_empty :: addr_types where
  "addr_types_empty = \<lparr>at_ether = Map.empty, at_ipv4 = rt_empty, at_ipv6 = rt_empty,
     at_ipv4_iface = [], at_ipv6_iface = []\<rparr>"

definition iface_tree :: "(string \<times> ('k, 'v) radix_tree) list \<Rightarrow> string \<Rightarrow> ('k, 'v) radix_tree" where
  "iface_tree ifs ifname = (case map_of ifs ifname of None \<Rightarrow> rt_empty | Some T \<Rightarrow> T)"

definition AddAddress ::
  "inet_ntop \<Rightarrow> addr_types \<Rightarrow> addr_type \<Rightarrow> nd_addr \<Rightarrow> string \<Rightarrow> bool \<times> addr_types" where
  "AddAddress ntop s type a ifname =
     (if \<not> IsValid a then (False, s)
      else if IsEthernet a then
        (let mac = fst (GetString ntop a 0) in
         case at_ether s mac of
           Some _ \<Rightarrow> (False, s)
         | None \<Rightarrow> (True, s\<lparr>at_ether := (at_ether s)(mac \<mapsto> type)\<rparr>))
      else
        (let type = (if type = atLOCAL \<and> IsNetwork a then atLOCALNET else type) in
         if IsIPv4 a \<and> ifname = [] then
           (case rentry_create re_load4 a of
              None \<Rightarrow> (False, s)
            | Some e \<Rightarrow> (case rt_assign rentry_ops (at_ipv4 s) e type of
                 (T, ex) \<Rightarrow> (ex = None, s\<lparr>at_ipv4 := T\<rparr>)))
         else if IsIPv6 a \<and> ifname = [] then
           (case rentry_create re_load6 a of
              None \<Rightarrow> (False, s)
            | Some e \<Rightarrow> (case rt_assign rentry_ops (at_ipv6 s) e type of
                 (T, ex) \<Rightarrow> (ex = None, s\<lparr>at_ipv6 := T\<rparr>)))
         else if IsIPv4 a then
           (case rentry_create re_load4 a of
              None \<Rightarrow> (False, s)
            | Some e \<Rightarrow> (case rt_assign rentry_ops (iface_tree (at_ipv4_iface s) ifname) e type of
                 (T, ex) \<Rightarrow> (ex = None, s\<lparr>at_ipv4_iface := al_update ifname T (at_ipv4_iface s)\<rparr>)))
         else if IsIPv6 a then
           (case rentry_create re_load6 a of
              None \<Rightarrow> (False, s)
            | Some e \<Rightarrow> (case rt_assign rentry_ops (iface_tree (at_ipv6_iface s) ifname) e type of
                 (T, ex) \<Rightarrow> (ex = None, s\<lparr>at_ipv6_iface := al_update ifname T (at_ipv6_iface s)\<rparr>)))
         else (False, s)))"

text \<open>
  \<open>RemoveAddress\<close> tests the four cases in turn; the third repeats the condition
  of the first, so it is only reached when an IPv4 key cannot be made.
\<close>

definition RemoveAddress ::
  "inet_ntop \<Rightarrow> addr_types \<Rightarrow> nd_addr \<Rightarrow> string \<Rightarrow> bool \<times> addr_types" where
  "RemoveAddress ntop s a ifname =
     (if \<not> IsValid a then (False, s)
      else if IsEthernet a then
        (let mac = fst (GetString ntop a 0) in
         case at_ether s mac of
           Some _ \<Rightarrow> (True, s\<lparr>at_ether := (at_ether s)(mac := None)\<rparr>)
         | None \<Rightarrow> (False, s))
      else if IsIPv4 a \<and> ifname = [] \<and> rentry_create re_load4 a \<noteq> None then
        (case rt_erase rentry_ops (at_ipv4 s) (the (rentry_create re_load4 a)) of
           (T, b) \<Rightarrow> (b, s\<lparr>at_ipv4 := T\<rparr>))
      else if IsIPv6 a \<and> ifname = [] \<and> rentry_create re_load6 a \<noteq> None then
        (case rt_erase rentry_ops (at_ipv6 s) (the (rentry_create re_load6 a)) of
           (T, b) \<Rightarrow> (b, s\<lparr>at_ipv6 := T\<rparr>))
      else if IsIPv4 a \<and> ifname = [] \<and> rentry_create re_load4 a \<noteq> None then
        (case map_of (at_ipv4_iface s) ifname of
           None \<Rightarrow> (False, s)
         | Some T \<Rightarrow> (case rt_erase rentry_ops T (the (rentry_create re_load4 a)) of
              (T, b) \<Rightarrow> (b, s\<lparr>at_ipv4_iface := al_update ifname T (at_ipv4_iface s)\<rparr>)))
      else if IsIPv6 a \<and> ifname \<noteq> [] \<and> rentry_create re_load6 a \<noteq> None then
        (case map_of (at_ipv6_iface s) ifname of
           None \<Rightarrow> (False, s)
         | Some T \<Rightarrow> (case rt_erase rentry_ops T (the (rentry_create re_load6 a)) of
              (T, b) \<Rightarrow> (b, s\<lparr>at_ipv6_iface := al_update ifname T (at_ipv6_iface s)\<rparr>)))
      else (False, s))"

section \<open>Classification\<close>

definition classify_ether :: "inet_ntop \<Rightarrow> addr_types \<Rightarrow> nd_addr \<Rightarrow> addr_type" where
  "classify_ether ntop s a =
     (let hw = ll_addr (na_addr a); halen = unat (ll_halen (na_addr a)) in
      if list_ex (\<lambda>i. i AND hw ! 0 = i) [0x01, 0x03, 0x05, 0x07, 0x09, 0x0b, 0x0d, 0x0f] then atMULTICAST
      else if memcmp (take halen hw) (replicate halen 0xff) = 0 then atBROADCAST
      else if memcmp (take halen hw) (replicate halen 0) = 0 then atNONE
      else case at_ether s (fst (GetString ntop a 0)) of Some t \<Rightarrow> t | None \<Rightarrow> atOTHER)"

definition match_type :: "nd_addr \<Rightarrow> addr_type \<Rightarrow> addr_type" where
  "match_type a t = (if t = atLOCALNET \<and> \<not> IsNetwork a then atLOCAL else t)"

fun first_match ::
  "'k radix_ops \<Rightarrow> 'k \<Rightarrow> (string \<times> ('k, addr_type) radix_tree) list \<Rightarrow> addr_type option" where
  "first_match R e [] = None"
| "first_match R e ((_, T) # ifs) =
     (case longest_match R T e of Some (_, t) \<Rightarrow> Some t | None \<Rightarrow> first_match R e ifs)"

definition classify_ip ::
  "(bytes \<Rightarrow> ('n :: len) word) \<Rightarrow> (string \<times> ('n word rentry, addr_type) radix_tree) list
   \<Rightarrow> ('n word rentry, addr_type) radix_tree \<Rightarrow> nd_addr \<Rightarrow> addr_type" where
  "classify_ip load ifs global a =
     (case rentry_query load a of
        None \<Rightarrow> atOTHER
      | Some e \<Rightarrow>
          (case first_match rentry_ops e ifs of
             Some t \<Rightarrow> match_type a t
           | None \<Rightarrow> (case longest_match rentry_ops global e of
                Some (_, t) \<Rightarrow> match_type a t
              | None \<Rightarrow> atOTHER)))"

definition Classify :: "inet_ntop \<Rightarrow> addr_types \<Rightarrow> nd_addr \<Rightarrow> addr_type" where
  "Classify ntop s a =
     (if \<not> IsValid a then atERROR
      else if IsEthernet a then classify_ether ntop s a
      else if IsIPv4 a then
        (if in_addr (na_addr a) = [0, 0, 0, 0] then atLOCAL
         else if in_addr (na_addr a) = [0xff, 0xff, 0xff, 0xff] then atBROADCAST
         else classify_ip re_load4 (at_ipv4_iface s) (at_ipv4 s) a)
      else if IsIPv6 a then classify_ip re_load6 (at_ipv6_iface s) (at_ipv6 s) a
      else atOTHER)"

text \<open>
  \<open>GetInterfaceAddresses\<close>: the set is extended; an interface without an IPv4
  tree ends the call before its IPv6 tree is looked at.
\<close>

definition GetInterfaceAddresses ::
  "inet_ntop \<Rightarrow> addr_types \<Rightarrow> string \<Rightarrow> string set \<Rightarrow> sa_family \<Rightarrow> string set" where
  "GetInterfaceAddresses ntop s iface result family =
     (let strings4 = (\<lambda>T. \<Union>kv \<in> set (rt_entries T). set_option (rentry_string4 ntop (fst kv)));
          strings6 = (\<lambda>T. \<Union>kv \<in> set (rt_entries T). set_option (rentry_string6 ntop (fst kv)));
          (stop, result) =
            (if family = AF_UNSPEC \<or> family = AF_INET then
               (case map_of (at_ipv4_iface s) iface of
                  None \<Rightarrow> (True, result) | Some T \<Rightarrow> (False, result \<union> strings4 T))
             else (False, result))
      in if stop then result
         else if family = AF_UNSPEC \<or> family = AF_INET6 then
           (case map_of (at_ipv6_iface s) iface of
              None \<Rightarrow> result | Some T \<Rightarrow> result \<union> strings6 T)
         else result)"

text \<open>The constructor.\<close>

definition default_networks :: "(addr_type \<times> string) list" where
  "default_networks =
    [(atRESERVED, ''127.0.0.0/8''), (atRESERVED, ''10.0.0.0/8''), (atRESERVED, ''100.64.0.0/10''),
     (atRESERVED, ''172.16.0.0/12''), (atRESERVED, ''192.168.0.0/16''),
     (atRESERVED, ''::1/128''), (atRESERVED, ''fc00::/7''), (atRESERVED, ''fd00::/8''),
     (atRESERVED, ''fe80::/10''), (atMULTICAST, ''224.0.0.0/4''), (atMULTICAST, ''ff00::/8''),
     (atBROADCAST, ''169.254.255.255'')]"

definition ndAddrType_new :: "inet_pton \<Rightarrow> inet_ntop \<Rightarrow> addr_types" where
  "ndAddrType_new pton ntop =
     foldl (\<lambda>s (t, addr). snd (AddAddress ntop s t (ndAddr_str pton addr) [])) addr_types_empty default_networks"

section \<open>Keys of addresses\<close>

lemma rentry_create_ok:
  assumes "LENGTH('n) \<le> 128" "rentry_create load a = Some (e :: ('n :: len) word rentry)"
  shows "rentry_ok e"
proof -
  define plen where "plen = (if na_prefix a = 0 then LENGTH('n) else na_prefix a)"
  have p: "plen \<le> LENGTH('n)" and e: "re_addr e = load (case GetAddress a of Some ip \<Rightarrow> ip | None \<Rightarrow> []) AND re_mask plen"
      "re_len e = word_of_nat plen"
    using assms(2) by (auto simp: rentry_create_def Let_def plen_def split: if_splits)
  have "unat (re_len e) = plen" using p assms(1) by (simp add: e unat_of_nat)
  then show ?thesis using p by (simp add: rentry_ok_def e(1) bit_simps re_mask_bits)
qed

lemma rentry_query_ok:
  assumes "LENGTH('n) \<le> 128" "rentry_query load a = Some (e :: ('n :: len) word rentry)"
  shows "rentry_ok e" and "length (rentry_bits e) = LENGTH('n)"
proof -
  have "re_len e = word_of_nat LENGTH('n)" using assms(2) by (auto simp: rentry_query_def split: if_splits)
  then have "unat (re_len e) = LENGTH('n)" using assms(1) by (simp add: unat_of_nat)
  then show "rentry_ok e" and "length (rentry_bits e) = LENGTH('n)" by (simp_all add: rentry_ok_def)
qed

text \<open>A stored key is a prefix of a full-length key when masking the latter gives the former.\<close>

definition in_network :: "('n :: len) word rentry \<Rightarrow> 'n word \<Rightarrow> bool" where
  "in_network k w \<longleftrightarrow> w AND re_mask (unat (re_len k)) = re_addr k"

lemma prefix_in_network:
  assumes "rentry_ok (k :: ('n :: len) word rentry)" "unat (re_len e) = LENGTH('n)"
  shows "prefix (rentry_bits k) (rentry_bits e) \<longleftrightarrow> in_network k (re_addr e)"
proof -
  let ?n = "unat (re_len k)"
  have le: "?n \<le> LENGTH('n)" using assms(1) by (simp add: rentry_ok_def)
  have "prefix (rentry_bits k) (rentry_bits e) \<longleftrightarrow> rentry_bits k = take ?n (rentry_bits e)"
    by (metis append_eq_conv_conj length_rentry_bits prefix_def take_is_prefix)
  also have "\<dots> \<longleftrightarrow> (\<forall>i < ?n. bit (re_addr k) (LENGTH('n) - 1 - i) = bit (re_addr e) (LENGTH('n) - 1 - i))"
    using le assms(2) by (auto simp: rentry_bits_def take_map list_eq_iff_nth_eq)
  also have "\<dots> \<longleftrightarrow> (\<forall>j < LENGTH('n). LENGTH('n) - ?n \<le> j \<longrightarrow> bit (re_addr k) j = bit (re_addr e) j)"
  proof (rule iffI; rule allI; rule impI; (rule impI)?)
    fix j assume a: "\<forall>i < ?n. bit (re_addr k) (LENGTH('n) - 1 - i) = bit (re_addr e) (LENGTH('n) - 1 - i)"
      and j: "j < LENGTH('n)" "LENGTH('n) - ?n \<le> j"
    have "LENGTH('n) - 1 - (LENGTH('n) - 1 - j) = j" "LENGTH('n) - 1 - j < ?n" using j le by simp_all
    then show "bit (re_addr k) j = bit (re_addr e) j" using a by metis
  next
    fix i assume "\<forall>j < LENGTH('n). LENGTH('n) - ?n \<le> j \<longrightarrow> bit (re_addr k) j = bit (re_addr e) j" "i < ?n"
    then show "bit (re_addr k) (LENGTH('n) - 1 - i) = bit (re_addr e) (LENGTH('n) - 1 - i)" using le by simp
  qed
  also have "\<dots> \<longleftrightarrow> in_network k (re_addr e)"
  proof -
    have hi: "LENGTH('n) - ?n \<le> j" if "bit (re_addr k) j" for j
      using assms(1) that unfolding rentry_ok_def by (metis leI)
    have hj: "j < LENGTH('n)" if "bit w j" for j and w :: "'n word" using that by (rule bit_imp_le_length)
    have m: "bit (re_mask ?n :: 'n word) j \<longleftrightarrow> j < LENGTH('n) \<and> LENGTH('n) - ?n \<le> j" for j
      by (cases "?n = 0") (auto simp: re_mask_bits)
    show ?thesis unfolding in_network_def bit_eq_iff bit_and_iff m possible_bit_word using hi hj by blast
  qed
  finally show ?thesis .
qed

section \<open>What classification computes\<close>

text \<open>The longest network of a set that contains an address, as a relation.\<close>

definition best_network :: "(('n :: len) word rentry \<times> 'v) set \<Rightarrow> 'n word \<Rightarrow> 'v option \<Rightarrow> bool" where
  "best_network S w m = (case m of
       None \<Rightarrow> \<forall>kv \<in> S. \<not> in_network (fst kv) w
     | Some t \<Rightarrow> \<exists>k. (k, t) \<in> S \<and> in_network k w
         \<and> (\<forall>kv \<in> S. in_network (fst kv) w \<longrightarrow> re_len (fst kv) \<le> re_len k))"

definition tree_ok :: "(('n :: len) word rentry, 'v) radix_tree \<Rightarrow> bool" where
  "tree_ok T = rt_wf rentry_bits rentry_ok T"

definition at_wf :: "addr_types \<Rightarrow> bool" where
  "at_wf s \<longleftrightarrow> tree_ok (at_ipv4 s) \<and> tree_ok (at_ipv6 s)
     \<and> list_all (\<lambda>p. tree_ok (snd p)) (at_ipv4_iface s) \<and> list_all (\<lambda>p. tree_ok (snd p)) (at_ipv6_iface s)"

lemma longest_match_best:
  assumes "LENGTH('n) \<le> 128" "tree_ok T" "rentry_query load a = Some (e :: ('n :: len) word rentry)"
  shows "best_network (rt_set T) (re_addr e) (map_option snd (longest_match rentry_ops T e))"
proof -
  note q = rentry_query_ok [OF assms(1,3)]
  note w = assms(2) [unfolded tree_ok_def]
  note c = radix_key.longest_match_correct [OF rentry_radix_key [OF assms(1)] w q]
  have n: "unat (re_len e) = LENGTH('n)" using q(2) by simp
  have iff: "prefix (rentry_bits (fst kv)) (rentry_bits e) \<longleftrightarrow> in_network (fst kv) (re_addr e)"
    if "kv \<in> rt_set T" for kv
    using prefix_in_network [OF radix_key.rt_set_ok [OF rentry_radix_key [OF assms(1)] w, of "fst kv" "snd kv"] n] that by simp
  show ?thesis
  proof (cases "longest_match rentry_ops T e")
    case None
    then show ?thesis using c iff by (auto simp: best_network_def)
  next
    case (Some kv)
    obtain k t where kv: "kv = (k, t)" by force
    have "(k, t) \<in> rt_set T" "in_network k (re_addr e)" using c Some kv iff [of "(k, t)"] by auto
    moreover have "re_len (fst kv') \<le> re_len k" if "kv' \<in> rt_set T" "in_network (fst kv') (re_addr e)" for kv'
      using c Some kv iff [OF that(1)] that by (auto simp: word_le_nat_alt)
    ultimately show ?thesis using Some kv by (auto simp: best_network_def)
  qed
qed

lemma first_match_spec:
  assumes "LENGTH('n) \<le> 128" "list_all (\<lambda>p. tree_ok (snd p)) ifs"
    "rentry_query load a = Some (e :: ('n :: len) word rentry)"
  shows "\<exists>ms. list_all2 (\<lambda>p m. best_network (rt_set (snd p)) (re_addr e) m) ifs ms
    \<and> first_match rentry_ops e ifs = (case dropWhile (\<lambda>m. m = None) ms of [] \<Rightarrow> None | m # _ \<Rightarrow> m)"
  using assms(2)
proof (induction ifs)
  case (Cons p ifs)
  obtain i T where p: "p = (i, T)" by force
  obtain ms where ms: "list_all2 (\<lambda>p m. best_network (rt_set (snd p)) (re_addr e) m) ifs ms"
    "first_match rentry_ops e ifs = (case dropWhile (\<lambda>m. m = None) ms of [] \<Rightarrow> None | m # _ \<Rightarrow> m)"
    using Cons by auto
  let ?m = "map_option snd (longest_match rentry_ops T e)"
  have "best_network (rt_set T) (re_addr e) ?m"
    using Cons.prems p by (intro longest_match_best [OF assms(1) _ assms(3)]) simp
  then show ?case using ms p by (intro exI [of _ "?m # ms"]) (auto split: option.splits)
qed simp

lemma classify_ip_spec:
  assumes "LENGTH('n) \<le> 128" "list_all (\<lambda>p. tree_ok (snd p)) ifs" "tree_ok global"
    "rentry_query load a = Some (e :: ('n :: len) word rentry)"
  shows "\<exists>ms. list_all2 (\<lambda>T m. best_network (rt_set T) (re_addr e) m) (map snd ifs @ [global]) ms
    \<and> classify_ip load ifs global a =
      (case dropWhile (\<lambda>m. m = None) ms of Some t # _ \<Rightarrow> match_type a t | _ \<Rightarrow> atOTHER)"
proof -
  obtain ms where ms: "list_all2 (\<lambda>p m. best_network (rt_set (snd p)) (re_addr e) m) ifs ms"
    "first_match rentry_ops e ifs = (case dropWhile (\<lambda>m. m = None) ms of [] \<Rightarrow> None | m # _ \<Rightarrow> m)"
    using first_match_spec [OF assms(1,2,4)] by auto
  let ?m = "map_option snd (longest_match rentry_ops global e)"
  have b: "best_network (rt_set global) (re_addr e) ?m" by (rule longest_match_best [OF assms(1,3,4)])
  show ?thesis
  proof (rule exI [of _ "ms @ [?m]"], rule conjI)
    show "list_all2 (\<lambda>T m. best_network (rt_set T) (re_addr e) m) (map snd ifs @ [global]) (ms @ [?m])"
      using ms(1) b by (intro list_all2_appendI) (simp_all add: list_all2_map1)
    show "classify_ip load ifs global a =
      (case dropWhile (\<lambda>m. m = None) (ms @ [?m]) of Some t # _ \<Rightarrow> match_type a t | _ \<Rightarrow> atOTHER)"
    proof (cases "dropWhile (\<lambda>m. m = None) ms")
      case Nil
      then have "first_match rentry_ops e ifs = None" by (simp only: ms(2) list.case)
      then show ?thesis using Nil assms(4)
        by (auto simp: classify_ip_def dropWhile_append split: option.splits)
    next
      case (Cons m ms')
      then have "m \<noteq> None" by (metis (mono_tags, lifting) hd_dropWhile list.distinct(1) list.sel(1))
      moreover have "\<not> (\<forall>x \<in> set ms. x = None)"
        using Cons dropWhile_eq_Nil_conv [of "\<lambda>m. m = None" ms] by auto
      ultimately show ?thesis using Cons ms(2) assms(4)
        by (auto simp: classify_ip_def dropWhile_append split: option.splits)
    qed
  qed
qed


section \<open>Changes of the trees\<close>

text \<open>The key and the tree that an address goes to, as a side condition on the order of insertion.\<close>

definition at_safe :: "addr_types \<Rightarrow> nd_addr \<Rightarrow> string \<Rightarrow> bool" where
  "at_safe s a ifname \<longleftrightarrow>
     (\<forall>e. rentry_create re_load4 a = Some e \<longrightarrow>
        rt_safe rentry_bits (if ifname = [] then at_ipv4 s else iface_tree (at_ipv4_iface s) ifname) e)
   \<and> (\<forall>e. rentry_create re_load6 a = Some e \<longrightarrow>
        rt_safe rentry_bits (if ifname = [] then at_ipv6 s else iface_tree (at_ipv6_iface s) ifname) e)"

lemma tree_ok_empty [simp]: "tree_ok rt_empty"
  by (simp add: tree_ok_def rt_wf_def rt_empty_def)

lemma tree_ok_iface: "list_all (\<lambda>p. tree_ok (snd p)) ifs \<Longrightarrow> tree_ok (iface_tree ifs i)"
  by (force simp: iface_tree_def list_all_iff split: option.splits dest: map_of_SomeD)

lemma list_all_al_update:
  "list_all (\<lambda>p. P (snd p)) xs \<Longrightarrow> P v \<Longrightarrow> list_all (\<lambda>p. P (snd p)) (al_update k v xs)"
  by (induction xs) auto

lemma assign4:
  assumes "tree_ok T" "rentry_create re_load4 a = Some e" "rt_safe rentry_bits T e"
  shows "\<exists>T'. rt_assign rentry_ops T e t = (T', None) \<and> tree_ok T'
    \<and> rt_set T' = insert (e, t) {kv \<in> rt_set T. fst kv \<noteq> e}"
  using rn4.rt_assign_correct [OF assms(1) [unfolded tree_ok_def] rentry_create_ok [OF _ assms(2)] assms(3), of t]
  by (auto simp: tree_ok_def split: prod.splits)

lemma assign6:
  assumes "tree_ok T" "rentry_create re_load6 a = Some e" "rt_safe rentry_bits T e"
  shows "\<exists>T'. rt_assign rentry_ops T e t = (T', None) \<and> tree_ok T'
    \<and> rt_set T' = insert (e, t) {kv \<in> rt_set T. fst kv \<noteq> e}"
  using rn6.rt_assign_correct [OF assms(1) [unfolded tree_ok_def] rentry_create_ok [OF _ assms(2)] assms(3), of t]
  by (auto simp: tree_ok_def split: prod.splits)

lemma erase4:
  assumes "tree_ok T" "rentry_create re_load4 a = Some e"
  shows "\<exists>T' b. rt_erase rentry_ops T e = (T', b) \<and> tree_ok T' \<and> rt_set T' = {kv \<in> rt_set T. fst kv \<noteq> e}"
  using rn4.rt_erase_correct [OF assms(1) [unfolded tree_ok_def] rentry_create_ok [OF _ assms(2)]]
  by (auto simp: tree_ok_def split: prod.splits)

lemma erase6:
  assumes "tree_ok T" "rentry_create re_load6 a = Some e"
  shows "\<exists>T' b. rt_erase rentry_ops T e = (T', b) \<and> tree_ok T' \<and> rt_set T' = {kv \<in> rt_set T. fst kv \<noteq> e}"
  using rn6.rt_erase_correct [OF assms(1) [unfolded tree_ok_def] rentry_create_ok [OF _ assms(2)]]
  by (auto simp: tree_ok_def split: prod.splits)

lemma erase_ok4: "tree_ok T \<Longrightarrow> rentry_create re_load4 a = Some e \<Longrightarrow> tree_ok (fst (rt_erase rentry_ops T e))"
  using erase4 [of T a e] by auto

lemma erase_ok6: "tree_ok T \<Longrightarrow> rentry_create re_load6 a = Some e \<Longrightarrow> tree_ok (fst (rt_erase rentry_ops T e))"
  using erase6 [of T a e] by auto

lemma map_of_ok: "list_all (\<lambda>p. tree_ok (snd p)) ifs \<Longrightarrow> map_of ifs i = Some T \<Longrightarrow> tree_ok T"
  by (force simp: list_all_iff dest: map_of_SomeD)

lemma RemoveAddress_wf:
  assumes "at_wf s"
  shows "at_wf (snd (RemoveAddress ntop s a ifname))"
proof -
  note w = assms [unfolded at_wf_def]
  have i4: "list_all (\<lambda>p. tree_ok (snd p)) (al_update ifname (fst (rt_erase rentry_ops T (the (rentry_create re_load4 a)))) (at_ipv4_iface s))"
    if "map_of (at_ipv4_iface s) ifname = Some T" "rentry_create re_load4 a \<noteq> None" for T
    using that w erase_ok4 [OF map_of_ok [OF _ that(1)]] by (intro list_all_al_update) auto
  have i6: "list_all (\<lambda>p. tree_ok (snd p)) (al_update ifname (fst (rt_erase rentry_ops T (the (rentry_create re_load6 a)))) (at_ipv6_iface s))"
    if "map_of (at_ipv6_iface s) ifname = Some T" "rentry_create re_load6 a \<noteq> None" for T
    using that w erase_ok6 [OF map_of_ok [OF _ that(1)]] by (intro list_all_al_update) auto
  have g4: "tree_ok (fst (rt_erase rentry_ops (at_ipv4 s) (the (rentry_create re_load4 a))))"
    if "rentry_create re_load4 a \<noteq> None" using that w erase_ok4 by auto
  have g6: "tree_ok (fst (rt_erase rentry_ops (at_ipv6 s) (the (rentry_create re_load6 a))))"
    if "rentry_create re_load6 a \<noteq> None" using that w erase_ok6 by auto
  show ?thesis
    unfolding RemoveAddress_def Let_def split_def at_wf_def
    using w by (auto split: option.split intro: i4 i6 g4 g6 simp del: not_None_eq)
qed

lemma assign_ok4:
  "tree_ok T \<Longrightarrow> rentry_create re_load4 a = Some e \<Longrightarrow> rt_safe rentry_bits T e \<Longrightarrow> tree_ok (fst (rt_assign rentry_ops T e t))"
  using assign4 [of T a e t] by auto

lemma assign_ok6:
  "tree_ok T \<Longrightarrow> rentry_create re_load6 a = Some e \<Longrightarrow> rt_safe rentry_bits T e \<Longrightarrow> tree_ok (fst (rt_assign rentry_ops T e t))"
  using assign6 [of T a e t] by auto

lemma AddAddress_wf:
  assumes "at_wf s" "at_safe s a ifname"
  shows "at_wf (snd (AddAddress ntop s type a ifname))"
proof -
  note w = assms(1) [unfolded at_wf_def]
  note safe = assms(2)
  have t4: "tree_ok (iface_tree (at_ipv4_iface s) ifname)" and t6: "tree_ok (iface_tree (at_ipv6_iface s) ifname)"
    using w by (simp_all add: tree_ok_iface)
  have g4: "tree_ok (fst (rt_assign rentry_ops (at_ipv4 s) e t))"
    if "rentry_create re_load4 a = Some e" "ifname = []" for e t
    using that w safe by (intro assign_ok4) (auto simp: at_safe_def)
  have g6: "tree_ok (fst (rt_assign rentry_ops (at_ipv6 s) e t))"
    if "rentry_create re_load6 a = Some e" "ifname = []" for e t
    using that w safe by (intro assign_ok6) (auto simp: at_safe_def)
  have i4: "list_all (\<lambda>p. tree_ok (snd p)) (al_update ifname (fst (rt_assign rentry_ops (iface_tree (at_ipv4_iface s) ifname) e t)) (at_ipv4_iface s))"
    if "rentry_create re_load4 a = Some e" "ifname \<noteq> []" for e t
    using that w safe t4 by (intro list_all_al_update assign_ok4) (auto simp: at_safe_def)
  have i6: "list_all (\<lambda>p. tree_ok (snd p)) (al_update ifname (fst (rt_assign rentry_ops (iface_tree (at_ipv6_iface s) ifname) e t)) (at_ipv6_iface s))"
    if "rentry_create re_load6 a = Some e" "ifname \<noteq> []" for e t
    using that w safe t6 by (intro list_all_al_update assign_ok6) (auto simp: at_safe_def)
  show "at_wf (snd (AddAddress ntop s type a ifname))"
    unfolding AddAddress_def Let_def split_def at_wf_def
    using w by (auto split: option.split intro: i4 i6 g4 g6 simp del: not_None_eq)
qed


text \<open>
  \<open>AddAddress\<close> of a valid IPv4 network succeeds and makes the tree it goes to,
  the global one or that of the interface, hold the new type for exactly this
  network; a local network is stored as \<open>atLOCALNET\<close>.
\<close>

theorem AddAddress_ipv4_stores:
  assumes "at_wf s" "at_safe s a ifname" "na_addr a = SA_in p ip z" "na_prefix a \<le> 32"
    and "AddAddress ntop s type a ifname = (ok, s')"
  shows "let tree = (\<lambda>s. if ifname = [] then at_ipv4 s else iface_tree (at_ipv4_iface s) ifname);
             e = the (rentry_create re_load4 a);
             t = (if type = atLOCAL \<and> IsNetwork a then atLOCALNET else type)
         in ok \<and> rt_set (tree s') = insert (e, t) {kv \<in> rt_set (tree s). fst kv \<noteq> e}"
proof -
  have f: "IsValid a" "\<not> IsEthernet a" "IsIPv4 a" using assms(3) by (simp_all add: IsValid_def IsEthernet_def IsIPv4_def)
  obtain e where e: "rentry_create re_load4 a = Some e"
    using f assms(3,4) by (cases "na_prefix a = 0") (auto simp: rentry_create_def Let_def)
  define t where "t = (if type = atLOCAL \<and> IsNetwork a then atLOCALNET else type)"
  define T where "T = (if ifname = [] then at_ipv4 s else iface_tree (at_ipv4_iface s) ifname)"
  have "tree_ok T" "rt_safe rentry_bits T e"
    using assms(1,2) e by (auto simp: T_def at_wf_def tree_ok_iface at_safe_def)
  from assign4 [OF this(1) e this(2), of t] obtain T' where T': "rt_assign rentry_ops T e t = (T', None)"
    "rt_set T' = insert (e, t) {kv \<in> rt_set T. fst kv \<noteq> e}" by auto
  then show ?thesis
    using assms(5) f e by (cases "ifname = []") (auto simp: AddAddress_def T_def t_def iface_tree_def map_of_al_update)
qed

section \<open>Concrete instances\<close>

definition at_example :: addr_types where
  "at_example = snd (AddAddress hex_ntop addr_types_empty atLOCAL (ndAddr_in [10, 0, 0, 0] 8) ''eth0'')"

lemma rt_set_empty [simp]: "rt_set rt_empty = {}"
  by (simp add: rt_set_def rt_empty_def)

lemma at_wf_empty [simp]: "at_wf addr_types_empty"
  by (simp add: at_wf_def addr_types_empty_def)

lemma at_safe_empty [simp]: "at_safe addr_types_empty a i"
  by (simp add: at_safe_def rt_safe_def addr_types_empty_def iface_tree_def)

lemma at_wf_example: "at_wf at_example"
  unfolding at_example_def by (rule AddAddress_wf) simp_all



theorem AddAddress_ipv4_stores_witness:
  "let e = the (rentry_create re_load4 (ndAddr_in [10, 0, 0, 0] 8))
   in rt_set (iface_tree (at_ipv4_iface at_example) ''eth0'') = {(e, atLOCALNET)}"
proof -
  let ?a = "ndAddr_in [10, 0, 0, 0] 8"
  obtain ok s' where r: "AddAddress hex_ntop addr_types_empty atLOCAL ?a ''eth0'' = (ok, s')" by force
  have "na_addr ?a = SA_in 0 [10, 0, 0, 0] (replicate 8 0)" "na_prefix ?a \<le> 32" "IsNetwork ?a"
    by (simp_all add: ndAddr_in_def Create_in_addr_def nd_addr_new_def IsNetwork_def IsValid_def HasValidPrefix_def
      IsIPv4_def IsIPv6_def IsIP_def)
  from AddAddress_ipv4_stores [OF at_wf_empty at_safe_empty this(1,2) r] this(3) r show ?thesis
    by (simp add: at_example_def iface_tree_def addr_types_empty_def Let_def)
qed

section \<open>The trees as maps\<close>

lemma find_set_eq:
  assumes "rt_wf rentry_bits rentry_ok T" "rt_wf rentry_bits rentry_ok T'"
    "rentry_ok (key :: 128 word rentry)"
    "(\<exists>v. (key, v) \<in> rt_set T') = (\<exists>v. (key, v) \<in> rt_set T)"
    "\<And>v. (key, v) \<in> rt_set T \<Longrightarrow> (key, v) \<in> rt_set T'"
  shows "rt_find rentry_ops T' key = rt_find rentry_ops T key"
proof (cases "rt_find rentry_ops T key")
  case None
  then have "\<not> (\<exists>v. (key, v) \<in> rt_set T)" using rn6.rt_find_iff [OF assms(1,3)] by (metis option.distinct(1))
  then have "rt_find rentry_ops T' key \<noteq> Some kv" for kv
    using rn6.rt_find_iff [OF assms(2,3), of "fst kv" "snd kv"] assms(4) by auto
  then show ?thesis using None by (cases "rt_find rentry_ops T' key") auto
next
  case (Some kv)
  then show ?thesis
    using rn6.rt_find_iff [OF assms(1,3), of "fst kv" "snd kv"] rn6.rt_find_iff [OF assms(2,3), of "fst kv" "snd kv"] assms(5)
    by (simp add: prod_eq_iff)
qed



section \<open>Departures from the documented intent\<close>

text \<open>The limited broadcast MAC address is classified as multicast.\<close>

lemma ether_broadcast_is_multicast:
  "Classify ntop s (ndAddr_hw (replicate 6 0xff)) = atMULTICAST"
  by code_simp

text \<open>An IPv4 network of an interface cannot be removed.\<close>

lemma RemoveAddress_ipv4_iface:
  "IsIPv4 a \<Longrightarrow> ifname \<noteq> [] \<Longrightarrow> RemoveAddress ntop s a ifname = (False, s)"
  by (cases "na_addr a") (auto simp: RemoveAddress_def IsIPv4_def IsIPv6_def IsEthernet_def)

text \<open>With \<open>AF_UNSPEC\<close>, an interface that only has IPv6 addresses has none.\<close>

lemma GetInterfaceAddresses_ipv6_only:
  "map_of (at_ipv4_iface s) i = None \<Longrightarrow> GetInterfaceAddresses ntop s i result AF_UNSPEC = result"
  by (simp add: GetInterfaceAddresses_def Let_def)

end
