(* ===== verification/NdJson.thy ===== *)
theory NdJson
  imports NdPrelude "HOL-Library.List_Lexorder" "HOL-Library.Char_ord"
begin

text \<open>
  JSON values of the library nlohmann::json (a floating point number by its bits), an
  object in its key order, and the serializer
  (\<open>class ndSerializer\<close> of \<open>src/include/nd-serializer.hpp\<close>): a value under one or two
  keys of a JSON object, or a key and a text in a vector of strings.
\<close>

section \<open>Ordered maps\<close>

fun om_set :: "'k :: linorder \<Rightarrow> 'v \<Rightarrow> ('k \<times> 'v) list \<Rightarrow> ('k \<times> 'v) list" where
  "om_set k v [] = [(k, v)]"
| "om_set k v ((k', v') # r) =
     (if k < k' then (k, v) # (k', v') # r else if k = k' then (k, v) # r else (k', v') # om_set k v r)"

lemma map_of_om_set [simp]: "map_of (om_set k v xs) = (map_of xs)(k \<mapsto> v)"
  by (induction xs) (auto simp: fun_eq_iff)

lemma set_keys_om_set: "fst ` set (om_set k v xs) = insert k (fst ` set xs)"
  by (simp flip: dom_map_of_conv_image_fst)

lemma ball_om_set: "(\<forall>x \<in> set (om_set k v xs). P (fst x)) \<longleftrightarrow> P k \<and> (\<forall>x \<in> set xs. P (fst x))"
proof -
  have "(\<forall>x \<in> set (om_set k v xs). P (fst x)) \<longleftrightarrow> (\<forall>j \<in> fst ` set (om_set k v xs). P j)" by simp
  then show ?thesis by (simp add: set_keys_om_set)
qed

lemma sorted_om_set: "sorted_wrt (<) (map fst xs) \<Longrightarrow> sorted_wrt (<) (map fst (om_set k v xs))"
proof (induction xs)
  case (Cons p xs)
  obtain k' v' where p: "p = (k', v')" by force
  have "\<forall>x \<in> set xs. k' < fst x" using Cons.prems p by simp
  then show ?case using Cons p ball_om_set [of k v xs "\<lambda>y. k' < y"]
    by (cases k k' rule: linorder_cases) (auto intro: less_trans)
qed simp

lemma om_set_last: "\<forall>j \<in> fst ` set xs. j < k \<Longrightarrow> om_set k v xs = xs @ [(k, v)]"
  by (induction xs) (auto dest: order_less_asym)

lemma om_set_fold:
  assumes "sorted_wrt (<) (map fst (acc @ xs))"
  shows "foldl (\<lambda>m (k, v). om_set k v m) acc xs = acc @ xs"
  using assms
proof (induction xs arbitrary: acc)
  case (Cons p xs)
  obtain k v where p: "p = (k, v)" by force
  have "om_set k v acc = acc @ [(k, v)]" using Cons.prems by (intro om_set_last) (auto simp: p sorted_wrt_append)
  then show ?case using Cons.IH [of "acc @ [(k, v)]"] Cons.prems by (simp add: p)
qed simp

lemma list_find_SomeD: "List.find P xs = Some x \<Longrightarrow> x \<in> set xs \<and> P x"
  by (auto simp: find_Some_iff)

section \<open>Values\<close>

datatype json = JNull | JBool bool | JNum int | JFloat "64 word" | JString string | JArr "json list" | JObj "(string \<times> json) list"

fun jfind :: "json \<Rightarrow> string \<Rightarrow> json option" where
  "jfind (JObj kvs) k = map_of kvs k"
| "jfind _ k = None"

fun jempty :: "json \<Rightarrow> bool" where
  "jempty JNull = True"
| "jempty (JArr js) = (js = [])"
| "jempty (JObj kvs) = (kvs = [])"
| "jempty _ = False"

text \<open>Assignment through \<open>operator[]\<close>; on a value that is no object it throws (\<open>None\<close>).\<close>

fun jassign :: "json \<Rightarrow> string \<Rightarrow> json \<Rightarrow> json option" where
  "jassign JNull k v = Some (JObj [(k, v)])"
| "jassign (JObj kvs) k v = Some (JObj (om_set k v kvs))"
| "jassign _ k v = None"

definition jassign2 :: "json \<Rightarrow> string \<Rightarrow> string \<Rightarrow> json \<Rightarrow> json option" where
  "jassign2 j k1 k2 v =
     Option.bind (jassign (case jfind j k1 of Some i \<Rightarrow> i | None \<Rightarrow> JNull) k2 v) (jassign j k1)"

section \<open>The serializer\<close>

text \<open>
  The overloads by the type of the value: a JSON value, a string, a C string, an unsigned
  number, a truth value, a floating point number, a vector of numbers (risks too), a vector of strings, and a map of
  strings in the order of its iteration.
\<close>

datatype ser_value =
    SJson json | SString string | SCString string | SNum nat | SBool bool | SDouble "64 word"
  | SNums "nat list" | SStrings "string list" | SMap "(string \<times> string) list"

fun ser_skip :: "ser_value \<Rightarrow> bool" where
  "ser_skip (SJson j) = jempty j"
| "ser_skip (SString s) = (s = [])"
| "ser_skip (SNums ns) = (ns = [])"
| "ser_skip (SStrings ss) = (ss = [])"
| "ser_skip (SMap kvs) = (kvs = [])"
| "ser_skip _ = False"

fun ser_json :: "ser_value \<Rightarrow> json" where
  "ser_json (SJson j) = j"
| "ser_json (SString s) = JString s"
| "ser_json (SCString s) = JString s"
| "ser_json (SNum n) = JNum (int n)"
| "ser_json (SBool b) = JBool b"
| "ser_json (SDouble d) = JFloat d"
| "ser_json (SNums ns) = JArr (map (\<lambda>n. JNum (int n)) ns)"
| "ser_json (SStrings ss) = JArr (map JString ss)"
| "ser_json (SMap kvs) = JObj (foldl (\<lambda>m (k, v). om_set k (JString v) m) [] kvs)"

definition serialize_json :: "json \<Rightarrow> string list \<Rightarrow> ser_value \<Rightarrow> json option" where
  "serialize_json j keys v =
     (if keys = [] \<or> ser_skip v then Some j
      else case keys of
        [k1, k2] \<Rightarrow> jassign2 j k1 k2 (ser_json v)
      | [k] \<Rightarrow> jassign j k (ser_json v)
      | _ \<Rightarrow> Some j)"

definition ser_key :: "string list \<Rightarrow> string" where
  "ser_key keys = foldl (\<lambda>key k. key @ (if key = [] then k else CHR '':'' # k)) [] keys"

definition ser_join :: "string \<Rightarrow> string list \<Rightarrow> string" where
  "ser_join delim ss = (case ss of [] \<Rightarrow> [] | s # r \<Rightarrow> foldl (\<lambda>a b. a @ delim @ b) s r)"

text \<open>
  The list of numbers is joined as the key is: an empty text so far takes no comma. JSON and
  floating point values have no overload for vectors.
\<close>

fun ser_text :: "ser_value \<Rightarrow> string" where
  "ser_text (SString s) = s"
| "ser_text (SCString s) = s"
| "ser_text (SNum n) = nat_to_string n"
| "ser_text (SBool b) = (if b then ''1'' else ''0'')"
| "ser_text (SNums ns) = foldl (\<lambda>t n. t @ (if t = [] then nat_to_string n else CHR '','' # nat_to_string n)) [] ns"
| "ser_text (SStrings ss) = ser_join '','' ss"
| "ser_text (SMap kvs) = ser_join '','' (map (\<lambda>(k, v). k @ CHR '':'' # v) kvs)"
| "ser_text _ = []"

definition serialize_vector :: "string list \<Rightarrow> string list \<Rightarrow> ser_value \<Rightarrow> string list" where
  "serialize_vector out keys v =
     (if keys = [] \<or> ser_skip v then out else out @ [ser_key keys, ser_text v])"

text \<open>The overload for vectors of strings takes a delimiter; no keys and no delimiter are allowed.\<close>

definition serialize_strings :: "string list \<Rightarrow> string list \<Rightarrow> string list \<Rightarrow> string \<Rightarrow> string list" where
  "serialize_strings out keys values delim =
     (if values = [] then out
      else out @ (if keys \<noteq> [] then [ser_key keys] else [])
               @ (if delim = [] then values else [ser_join delim values]))"

fun serialize_all :: "json \<Rightarrow> (string list \<times> ser_value) list \<Rightarrow> json option" where
  "serialize_all j [] = Some j"
| "serialize_all j ((keys, v) # r) = Option.bind (serialize_json j keys v) (\<lambda>j. serialize_all j r)"

section \<open>Laws\<close>

fun jget :: "json \<Rightarrow> string list \<Rightarrow> json option" where
  "jget j [] = Some j"
| "jget j (k # ks) = Option.bind (jfind j k) (\<lambda>i. jget i ks)"

lemma jfind_jassign: "jassign j k v = Some j' \<Longrightarrow> jfind j' k' = (if k' = k then Some v else jfind j k')"
  by (cases j) auto

lemma serialize_json_get_same:
  assumes "serialize_json j keys v = Some j'" "\<not> ser_skip v" "keys = [k1] \<or> keys = [k1, k2]"
  shows "jget j' keys = Some (ser_json v)"
  using assms by (auto simp: serialize_json_def jassign2_def jfind_jassign split: Option.bind_splits)

lemma serialize_json_get_other:
  assumes "serialize_json j keys v = Some j'" "hd keys \<noteq> k"
  shows "jfind j' k = jfind j k"
  using assms by (auto simp: serialize_json_def jassign2_def jfind_jassign split: Option.bind_splits list.splits if_splits)

end
