(* ===== verification/NdPacket.thy ===== *)
theory NdPacket
  imports NdJson "HOL-Library.Multiset"
begin

text \<open>
  Captured packets and the counters of a capture thread (\<open>src/include/nd-packet.hpp\<close>).
\<close>

unbundle bit_operations_syntax

record nd_packet =
  pk_status :: byte
  pk_length :: "16 word"
  pk_caplen :: "16 word"
  pk_data :: bytes
  pk_sec :: time_t
  pk_usec :: time_t

record pkt_stats =
  ps_raw :: "64 word"
  ps_eth :: "64 word"
  ps_mpls :: "64 word"
  ps_pppoe :: "64 word"
  ps_vlan :: "64 word"
  ps_frags :: "64 word"
  ps_discard :: "64 word"
  ps_maxlen :: "32 word"
  ps_ip :: "64 word"
  ps_ip4 :: "64 word"
  ps_ip6 :: "64 word"
  ps_icmp :: "64 word"
  ps_igmp :: "64 word"
  ps_tcp :: "64 word"
  ps_tcp_seq_errors :: "64 word"
  ps_tcp_resets :: "64 word"
  ps_udp :: "64 word"
  ps_ip_bytes :: "64 word"
  ps_ip4_bytes :: "64 word"
  ps_ip6_bytes :: "64 word"
  ps_wire_bytes :: "64 word"
  ps_discard_bytes :: "64 word"
  ps_queue_dropped :: "64 word"
  ps_capture_dropped :: "64 word"
  ps_capture_filtered :: "64 word"
  ps_flow_dropped :: "64 word"

definition pkt_stats_zero :: pkt_stats where
  "pkt_stats_zero = \<lparr>ps_raw = 0, ps_eth = 0, ps_mpls = 0, ps_pppoe = 0, ps_vlan = 0, ps_frags = 0,
     ps_discard = 0, ps_maxlen = 0, ps_ip = 0, ps_ip4 = 0, ps_ip6 = 0, ps_icmp = 0, ps_igmp = 0,
     ps_tcp = 0, ps_tcp_seq_errors = 0, ps_tcp_resets = 0, ps_udp = 0, ps_ip_bytes = 0,
     ps_ip4_bytes = 0, ps_ip6_bytes = 0, ps_wire_bytes = 0, ps_discard_bytes = 0,
     ps_queue_dropped = 0, ps_capture_dropped = 0, ps_capture_filtered = 0, ps_flow_dropped = 0\<rparr>"

text \<open>The sum leaves the dropped flows of the left side as they are.\<close>

definition pkt_stats_add :: "pkt_stats \<Rightarrow> pkt_stats \<Rightarrow> pkt_stats" where
  "pkt_stats_add s r =
     s\<lparr>ps_raw := ps_raw s + ps_raw r, ps_eth := ps_eth s + ps_eth r, ps_mpls := ps_mpls s + ps_mpls r,
       ps_pppoe := ps_pppoe s + ps_pppoe r, ps_vlan := ps_vlan s + ps_vlan r, ps_frags := ps_frags s + ps_frags r,
       ps_discard := ps_discard s + ps_discard r,
       ps_maxlen := (if ps_maxlen r > ps_maxlen s then ps_maxlen r else ps_maxlen s),
       ps_ip := ps_ip s + ps_ip r, ps_ip4 := ps_ip4 s + ps_ip4 r, ps_ip6 := ps_ip6 s + ps_ip6 r,
       ps_icmp := ps_icmp s + ps_icmp r, ps_igmp := ps_igmp s + ps_igmp r, ps_tcp := ps_tcp s + ps_tcp r,
       ps_tcp_seq_errors := ps_tcp_seq_errors s + ps_tcp_seq_errors r,
       ps_tcp_resets := ps_tcp_resets s + ps_tcp_resets r, ps_udp := ps_udp s + ps_udp r,
       ps_ip_bytes := ps_ip_bytes s + ps_ip_bytes r, ps_ip4_bytes := ps_ip4_bytes s + ps_ip4_bytes r,
       ps_ip6_bytes := ps_ip6_bytes s + ps_ip6_bytes r, ps_wire_bytes := ps_wire_bytes s + ps_wire_bytes r,
       ps_discard_bytes := ps_discard_bytes s + ps_discard_bytes r,
       ps_queue_dropped := ps_queue_dropped s + ps_queue_dropped r,
       ps_capture_dropped := ps_capture_dropped s + ps_capture_dropped r,
       ps_capture_filtered := ps_capture_filtered s + ps_capture_filtered r\<rparr>"

definition pkt_stats_AddAndReset :: "pkt_stats \<Rightarrow> pkt_stats \<Rightarrow> pkt_stats \<times> pkt_stats" where
  "pkt_stats_AddAndReset this stats = (pkt_stats_zero, pkt_stats_add stats this)"

definition pkt_stats_fields :: "pkt_stats \<Rightarrow> (string list \<times> ser_value) list" where
  "pkt_stats_fields s =
     [([''raw''], SNum (unat (ps_raw s))), ([''ethernet''], SNum (unat (ps_eth s))),
      ([''mpls''], SNum (unat (ps_mpls s))), ([''pppoe''], SNum (unat (ps_pppoe s))),
      ([''vlan''], SNum (unat (ps_vlan s))), ([''fragmented''], SNum (unat (ps_frags s))),
      ([''discarded''], SNum (unat (ps_discard s))), ([''discarded_bytes''], SNum (unat (ps_discard_bytes s))),
      ([''largest_bytes''], SNum (unat (ps_maxlen s))), ([''ip''], SNum (unat (ps_ip s))),
      ([''tcp''], SNum (unat (ps_tcp s))), ([''tcp_seq_errors''], SNum (unat (ps_tcp_seq_errors s))),
      ([''tcp_resets''], SNum (unat (ps_tcp_resets s))), ([''udp''], SNum (unat (ps_udp s))),
      ([''icmp''], SNum (unat (ps_icmp s))), ([''igmp''], SNum (unat (ps_igmp s))),
      ([''ip_bytes''], SNum (unat (ps_ip_bytes s))), ([''wire_bytes''], SNum (unat (ps_wire_bytes s))),
      ([''flow_dropped''], SNum (unat (ps_flow_dropped s))), ([''queue_dropped''], SNum (unat (ps_queue_dropped s))),
      ([''capture_dropped''], SNum (unat (ps_capture_dropped s))),
      ([''capture_filtered''], SNum (unat (ps_capture_filtered s)))]"

section \<open>Sums\<close>

text \<open>Threads can report in any order.\<close>

lemma pkt_stats_add_left_commute: "pkt_stats_add (pkt_stats_add s r) q = pkt_stats_add (pkt_stats_add s q) r"
  by (simp add: pkt_stats_add_def add.commute add.left_commute add.assoc)

lemma pkt_stats_sum_order: "mset rs = mset qs \<Longrightarrow> foldl pkt_stats_add s rs = foldl pkt_stats_add s qs"
proof -
  assume m: "mset rs = mset qs"
  have f: "foldl pkt_stats_add s xs = fold (\<lambda>r s. pkt_stats_add s r) xs s" for xs by (simp add: foldl_conv_fold)
  show ?thesis unfolding f
    by (rule fun_cong [OF fold_multiset_equiv [OF _ m]]) (simp add: fun_eq_iff pkt_stats_add_left_commute)
qed

text \<open>The sum of the dropped flows is never reported.\<close>

lemma pkt_stats_flow_dropped_lost:
  "ps_flow_dropped (foldl pkt_stats_add s rs) = ps_flow_dropped s"
  by (induction rs arbitrary: s) (simp_all add: pkt_stats_add_def)

end
