(* ===== verification/NdProtos.thy ===== *)
theory NdProtos
  imports NdPrelude "HOL-Library.Multiset"
begin

text \<open>
  The catalogs of protocols and risks (\<open>src/include/nd-protos.hpp\<close>,
  \<open>src/src/nd-protos.cpp\<close>, \<open>src/include/nd-risks.hpp\<close>, \<open>src/src/nd-risks.cpp\<close>). The numbers
  of the enumerations stand in the tables. The identifiers of nDPI (\<open>NDPI_PROTOCOL_x\<close> and
  \<open>NDPI_x\<close>, of a header that is not part of the sources) are an argument that gives the
  number of the name \<open>x\<close>. An unordered map keeps the first entry of its initializer for
  each key; where the code iterates over it the order of the iteration is an argument.
\<close>

definition umap_init :: "('k \<times> 'v) list \<Rightarrow> ('k \<times> 'v) list" where
  "umap_init xs = foldl (\<lambda>m (k, v). if map_of m k = None then m @ [(k, v)] else m) [] xs"

definition cstr :: "string \<Rightarrow> string" where
  "cstr s = takeWhile (\<lambda>c. c \<noteq> CHR 0x00) s"

definition strcaseeq :: "string \<Rightarrow> string \<Rightarrow> bool" where
  "strcaseeq a b \<longleftrightarrow> map tolower (cstr a) = map tolower (cstr b)"

definition name_find :: "(nat \<times> string) list \<Rightarrow> string \<Rightarrow> nat option" where
  "name_find order name = map_option fst (List.find (\<lambda>(_, n). strcaseeq n name) order)"

section \<open>Protocols\<close>

definition ND_PROTO_UNKNOWN :: nat where "ND_PROTO_UNKNOWN = 0"
definition ND_PROTO_DNS :: nat where "ND_PROTO_DNS = 5"
definition ND_PROTO_HTTP :: nat where "ND_PROTO_HTTP = 7"
definition ND_PROTO_MDNS :: nat where "ND_PROTO_MDNS = 8"
definition ND_PROTO_SSDP :: nat where "ND_PROTO_SSDP = 12"
definition ND_PROTO_DHCP :: nat where "ND_PROTO_DHCP = 18"
definition ND_PROTO_FTPS :: nat where "ND_PROTO_FTPS = 21"
definition ND_PROTO_MAIL_POPS :: nat where "ND_PROTO_MAIL_POPS = 23"
definition ND_PROTO_MAIL_IMAPS :: nat where "ND_PROTO_MAIL_IMAPS = 51"
definition ND_PROTO_MAIL_SMTPS :: nat where "ND_PROTO_MAIL_SMTPS = 29"
definition ND_PROTO_TLS :: nat where "ND_PROTO_TLS = 91"
definition ND_PROTO_HTTPS :: nat where "ND_PROTO_HTTPS = 196"
definition ND_PROTO_FTPS_DATA :: nat where "ND_PROTO_FTPS_DATA = 256"
definition ND_PROTO_MQTTS :: nat where "ND_PROTO_MQTTS = 258"
definition ND_PROTO_NNTPS :: nat where "ND_PROTO_NNTPS = 259"
definition ND_PROTO_SIPS :: nat where "ND_PROTO_SIPS = 257"
definition ND_PROTO_HTTP_CONNECT :: nat where "ND_PROTO_HTTP_CONNECT = 130"
definition ND_PROTO_HTTP_PROXY :: nat where "ND_PROTO_HTTP_PROXY = 131"
definition ND_PROTO_OOKLA :: nat where "ND_PROTO_OOKLA = 191"
definition ND_PROTO_PPSTREAM :: nat where "ND_PROTO_PPSTREAM = 54"
definition ND_PROTO_QQ :: nat where "ND_PROTO_QQ = 48"
definition ND_PROTO_RTSP :: nat where "ND_PROTO_RTSP = 50"
definition ND_PROTO_STEAM :: nat where "ND_PROTO_STEAM = 74"
definition ND_PROTO_TEAMVIEWER :: nat where "ND_PROTO_TEAMVIEWER = 148"
definition ND_PROTO_XBOX :: nat where "ND_PROTO_XBOX = 47"
definition ND_PROTO_LLMNR :: nat where "ND_PROTO_LLMNR = 154"
definition ND_PROTO_SSH :: nat where "ND_PROTO_SSH = 92"
definition ND_PROTO_QUIC :: nat where "ND_PROTO_QUIC = 188"
definition ND_PROTO_BITTORRENT :: nat where "ND_PROTO_BITTORRENT = 37"
definition ND_PROTO_TODO :: nat where "ND_PROTO_TODO = 4294967295"

definition nd_protos :: "(nat \<times> string) list" where
  "nd_protos =
    [(97, ''AFP''), (97, ''ApacheThrift''), (139, ''AJP''), (301, ''Alibaba/Cloud''), (263, ''AmongUs''),
     (192, ''AMQP''), (238, ''Apple/Push''), (104, ''Armagetron''), (306, ''AVAST''),
     (264, ''AVASTSecureDNS''), (318, ''BACnet''), (13, ''BGP''), (323, ''Bitcoin''), (37, ''BitTorrent''),
     (204, ''BJNP''), (330, ''CAN''), (265, ''CAPWAP''), (266, ''Cassandra''), (138, ''CHECKMK''),
     (276, ''Cisco/HSRP''), (164, ''Cisco/Skinny''), (161, ''Cisco/VPN''), (132, ''Citrix''), (27, ''COAP''),
     (171, ''Collectd''), (168, ''Corba''), (267, ''CheckPointHA''), (105, ''Crossfire''),
     (307, ''CryNetwork''), (235, ''CSGO''), (18, ''DHCP''), (103, ''DHCPv6''), (237, ''Diameter''),
     (268, ''DNP3''), (269, ''DNSCrypt''), (5, ''DNS''), (106, ''Dofus''), (243, ''DoH''), (261, ''DoQ''),
     (260, ''DoT''), (227, ''DRDA''), (121, ''Dropbox''), (244, ''DTLS''), (190, ''EAQ''),
     (305, ''ElasticSearch''), (332, ''Ethereum''), (270, ''EtherNet/IP''), (327, ''Facebook/VoIP''),
     (308, ''FastCGI''), (230, ''FIX''), (1, ''FTP/C''), (175, ''FTP/D''), (21, ''FTP/S''),
     (271, ''Genshin/Impact''), (226, ''Git''), (35, ''Gnutella''), (245, ''Google/Meet/Duo''),
     (272, ''GTP/C''), (152, ''GTP''), (273, ''GTP/P''), (274, ''GTP/U''), (109, ''Guildwars''),
     (158, ''H323''), (75, ''HalfLife2''), (328, ''HAProxy''), (317, ''HerosOfTheStorm''),
     (275, ''HP/VirtGrp''), (326, ''HTTP/2''), (130, ''HTTP/Connect''), (7, ''HTTP''), (131, ''HTTP/Proxy''),
     (196, ''HTTP/S''), (289, ''i3D''), (95, ''IAX''), (52, ''IceCast''), (277, ''IEC60870/5/104''),
     (83, ''EGP''), (80, ''GRE''), (81, ''ICMP''), (102, ''ICMPv6''), (82, ''IGMP''), (86, ''IPinIP''),
     (85, ''OSPF''), (298, ''PGM''), (299, ''PIM''), (6, ''IPP''), (84, ''SCTP''), (79, ''IPSEC''),
     (73, ''VRRP''), (65, ''IRC''), (279, ''IRC/S''), (194, ''KakaoTalk/Voice''), (111, ''Kerberos''),
     (309, ''KISMET''), (32, ''Kontiki''), (112, ''LDAP''), (310, ''Line/Call''), (236, ''LISP''),
     (154, ''LLMNR''), (150, ''LotusNotes''), (4, ''IMAP''), (51, ''IMAP/S''), (2, ''POP3''), (23, ''POP3/S''),
     (3, ''SMTP''), (29, ''SMTP/S''), (113, ''MapleStory''), (8, ''MDNS''), (181, ''Megaco''),
     (40, ''Memcached''), (316, ''Meraki/Cloud''), (94, ''MGCP''), (42, ''Mining''), (44, ''Modbus''),
     (280, ''MongoDB''), (290, ''MPEG/Dash''), (198, ''MPEGTS''), (222, ''MQTT''), (258, ''MQTT/S''),
     (114, ''MSSQL/TDS''), (311, ''Munin''), (20, ''MYSQL''), (303, ''NAT/PMP''), (281, ''NATS''),
     (43, ''NestLog''), (10, ''NETBIOS''), (128, ''NetFlow''), (11, ''NFS''), (173, ''Nintendo''),
     (93, ''NNTP''), (259, ''NNTP/S''), (160, ''NOE''), (9, ''NTP''), (320, ''OICQ''), (191, ''OOKLA''),
     (159, ''OpenVPN''), (167, ''Oracle''), (19, ''PGSQL''), (54, ''PPStream''), (115, ''PPTP''),
     (331, ''Protobuf''), (61, ''QQLive''), (48, ''QQ''), (188, ''QUIC''), (146, ''RADIUS''),
     (291, ''RakNet''), (88, ''RDP''), (182, ''Redis''), (155, ''RemoteScan''), (292, ''Riot/Games''),
     (329, ''RMCP''), (127, ''RPC''), (293, ''RSH''), (166, ''RSYNC''), (165, ''RTCP''), (174, ''RTMP''),
     (87, ''RTP''), (50, ''RTSP''), (223, ''RX''), (282, ''S7comm''), (151, ''SAP''), (294, ''SD/RTN''),
     (129, ''SFlow''), (39, ''SignalCall''), (100, ''SIP''), (257, ''SIP/S''), (38, ''Skype/Teams/Call''),
     (247, ''Skype/Teams''), (325, ''SLP''), (16, ''SMBv1''), (41, ''SMBv23''), (207, ''SMPP''),
     (255, ''Snapchat/Call''), (14, ''SNMP''), (283, ''SOAP''), (172, ''SOCKS''), (229, ''SOMEIP''),
     (319, ''SourceEngine''), (156, ''Spotify''), (321, ''SRTP''), (12, ''SSDP''), (92, ''SSH''),
     (213, ''Starcraft''), (74, ''Steam''), (78, ''STUN''), (312, ''Syncthing''), (302, ''SYSLOG/S''),
     (17, ''SYSLOG''), (315, ''Tailscale''), (284, ''Targus/Dataspeed''), (162, ''TeamSpeak''),
     (148, ''TeamViewer''), (185, ''Telegram''), (333, ''Telegram/VoIP''), (77, ''Telnet''), (214, ''Teredo''),
     (96, ''TFTP''), (300, ''Threema''), (209, ''TINC''), (313, ''TiVo/Connect''), (91, ''TLS''),
     (295, ''TocaBoca''), (4294967295, ''TODO''), (314, ''TPLINK/SHP''), (101, ''TruPhone''),
     (304, ''Tuya/LP''), (59, ''TVUplayer''), (31, ''UBNTAC2''), (296, ''UltraSurf''), (0, ''Unknown''),
     (184, ''VHUA''), (144, ''Viber''), (28, ''VMWARE''), (89, ''VNC''), (285, ''VXLAN''),
     (116, ''Warcraft3''), (286, ''Websocket''), (246, ''WhatsApp/Call''), (142, ''WhatsApp''),
     (170, ''Whois/DAS''), (206, ''WireGuard''), (117, ''WoKungFu''), (76, ''WoW''), (153, ''WSD''),
     (47, ''Xbox''), (15, ''XDMCP''), (297, ''Xiaomi''), (322, ''XMPP/S''), (67, ''XMPP''), (287, ''Z39/50''),
     (288, ''Zabbix''), (55, ''Zattoo''), (177, ''ZMQ''), (248, ''ZOOM'')]"

definition nd_proto_get_name :: "nat \<Rightarrow> string" where
  "nd_proto_get_name i = (case map_of (umap_init nd_protos) i of None \<Rightarrow> ''Unknown'' | Some n \<Rightarrow> n)"

definition nd_proto_get_id :: "(nat \<times> string) list \<Rightarrow> string \<Rightarrow> nat" where
  "nd_proto_get_id order name = (case name_find order name of None \<Rightarrow> ND_PROTO_UNKNOWN | Some i \<Rightarrow> i)"

definition nd_ndpi_protos :: "(string \<times> nat) list" where
  "nd_ndpi_protos =
    [(''AFP'', 97), (''AJP'', 139), (''ALICLOUD'', 301), (''AMONG_US'', 263), (''AMQP'', 192),
     (''APACHE_THRIFT'', 324), (''APPLE_PUSH'', 238), (''ARMAGETRON'', 104), (''AVAST'', 306),
     (''AVAST_SECUREDNS'', 264), (''BACNET'', 318), (''BGP'', 13), (''BITCOIN'', 323), (''BITTORRENT'', 37),
     (''BJNP'', 204), (''CAN'', 330), (''CAPWAP'', 265), (''CASSANDRA'', 266), (''CHECKMK'', 138),
     (''CISCOVPN'', 161), (''CITRIX'', 132), (''COAP'', 27), (''COLLECTD'', 171), (''CORBA'', 168),
     (''CPHA'', 267), (''CROSSFIRE'', 105), (''CRYNET'', 307), (''CSGO'', 235), (''DATASAVER'', 46),
     (''DHCP'', 18), (''DHCPV6'', 103), (''DIAMETER'', 237), (''DNP3'', 268), (''DNSCRYPT'', 269),
     (''DNS'', 5), (''DOFUS'', 106), (''DOH_DOT'', 261), (''DRDA'', 227), (''DROPBOX'', 121), (''DTLS'', 244),
     (''EAQ'', 190), (''ELASTICSEARCH'', 305), (''ETHEREUM'', 332), (''ETHERNET_IP'', 270),
     (''FACEBOOK_VOIP'', 327), (''FASTCGI'', 308), (''FIX'', 230), (''FTP_CONTROL'', 1), (''FTP_DATA'', 175),
     (''FTPS'', 21), (''GENSHIN_IMPACT'', 271), (''GIT'', 226), (''GNUTELLA'', 35), (''GTP_C'', 272),
     (''GTP'', 152), (''GTP_PRIME'', 273), (''GTP_U'', 274), (''GUILDWARS'', 109), (''H323'', 158),
     (''HALFLIFE2'', 75), (''HANGOUT_DUO'', 245), (''HAPROXY'', 328), (''HOTS'', 317), (''HPVIRTGRP'', 275),
     (''HSRP'', 276), (''HTTP2'', 326), (''HTTP_CONNECT'', 130), (''HTTP'', 7), (''HTTP_PROXY'', 131),
     (''I3D'', 289), (''IAX'', 95), (''ICECAST'', 52), (''IEC60870'', 277), (''IP_EGP'', 83), (''IP_GRE'', 80),
     (''IP_ICMP'', 81), (''IP_ICMPV6'', 102), (''IP_IGMP'', 82), (''IP_IP_IN_IP'', 86), (''IP_OSPF'', 85),
     (''IP_PGM'', 298), (''IP_PIM'', 299), (''IPP'', 6), (''IP_SCTP'', 84), (''IPSEC'', 79), (''IP_VRRP'', 73),
     (''IRC'', 65), (''JABBER'', 67), (''KAKAOTALK_VOICE'', 194), (''KERBEROS'', 111), (''KISMET'', 309),
     (''KONTIKI'', 32), (''LDAP'', 112), (''LINE_CALL'', 310), (''LISP'', 236), (''LLMNR'', 154),
     (''LOTUS_NOTES'', 150), (''MAIL_IMAP'', 4), (''MAIL_IMAPS'', 51), (''MAIL_POP'', 2), (''MAIL_POPS'', 23),
     (''MAIL_SMTP'', 3), (''MAIL_SMTPS'', 29), (''MAPLESTORY'', 113), (''MDNS'', 8), (''MEGACO'', 181),
     (''MEMCACHED'', 40), (''MERAKI_CLOUD'', 316), (''MGCP'', 94), (''MINING'', 42), (''MODBUS'', 44),
     (''MONGODB'', 280), (''MPEGDASH'', 290), (''MPEGTS'', 198), (''MQTT'', 222), (''MSSQL_TDS'', 114),
     (''MUNIN'', 311), (''MYSQL'', 20), (''NATPMP'', 303), (''NATS'', 281), (''NEST_LOG_SINK'', 43),
     (''NETBIOS'', 10), (''NETFLOW'', 128), (''NFS'', 11), (''NINTENDO'', 173), (''NOE'', 160), (''NTP'', 9),
     (''OICQ'', 320), (''OOKLA'', 191), (''OPENVPN'', 159), (''ORACLE'', 167), (''POSTGRES'', 19),
     (''PPSTREAM'', 54), (''PPTP'', 115), (''PROTOBUF'', 331), (''QQ'', 48), (''QUIC'', 188),
     (''RADIUS'', 146), (''RAKNET'', 291), (''RDP'', 88), (''REDIS'', 182), (''RIOTGAMES'', 292),
     (''RMCP'', 329), (''RPC'', 127), (''RSH'', 293), (''RSYNC'', 166), (''RTCP'', 165), (''RTMP'', 174),
     (''RTP'', 87), (''RTSP'', 50), (''RX'', 223), (''S7COMM'', 282), (''SAP'', 151), (''SD_RTN'', 294),
     (''SERVICE_LOCATION'', 325), (''SFLOW'', 129), (''SIGNAL_VOIP'', 39), (''SIP'', 100), (''SKINNY'', 164),
     (''SKYPE_TEAMS_CALL'', 38), (''SKYPE_TEAMS'', 247), (''SMBV1'', 16), (''SMBV23'', 41), (''SMPP'', 207),
     (''SNAPCHAT_CALL'', 255), (''SNMP'', 14), (''SOAP'', 283), (''SOCKS'', 172), (''SOMEIP'', 229),
     (''SOURCE_ENGINE'', 319), (''SPOTIFY'', 156), (''SRTP'', 321), (''SSDP'', 12), (''SSH'', 92),
     (''STARCRAFT'', 213), (''STEAM'', 74), (''STUN'', 78), (''SYNCTHING'', 312), (''SYSLOG'', 17),
     (''TAILSCALE'', 315), (''TARGUS_GETDATA'', 284), (''TEAMSPEAK'', 162), (''TEAMVIEWER'', 148),
     (''TELEGRAM'', 185), (''TELEGRAM_VOIP'', 333), (''TELNET'', 77), (''TEREDO'', 214), (''TFTP'', 96),
     (''THREEMA'', 300), (''TIKTOK'', 49), (''TINC'', 209), (''TIVOCONNECT'', 313), (''TLS'', 91),
     (''TOCA_BOCA'', 295), (''TPLINK_SHP'', 314), (''TRUPHONE'', 101), (''TUYA_LP'', 304), (''TVUPLAYER'', 59),
     (''UBNTAC2'', 31), (''ULTRASURF'', 296), (''UNKNOWN'', 0), (''USENET'', 93), (''VHUA'', 184),
     (''VIBER'', 144), (''VMWARE'', 28), (''VNC'', 89), (''VXLAN'', 285), (''WARCRAFT3'', 116),
     (''WEBSOCKET'', 286), (''WHATSAPP_CALL'', 246), (''WHATSAPP'', 142), (''WHOIS_DAS'', 170),
     (''WIREGUARD'', 206), (''WORLD_OF_KUNG_FU'', 117), (''WORLDOFWARCRAFT'', 76), (''WSD'', 153),
     (''XBOX'', 47), (''XDMCP'', 15), (''XIAOMI'', 297), (''Z3950'', 287), (''ZABBIX'', 288), (''ZATTOO'', 55),
     (''ZMQ'', 177), (''ZOOM'', 248)]"

definition nd_ndpi_portmap :: "(string \<times> (nat \<times> nat) list) list" where
  "nd_ndpi_portmap = [(''TLS'',
    [(53, 260), (443, 196), (563, 259), (853, 260), (465, 29), (585, 51), (587, 29), (993, 51), (995, 23),
     (989, 256), (990, 21), (1883, 258), (5061, 257), (6514, 302), (6697, 279), (8883, 258)])]"

text \<open>The ports of a flow decide first, in the order of the port map.\<close>

definition nd_ndpi_proto_find :: "(string \<Rightarrow> nat) \<Rightarrow> nat \<Rightarrow> nat \<Rightarrow> nat \<Rightarrow> nat" where
  "nd_ndpi_proto_find ndpi i lower_port upper_port =
     (if i = ndpi ''UNKNOWN'' then ND_PROTO_UNKNOWN
      else case Option.bind (map_of (map (\<lambda>(n, ps). (ndpi n, ps)) nd_ndpi_portmap) i)
             (List.find (\<lambda>(p, _). p = lower_port \<or> p = upper_port)) of
        Some (_, proto) \<Rightarrow> proto
      | None \<Rightarrow> (case map_of (umap_init (map (\<lambda>(n, proto). (ndpi n, proto)) nd_ndpi_protos)) i of
            None \<Rightarrow> ND_PROTO_TODO | Some proto \<Rightarrow> proto))"

definition nd_ndpi_proto_find_id :: "(string \<Rightarrow> nat) \<Rightarrow> (nat \<times> nat) list \<Rightarrow> nat \<Rightarrow> nat" where
  "nd_ndpi_proto_find_id ndpi order i =
     (if i = ND_PROTO_UNKNOWN then ndpi ''UNKNOWN''
      else case List.find (\<lambda>(_, proto). proto = i) order of None \<Rightarrow> ndpi ''UNKNOWN'' | Some (n, _) \<Rightarrow> n)"

section \<open>Risks\<close>

definition ND_RISK_NONE :: nat where "ND_RISK_NONE = 0"
definition ND_RISK_MAX :: nat where "ND_RISK_MAX = 55"
definition ND_RISK_TODO :: nat where "ND_RISK_TODO = 4294967295"

definition nd_risks :: "(nat \<times> string) list" where
  "nd_risks =
    [(0, ''None''), (1, ''Anonymous Subscriber''), (2, ''Binary Application Transfer''),
     (3, ''Clear-Text Credentials''), (4, ''Desktop/File Sharing''), (5, ''Fragmented DNS Message''),
     (6, ''Large DNS Packet (512+ bytes)''), (7, ''Suspicious DNS Traffic''), (8, ''Error Code''),
     (52, ''Fully Encrypted Flow''), (9, ''Crawler/Bot''), (48, ''HTTP Obsolete Server''),
     (11, ''HTTP Suspicious Content''), (12, ''HTTP Suspicious Header''), (13, ''HTTP Suspicious URL''),
     (14, ''HTTP Suspicious User-Agent''), (15, ''Text With Non-Printable Characters''),
     (16, ''Known Protocol on Non-standard Port''), (17, ''Malformed Packet''),
     (18, ''Malicious JA3 Fingerprint''), (19, ''Malicious SSL Cert/SHA1 Fingerprint''),
     (50, ''Minor Issues''), (10, ''Numeric IP Address''), (49, ''Periodic Flow''), (20, ''Possible Exploit''),
     (21, ''IDN Domain Name''), (22, ''Risky ASN''), (23, ''Risky Domain Name''),
     (24, ''SMB Insecure Version''), (25, ''SSH Obsolete Client Version/Cipher''),
     (26, ''SSH Obsolete Server Version/Cipher''), (27, ''Suspicious DGA Domain name''),
     (28, ''Suspicious Entropy''), (51, ''TCP Connection Issues''), (53, ''TLS ALPN/SNI Mismatch''),
     (29, ''TLS Certificate About To Expire''), (30, ''TLS Certificate Expired''),
     (31, ''TLS Certificate Mismatch''), (32, ''TLS Certificate Validity Too Long''),
     (33, ''TLS Fatal Alert''), (35, ''TLS SNI Extension Not Found''), (47, ''TLS ALPN Not Found''),
     (36, ''Obsolete TLS (v1.1 or older)''), (37, ''Self-signed Certificate''),
     (38, ''TLS Suspicious ESNI Usage''), (39, ''TLS Suspicious Extension''), (40, ''Uncommon TLS ALPN''),
     (41, ''Weak TLS Cipher''), (46, ''Unidirectional Traffic''), (42, ''Unsafe Protocol''),
     (43, ''RCE Injection''), (44, ''SQL Injection''), (45, ''XSS Attack''), (4294967295, ''TODO Add Risk'')]"

definition nd_risk_get_name :: "nat \<Rightarrow> string" where
  "nd_risk_get_name i = (case map_of (umap_init nd_risks) i of None \<Rightarrow> ''None'' | Some n \<Rightarrow> n)"

definition nd_risk_lookup :: "(nat \<times> string) list \<Rightarrow> string \<Rightarrow> nat" where
  "nd_risk_lookup order name = (case name_find order name of None \<Rightarrow> ND_RISK_MAX | Some i \<Rightarrow> i)"

definition nd_ndpi_risks :: "(string \<times> nat) list" where
  "nd_ndpi_risks =
    [(''ANONYMOUS_SUBSCRIBER'', 1), (''BINARY_APPLICATION_TRANSFER'', 2), (''CLEAR_TEXT_CREDENTIALS'', 3),
     (''DESKTOP_OR_FILE_SHARING_SESSION'', 4), (''DNS_FRAGMENTED'', 5), (''DNS_LARGE_PACKET'', 6),
     (''DNS_SUSPICIOUS_TRAFFIC'', 7), (''ERROR_CODE_DETECTED'', 8), (''FULLY_ENCRYPTED'', 52),
     (''HTTP_CRAWLER_BOT'', 9), (''HTTP_OBSOLETE_SERVER'', 48), (''HTTP_SUSPICIOUS_CONTENT'', 11),
     (''HTTP_SUSPICIOUS_HEADER'', 12), (''HTTP_SUSPICIOUS_URL'', 13), (''HTTP_SUSPICIOUS_USER_AGENT'', 14),
     (''INVALID_CHARACTERS'', 15), (''KNOWN_PROTOCOL_ON_NON_STANDARD_PORT'', 16), (''MALFORMED_PACKET'', 17),
     (''MALICIOUS_JA3'', 18), (''MALICIOUS_SHA1_CERTIFICATE'', 19), (''MALWARE_HOST_CONTACTED'', 54),
     (''MINOR_ISSUES'', 50), (''NO_RISK'', 0), (''NUMERIC_IP_HOST'', 10), (''PERIODIC_FLOW'', 49),
     (''POSSIBLE_EXPLOIT'', 20), (''PUNYCODE_IDN'', 21), (''RISKY_ASN'', 22), (''RISKY_DOMAIN'', 23),
     (''SMB_INSECURE_VERSION'', 24), (''SSH_OBSOLETE_CLIENT_VERSION_OR_CIPHER'', 25),
     (''SSH_OBSOLETE_SERVER_VERSION_OR_CIPHER'', 26), (''SUSPICIOUS_DGA_DOMAIN'', 27),
     (''SUSPICIOUS_ENTROPY'', 28), (''TCP_ISSUES'', 51), (''TLS_ALPN_SNI_MISMATCH'', 53),
     (''TLS_CERTIFICATE_ABOUT_TO_EXPIRE'', 29), (''TLS_CERTIFICATE_EXPIRED'', 30),
     (''TLS_CERTIFICATE_MISMATCH'', 31), (''TLS_CERT_VALIDITY_TOO_LONG'', 32), (''TLS_FATAL_ALERT'', 33),
     (''TLS_MISSING_SNI'', 35), (''TLS_NOT_CARRYING_HTTPS'', 47), (''TLS_OBSOLETE_VERSION'', 36),
     (''TLS_SELFSIGNED_CERTIFICATE'', 37), (''TLS_SUSPICIOUS_ESNI_USAGE'', 38),
     (''TLS_SUSPICIOUS_EXTENSION'', 39), (''TLS_UNCOMMON_ALPN'', 40), (''TLS_WEAK_CIPHER'', 41),
     (''UNIDIRECTIONAL_TRAFFIC'', 46), (''UNSAFE_PROTOCOL'', 42), (''URL_POSSIBLE_RCE_INJECTION'', 43),
     (''URL_POSSIBLE_SQL_INJECTION'', 44), (''URL_POSSIBLE_XSS'', 45)]"

definition nd_ndpi_risk_find :: "(string \<Rightarrow> nat) \<Rightarrow> nat \<Rightarrow> nat" where
  "nd_ndpi_risk_find ndpi i =
     (case map_of (umap_init (map (\<lambda>(n, risk). (ndpi n, risk)) nd_ndpi_risks)) i of
        None \<Rightarrow> ND_RISK_TODO | Some risk \<Rightarrow> risk)"

section \<open>Tables of names\<close>

lemma umap_init_fold:
  "distinct (map fst acc) \<Longrightarrow>
   (let m = foldl (\<lambda>m (k, v). if map_of m k = None then m @ [(k, v)] else m) acc xs
    in distinct (map fst m) \<and> set m \<subseteq> set acc \<union> set xs \<and> map_of m = map_of acc ++ map_of xs ++ map_of acc)"
proof (induction xs arbitrary: acc)
  case (Cons p xs)
  obtain k v where p: "p = (k, v)" by force
  show ?case
  proof (cases "map_of acc k")
    case None
    then have "distinct (map fst (acc @ [(k, v)]))" using Cons.prems by (auto simp: map_of_eq_None_iff)
    from Cons.IH [OF this] None show ?thesis by (auto simp: p Let_def map_add_def fun_eq_iff split: option.splits)
  next
    case (Some w)
    then show ?thesis using Cons.IH [OF Cons.prems] by (auto simp: p Let_def map_add_def fun_eq_iff split: option.splits)
  qed
qed (simp add: map_add_def fun_eq_iff split: option.split)

lemma umap_init_map_of [simp]: "map_of (umap_init xs) = map_of xs"
  using umap_init_fold [of "[]" xs] by (simp add: umap_init_def Let_def)

lemma umap_init_distinct: "distinct (map fst (umap_init xs))"
  using umap_init_fold [of "[]" xs] by (simp add: umap_init_def Let_def)

lemma umap_init_subset: "set (umap_init xs) \<subseteq> set xs"
  using umap_init_fold [of "[]" xs] by (simp add: umap_init_def Let_def)

text \<open>A check for distinct keys that costs little when the list is nearly sorted.\<close>

fun lex_less :: "nat list \<Rightarrow> nat list \<Rightarrow> bool" where
  "lex_less _ [] = False"
| "lex_less [] (b # y) = True"
| "lex_less (a # x) (b # y) = (a < b \<or> a = b \<and> lex_less x y)"

fun lex_insert :: "nat list \<Rightarrow> nat list list \<Rightarrow> nat list list" where
  "lex_insert x [] = [x]"
| "lex_insert x (y # r) = (if lex_less x y then x # y # r else y # lex_insert x r)"

fun lex_increasing :: "nat list list \<Rightarrow> bool" where
  "lex_increasing (x # y # r) = (lex_less x y \<and> lex_increasing (y # r))"
| "lex_increasing _ = True"

lemma lex_less_irrefl [simp]: "\<not> lex_less x x"
  by (induction x) auto

lemma lex_less_trans: "lex_less x y \<Longrightarrow> lex_less y z \<Longrightarrow> lex_less x z"
  by (induction x y arbitrary: z rule: lex_less.induct) (case_tac z; auto)+

lemma lex_increasing_distinct: "lex_increasing xs \<Longrightarrow> distinct xs \<and> (\<forall>x \<in> set (tl xs). lex_less (hd xs) x)"
  by (induction xs rule: lex_increasing.induct) (auto dest: lex_less_trans)

lemma mset_lex_insert: "mset (lex_insert x ys) = add_mset x (mset ys)"
  by (induction ys) auto

lemma mset_lex_sort: "mset (foldr lex_insert xs []) = mset xs"
  by (induction xs) (auto simp: mset_lex_insert)

lemma distinct_by_lex_sort: "lex_increasing (foldr lex_insert xs []) \<Longrightarrow> distinct xs"
  using lex_increasing_distinct mset_lex_sort [of xs] by (metis mset_eq_imp_distinct_iff)

definition lower_nat :: "nat \<Rightarrow> nat" where
  "lower_nat n = (if 65 \<le> n \<and> n \<le> 90 then n + 32 else n)"

definition lower_code :: "char \<Rightarrow> nat" where
  "lower_code c = lower_nat (of_char c)"

lemma lower_code_tolower: "lower_code c = of_char (tolower c)"
  by (simp add: lower_code_def lower_nat_def tolower_def isupper_def)

lemma lower_code_eq: "map lower_code a = map lower_code b \<longleftrightarrow> map tolower a = map tolower b"
proof -
  have "map lower_code x = map of_char (map tolower x)" for x by (simp add: lower_code_tolower)
  moreover have "inj (of_char :: char \<Rightarrow> nat)" by (rule inj_of_char)
  ultimately show ?thesis by (metis inj_map_eq_map)
qed

text \<open>A table of names: no two names are equal up to case, and none holds a NUL.\<close>

locale name_table =
  fixes table :: "(nat \<times> string) list"
  assumes names: "distinct (map (map lower_code \<circ> snd) table)"
    and no_nul: "\<forall>(_, n) \<in> set table. CHR 0x00 \<notin> set n"
begin

lemma name_find_entry:
  assumes "set order = set (umap_init table)" "(i, n) \<in> set (umap_init table)"
    and "map tolower name = map tolower n" "CHR 0x00 \<notin> set name"
  shows "name_find order name = Some i"
proof -
  have n: "cstr m = m" if "CHR 0x00 \<notin> set m" for m using that by (auto simp: cstr_def takeWhile_eq_all_conv)
  have only: "p = (i, n)" if "p \<in> set order" "strcaseeq (snd p) name" for p
  proof -
    have in_table: "p \<in> set table" "(i, n) \<in> set table" using that(1) assms(1,2) umap_init_subset by auto
    then have "map lower_code (snd p) = map lower_code n"
      using that(2) assms(3,4) no_nul n by (auto simp: strcaseeq_def lower_code_eq)
    then have "(map lower_code \<circ> snd) p = (map lower_code \<circ> snd) (i, n)" by simp
    then show ?thesis using names in_table by (metis distinct_map inj_onD)
  qed
  have "strcaseeq n name" using assms no_nul n umap_init_subset by (force simp: strcaseeq_def)
  then have "List.find (\<lambda>(_, n). strcaseeq n name) order \<noteq> None" using assms(1,2) by (auto simp: find_None_iff)
  then obtain p where p: "List.find (\<lambda>(_, n). strcaseeq n name) order = Some p" by blast
  then have "p \<in> set order" "strcaseeq (snd p) name" by (auto simp: find_Some_iff split_def)
  then have "p = (i, n)" by (rule only)
  then show ?thesis using p by (simp add: name_find_def)
qed

lemma name_of_entry: "(i, n) \<in> set (umap_init table) \<Longrightarrow> map_of table i = Some n"
  using umap_init_distinct [of table] by (metis map_of_is_SomeI umap_init_map_of)

end

lemma nd_protos_names: "distinct (map (map lower_code \<circ> snd) nd_protos)"
  by (rule distinct_by_lex_sort) (simp add: nd_protos_def lower_code_def lower_nat_def)

lemma nd_risks_names: "distinct (map (map lower_code \<circ> snd) nd_risks)"
  by (rule distinct_by_lex_sort) (simp add: nd_risks_def lower_code_def lower_nat_def)

lemma no_nul_check: "list_all (\<lambda>p. list_all (\<lambda>c. c \<noteq> CHR 0x00) (snd p)) xs \<Longrightarrow> \<forall>(_, n) \<in> set xs. CHR 0x00 \<notin> set n"
  by (force simp: list_all_iff)

interpretation protos: name_table nd_protos
  by unfold_locales (rule nd_protos_names, rule no_nul_check, simp add: nd_protos_def)

interpretation risks: name_table nd_risks
  by unfold_locales (rule nd_risks_names, rule no_nul_check, simp add: nd_risks_def)

text \<open>
  A protocol is found by its name in any case, in whatever order the table is
  iterated, and its identifier gives the name back.
\<close>

theorem protocol_names_roundtrip:
  assumes "set order = set (umap_init nd_protos)" "(i, n) \<in> set (umap_init nd_protos)"
    and "map tolower name = map tolower n" "CHR 0x00 \<notin> set name"
  shows "nd_proto_get_id order name = i \<and> nd_proto_get_name (nd_proto_get_id order name) = n"
  using protos.name_find_entry [OF assms] protos.name_of_entry [OF assms(2)]
  by (simp add: nd_proto_get_id_def nd_proto_get_name_def)

lemma risk_names_roundtrip:
  assumes "set order = set (umap_init nd_risks)" "(i, n) \<in> set (umap_init nd_risks)"
    and "map tolower name = map tolower n" "CHR 0x00 \<notin> set name"
  shows "nd_risk_lookup order name = i \<and> nd_risk_get_name (nd_risk_lookup order name) = n"
  using risks.name_find_entry [OF assms] risks.name_of_entry [OF assms(2)]
  by (simp add: nd_risk_lookup_def nd_risk_get_name_def)

lemma ndpi_protos_symbols: "distinct (map fst nd_ndpi_protos)"
  by (simp add: nd_ndpi_protos_def)

lemma ndpi_protos_values: "distinct (map snd nd_ndpi_protos)"
  by (simp add: nd_ndpi_protos_def)

lemma find_snd:
  assumes "distinct (map snd xs)" "set order = (\<lambda>(n, p). (f n, p)) ` set xs" "(n, p) \<in> set xs"
  shows "List.find (\<lambda>(_, q). q = p) order = Some (f n, p)"
proof -
  have only: "x = (f n, p)" if x: "x \<in> set order" "snd x = p" for x
  proof -
    obtain m q where m: "(m, q) \<in> set xs" "x = (f m, q)" using x(1) assms(2) by auto
    then have "(m, q) = (n, p)" using assms(1,3) x(2) by (metis distinct_map inj_onD snd_conv)
    then show ?thesis using m by simp
  qed
  have "(f n, p) \<in> set order" using assms(2,3) by force
  then have "List.find (\<lambda>(_, q). q = p) order \<noteq> None" by (auto simp: find_None_iff)
  then obtain x where x: "List.find (\<lambda>(_, q). q = p) order = Some x" by blast
  then have "x \<in> set order" "snd x = p" by (auto simp: find_Some_iff split_def)
  then show ?thesis using only x by simp
qed

text \<open>
  The protocol of the catalog that stands for an nDPI protocol stands for no other:
  searched by its identifier the table gives the nDPI protocol back, which, unless ports
  refine it, is found as this protocol.
\<close>

theorem ndpi_protocols_inverse:
  assumes "set order = (\<lambda>(n, p). (ndpi n, p)) ` set nd_ndpi_protos" "(n, p) \<in> set nd_ndpi_protos" "p \<noteq> ND_PROTO_UNKNOWN"
    and "inj_on ndpi (insert ''UNKNOWN'' (fst ` set nd_ndpi_protos))" "n \<noteq> ''UNKNOWN''" "n \<noteq> ''TLS''"
  shows "nd_ndpi_proto_find_id ndpi order p = ndpi n
    \<and> nd_ndpi_proto_find ndpi (nd_ndpi_proto_find_id ndpi order p) lower_port upper_port = p"
proof -
  have f: "nd_ndpi_proto_find_id ndpi order p = ndpi n"
    using find_snd [OF ndpi_protos_values assms(1,2)] assms(3) by (simp add: nd_ndpi_proto_find_id_def)
  have inj: "ndpi a = ndpi b \<longleftrightarrow> a = b" if "a \<in> fst ` set nd_ndpi_protos" "b \<in> insert ''UNKNOWN'' (fst ` set nd_ndpi_protos)" for a b
    using assms(4) that by (meson inj_on_eq_iff insertCI)
  have n: "n \<in> fst ` set nd_ndpi_protos" using assms(2) by force
  have tls: "''TLS'' \<in> fst ` set nd_ndpi_protos" by (simp add: nd_ndpi_protos_def)
  have u: "ndpi n \<noteq> ndpi ''UNKNOWN''" using inj [OF n, of "''UNKNOWN''"] assms(5) by simp
  have t: "ndpi n \<noteq> ndpi ''TLS''" using inj [OF n, of "''TLS''"] assms(6) tls by simp
  have "map_of (map (\<lambda>(n, p). (ndpi n, p)) nd_ndpi_protos) (ndpi n) = Some p"
  proof -
    have "map fst (map (\<lambda>(n, p). (ndpi n, p)) nd_ndpi_protos) = map ndpi (map fst nd_ndpi_protos)" by (simp add: split_def)
    moreover have "distinct (map ndpi (map fst nd_ndpi_protos))"
      using ndpi_protos_symbols inj_on_subset [OF assms(4), of "set (map fst nd_ndpi_protos)"]
      by (subst distinct_map) auto
    ultimately have "distinct (map fst (map (\<lambda>(n, p). (ndpi n, p)) nd_ndpi_protos))" by (simp only:)
    then show ?thesis
    proof (rule map_of_is_SomeI)
      show "(ndpi n, p) \<in> set (map (\<lambda>(n, p). (ndpi n, p)) nd_ndpi_protos)" using assms(2) by force
    qed
  qed
  then show ?thesis using f u t by (simp add: nd_ndpi_proto_find_def nd_ndpi_portmap_def)
qed

section \<open>Concrete instances\<close>

text \<open>Numbers that nDPI could give its protocols: the names read as numbers in base 256.\<close>

definition sample_ndpi :: "string \<Rightarrow> nat" where
  "sample_ndpi s = foldl (\<lambda>n c. n * 256 + of_char c) 1 s"

lemma base256_digit: "x * 256 + c = y * 256 + d \<Longrightarrow> c < 256 \<Longrightarrow> d < 256 \<Longrightarrow> x = y \<and> c = (d :: nat)"
proof -
  assume a: "x * 256 + c = y * 256 + d" "c < 256" "d < 256"
  then have "(x * 256 + c) div 256 = (y * 256 + d) div 256" by simp
  then have "x = y" using a(2,3) by simp
  then show ?thesis using a(1) by simp
qed

lemma sample_ndpi_fold_inj:
  "foldl (\<lambda>n c. n * 256 + of_char c) a s = foldl (\<lambda>n c. n * 256 + of_char c) b t \<Longrightarrow> length s = length t
    \<Longrightarrow> (a :: nat) = b \<and> s = (t :: string)"
proof (induction s arbitrary: t rule: rev_induct)
  case (snoc c s)
  then obtain t' d where t: "t = t' @ [d]" by (cases t rule: rev_cases) auto
  have c: "of_char c < (256 :: nat)" "of_char d < (256 :: nat)" by simp_all
  let ?x = "foldl (\<lambda>n c. n * 256 + of_char c) a s" and ?y = "foldl (\<lambda>n c. n * 256 + of_char c) b t'"
  have e: "?x * 256 + of_char c = ?y * 256 + of_char d" using snoc.prems(1) by (simp add: t)
  then have "?x = ?y" "(of_char c :: nat) = of_char d" using base256_digit [OF _ c] by blast+
  then show ?case using snoc.IH [of t'] snoc.prems(2) t by auto
qed simp

lemma sample_ndpi_bounds: "256 ^ length s \<le> sample_ndpi s \<and> sample_ndpi s < 2 * 256 ^ length s"
proof -
  have "a * 256 ^ length s \<le> foldl (\<lambda>n c. n * 256 + of_char c) a s
      \<and> foldl (\<lambda>n c. n * 256 + of_char c) a s < (a + 1) * 256 ^ length s" for a :: nat
  proof (induction s arbitrary: a)
    case (Cons c s)
    have "of_char c + 1 \<le> (256 :: nat)" using nat_of_char_less_256 [of c] by linarith
    then have "a * 256 \<le> a * 256 + of_char c" "a * 256 + of_char c + 1 \<le> (a + 1) * 256" by (simp_all add: algebra_simps)
    then have b: "a * 256 * 256 ^ length s \<le> (a * 256 + of_char c) * 256 ^ length s"
      "(a * 256 + of_char c + 1) * 256 ^ length s \<le> (a + 1) * 256 * 256 ^ length s"
      by (intro mult_right_mono; simp)+
    have "a * 256 * 256 ^ length s \<le> foldl (\<lambda>n c. n * 256 + of_char c) (a * 256 + of_char c) s
        \<and> foldl (\<lambda>n c. n * 256 + of_char c) (a * 256 + of_char c) s < (a + 1) * 256 * 256 ^ length s"
      using Cons.IH [of "a * 256 + of_char c"] b by (meson le_trans less_le_trans)
    then show ?case by (simp only: foldl_Cons length_Cons power_Suc mult.assoc)
  qed simp
  from this [of 1] show ?thesis by (simp add: sample_ndpi_def)
qed

lemma sample_ndpi_inj: "inj sample_ndpi"
proof (rule injI)
  fix s t assume e: "sample_ndpi s = sample_ndpi t"
  have less: "sample_ndpi u < sample_ndpi v" if "length u < length v" for u v
  proof -
    have "2 * 256 ^ length u \<le> (256 :: nat) * 256 ^ length u" by simp
    also have "\<dots> = 256 ^ Suc (length u)" by simp
    also have "\<dots> \<le> 256 ^ length v" using that by (intro power_increasing) auto
    finally show ?thesis using sample_ndpi_bounds [of u] sample_ndpi_bounds [of v] by linarith
  qed
  have "length s = length t" using less [of s t] less [of t s] e by (cases "length s" "length t" rule: linorder_cases) auto
  then show "s = t" using sample_ndpi_fold_inj [of 1 s 1 t] e by (simp add: sample_ndpi_def)
qed

lemma nd_protos_quic: "(188, ''QUIC'') \<in> set (umap_init nd_protos)"
proof -
  have "map_of (umap_init nd_protos) 188 = Some ''QUIC''" by (simp add: nd_protos_def)
  then show ?thesis by (rule map_of_SomeD)
qed

theorem protocol_names_roundtrip_witness:
  "nd_proto_get_id (umap_init nd_protos) ''quic'' = 188
    \<and> nd_proto_get_name (nd_proto_get_id (umap_init nd_protos) ''quic'') = ''QUIC''"
proof (rule protocol_names_roundtrip [OF refl nd_protos_quic])
  show "map tolower ''quic'' = map tolower ''QUIC''"
    by (subst lower_code_eq [symmetric]) (simp add: lower_code_def lower_nat_def)
qed simp

theorem ndpi_protocols_inverse_witness:
  "nd_ndpi_proto_find_id sample_ndpi (map (\<lambda>(n, p). (sample_ndpi n, p)) nd_ndpi_protos) 5 = sample_ndpi ''DNS''
    \<and> nd_ndpi_proto_find sample_ndpi
        (nd_ndpi_proto_find_id sample_ndpi (map (\<lambda>(n, p). (sample_ndpi n, p)) nd_ndpi_protos) 5) 4000 53 = 5"
proof (rule ndpi_protocols_inverse)
  show "(''DNS'', 5) \<in> set nd_ndpi_protos" by (simp add: nd_ndpi_protos_def)
  show "inj_on sample_ndpi (insert ''UNKNOWN'' (fst ` set nd_ndpi_protos))"
    using sample_ndpi_inj by (rule inj_on_subset) simp
qed (simp_all add: ND_PROTO_UNKNOWN_def)

section \<open>Departures from the documented intent\<close>

text \<open>Protocols and risks that nDPI detections are mapped to, without a name.\<close>

lemma unnamed_protocols:
  "(''APACHE_THRIFT'', 324) \<in> set nd_ndpi_protos \<and> nd_proto_get_name 324 = ''Unknown''"
  "(''DATASAVER'', 46) \<in> set nd_ndpi_protos \<and> nd_proto_get_name 46 = ''Unknown''"
  by (simp_all add: nd_ndpi_protos_def nd_proto_get_name_def nd_protos_def)

lemma unnamed_ftps_data: "nd_proto_get_name ND_PROTO_FTPS_DATA = ''Unknown''"
  by (simp add: nd_proto_get_name_def nd_protos_def ND_PROTO_FTPS_DATA_def)

lemma unnamed_malware_risk:
  "(''MALWARE_HOST_CONTACTED'', 54) \<in> set nd_ndpi_risks \<and> nd_risk_get_name 54 = ''None''"
  by (simp add: nd_ndpi_risks_def nd_risk_get_name_def nd_risks_def)

end
