(* ===== verification/NdFlow.thy ===== *)
theory NdFlow
  imports NdAddrType NdJson NdProtos
begin

text \<open>
  Flows (\<open>class ndFlow\<close> of \<open>src/include/nd-flow.hpp\<close>, \<open>src/src/nd-flow.cpp\<close>), built without
  the metadata of connection tracking. The union of protocol metadata is its memory, 1024
  bytes in the LP64 layout, so that every member reads what another one wrote. SHA-1, the
  strings behind pointers, and the memory that follows the protocol and application
  identifiers in the object are arguments; floating point rates are kept by their bits.
\<close>

section \<open>State\<close>

record flow_stats =
  fs_lower_bytes :: "64 word"
  fs_upper_bytes :: "64 word"
  fs_total_bytes :: "64 word"
  fs_lower_packets :: "32 word"
  fs_upper_packets :: "32 word"
  fs_total_packets :: "32 word"
  fs_detection_packets :: byte
  fs_lower_rate_samples :: "32 word list"
  fs_upper_rate_samples :: "32 word list"
  fs_lower_rate :: "64 word"
  fs_upper_rate :: "64 word"
  fs_tcp_seq_errors :: "32 word"
  fs_tcp_resets :: "32 word"
  fs_tcp_retrans :: "32 word"

definition flow_stats_new :: "nat \<Rightarrow> flow_stats" where
  "flow_stats_new update_interval =
     \<lparr>fs_lower_bytes = 0, fs_upper_bytes = 0, fs_total_bytes = 0,
      fs_lower_packets = 0, fs_upper_packets = 0, fs_total_packets = 0, fs_detection_packets = 0,
      fs_lower_rate_samples = replicate update_interval 0, fs_upper_rate_samples = replicate update_interval 0,
      fs_lower_rate = 0, fs_upper_rate = 0, fs_tcp_seq_errors = 0, fs_tcp_resets = 0, fs_tcp_retrans = 0\<rparr>"

text \<open>The copy constructor starts with fresh samples.\<close>

definition flow_stats_copy :: "nat \<Rightarrow> flow_stats \<Rightarrow> flow_stats" where
  "flow_stats_copy update_interval s =
     s\<lparr>fs_lower_rate_samples := replicate update_interval 0, fs_upper_rate_samples := replicate update_interval 0\<rparr>"

text \<open>The assignment keeps the samples of the target.\<close>

definition flow_stats_assign :: "flow_stats \<Rightarrow> flow_stats \<Rightarrow> flow_stats" where
  "flow_stats_assign this s =
     s\<lparr>fs_lower_rate_samples := fs_lower_rate_samples this, fs_upper_rate_samples := fs_upper_rate_samples this\<rparr>"

text \<open>The totals and the rates survive a reset.\<close>

definition flow_stats_Reset :: "bool \<Rightarrow> flow_stats \<Rightarrow> flow_stats" where
  "flow_stats_Reset full_reset s =
     (let s = s\<lparr>fs_lower_bytes := 0, fs_upper_bytes := 0, fs_lower_packets := 0, fs_upper_packets := 0,
                fs_lower_rate_samples := map (\<lambda>_. 0) (fs_lower_rate_samples s),
                fs_upper_rate_samples := map (\<lambda>_. 0) (fs_upper_rate_samples s),
                fs_tcp_seq_errors := 0, fs_tcp_resets := 0, fs_tcp_retrans := 0\<rparr>
      in if full_reset then s\<lparr>fs_detection_packets := 0\<rparr> else s)"

datatype lower_map = LOWER_UNKNOWN | LOWER_LOCAL | LOWER_OTHER

datatype other_type =
  OTHER_UNKNOWN | OTHER_UNSUPPORTED | OTHER_LOCAL | OTHER_MULTICAST | OTHER_BROADCAST | OTHER_REMOTE | OTHER_ERROR

datatype tunnel_type = TUNNEL_NONE | TUNNEL_GTP

datatype flow_origin = ORIGIN_UNKNOWN | ORIGIN_LOWER | ORIGIN_UPPER

text \<open>\<open>PRIVATE_LOWER\<close> and \<open>PRIVATE_UPPER\<close> are bits 0 and 1 of the privacy mask.\<close>

record flow_flags =
  ff_detection_complete :: bool
  ff_detection_guessed :: bool
  ff_detection_init :: bool
  ff_detection_updated :: bool
  ff_dhc_hit :: bool
  ff_fhc_hit :: bool
  ff_expired :: bool
  ff_expiring :: bool
  ff_ip_nat :: bool
  ff_risks_checked :: bool
  ff_soft_dissector :: bool
  ff_tcp_fin_ack :: byte

record flow_gtp =
  gtp_version :: byte
  gtp_ip_version :: byte
  gtp_lower_teid :: "32 word"
  gtp_upper_teid :: "32 word"
  gtp_lower_type :: addr_type
  gtp_upper_type :: addr_type
  gtp_lower_addr :: nd_addr
  gtp_upper_addr :: nd_addr
  gtp_lower_map :: lower_map
  gtp_other_type :: other_type

record flow_category =
  fc_application :: nat
  fc_protocol :: nat
  fc_domain :: nat
  fc_network :: nat

record nd_flow =
  fl_dpi_thread_id :: int
  fl_ip_version :: byte
  fl_ip_protocol :: byte
  fl_vlan_id :: "16 word"
  fl_tcp_last_seq :: "32 word"
  fl_ts_first_seen :: "64 word"
  fl_ts_last_seen :: "64 word"
  fl_lower_map :: lower_map
  fl_other_type :: other_type
  fl_lower_mac :: nd_addr
  fl_upper_mac :: nd_addr
  fl_lower_addr :: nd_addr
  fl_upper_addr :: nd_addr
  fl_tunnel_type :: tunnel_type
  fl_detected_protocol :: nat
  fl_detected_application :: nat
  fl_detected_protocol_name :: string
  fl_detected_application_name :: string
  fl_category :: flow_category
  fl_ndpi_flow :: bool
  fl_digest_lower :: bytes
  fl_digest_mdata :: bytes
  fl_dns_host_name :: string
  fl_host_server_name :: string
  fl_union :: bytes
  fl_tls_alpn :: "string list"
  fl_tls_alpn_server :: "string list"
  fl_tls_alpn_set :: bool
  fl_tls_alpn_server_set :: bool
  fl_privacy_mask :: byte
  fl_origin :: flow_origin
  fl_direction :: int
  fl_lower_type :: addr_type
  fl_upper_type :: addr_type
  fl_flags :: flow_flags
  fl_gtp :: flow_gtp
  fl_risks :: "nat list"
  fl_risk_score :: "16 word"
  fl_risk_score_client :: "16 word"
  fl_risk_score_server :: "16 word"
  fl_stats :: flow_stats

definition flow_flags_new :: flow_flags where
  "flow_flags_new = \<lparr>ff_detection_complete = False, ff_detection_guessed = False, ff_detection_init = False,
     ff_detection_updated = False, ff_dhc_hit = False, ff_fhc_hit = False, ff_expired = False,
     ff_expiring = False, ff_ip_nat = False, ff_risks_checked = False, ff_soft_dissector = False,
     ff_tcp_fin_ack = 0\<rparr>"

definition flow_gtp_new :: flow_gtp where
  "flow_gtp_new = \<lparr>gtp_version = 0xFF, gtp_ip_version = 0, gtp_lower_teid = 0, gtp_upper_teid = 0,
     gtp_lower_type = atNONE, gtp_upper_type = atNONE, gtp_lower_addr = nd_addr_new 0,
     gtp_upper_addr = nd_addr_new 0, gtp_lower_map = LOWER_UNKNOWN, gtp_other_type = OTHER_UNKNOWN\<rparr>"

text \<open>
  The constructor; whether the ALPN lists are set is left uninitialized, so the two values
  are arguments.
\<close>

definition nd_flow_new :: "nat \<Rightarrow> bool \<Rightarrow> bool \<Rightarrow> nd_flow" where
  "nd_flow_new update_interval alpn_set alpn_server_set =
    \<lparr>fl_dpi_thread_id = -1, fl_ip_version = 0, fl_ip_protocol = 0, fl_vlan_id = 0, fl_tcp_last_seq = 0,
     fl_ts_first_seen = 0, fl_ts_last_seen = 0, fl_lower_map = LOWER_UNKNOWN, fl_other_type = OTHER_UNKNOWN,
     fl_lower_mac = nd_addr_new 0, fl_upper_mac = nd_addr_new 0,
     fl_lower_addr = nd_addr_new 0, fl_upper_addr = nd_addr_new 0, fl_tunnel_type = TUNNEL_NONE,
     fl_detected_protocol = ND_PROTO_UNKNOWN, fl_detected_application = 0,
     fl_detected_protocol_name = ''Unknown'', fl_detected_application_name = [],
     fl_category = \<lparr>fc_application = 0, fc_protocol = 0, fc_domain = 0, fc_network = 0\<rparr>,
     fl_ndpi_flow = False, fl_digest_lower = replicate 20 0, fl_digest_mdata = replicate 20 0,
     fl_dns_host_name = [], fl_host_server_name = [], fl_union = replicate 1024 0,
     fl_tls_alpn = [], fl_tls_alpn_server = [], fl_tls_alpn_set = alpn_set, fl_tls_alpn_server_set = alpn_server_set,
     fl_privacy_mask = 0, fl_origin = ORIGIN_UNKNOWN, fl_direction = 0,
     fl_lower_type = atNONE, fl_upper_type = atNONE, fl_flags = flow_flags_new, fl_gtp = flow_gtp_new,
     fl_risks = [], fl_risk_score = 0, fl_risk_score_client = 0, fl_risk_score_server = 0,
     fl_stats = flow_stats_new update_interval\<rparr>"

text \<open>The copy constructor keeps the key of the flow, not what was detected.\<close>

definition nd_flow_copy :: "nat \<Rightarrow> bool \<Rightarrow> bool \<Rightarrow> nd_flow \<Rightarrow> nd_flow" where
  "nd_flow_copy update_interval alpn_set alpn_server_set f =
     (nd_flow_new update_interval alpn_set alpn_server_set)
       \<lparr>fl_ip_version := fl_ip_version f, fl_ip_protocol := fl_ip_protocol f, fl_vlan_id := fl_vlan_id f,
        fl_tcp_last_seq := fl_tcp_last_seq f, fl_ts_first_seen := fl_ts_first_seen f,
        fl_ts_last_seen := fl_ts_last_seen f,
        fl_lower_mac := fl_lower_mac f, fl_upper_mac := fl_upper_mac f,
        fl_lower_addr := fl_lower_addr f, fl_upper_addr := fl_upper_addr f,
        fl_tunnel_type := fl_tunnel_type f, fl_gtp := fl_gtp f, fl_digest_lower := fl_digest_lower f\<rparr>"

section \<open>The union of metadata\<close>

definition union_cstr :: "nat \<Rightarrow> bytes \<Rightarrow> string" where
  "union_cstr off m = map (\<lambda>b. char_of (unat b)) (takeWhile (\<lambda>b. b \<noteq> 0) (drop off m))"

definition union_byte :: "nat \<Rightarrow> bytes \<Rightarrow> byte" where
  "union_byte off m = (if off < length m then m ! off else 0)"

definition union_word :: "nat \<Rightarrow> nat \<Rightarrow> bytes \<Rightarrow> nat" where
  "union_word off n m = le_nat (take n (drop off m))"

abbreviation http_user_agent :: "bytes \<Rightarrow> string" where "http_user_agent \<equiv> union_cstr 0"
abbreviation http_url :: "bytes \<Rightarrow> string" where "http_url \<equiv> union_cstr 512"
abbreviation dhcp_fingerprint :: "bytes \<Rightarrow> string" where "dhcp_fingerprint \<equiv> union_cstr 0"
abbreviation dhcp_class_ident :: "bytes \<Rightarrow> string" where "dhcp_class_ident \<equiv> union_cstr 48"
abbreviation ssh_client_agent :: "bytes \<Rightarrow> string" where "ssh_client_agent \<equiv> union_cstr 0"
abbreviation ssh_server_agent :: "bytes \<Rightarrow> string" where "ssh_server_agent \<equiv> union_cstr 48"
abbreviation ssl_version :: "bytes \<Rightarrow> nat" where "ssl_version \<equiv> union_word 0 2"
abbreviation ssl_cipher_suite :: "bytes \<Rightarrow> nat" where "ssl_cipher_suite \<equiv> union_word 2 2"
abbreviation ssl_subject_dn :: "bytes \<Rightarrow> nat" where "ssl_subject_dn \<equiv> union_word 8 8"
abbreviation ssl_issuer_dn :: "bytes \<Rightarrow> nat" where "ssl_issuer_dn \<equiv> union_word 16 8"
abbreviation ssl_server_cn :: "bytes \<Rightarrow> string" where "ssl_server_cn \<equiv> union_cstr 24"
abbreviation ssl_client_ja3 :: "bytes \<Rightarrow> string" where "ssl_client_ja3 \<equiv> union_cstr 280"
abbreviation ssl_server_ja3 :: "bytes \<Rightarrow> string" where "ssl_server_ja3 \<equiv> union_cstr 313"
abbreviation ssl_fingerprint_found :: "bytes \<Rightarrow> bool" where "ssl_fingerprint_found m \<equiv> union_byte 346 m \<noteq> 0"
abbreviation ssl_fingerprint :: "bytes \<Rightarrow> bytes" where "ssl_fingerprint m \<equiv> take 20 (drop 347 m)"
abbreviation bt_info_hash_valid :: "bytes \<Rightarrow> bool" where "bt_info_hash_valid m \<equiv> bit (union_byte 0 m) 0"
abbreviation bt_info_hash :: "bytes \<Rightarrow> bytes" where "bt_info_hash m \<equiv> take 20 (drop 1 m)"
abbreviation mdns_domain_name :: "bytes \<Rightarrow> string" where "mdns_domain_name \<equiv> union_cstr 0"

definition GetMasterProtocol :: "nd_flow \<Rightarrow> nat" where
  "GetMasterProtocol f =
     (let p = fl_detected_protocol f in
      if p \<in> {ND_PROTO_HTTPS, ND_PROTO_TLS, ND_PROTO_FTPS, ND_PROTO_FTPS_DATA, ND_PROTO_MAIL_IMAPS,
              ND_PROTO_MAIL_POPS, ND_PROTO_MAIL_SMTPS, ND_PROTO_MQTTS, ND_PROTO_NNTPS, ND_PROTO_SIPS}
      then ND_PROTO_TLS
      else if p \<in> {ND_PROTO_HTTP, ND_PROTO_HTTP_CONNECT, ND_PROTO_HTTP_PROXY, ND_PROTO_OOKLA, ND_PROTO_PPSTREAM,
              ND_PROTO_QQ, ND_PROTO_RTSP, ND_PROTO_STEAM, ND_PROTO_TEAMVIEWER, ND_PROTO_XBOX}
      then ND_PROTO_HTTP
      else if p \<in> {ND_PROTO_DNS, ND_PROTO_MDNS, ND_PROTO_LLMNR} then ND_PROTO_DNS
      else p)"

text \<open>A text is there when its first character is no NUL.\<close>

definition HasDhcpFingerprint :: "nd_flow \<Rightarrow> bool" where
  "HasDhcpFingerprint f \<longleftrightarrow> fl_detected_protocol f = ND_PROTO_DHCP \<and> union_byte 0 (fl_union f) \<noteq> 0"

definition HasDhcpClassIdent :: "nd_flow \<Rightarrow> bool" where
  "HasDhcpClassIdent f \<longleftrightarrow> fl_detected_protocol f = ND_PROTO_DHCP \<and> union_byte 48 (fl_union f) \<noteq> 0"

definition HasHttpUserAgent :: "nd_flow \<Rightarrow> bool" where
  "HasHttpUserAgent f \<longleftrightarrow> GetMasterProtocol f = ND_PROTO_HTTP \<and> union_byte 0 (fl_union f) \<noteq> 0"

definition HasHttpURL :: "nd_flow \<Rightarrow> bool" where
  "HasHttpURL f \<longleftrightarrow> GetMasterProtocol f = ND_PROTO_HTTP \<and> union_byte 512 (fl_union f) \<noteq> 0"

definition HasSSHClientAgent :: "nd_flow \<Rightarrow> bool" where
  "HasSSHClientAgent f \<longleftrightarrow> fl_detected_protocol f = ND_PROTO_SSH \<and> union_byte 0 (fl_union f) \<noteq> 0"

definition HasSSHServerAgent :: "nd_flow \<Rightarrow> bool" where
  "HasSSHServerAgent f \<longleftrightarrow> fl_detected_protocol f = ND_PROTO_SSH \<and> union_byte 48 (fl_union f) \<noteq> 0"

definition is_tls :: "nd_flow \<Rightarrow> bool" where
  "is_tls f \<longleftrightarrow> GetMasterProtocol f = ND_PROTO_TLS \<or> fl_detected_protocol f = ND_PROTO_QUIC"

definition HasTLSClientSNI :: "nd_flow \<Rightarrow> bool" where
  "HasTLSClientSNI f \<longleftrightarrow> is_tls f \<and> fl_host_server_name f \<noteq> []"

definition HasTLSServerCN :: "nd_flow \<Rightarrow> bool" where
  "HasTLSServerCN f \<longleftrightarrow> is_tls f \<and> union_byte 24 (fl_union f) \<noteq> 0"

definition HasTLSIssuerDN :: "nd_flow \<Rightarrow> bool" where
  "HasTLSIssuerDN f \<longleftrightarrow> is_tls f \<and> ssl_issuer_dn (fl_union f) \<noteq> 0"

definition HasTLSSubjectDN :: "nd_flow \<Rightarrow> bool" where
  "HasTLSSubjectDN f \<longleftrightarrow> is_tls f \<and> ssl_subject_dn (fl_union f) \<noteq> 0"

definition HasTLSClientJA3 :: "nd_flow \<Rightarrow> bool" where
  "HasTLSClientJA3 f \<longleftrightarrow> GetMasterProtocol f = ND_PROTO_TLS \<and> union_byte 280 (fl_union f) \<noteq> 0"

definition HasTLSServerJA3 :: "nd_flow \<Rightarrow> bool" where
  "HasTLSServerJA3 f \<longleftrightarrow> GetMasterProtocol f = ND_PROTO_TLS \<and> union_byte 313 (fl_union f) \<noteq> 0"

definition HasBTInfoHash :: "nd_flow \<Rightarrow> bool" where
  "HasBTInfoHash f \<longleftrightarrow> fl_detected_protocol f = ND_PROTO_BITTORRENT \<and> bt_info_hash_valid (fl_union f)"

definition HasSSDPUserAgent :: "nd_flow \<Rightarrow> bool" where
  "HasSSDPUserAgent f \<longleftrightarrow> GetMasterProtocol f = ND_PROTO_SSDP \<and> union_byte 0 (fl_union f) \<noteq> 0"

definition HasMDNSDomainName :: "nd_flow \<Rightarrow> bool" where
  "HasMDNSDomainName f \<longleftrightarrow> fl_detected_protocol f = ND_PROTO_MDNS \<and> union_byte 0 (fl_union f) \<noteq> 0"

section \<open>Operations\<close>

text \<open>The bytes of an integer in memory, least first.\<close>

primrec le_bytes :: "nat \<Rightarrow> nat \<Rightarrow> bytes" where
  "le_bytes 0 n = []"
| "le_bytes (Suc k) n = word_of_nat n # le_bytes k (n div 256)"

text \<open>
  The address bytes that a version reads from the union of socket addresses; an address
  of another family is taken as zeros, since the model of the union has no bytes for it.
\<close>

definition raw_in :: "nd_addr \<Rightarrow> bytes" where
  "raw_in a = (case na_addr a of SA_in _ ip _ \<Rightarrow> ip | _ \<Rightarrow> replicate 4 0)"

definition raw_in6 :: "nd_addr \<Rightarrow> bytes" where
  "raw_in6 a = (case na_addr a of SA_in6 _ _ ip _ \<Rightarrow> ip | _ \<Rightarrow> replicate 16 0)"

definition raw_mac :: "nd_addr \<Rightarrow> bytes" where
  "raw_mac a = (case na_addr a of SA_ll _ _ _ _ _ hw \<Rightarrow> take 6 hw | _ \<Rightarrow> replicate 6 0)"

definition bytes_of_string :: "string \<Rightarrow> bytes" where
  "bytes_of_string s = map (\<lambda>c. word_of_nat (of_char c)) s"

definition flow_addr_bytes :: "nd_flow \<Rightarrow> bytes" where
  "flow_addr_bytes f =
     (if fl_ip_version f = 4 then
        raw_in (fl_lower_addr f) @ raw_in (fl_upper_addr f)
        @ (if raw_in (fl_lower_addr f) = replicate 4 0 \<and> raw_in (fl_upper_addr f) = replicate 4 255
           then raw_mac (fl_lower_mac f) else [])
      else if fl_ip_version f = 6 then raw_in6 (fl_lower_addr f) @ raw_in6 (fl_upper_addr f)
      else [])"

text \<open>
  What the digest is computed of. The protocol identifier is read with the size of the
  structure \<open>ndpi_protocol\<close>, so that what follows it in the object is hashed too.
\<close>

definition flow_hash_input :: "nat \<Rightarrow> bytes \<Rightarrow> string \<Rightarrow> bool \<Rightarrow> bytes option \<Rightarrow> nd_flow \<Rightarrow> bytes" where
  "flow_hash_input ndpi_size behind device hash_mdata key f =
     bytes_of_string device
     @ [fl_ip_version f] @ [fl_ip_protocol f] @ le_bytes 2 (unat (fl_vlan_id f))
     @ flow_addr_bytes f
     @ le_bytes 2 (unat (GetPort (fl_lower_addr f) False)) @ le_bytes 2 (unat (GetPort (fl_upper_addr f) False))
     @ (if hash_mdata then
          take ndpi_size (le_bytes 4 (fl_detected_protocol f) @ le_bytes 4 (fl_detected_application f) @ behind)
          @ (if fl_host_server_name f \<noteq> [] then bytes_of_string (fl_host_server_name f) else [])
          @ (if HasBTInfoHash f then bt_info_hash (fl_union f) else [])
        else [])
     @ (case key of None \<Rightarrow> [] | Some k \<Rightarrow> k)"

definition flow_Hash ::
  "(bytes \<Rightarrow> bytes) \<Rightarrow> nat \<Rightarrow> bytes \<Rightarrow> string \<Rightarrow> bool \<Rightarrow> bytes option \<Rightarrow> nd_flow \<Rightarrow> nd_flow" where
  "flow_Hash sha1 ndpi_size behind device hash_mdata key f =
     (let d = sha1 (flow_hash_input ndpi_size behind device hash_mdata key f) in
      if \<not> hash_mdata then f\<lparr>fl_digest_lower := d\<rparr> else f\<lparr>fl_digest_mdata := d\<rparr>)"

definition flow_Reset :: "bool \<Rightarrow> nd_flow \<Rightarrow> nd_flow" where
  "flow_Reset full_reset f =
     (let f = f\<lparr>fl_stats := flow_stats_Reset full_reset (fl_stats f)\<rparr> in
      if full_reset then
        f\<lparr>fl_flags := (fl_flags f)
            \<lparr>ff_detection_complete := False, ff_detection_guessed := False, ff_detection_init := False,
             ff_detection_updated := False, ff_dhc_hit := False, ff_expired := False, ff_expiring := False,
             ff_risks_checked := False, ff_soft_dissector := False\<rparr>,
          fl_risks := []\<rparr>
      else f)"

definition flow_Release :: "nd_flow \<Rightarrow> nd_flow" where
  "flow_Release f = (if fl_ndpi_flow f then f\<lparr>fl_ndpi_flow := False\<rparr> else f)"

text \<open>The branches in the order of the code, the repeated one included.\<close>

definition GetLowerMap :: "byte \<Rightarrow> addr_type \<Rightarrow> addr_type \<Rightarrow> lower_map \<times> other_type \<Rightarrow> lower_map \<times> other_type" where
  "GetLowerMap ip_version lt ut m = (case m of (lm, ot) \<Rightarrow>
     if lt = atERROR \<or> ut = atERROR then (lm, OTHER_ERROR)
     else if lt = atLOCAL \<and> ut = atLOCAL then (LOWER_LOCAL, OTHER_LOCAL)
     else if lt = atLOCAL \<and> ut = atLOCAL then (LOWER_LOCAL, OTHER_LOCAL)
     else if lt = atLOCAL \<and> ut = atLOCALNET then (LOWER_LOCAL, OTHER_LOCAL)
     else if lt = atLOCALNET \<and> ut = atLOCAL then (LOWER_LOCAL, OTHER_LOCAL)
     else if lt = atMULTICAST then (LOWER_OTHER, OTHER_MULTICAST)
     else if ut = atMULTICAST then (LOWER_LOCAL, OTHER_MULTICAST)
     else if lt = atBROADCAST then (LOWER_OTHER, OTHER_BROADCAST)
     else if ut = atBROADCAST then (LOWER_LOCAL, OTHER_BROADCAST)
     else if lt = atRESERVED \<and> ut = atLOCALNET then (LOWER_OTHER, OTHER_LOCAL)
     else if lt = atLOCALNET \<and> ut = atRESERVED then (LOWER_LOCAL, OTHER_LOCAL)
     else if ip_version \<noteq> 6 \<and> lt = atRESERVED \<and> ut = atRESERVED then (LOWER_LOCAL, OTHER_LOCAL)
     else if lt = atRESERVED \<and> ut = atLOCAL then (LOWER_OTHER, OTHER_REMOTE)
     else if lt = atLOCAL \<and> ut = atRESERVED then (LOWER_LOCAL, OTHER_REMOTE)
     else if lt = atLOCALNET \<and> ut = atLOCALNET then (LOWER_LOCAL, OTHER_LOCAL)
     else if lt = atOTHER then (LOWER_OTHER, OTHER_REMOTE)
     else if ut = atOTHER then (LOWER_LOCAL, OTHER_REMOTE)
     else (lm, ot))"

definition UpdateLowerMaps :: "nd_flow \<Rightarrow> nd_flow" where
  "UpdateLowerMaps f =
     (let f = (if fl_lower_map f = LOWER_UNKNOWN then
                 (case GetLowerMap (fl_ip_version f) (fl_lower_type f) (fl_upper_type f) (fl_lower_map f, fl_other_type f)
                  of (lm, ot) \<Rightarrow> f\<lparr>fl_lower_map := lm, fl_other_type := ot\<rparr>)
               else f)
      in case fl_tunnel_type f of
        TUNNEL_GTP \<Rightarrow>
          if gtp_lower_map (fl_gtp f) = LOWER_UNKNOWN then
            (case GetLowerMap (fl_ip_version f) (gtp_lower_type (fl_gtp f)) (gtp_upper_type (fl_gtp f))
                    (gtp_lower_map (fl_gtp f), gtp_other_type (fl_gtp f))
             of (lm, ot) \<Rightarrow> f\<lparr>fl_gtp := (fl_gtp f)\<lparr>gtp_lower_map := lm, gtp_other_type := ot\<rparr>\<rparr>)
          else f
      | TUNNEL_NONE \<Rightarrow> f)"

section \<open>Encoding\<close>

definition ENCODE_METADATA :: byte where "ENCODE_METADATA = 0x01"
definition ENCODE_TUNNELS :: byte where "ENCODE_TUNNELS = 0x02"
definition ENCODE_STATS :: byte where "ENCODE_STATS = 0x04"

definition nd_private_ipv4 :: string where "nd_private_ipv4 = ''127.255.0.''"
definition nd_private_ipv6 :: string where "nd_private_ipv6 = ''fe:80::ffff:7fff:''"

text \<open>The names of a lower and an upper key: local and other, unless the lower side is the other one.\<close>

definition side_key :: "lower_map \<Rightarrow> bool \<Rightarrow> string \<Rightarrow> string" where
  "side_key lm lower name = (if (lm = LOWER_OTHER) = lower then ''other_'' @ name else ''local_'' @ name)"

definition other_type_name :: "other_type \<Rightarrow> string" where
  "other_type_name t = (case t of OTHER_UNKNOWN \<Rightarrow> ''unknown'' | OTHER_LOCAL \<Rightarrow> ''local''
     | OTHER_MULTICAST \<Rightarrow> ''multicast'' | OTHER_BROADCAST \<Rightarrow> ''broadcast'' | OTHER_REMOTE \<Rightarrow> ''remote''
     | OTHER_UNSUPPORTED \<Rightarrow> ''unsupported'' | OTHER_ERROR \<Rightarrow> ''error'')"

definition gtp_other_type_name :: "other_type \<Rightarrow> string" where
  "gtp_other_type_name t = (case t of OTHER_LOCAL \<Rightarrow> ''local'' | OTHER_REMOTE \<Rightarrow> ''remote''
     | OTHER_ERROR \<Rightarrow> ''error'' | _ \<Rightarrow> ''unsupported'')"

definition mac_text :: "inet_ntop \<Rightarrow> nd_addr \<Rightarrow> string" where
  "mac_text ntop a = (if IsValid a then fst (GetString ntop a 0) else ''00:00:00:00:00:00'')"

definition hex16 :: "nat \<Rightarrow> string" where
  "hex16 n = ''0x'' @ hex_byte (word_of_nat (n div 256)) @ hex_byte (word_of_nat n)"

text \<open>Addresses and ports; \<open>private_lower\<close> and \<open>private_upper\<close> hide the address, not the port.\<close>

definition flow_side_fields :: "inet_ntop \<Rightarrow> nd_flow \<Rightarrow> (string list \<times> ser_value) list" where
  "flow_side_fields ntop f =
     (let lm = fl_lower_map f; lp = bit (fl_privacy_mask f) 0; up = bit (fl_privacy_mask f) 1 in
      [([side_key lm True ''mac''], SString (if lp then ''00:52:14:00:00:00'' else mac_text ntop (fl_lower_mac f))),
       ([side_key lm False ''mac''], SString (if up then ''00:52:ff:00:00:00'' else mac_text ntop (fl_upper_mac f))),
       (if lp then
          (if fl_ip_version f = 4 then ([side_key lm True ''ip''], SCString (nd_private_ipv4 @ ''253''))
           else ([side_key lm True ''ip''], SCString (nd_private_ipv6 @ ''fd'')))
        else ([side_key lm True ''ip''], SString (fst (GetString ntop (fl_lower_addr f) 0)))),
       (if up then
          (if fl_ip_version f = 4 then ([side_key lm False ''ip''], SCString (nd_private_ipv4 @ ''254''))
           else ([side_key lm False ''ip''], SCString (nd_private_ipv6 @ ''fe'')))
        else ([side_key lm False ''ip''], SString (fst (GetString ntop (fl_upper_addr f) 0)))),
       ([side_key lm True ''port''], SNum (unat (GetPort (fl_lower_addr f) True))),
       ([side_key lm False ''port''], SNum (unat (GetPort (fl_upper_addr f) True)))])"

definition flow_local_origin :: "nd_flow \<Rightarrow> bool" where
  "flow_local_origin f =
     (let lower_ip = side_key (fl_lower_map f) True ''ip'' in
      case fl_origin f of
        ORIGIN_UPPER \<Rightarrow> (if lower_ip = ''local_ip'' then False else True)
      | _ \<Rightarrow> (if lower_ip = ''local_ip'' then True else False))"

definition flow_tls_fields :: "(nat \<Rightarrow> string) \<Rightarrow> nd_flow \<Rightarrow> (string list \<times> ser_value) list" where
  "flow_tls_fields heap f =
     (if is_tls f then
        [([''ssl'', ''version''], SCString (hex16 (ssl_version (fl_union f)))),
         ([''ssl'', ''cipher_suite''], SCString (hex16 (ssl_cipher_suite (fl_union f))))]
        @ (if HasTLSClientSNI f then [([''ssl'', ''client_sni''], SString (fl_host_server_name f))] else [])
        @ (if HasTLSServerCN f then [([''ssl'', ''server_cn''], SCString (ssl_server_cn (fl_union f)))] else [])
        @ (if HasTLSIssuerDN f then [([''ssl'', ''issuer_dn''], SCString (heap (ssl_issuer_dn (fl_union f))))] else [])
        @ (if HasTLSSubjectDN f then [([''ssl'', ''subject_dn''], SCString (heap (ssl_subject_dn (fl_union f))))] else [])
        @ (if HasTLSClientJA3 f then [([''ssl'', ''client_ja3''], SCString (ssl_client_ja3 (fl_union f)))] else [])
        @ (if HasTLSServerJA3 f then [([''ssl'', ''server_ja3''], SCString (ssl_server_ja3 (fl_union f)))] else [])
        @ (if ssl_fingerprint_found (fl_union f)
           then [([''ssl'', ''fingerprint''], SString (nd_sha1_to_string (ssl_fingerprint (fl_union f))))] else [])
        @ (if fl_tls_alpn_set f then [([''ssl'', ''alpn''], SStrings (fl_tls_alpn f))] else [])
        @ (if fl_tls_alpn_server_set f then [([''ssl'', ''alpn_server''], SStrings (fl_tls_alpn_server f))] else [])
      else [])"

definition flow_protocol_fields :: "(nat \<Rightarrow> string) \<Rightarrow> nd_flow \<Rightarrow> (string list \<times> ser_value) list" where
  "flow_protocol_fields heap f =
     (if fl_dns_host_name f \<noteq> [] then [([''dns_host_name''], SString (fl_dns_host_name f))] else [])
     @ (if fl_host_server_name f \<noteq> [] then [([''host_server_name''], SString (fl_host_server_name f))] else [])
     @ (if HasHttpUserAgent f then [([''http'', ''user_agent''], SCString (http_user_agent (fl_union f)))] else [])
     @ (if HasHttpURL f then [([''http'', ''url''], SCString (http_url (fl_union f)))] else [])
     @ (if HasDhcpFingerprint f then [([''dhcp'', ''fingerprint''], SCString (dhcp_fingerprint (fl_union f)))] else [])
     @ (if HasDhcpClassIdent f then [([''dhcp'', ''class_ident''], SCString (dhcp_class_ident (fl_union f)))] else [])
     @ (if HasSSHClientAgent f then [([''ssh'', ''client''], SCString (ssh_client_agent (fl_union f)))] else [])
     @ (if HasSSHServerAgent f then [([''ssh'', ''server''], SCString (ssh_server_agent (fl_union f)))] else [])
     @ flow_tls_fields heap f
     @ (if HasBTInfoHash f then [([''bt'', ''info_hash''], SString (nd_sha1_to_string (bt_info_hash (fl_union f))))] else [])
     @ (if HasSSDPUserAgent f then [([''ssdp'', ''user_agent''], SCString (http_user_agent (fl_union f)))] else [])
     @ (if HasMDNSDomainName f then [([''mdns'', ''answer''], SCString (mdns_domain_name (fl_union f)))] else [])"

definition flow_metadata_fields :: "inet_ntop \<Rightarrow> (nat \<Rightarrow> string) \<Rightarrow> nd_flow \<Rightarrow> (string list \<times> ser_value) list" where
  "flow_metadata_fields ntop heap f =
     [([''ip_nat''], SBool (ff_ip_nat (fl_flags f))),
      ([''dhc_hit''], SBool (ff_dhc_hit (fl_flags f))),
      ([''soft_dissector''], SBool (ff_soft_dissector (fl_flags f))),
      ([''ip_version''], SNum (unat (fl_ip_version f))),
      ([''ip_protocol''], SNum (unat (fl_ip_protocol f))),
      ([''vlan_id''], SNum (unat (fl_vlan_id f))),
      ([''other_type''], SString (other_type_name (fl_other_type f))),
      ([''local_origin''], SBool (flow_local_origin f))]
     @ flow_side_fields ntop f
     @ [([''detected_protocol''], SNum (fl_detected_protocol f)),
        ([''detected_protocol_name''],
           SString (if fl_detected_protocol_name f = [] then ''Unknown'' else fl_detected_protocol_name f)),
        ([''detected_application''], SNum (fl_detected_application f)),
        ([''detected_application_name''],
           SString (if fl_detected_application_name f = [] then ''Unknown'' else fl_detected_application_name f)),
        ([''detection_guessed''], SBool (ff_detection_guessed (fl_flags f))),
        ([''detection_updated''], SBool (ff_detection_updated (fl_flags f))),
        ([''category'', ''application''], SNum (fc_application (fl_category f))),
        ([''category'', ''protocol''], SNum (fc_protocol (fl_category f))),
        ([''category'', ''domain''], SNum (fc_domain (fl_category f))),
        ([''category'', ''network''], SNum (fc_network (fl_category f)))]
     @ flow_protocol_fields heap f
     @ [([''first_seen_at''], SNum (unat (fl_ts_first_seen f))),
        ([''risks'', ''risks''], SJson (JArr (map (\<lambda>r. JNum (int r)) (fl_risks f)))),
        ([''risks'', ''ndpi_risk_score''], SNum (unat (fl_risk_score f))),
        ([''risks'', ''ndpi_risk_score_client''], SNum (unat (fl_risk_score_client f))),
        ([''risks'', ''ndpi_risk_score_server''], SNum (unat (fl_risk_score_server f)))]"

text \<open>The inner keys start from those of the outer flow, which \<open>gtp.lower_map\<close> may override.\<close>

definition flow_tunnel_fields :: "inet_ntop \<Rightarrow> nd_flow \<Rightarrow> (string list \<times> ser_value) list" where
  "flow_tunnel_fields ntop f =
     (case fl_tunnel_type f of
        TUNNEL_NONE \<Rightarrow> []
      | TUNNEL_GTP \<Rightarrow>
          (let g = fl_gtp f;
               lm = (if gtp_lower_map g = LOWER_UNKNOWN then fl_lower_map f else gtp_lower_map g);
               tm = gtp_lower_map g in
           [([''gtp'', ''version''], SNum (unat (gtp_version g))),
            ([''gtp'', ''ip_version''], SNum (unat (gtp_ip_version g))),
            ([''gtp'', side_key lm True ''ip''], SString (fst (GetString ntop (gtp_lower_addr g) 0))),
            ([''gtp'', side_key lm False ''ip''], SString (fst (GetString ntop (gtp_upper_addr g) 0))),
            ([''gtp'', side_key lm True ''port''], SNum (unat (GetPort (gtp_lower_addr g) True))),
            ([''gtp'', side_key lm False ''port''], SNum (unat (GetPort (gtp_upper_addr g) True))),
            ([''gtp'', side_key tm True ''teid''], SNum (le_nat (rev (le_bytes 4 (unat (gtp_lower_teid g)))))),
            ([''gtp'', side_key tm False ''teid''], SNum (le_nat (rev (le_bytes 4 (unat (gtp_upper_teid g)))))),
            ([''gtp'', ''other_type''], SString (gtp_other_type_name (gtp_other_type g)))]))"

definition flow_stats_fields :: "nd_flow \<Rightarrow> flow_stats \<Rightarrow> (string list \<times> ser_value) list" where
  "flow_stats_fields f st =
     (let lm = fl_lower_map f in
      [([side_key lm True ''bytes''], SNum (unat (fs_lower_bytes st))),
       ([side_key lm False ''bytes''], SNum (unat (fs_upper_bytes st))),
       ([side_key lm True ''packets''], SNum (unat (fs_lower_packets st))),
       ([side_key lm False ''packets''], SNum (unat (fs_upper_packets st))),
       ([''total_packets''], SNum (unat (fs_total_packets st))),
       ([''total_bytes''], SNum (unat (fs_total_bytes st))),
       ([''detection_packets''], SNum (unat (fs_detection_packets st))),
       ([side_key lm True ''rate''], SDouble (fs_lower_rate st)),
       ([side_key lm False ''rate''], SDouble (fs_upper_rate st))]
      @ (if fl_ip_protocol f = 6 then
           [([''tcp'', ''seq_errors''], SNum (unat (fs_tcp_seq_errors st))),
            ([''tcp'', ''resets''], SNum (unat (fs_tcp_resets st))),
            ([''tcp'', ''retrans''], SNum (unat (fs_tcp_retrans st)))]
         else []))"

definition flow_fields ::
  "inet_ntop \<Rightarrow> (nat \<Rightarrow> string) \<Rightarrow> nd_flow \<Rightarrow> flow_stats \<Rightarrow> byte \<Rightarrow> (string list \<times> ser_value) list" where
  "flow_fields ntop heap f st includes =
     [(if fl_digest_mdata f \<noteq> [] then ([''digest''], SString (nd_sha1_to_string (fl_digest_mdata f)))
       else ([''digest''], SString (nd_sha1_to_string (fl_digest_lower f)))),
      ([''last_seen_at''], SNum (unat (fl_ts_last_seen f)))]
     @ (if includes AND ENCODE_METADATA \<noteq> 0 then flow_metadata_fields ntop heap f else [])
     @ (if includes AND ENCODE_TUNNELS \<noteq> 0 then flow_tunnel_fields ntop f else [])
     @ (if includes AND ENCODE_STATS \<noteq> 0 then flow_stats_fields f st else [])"

definition flow_Encode ::
  "inet_ntop \<Rightarrow> (nat \<Rightarrow> string) \<Rightarrow> json \<Rightarrow> nd_flow \<Rightarrow> flow_stats \<Rightarrow> byte \<Rightarrow> json option" where
  "flow_Encode ntop heap output f st includes = serialize_all output (flow_fields ntop heap f st includes)"

section \<open>The identity of a flow\<close>

definition flow_key_ok :: "nd_flow \<Rightarrow> bool" where
  "flow_key_ok f \<longleftrightarrow> (fl_ip_version f = 4 \<or> fl_ip_version f = 6)
     \<and> length (raw_in (fl_lower_addr f)) = 4 \<and> length (raw_in (fl_upper_addr f)) = 4
     \<and> length (raw_in6 (fl_lower_addr f)) = 16 \<and> length (raw_in6 (fl_upper_addr f)) = 16
     \<and> length (raw_mac (fl_lower_mac f)) = 6"

text \<open>The tuple of a flow; the hardware address belongs to it for a DHCP broadcast.\<close>

definition flow_tuple ::
  "nd_flow \<Rightarrow> byte \<times> byte \<times> 16 word \<times> bytes \<times> bytes \<times> bytes \<times> 16 word \<times> 16 word" where
  "flow_tuple f =
     (fl_ip_version f, fl_ip_protocol f, fl_vlan_id f,
      if fl_ip_version f = 4 then raw_in (fl_lower_addr f) else raw_in6 (fl_lower_addr f),
      if fl_ip_version f = 4 then raw_in (fl_upper_addr f) else raw_in6 (fl_upper_addr f),
      if fl_ip_version f = 4 \<and> raw_in (fl_lower_addr f) = replicate 4 0 \<and> raw_in (fl_upper_addr f) = replicate 4 255
      then raw_mac (fl_lower_mac f) else [],
      GetPort (fl_lower_addr f) False, GetPort (fl_upper_addr f) False)"

lemma length_le_bytes [simp]: "length (le_bytes k n) = k"
  by (induction k arbitrary: n) auto

lemma le_bytes_inject: "n < 256 ^ k \<Longrightarrow> m < 256 ^ k \<Longrightarrow> le_bytes k n = le_bytes k m \<longleftrightarrow> n = m"
proof (induction k arbitrary: n m)
  case (Suc k)
  have d: "n div 256 < 256 ^ k" "m div 256 < 256 ^ k" using Suc.prems by (auto simp: less_mult_imp_div_less mult.commute)
  have w: "(word_of_nat n :: byte) = word_of_nat m \<longleftrightarrow> n mod 256 = m mod 256"
    by (simp add: word_of_nat_eq_iff take_bit_eq_mod)
  have "n = m \<longleftrightarrow> n mod 256 = m mod 256 \<and> n div 256 = m div 256" by (metis div_mult_mod_eq)
  then show ?case using Suc.IH [OF d] w by simp
qed simp

lemma le_bytes_word16 [simp]: "le_bytes 2 (unat a) = le_bytes 2 (unat b) \<longleftrightarrow> a = (b :: 16 word)"
proof -
  have "unat w < 256 ^ 2" for w :: "16 word" using unsigned_less [of w, where ?'a = nat] by simp
  then show ?thesis using le_bytes_inject [of "unat a" 2 "unat b"] by (simp add: word_unat_eq_iff)
qed

lemma append_eq_length: "length a = length c \<Longrightarrow> a @ b = c @ d \<longleftrightarrow> a = c \<and> b = d"
  by simp

text \<open>
  C16. The digest of a flow is computed of its tuple and of nothing else: on one interface
  two flows have the same digest input exactly when they agree on IP version, protocol,
  VLAN, addresses and ports, and on the hardware address of a DHCP broadcast.
\<close>

theorem flow_digest_identifies:
  assumes "flow_key_ok f" "flow_key_ok g"
  shows "flow_hash_input n behind device False None f = flow_hash_input n' behind' device False None g
    \<longleftrightarrow> flow_tuple f = flow_tuple g"
proof -
  let ?bc = "\<lambda>f. raw_in (fl_lower_addr f) = replicate 4 0 \<and> raw_in (fl_upper_addr f) = replicate 4 255"
  let ?rest = "\<lambda>f. le_bytes 2 (unat (GetPort (fl_lower_addr f) False)) @ le_bytes 2 (unat (GetPort (fl_upper_addr f) False))"
  have r: "?rest f = ?rest g \<longleftrightarrow>
      GetPort (fl_lower_addr f) False = GetPort (fl_lower_addr g) False \<and> GetPort (fl_upper_addr f) False = GetPort (fl_upper_addr g) False"
    by simp
  have v46: "(4 :: byte) \<noteq> 6" by simp
  have a4: "(flow_addr_bytes f @ ?rest f = flow_addr_bytes g @ ?rest g) \<longleftrightarrow>
      (raw_in (fl_lower_addr f) = raw_in (fl_lower_addr g) \<and> raw_in (fl_upper_addr f) = raw_in (fl_upper_addr g)
        \<and> (?bc f \<longrightarrow> raw_mac (fl_lower_mac f) = raw_mac (fl_lower_mac g)) \<and> ?rest f = ?rest g)"
    if "fl_ip_version f = 4" "fl_ip_version g = 4"
  proof -
    have "(flow_addr_bytes f @ ?rest f = flow_addr_bytes g @ ?rest g) \<longleftrightarrow>
      raw_in (fl_lower_addr f) = raw_in (fl_lower_addr g) \<and> raw_in (fl_upper_addr f) = raw_in (fl_upper_addr g)
        \<and> (if ?bc f then raw_mac (fl_lower_mac f) else []) @ ?rest f = (if ?bc g then raw_mac (fl_lower_mac g) else []) @ ?rest g"
      unfolding flow_addr_bytes_def using that assms by (simp add: append_eq_length flow_key_ok_def)
    also have "\<dots> \<longleftrightarrow> raw_in (fl_lower_addr f) = raw_in (fl_lower_addr g) \<and> raw_in (fl_upper_addr f) = raw_in (fl_upper_addr g)
        \<and> (?bc f \<longrightarrow> raw_mac (fl_lower_mac f) = raw_mac (fl_lower_mac g)) \<and> ?rest f = ?rest g"
      using assms by (cases "?bc f") (auto simp: flow_key_ok_def)
    finally show ?thesis .
  qed
  have a6: "(flow_addr_bytes f @ ?rest f = flow_addr_bytes g @ ?rest g) \<longleftrightarrow>
      raw_in6 (fl_lower_addr f) = raw_in6 (fl_lower_addr g) \<and> raw_in6 (fl_upper_addr f) = raw_in6 (fl_upper_addr g) \<and> ?rest f = ?rest g"
    if "fl_ip_version f = 6" "fl_ip_version g = 6"
    unfolding flow_addr_bytes_def using that assms by (simp add: append_eq_length flow_key_ok_def)
  have h: "flow_hash_input n behind device False None f = flow_hash_input n' behind' device False None g \<longleftrightarrow>
      fl_ip_version f = fl_ip_version g \<and> fl_ip_protocol f = fl_ip_protocol g \<and> fl_vlan_id f = fl_vlan_id g
      \<and> flow_addr_bytes f @ ?rest f = flow_addr_bytes g @ ?rest g"
    by (simp add: flow_hash_input_def append_eq_length)
  consider "fl_ip_version f \<noteq> fl_ip_version g" | "fl_ip_version f = 4" "fl_ip_version g = 4"
    | "fl_ip_version f = 6" "fl_ip_version g = 6" using assms by (auto simp: flow_key_ok_def)
  then show ?thesis
  proof cases
    case 1
    then show ?thesis unfolding h by (simp add: flow_tuple_def)
  next
    case 2
    then show ?thesis unfolding h a4 [OF 2] r by (auto simp: flow_tuple_def)
  next
    case 3
    then show ?thesis unfolding h a6 [OF 3] r by (auto simp: flow_tuple_def)
  qed
qed

section \<open>Local and other side\<close>

fun lower_flip :: "lower_map \<Rightarrow> lower_map" where
  "lower_flip LOWER_UNKNOWN = LOWER_UNKNOWN"
| "lower_flip LOWER_LOCAL = LOWER_OTHER"
| "lower_flip LOWER_OTHER = LOWER_LOCAL"

fun origin_flip :: "flow_origin \<Rightarrow> flow_origin" where
  "origin_flip ORIGIN_UNKNOWN = ORIGIN_UNKNOWN"
| "origin_flip ORIGIN_LOWER = ORIGIN_UPPER"
| "origin_flip ORIGIN_UPPER = ORIGIN_LOWER"

definition swap_sides :: "nd_flow \<Rightarrow> nd_flow" where
  "swap_sides f =
     f\<lparr>fl_lower_mac := fl_upper_mac f, fl_upper_mac := fl_lower_mac f,
       fl_lower_addr := fl_upper_addr f, fl_upper_addr := fl_lower_addr f,
       fl_lower_type := fl_upper_type f, fl_upper_type := fl_lower_type f,
       fl_origin := origin_flip (fl_origin f)\<rparr>"

definition swap_stats :: "flow_stats \<Rightarrow> flow_stats" where
  "swap_stats s =
     s\<lparr>fs_lower_bytes := fs_upper_bytes s, fs_upper_bytes := fs_lower_bytes s,
       fs_lower_packets := fs_upper_packets s, fs_upper_packets := fs_lower_packets s,
       fs_lower_rate := fs_upper_rate s, fs_upper_rate := fs_lower_rate s\<rparr>"

text \<open>The types of the two addresses tell which side is local.\<close>

definition one_sided :: "addr_type \<Rightarrow> addr_type \<Rightarrow> bool" where
  "one_sided lt ut \<longleftrightarrow> lt \<noteq> ut \<and> \<not> (lt \<in> {atLOCAL, atLOCALNET} \<and> ut \<in> {atLOCAL, atLOCALNET})"

lemma GetLowerMap_swap:
  "one_sided lt ut \<Longrightarrow> GetLowerMap v ut lt (LOWER_UNKNOWN, ot)
     = (lower_flip (fst (GetLowerMap v lt ut (LOWER_UNKNOWN, ot))), snd (GetLowerMap v lt ut (LOWER_UNKNOWN, ot)))"
  by (cases lt; cases ut) (simp_all add: GetLowerMap_def one_sided_def)

lemma GetLowerMap_unknown:
  "fst (GetLowerMap v lt ut (LOWER_UNKNOWN, ot)) = LOWER_UNKNOWN \<longleftrightarrow>
     lt = atERROR \<or> ut = atERROR \<or> v = 6 \<and> lt = atRESERVED \<and> ut = atRESERVED
     \<or> lt = atNONE \<and> ut \<notin> {atMULTICAST, atBROADCAST, atOTHER} \<or> ut = atNONE \<and> lt \<notin> {atMULTICAST, atBROADCAST, atOTHER}"
  by (cases lt; cases ut) (simp_all add: GetLowerMap_def)

lemmas has_defs = GetMasterProtocol_def is_tls_def HasDhcpFingerprint_def HasDhcpClassIdent_def HasHttpUserAgent_def
  HasHttpURL_def HasSSHClientAgent_def HasSSHServerAgent_def HasTLSClientSNI_def HasTLSServerCN_def
  HasTLSIssuerDN_def HasTLSSubjectDN_def HasTLSClientJA3_def HasTLSServerJA3_def HasBTInfoHash_def
  HasSSDPUserAgent_def HasMDNSDomainName_def

definition same_detection :: "nd_flow \<Rightarrow> nd_flow \<Rightarrow> bool" where
  "same_detection f g \<longleftrightarrow> fl_detected_protocol f = fl_detected_protocol g \<and> fl_union f = fl_union g
     \<and> fl_host_server_name f = fl_host_server_name g \<and> fl_dns_host_name f = fl_dns_host_name g
     \<and> fl_tls_alpn f = fl_tls_alpn g \<and> fl_tls_alpn_server f = fl_tls_alpn_server g
     \<and> fl_tls_alpn_set f = fl_tls_alpn_set g \<and> fl_tls_alpn_server_set f = fl_tls_alpn_server_set g"

lemma same_master: "same_detection f g \<Longrightarrow> GetMasterProtocol f = GetMasterProtocol g"
  by (simp add: same_detection_def GetMasterProtocol_def)

lemma same_predicates:
  assumes "same_detection f g"
  shows "is_tls f = is_tls g" "HasDhcpFingerprint f = HasDhcpFingerprint g" "HasDhcpClassIdent f = HasDhcpClassIdent g"
    "HasHttpUserAgent f = HasHttpUserAgent g" "HasHttpURL f = HasHttpURL g" "HasSSHClientAgent f = HasSSHClientAgent g"
    "HasSSHServerAgent f = HasSSHServerAgent g" "HasTLSClientSNI f = HasTLSClientSNI g" "HasTLSServerCN f = HasTLSServerCN g"
    "HasTLSIssuerDN f = HasTLSIssuerDN g" "HasTLSSubjectDN f = HasTLSSubjectDN g" "HasTLSClientJA3 f = HasTLSClientJA3 g"
    "HasTLSServerJA3 f = HasTLSServerJA3 g" "HasBTInfoHash f = HasBTInfoHash g" "HasSSDPUserAgent f = HasSSDPUserAgent g"
    "HasMDNSDomainName f = HasMDNSDomainName g"
  using same_master [OF assms] assms unfolding same_detection_def has_defs(2-) by simp_all

lemma same_detection_fields:
  assumes "same_detection f g"
  shows "flow_protocol_fields heap f = flow_protocol_fields heap g"
proof -
  have "fl_union f = fl_union g" "fl_host_server_name f = fl_host_server_name g" "fl_dns_host_name f = fl_dns_host_name g"
    "fl_tls_alpn f = fl_tls_alpn g" "fl_tls_alpn_server f = fl_tls_alpn_server g"
    "fl_tls_alpn_set f = fl_tls_alpn_set g" "fl_tls_alpn_server_set f = fl_tls_alpn_server_set g"
    using assms by (simp_all only: same_detection_def)
  then show ?thesis
    by (simp only: flow_protocol_fields_def flow_tls_fields_def same_predicates [OF assms])
qed

lemma side_fields_swap:
  assumes "fl_privacy_mask f = 0" "lm \<noteq> LOWER_UNKNOWN"
  shows "mset (flow_side_fields ntop ((swap_sides f)\<lparr>fl_lower_map := lower_flip lm, fl_other_type := ot\<rparr>))
    = mset (flow_side_fields ntop (f\<lparr>fl_lower_map := lm, fl_other_type := ot\<rparr>))"
  using assms by (cases lm) (simp_all add: flow_side_fields_def swap_sides_def side_key_def add_mset_commute)

lemma stats_fields_swap:
  assumes "lm \<noteq> LOWER_UNKNOWN"
  shows "mset (flow_stats_fields ((swap_sides f)\<lparr>fl_lower_map := lower_flip lm, fl_other_type := ot\<rparr>) (swap_stats st))
    = mset (flow_stats_fields (f\<lparr>fl_lower_map := lm, fl_other_type := ot\<rparr>) st)"
  using assms by (cases lm) (simp_all add: flow_stats_fields_def swap_sides_def swap_stats_def side_key_def add_mset_commute)

lemma local_origin_swap:
  assumes "fl_origin f \<noteq> ORIGIN_UNKNOWN" "lm \<noteq> LOWER_UNKNOWN"
  shows "flow_local_origin ((swap_sides f)\<lparr>fl_lower_map := lower_flip lm, fl_other_type := ot\<rparr>)
    = flow_local_origin (f\<lparr>fl_lower_map := lm, fl_other_type := ot\<rparr>)"
  using assms by (cases lm; cases "fl_origin f") (simp_all add: flow_local_origin_def swap_sides_def side_key_def)

lemma metadata_fields_swap:
  assumes "fl_privacy_mask f = 0" "fl_origin f \<noteq> ORIGIN_UNKNOWN" "lm \<noteq> LOWER_UNKNOWN"
  shows "mset (flow_metadata_fields ntop heap ((swap_sides f)\<lparr>fl_lower_map := lower_flip lm, fl_other_type := ot\<rparr>))
    = mset (flow_metadata_fields ntop heap (f\<lparr>fl_lower_map := lm, fl_other_type := ot\<rparr>))"
proof -
  let ?f = "f\<lparr>fl_lower_map := lm, fl_other_type := ot\<rparr>"
    and ?g = "(swap_sides f)\<lparr>fl_lower_map := lower_flip lm, fl_other_type := ot\<rparr>"
  have "flow_protocol_fields heap ?g = flow_protocol_fields heap ?f"
    by (rule same_detection_fields) (simp add: same_detection_def swap_sides_def)
  then show ?thesis
    unfolding flow_metadata_fields_def mset_append side_fields_swap [OF assms(1,3)] local_origin_swap [OF assms(2,3)]
    by (simp add: swap_sides_def)
qed



section \<open>Concrete instances\<close>

definition sample_flow :: nd_flow where
  "sample_flow = (nd_flow_new 0 False False)
     \<lparr>fl_ip_version := 4, fl_ip_protocol := 17, fl_vlan_id := 5, fl_origin := ORIGIN_LOWER,
      fl_lower_type := atOTHER, fl_upper_type := atLOCALNET,
      fl_lower_mac := ndAddr_hw [2, 0, 0, 0, 0, 1], fl_upper_mac := ndAddr_hw [2, 0, 0, 0, 0, 2],
      fl_lower_addr := ndAddr_in [9, 9, 9, 9] 32, fl_upper_addr := ndAddr_in [192, 168, 1, 2] 32\<rparr>"

lemmas sample_flow_defs = sample_flow_def nd_flow_new_def ndAddr_hw_def ndAddr_in_def Create_hw_def Create_in_addr_def
  nd_addr_new_def

lemma sample_flow_ok: "flow_key_ok sample_flow" "flow_key_ok (sample_flow\<lparr>fl_vlan_id := 6\<rparr>)"
  by (simp_all add: flow_key_ok_def sample_flow_defs raw_in_def raw_in6_def raw_mac_def)

theorem flow_digest_identifies_witness:
  "flow_hash_input 8 [] ''eth0'' False None sample_flow
    \<noteq> flow_hash_input 8 [] ''eth0'' False None (sample_flow\<lparr>fl_vlan_id := 6\<rparr>)"
  by (subst flow_digest_identifies [OF sample_flow_ok]) (simp add: flow_tuple_def sample_flow_def)

lemma sample_flow_map: "UpdateLowerMaps sample_flow = sample_flow\<lparr>fl_lower_map := LOWER_OTHER, fl_other_type := OTHER_REMOTE\<rparr>"
  by (simp add: UpdateLowerMaps_def GetLowerMap_def sample_flow_def nd_flow_new_def)



section \<open>Departures from the documented intent\<close>

text \<open>The digest of the tuple is never encoded: the other digest is never empty.\<close>

lemma digest_mdata_never_empty:
  assumes "\<And>m. length (sha1 m) = 20"
  shows "fl_digest_mdata (nd_flow_new n a b) \<noteq> []"
    "fl_digest_mdata f \<noteq> [] \<Longrightarrow> fl_digest_mdata (flow_Hash sha1 sz behind device hash_mdata key f) \<noteq> []"
proof -
  show "fl_digest_mdata (nd_flow_new n a b) \<noteq> []" by (simp add: nd_flow_new_def)
  have "sha1 m \<noteq> []" for m using assms [of m] by auto
  then show "fl_digest_mdata f \<noteq> [] \<Longrightarrow> fl_digest_mdata (flow_Hash sha1 sz behind device hash_mdata key f) \<noteq> []"
    by (simp add: flow_Hash_def Let_def)
qed

text \<open>A digest read with a structure larger than the two identifiers depends on the memory behind them.\<close>

lemma digest_reads_behind:
  "flow_hash_input 9 [a] device True None f = flow_hash_input 9 [b] device True None f \<longleftrightarrow> a = b"
  by (simp add: flow_hash_input_def)

end
