(* ===== verification/NdDissect.thy ===== *)
theory NdDissect
  imports NdPacket NdFlow
begin

text \<open>
  The dissection of a packet down to its transport header (the first half of
  \<open>ndCaptureThread::ProcessPacket\<close> in \<open>src/src/nd-capture.cpp\<close>) on a little-endian host. A
  pointer into the packet is its offset; a read beyond the captured bytes is undefined and
  ends the dissection with \<open>Undefined\<close>. A discarded packet leaves its marks on the flow
  of the thread, which the next packet starts from. The 16-bit lengths are natural numbers, reduced
  modulo 65536 where the code stores them. The walk over IPv6 extension headers is nDPI's
  and an argument: offset, length and protocol of the payload, or an error. The code jumps
  back for each GTP tunnel; the model counts the jumps down and is \<open>Diverged\<close> at zero.
\<close>

unbundle bit_operations_syntax

datatype 'a dissected = Undefined | Diverged | Discarded nd_flow pkt_stats | Dissected 'a

datatype dlt = DLT_NULL | DLT_EN10MB | DLT_LINUX_SLL | DLT_RAW | DLT_IPV4 | DLT_IPV6 | DLT_OTHER nat

definition ETHERTYPE_IP :: nat where "ETHERTYPE_IP = 0x0800"
definition ETHERTYPE_IPV6 :: nat where "ETHERTYPE_IPV6 = 0x86dd"
definition ETHERTYPE_VLAN :: nat where "ETHERTYPE_VLAN = 0x8100"
definition ETHERTYPE_MPLS_UC :: nat where "ETHERTYPE_MPLS_UC = 0x8847"
definition ETHERTYPE_MPLS_MC :: nat where "ETHERTYPE_MPLS_MC = 0x8848"
definition ETHERTYPE_PPPOEDISC :: nat where "ETHERTYPE_PPPOEDISC = 0x8863"
definition ETHERTYPE_PPPOE :: nat where "ETHERTYPE_PPPOE = 0x8864"

text \<open>The bytes at an offset, if the packet has them.\<close>

definition pk_read :: "nd_packet \<Rightarrow> nat \<Rightarrow> nat \<Rightarrow> bytes option" where
  "pk_read p off n =
     (if off + n \<le> unat (pk_caplen p) \<and> off + n \<le> length (pk_data p) then Some (take n (drop off (pk_data p))) else None)"

abbreviation pk_be :: "nd_packet \<Rightarrow> nat \<Rightarrow> nat \<Rightarrow> nat option" where
  "pk_be p off n \<equiv> map_option be_nat (pk_read p off n)"

definition discard :: "nd_packet \<Rightarrow> pkt_stats \<Rightarrow> pkt_stats" where
  "discard p st = st\<lparr>ps_discard := ps_discard st + 1, ps_discard_bytes := ps_discard_bytes st + ucast (pk_length p)\<rparr>"

text \<open>Checks that count a discarded packet and go on with it.\<close>

definition note_short :: "nd_packet \<Rightarrow> nat \<Rightarrow> pkt_stats \<Rightarrow> pkt_stats" where
  "note_short p len st = (if len > unat (pk_caplen p) then discard p st else st)"

section \<open>The link layer\<close>

text \<open>Type, length of the header, hardware addresses (destination, source). DLT\_NULL of another
  family is dropped uncounted; the type of a cooked capture keeps its network order.\<close>

definition link_header :: "dlt \<Rightarrow> nd_packet \<Rightarrow> nd_flow \<Rightarrow> pkt_stats \<Rightarrow> (nat \<times> nat \<times> (bytes \<times> bytes) option \<times> pkt_stats) dissected" where
  "link_header dl p f st =
     (case dl of
        DLT_NULL \<Rightarrow>
          if unat (pk_caplen p) < 4 then Discarded f (discard p st)
          else (case pk_be p 0 4 of
              None \<Rightarrow> Undefined
            | Some family \<Rightarrow>
                if family = 2 then Dissected (ETHERTYPE_IP, 4, None, st)
                else if family \<in> {24, 28, 30} then Dissected (ETHERTYPE_IPV6, 4, None, st)
                else Discarded f st)
      | DLT_EN10MB \<Rightarrow>
          if unat (pk_caplen p) < 14 then Discarded f (discard p st)
          else (case (pk_read p 0 6, pk_read p 6 6, pk_be p 12 2) of
              (Some dhost, Some shost, Some type) \<Rightarrow>
                (let st = st\<lparr>ps_eth := ps_eth st + 1\<rparr> in
                 if take 3 shost = [0x01, 0x80, 0xC2] \<or> take 3 dhost = [0x01, 0x80, 0xC2]
                 then Discarded f (discard p st)
                 else Dissected (type, 14, Some (dhost, shost), st))
            | _ \<Rightarrow> Undefined)
      | DLT_LINUX_SLL \<Rightarrow>
          if unat (pk_caplen p) < 16 then Discarded f (discard p st)
          else (case pk_read p 14 2 of None \<Rightarrow> Undefined | Some t \<Rightarrow> Dissected (le_nat t, 16, None, st))
      | DLT_RAW \<Rightarrow> Dissected (0, 0, None, st)
      | DLT_IPV4 \<Rightarrow> Dissected (0, 0, None, st)
      | DLT_IPV6 \<Rightarrow> Dissected (0, 0, None, st)
      | DLT_OTHER n \<Rightarrow> Discarded f (discard p st))"

text \<open>The labels below the first one; the bottom of the stack is bit 8 of a label.\<close>

function mpls_loop :: "nd_packet \<Rightarrow> nat \<Rightarrow> nat \<Rightarrow> pkt_stats \<Rightarrow> (nat \<times> pkt_stats) option" where
  "mpls_loop p label l2_len st =
     (if bit label 8 then Some (l2_len, st)
      else let l2_len = (l2_len + 4) mod 65536; st = note_short p l2_len st
           in case pk_be p l2_len 4 of None \<Rightarrow> None | Some label \<Rightarrow> mpls_loop p label l2_len st)"
  by pat_completeness auto
termination
proof (relation "measure (\<lambda>(p, label, l2_len, st). if l2_len + 4 \<ge> 65536 then 70000 + l2_len else 65536 - l2_len)", simp, goal_cases)
  case (1 p label l2_len st x xa y)
  then have "(l2_len + 4) mod 65536 + 4 \<le> unat (pk_caplen p)" by (auto simp: pk_read_def split: if_splits)
  moreover have "unat (pk_caplen p) < 65536" using unsigned_less [of "pk_caplen p", where ?'a = nat] by simp
  moreover have "l2_len + 4 < 65536 \<longrightarrow> (l2_len + 4) mod 65536 = l2_len + 4" by simp
  ultimately show ?case using 1(1,2) by (auto split: if_splits)
qed

declare mpls_loop.simps [simp del]

record l2_state =
  l2_type :: nat
  l2_length :: nat
  l2_vlan_packet :: bool
  l2_flow :: nd_flow
  l2_stats :: pkt_stats

definition l2_tag :: "nat \<Rightarrow> bool" where
  "l2_tag type \<longleftrightarrow> type \<in> {ETHERTYPE_VLAN, ETHERTYPE_MPLS_UC, ETHERTYPE_MPLS_MC, ETHERTYPE_PPPOE, ETHERTYPE_PPPOEDISC}"

definition PPP_IP :: nat where "PPP_IP = 0x21"
definition PPP_IPV6 :: nat where "PPP_IPV6 = 0x57"

text \<open>One pass of the loop over tags.\<close>

definition l2_step :: "nd_packet \<Rightarrow> l2_state \<Rightarrow> l2_state dissected" where
  "l2_step p s =
     (let type = l2_type s; l2_len = l2_length s; st = l2_stats s in
      if type = ETHERTYPE_VLAN then
        (let st = note_short p (l2_len + 4) st in
         case (pk_be p l2_len 2, pk_be p (l2_len + 2) 2) of
           (Some tci, Some type) \<Rightarrow>
             Dissected (s\<lparr>l2_vlan_packet := True, l2_flow := (l2_flow s)\<lparr>fl_vlan_id := word_of_nat tci AND 0xFFF\<rparr>, l2_type := type,
                          l2_length := (l2_len + 4) mod 65536, l2_stats := st\<rparr>)
         | _ \<Rightarrow> Undefined)
      else if type = ETHERTYPE_MPLS_UC \<or> type = ETHERTYPE_MPLS_MC then
        (let st = st\<lparr>ps_mpls := ps_mpls st + 1\<rparr> in
         case pk_be p l2_len 4 of
           None \<Rightarrow> Undefined
         | Some label \<Rightarrow>
             (let l2_len = (l2_len + 4) mod 65536; st = note_short p l2_len st in
              case mpls_loop p label l2_len st of
                Some (l2_len, st) \<Rightarrow> Dissected (s\<lparr>l2_type := ETHERTYPE_IP, l2_length := l2_len, l2_stats := st\<rparr>)
              | None \<Rightarrow> Undefined))
      else if type = ETHERTYPE_PPPOE then
        (let st = st\<lparr>ps_pppoe := ps_pppoe st + 1\<rparr>; st = note_short p (l2_len + 6) st in
         case pk_be p (l2_len + 6) 2 of
           None \<Rightarrow> Undefined
         | Some ppp_proto \<Rightarrow>
             if ppp_proto \<noteq> PPP_IP \<and> ppp_proto \<noteq> PPP_IPV6 then Discarded (l2_flow s) (discard p st)
             else (let l2_len = (l2_len + 8) mod 65536; st = note_short p l2_len st in
                   Dissected (s\<lparr>l2_type := ETHERTYPE_IP, l2_length := l2_len, l2_stats := st\<rparr>)))
      else Discarded (l2_flow s) (discard p (st\<lparr>ps_pppoe := ps_pppoe st + 1\<rparr>)))"

text \<open>A pass that goes on either reads two bytes of a VLAN tag, or ends at the type of IP.\<close>

lemma l2_step_VLAN:
  assumes "l2_step p s = Dissected s'" "l2_type s = ETHERTYPE_VLAN"
  shows "l2_length s' = l2_length s + 4 \<and> l2_length s + 4 \<le> unat (pk_caplen p)"
proof -
  have "unat (pk_caplen p) < 65536" using unsigned_less [of "pk_caplen p", where ?'a = nat] by simp
  then show ?thesis using assms by (auto simp: l2_step_def Let_def pk_read_def split: option.splits if_splits)
qed

lemma l2_step_IP:
  assumes "l2_step p s = Dissected s'" "l2_type s \<noteq> ETHERTYPE_VLAN"
  shows "l2_type s' = ETHERTYPE_IP"
  using assms by (auto simp: l2_step_def Let_def split: option.splits if_splits dissected.splits prod.splits)

definition l2_measure :: "l2_state \<Rightarrow> nat" where
  "l2_measure s = (if l2_type s = ETHERTYPE_VLAN then 65538 - l2_length s else if l2_tag (l2_type s) then 1 else 0)"

lemma l2_step_measure:
  assumes "l2_tag (l2_type s)" "l2_step p s = Dissected s'"
  shows "l2_measure s' < l2_measure s"
proof (cases "l2_type s = ETHERTYPE_VLAN")
  case True
  have "unat (pk_caplen p) < 65536" using unsigned_less [of "pk_caplen p", where ?'a = nat] by simp
  then show ?thesis using l2_step_VLAN [OF assms(2) True] True by (auto simp: l2_measure_def)
next
  case False
  then show ?thesis using l2_step_IP [OF assms(2) False] assms(1)
    by (auto simp: l2_measure_def l2_tag_def ETHERTYPE_IP_def ETHERTYPE_VLAN_def ETHERTYPE_MPLS_UC_def ETHERTYPE_MPLS_MC_def
        ETHERTYPE_PPPOE_def ETHERTYPE_PPPOEDISC_def)
qed

function l2_loop :: "nd_packet \<Rightarrow> l2_state \<Rightarrow> l2_state dissected" where
  "l2_loop p s =
     (if \<not> l2_tag (l2_type s) then Dissected s
      else case l2_step p s of
        Dissected s' \<Rightarrow> l2_loop p s'
      | Discarded f st \<Rightarrow> Discarded f st
      | Undefined \<Rightarrow> Undefined
      | Diverged \<Rightarrow> Diverged)"
  by pat_completeness auto
termination
  by (relation "measure (\<lambda>(p, s). l2_measure s)") (auto intro: l2_step_measure)

declare l2_loop.simps [simp del]

text \<open>
  The whole layer, up to the flow without a tunnel: its VLAN is that of an earlier packet
  unless a tag sets it.
\<close>

definition link_layer ::
  "dlt \<Rightarrow> nd_packet \<Rightarrow> nd_flow \<Rightarrow> pkt_stats \<Rightarrow> ((bytes \<times> bytes) option \<times> nat \<times> nd_flow \<times> pkt_stats) dissected" where
  "link_layer dl p f st =
     (case link_header dl p f st of
        Undefined \<Rightarrow> Undefined
      | Diverged \<Rightarrow> Diverged
      | Discarded f st \<Rightarrow> Discarded f st
      | Dissected (type, l2_len, eth, st) \<Rightarrow>
          (let st = note_short p l2_len st in
           case l2_loop p \<lparr>l2_type = type, l2_length = l2_len, l2_vlan_packet = False, l2_flow = f, l2_stats = st\<rparr> of
             Undefined \<Rightarrow> Undefined
           | Diverged \<Rightarrow> Diverged
           | Discarded f st \<Rightarrow> Discarded f st
           | Dissected s \<Rightarrow>
               Dissected (eth, l2_length s, (l2_flow s)\<lparr>fl_tunnel_type := TUNNEL_NONE\<rparr>,
                 (l2_stats s)\<lparr>ps_vlan := ps_vlan (l2_stats s) + (if l2_vlan_packet s then 1 else 0)\<rparr>)))"

section \<open>The network layer\<close>

record ip_state =
  ip_flow :: nd_flow
  ip_addr_cmp :: int
  ip_l2_len :: nat
  ip_l3_len :: nat
  ip_l4 :: nat
  ip_l4_len :: nat
  ip_gtp :: "nat option"
  ip_stats :: pkt_stats

text \<open>The IPv6 comparison goes on by words of four bytes while they are equal.\<close>

function cmp32 :: "bytes \<Rightarrow> bytes \<Rightarrow> int" where
  "cmp32 s d = (if s = [] then 0
     else let c = memcmp (take 4 s) (take 4 d) in if c = 0 then cmp32 (drop 4 s) (drop 4 d) else c)"
  by pat_completeness auto
termination by (relation "measure (\<lambda>(s, d). length s)") auto

declare cmp32.simps [simp del]

text \<open>The lower side is the source when it compares less; hardware addresses only with Ethernet.\<close>

definition set_sides ::
  "bool \<Rightarrow> (bytes \<times> bytes) option \<Rightarrow> int \<Rightarrow> bytes \<Rightarrow> bytes \<Rightarrow> nd_flow \<Rightarrow> nd_flow" where
  "set_sides v6 eth addr_cmp src dst f =
     (let create = (if v6 then Create_in6_addr else Create_in_addr);
          (low, up) = (if addr_cmp < 0 then (src, dst) else (dst, src));
          f = f\<lparr>fl_lower_addr := snd (create (fl_lower_addr f) low 0), fl_upper_addr := snd (create (fl_upper_addr f) up 0)\<rparr>
      in case eth of
           None \<Rightarrow> f
         | Some (dhost, shost) \<Rightarrow>
             (let (lmac, umac) = (if addr_cmp < 0 then (shost, dhost) else (dhost, shost)) in
              f\<lparr>fl_lower_mac := snd (Create_hw (fl_lower_mac f) lmac 6),
                fl_upper_mac := snd (Create_hw (fl_upper_mac f) umac 6)\<rparr>))"

type_synonym ip6_walk = "bytes \<Rightarrow> nat \<Rightarrow> nat \<Rightarrow> byte \<Rightarrow> (nat \<times> nat \<times> byte) option"

definition ip_header :: "ip6_walk \<Rightarrow> (bytes \<times> bytes) option \<Rightarrow> nd_packet \<Rightarrow> ip_state \<Rightarrow> ip_state dissected" where
  "ip_header walk eth p s =
     (let l2_len = ip_l2_len s; st = note_short p (l2_len + 20) (ip_stats s); caplen = unat (pk_caplen p) in
      case pk_read p l2_len 1 of
        None \<Rightarrow> Undefined
      | Some vhl \<Rightarrow>
          (let version = drop_bit 4 (hd vhl); f = (ip_flow s)\<lparr>fl_ip_version := version\<rparr> in
           if version = 4 then
             (let l3_len = unat (hd vhl AND 0xF) * 4 in
              case (pk_be p (l2_len + 2) 2, pk_read p (l2_len + 9) 1, pk_be p (l2_len + 6) 2) of
                (Some ip_len, Some proto, Some frag_off) \<Rightarrow>
                  (let l4_len = nat ((int ip_len - int l3_len) mod 65536); f = f\<lparr>fl_ip_protocol := hd proto\<rparr> in
                   if caplen - l2_len < 20 then Discarded f (discard p st)
                   else if (word_of_nat frag_off :: 16 word) AND 0x3FFF \<noteq> 0
                   then Discarded f (discard p (st\<lparr>ps_frags := ps_frags st + 1\<rparr>))
                   else if (word_of_nat frag_off :: 16 word) AND 0x1FFF \<noteq> 0
                   then Discarded f (discard p (st\<lparr>ps_frags := ps_frags st + 1\<rparr>))
                   else if l3_len > caplen - l2_len then Discarded f (discard p st)
                   else case (pk_read p (l2_len + 12) 4, pk_read p (l2_len + 16) 4) of
                     (Some src, Some dst) \<Rightarrow>
                       (let c = memcmp src dst in
                        Dissected (s\<lparr>ip_flow := set_sides False eth c src dst f, ip_addr_cmp := c, ip_l3_len := l3_len,
                                     ip_l4 := l2_len + l3_len, ip_l4_len := l4_len, ip_stats := st\<rparr>))
                   | _ \<Rightarrow> Undefined)
              | _ \<Rightarrow> Undefined)
           else if version = 6 then
             (case (pk_be p (l2_len + 4) 2, pk_read p (l2_len + 6) 1) of
                (Some plen, Some nxt) \<Rightarrow>
                  (let f = f\<lparr>fl_ip_protocol := hd nxt\<rparr> in
                   case walk (pk_data p) (l2_len + 40) plen (hd nxt) of
                     None \<Rightarrow> Discarded f (discard p st)
                   | Some (l4, l4_len, proto) \<Rightarrow>
                       (case (pk_read p (l2_len + 8) 16, pk_read p (l2_len + 24) 16) of
                          (Some src, Some dst) \<Rightarrow>
                            (let c = (if memcmp src dst \<noteq> 0 then cmp32 src dst else ip_addr_cmp s) in
                             Dissected (s\<lparr>ip_flow := set_sides True eth c src dst (f\<lparr>fl_ip_protocol := proto\<rparr>),
                                          ip_addr_cmp := c, ip_l3_len := 40, ip_l4 := l4, ip_l4_len := l4_len, ip_stats := st\<rparr>))
                        | _ \<Rightarrow> Undefined))
              | _ \<Rightarrow> Undefined)
           else Discarded f (discard p st)))"

text \<open>
  A GTP header: the bits of its flags from the lowest are N-PDU number, sequence number,
  extension header, a reserved one, the protocol type and three of the version. The result
  is the state and the offset of an inner IP header.
\<close>

definition gtp_header :: "nd_packet \<Rightarrow> ip_state \<Rightarrow> (ip_state \<times> nat option) dissected" where
  "gtp_header p s =
     (if ip_l4_len s > 8 \<and> fl_ip_protocol (ip_flow s) = 17 then
        (case (pk_be p (ip_l4 s) 2, pk_be p (ip_l4 s + 2) 2) of
           (Some sport, Some dport) \<Rightarrow>
             if sport = 2152 \<or> dport = 2152 then
               (case pk_read p (ip_l4 s + 8) 1 of
                  None \<Rightarrow> Undefined
                | Some flags \<Rightarrow>
                    (let b = hd flags; version = drop_bit 5 b; s = s\<lparr>ip_gtp := Some (ip_l4 s + 8)\<rparr> in
                     if version = 1 then
                       (let f = ip_flow s;
                            f = (if fl_tunnel_type f = TUNNEL_NONE then
                                   f\<lparr>fl_tunnel_type := TUNNEL_GTP,
                                     fl_gtp := (fl_gtp f)\<lparr>gtp_version := version, gtp_ip_version := fl_ip_version f,
                                                          gtp_lower_addr := fl_lower_addr f, gtp_upper_addr := fl_upper_addr f\<rparr>\<rparr>
                                 else f);
                            s = s\<lparr>ip_flow := f\<rparr>
                        in case pk_read p (ip_l4 s + 9) 1 of
                             None \<Rightarrow> Undefined
                           | Some type \<Rightarrow>
                               if hd type = 0xFF then
                                 Dissected (s, Some ((ip_l4 s + 16 + (if bit b 2 then 1 else 0) + (if bit b 1 then 4 else 0)
                                                       + (if bit b 0 then 1 else 0)) mod 65536))
                               else Dissected (s, None))
                     else Dissected (s, None)))
             else Dissected (s, None)
         | _ \<Rightarrow> Undefined)
      else Dissected (s, None))"

fun ip_layer :: "ip6_walk \<Rightarrow> (bytes \<times> bytes) option \<Rightarrow> nd_packet \<Rightarrow> nat \<Rightarrow> ip_state \<Rightarrow> ip_state dissected" where
  "ip_layer walk eth p 0 s = Diverged"
| "ip_layer walk eth p (Suc jumps) s =
     (case ip_header walk eth p s of
        Undefined \<Rightarrow> Undefined
      | Diverged \<Rightarrow> Diverged
      | Discarded f st \<Rightarrow> Discarded f st
      | Dissected s \<Rightarrow>
          if ip_l2_len s + ip_l3_len s + ip_l4_len s > unat (pk_caplen p) then Discarded (ip_flow s) (discard p (ip_stats s))
          else (case gtp_header p s of
              Undefined \<Rightarrow> Undefined
            | Diverged \<Rightarrow> Diverged
            | Discarded f st \<Rightarrow> Discarded f st
            | Dissected (s, None) \<Rightarrow> Dissected s
            | Dissected (s, Some l2_len) \<Rightarrow> ip_layer walk eth p jumps (s\<lparr>ip_l2_len := l2_len\<rparr>)))"

section \<open>The transport layer\<close>

text \<open>Ports are stored as they stand in the packet, and compared so when the addresses are equal.\<close>

definition set_ports :: "int \<Rightarrow> 16 word \<Rightarrow> 16 word \<Rightarrow> nd_flow \<Rightarrow> nd_flow" where
  "set_ports addr_cmp sport dport f =
     (let (low, up) = (if addr_cmp < 0 then (sport, dport)
            else if addr_cmp > 0 then (dport, sport)
            else if sport < dport then (sport, dport) else (dport, sport))
      in f\<lparr>fl_lower_addr := snd (SetPort (fl_lower_addr f) low), fl_upper_addr := snd (SetPort (fl_upper_addr f) up)\<rparr>)"

record tcp_header =
  th_flags :: byte
  th_seq :: "32 word"

record l4_state =
  l4_flow :: nd_flow
  l4_tcp :: "tcp_header option"
  l4_payload :: "(nat \<times> nat) option"
  l4_stats :: pkt_stats

abbreviation pk_raw16 :: "nd_packet \<Rightarrow> nat \<Rightarrow> 16 word option" where
  "pk_raw16 p off \<equiv> map_option (\<lambda>b. word_of_nat (le_nat b)) (pk_read p off 2)"

abbreviation pk_raw32 :: "nd_packet \<Rightarrow> nat \<Rightarrow> 32 word option" where
  "pk_raw32 p off \<equiv> map_option (\<lambda>b. word_of_nat (le_nat b)) (pk_read p off 4)"

definition transport_layer :: "nd_packet \<Rightarrow> ip_state \<Rightarrow> l4_state dissected" where
  "transport_layer p s =
     (let st = ip_stats s; f = ip_flow s; l4 = ip_l4 s; l4_len = ip_l4_len s in
      if fl_ip_protocol f = 6 then
        (let st = st\<lparr>ps_tcp := ps_tcp st + 1\<rparr> in
         if l4_len < 20 then Discarded f (discard p st)
         else case (pk_raw16 p l4, pk_raw16 p (l4 + 2), pk_raw32 p (l4 + 4), pk_read p (l4 + 12) 1, pk_read p (l4 + 13) 1) of
           (Some sport, Some dport, Some seq, Some off, Some flags) \<Rightarrow>
             (let hdr_size = unat (drop_bit 4 (hd off)) * 4 in
              if hdr_size < 20 \<or> hdr_size > l4_len then Discarded f (discard p st)
              else Dissected \<lparr>l4_flow = set_ports (ip_addr_cmp s) sport dport f,
                              l4_tcp = Some \<lparr>th_flags = hd flags, th_seq = seq\<rparr>,
                              l4_payload = Some (l4 + hdr_size, l4_len - hdr_size), l4_stats = st\<rparr>)
         | _ \<Rightarrow> Undefined)
      else if fl_ip_protocol f = 17 then
        (let st = st\<lparr>ps_udp := ps_udp st + 1\<rparr> in
         if l4_len < 8 then Discarded f (discard p st)
         else case (pk_raw16 p l4, pk_raw16 p (l4 + 2), pk_be p (l4 + 4) 2) of
           (Some sport, Some dport, Some ulen) \<Rightarrow>
             if ulen \<noteq> l4_len then Discarded (set_ports (ip_addr_cmp s) sport dport f) (discard p st)
             else Dissected \<lparr>l4_flow = set_ports (ip_addr_cmp s) sport dport f, l4_tcp = None,
                             l4_payload = Some (l4 + 8, ulen - 8), l4_stats = st\<rparr>
         | _ \<Rightarrow> Undefined)
      else
        (let st = (if fl_ip_protocol f = 1 \<or> fl_ip_protocol f = 58 then st\<lparr>ps_icmp := ps_icmp st + 1\<rparr>
                   else if fl_ip_protocol f = 2 then st\<lparr>ps_igmp := ps_igmp st + 1\<rparr> else st)
         in Dissected \<lparr>l4_flow = f, l4_tcp = None, l4_payload = None, l4_stats = st\<rparr>))"

section \<open>Directions of a conversation\<close>

definition swap_eth :: "(bytes \<times> bytes) option \<Rightarrow> (bytes \<times> bytes) option" where
  "swap_eth eth = map_option (\<lambda>(dhost, shost). (shost, dhost)) eth"

lemma create_in_simps:
  "na_addr (snd (Create_in_addr a ip 0)) = SA_in 0 ip (old_zero (na_addr a))"
  "\<exists>f s. na_addr (snd (Create_in6_addr a ip 0)) = SA_in6 0 f ip s"
  by (simp_all add: Create_in_addr_def Create_in6_addr_def split: prod.split)

lemma SetPort_GetPort:
  assumes "IsIP a"
  shows "GetPort (snd (SetPort a port)) False = port" "raw_in (snd (SetPort a port)) = raw_in a"
    "raw_in6 (snd (SetPort a port)) = raw_in6 a"
  using assms by (cases "na_addr a"; simp add: IsIP_def IsValid_def SetPort_def GetPort_def raw_in_def raw_in6_def)+

lemma set_sides_keeps [simp]:
  "fl_ip_version (set_sides v6 eth c src dst f) = fl_ip_version f"
  "fl_ip_protocol (set_sides v6 eth c src dst f) = fl_ip_protocol f"
  "fl_vlan_id (set_sides v6 eth c src dst f) = fl_vlan_id f"
  by (simp_all add: set_sides_def Let_def split: option.split prod.split)

lemma set_ports_keeps [simp]:
  "fl_ip_version (set_ports c sport dport f) = fl_ip_version f"
  "fl_ip_protocol (set_ports c sport dport f) = fl_ip_protocol f"
  "fl_vlan_id (set_ports c sport dport f) = fl_vlan_id f"
  "fl_lower_mac (set_ports c sport dport f) = fl_lower_mac f"
  by (simp_all add: set_ports_def split: prod.split)

text \<open>What the digest depends on, of the sides that were set.\<close>

lemma set_sides_ports_tuple:
  assumes "fl_ip_version f = (if v6 then 6 else 4)"
  shows "flow_addr_bytes (set_ports c sport dport (set_sides v6 eth c src dst f)) =
      (let (low, up) = (if c < 0 then (src, dst) else (dst, src)) in
       low @ up @ (if \<not> v6 \<and> low = replicate 4 0 \<and> up = replicate 4 255
                   then raw_mac (fl_lower_mac (set_ports c sport dport (set_sides v6 eth c src dst f))) else []))"
    and "GetPort (fl_lower_addr (set_ports c sport dport (set_sides v6 eth c src dst f))) False =
      (if c < 0 then sport else if c > 0 then dport else if sport < dport then sport else dport)"
    and "GetPort (fl_upper_addr (set_ports c sport dport (set_sides v6 eth c src dst f))) False =
      (if c < 0 then dport else if c > 0 then sport else if sport < dport then dport else sport)"
proof -
  let ?g = "set_sides v6 eth c src dst f"
  obtain low up where lu: "(if c < 0 then (src, dst) else (dst, src)) = (low, up)" by force
  have a: "fl_lower_addr ?g = snd ((if v6 then Create_in6_addr else Create_in_addr) (fl_lower_addr f) low 0)"
    "fl_upper_addr ?g = snd ((if v6 then Create_in6_addr else Create_in_addr) (fl_upper_addr f) up 0)"
    using lu by (auto simp: set_sides_def Let_def split: option.split prod.splits if_splits)
  have ip: "IsIP (fl_lower_addr ?g)" "IsIP (fl_upper_addr ?g)"
    unfolding a using create_in_simps by (auto simp: IsIP_def) (metis ss_family.simps(4))+
  have raw: "\<not> v6 \<Longrightarrow> raw_in (fl_lower_addr ?g) = low" "\<not> v6 \<Longrightarrow> raw_in (fl_upper_addr ?g) = up"
    "v6 \<Longrightarrow> raw_in6 (fl_lower_addr ?g) = low" "v6 \<Longrightarrow> raw_in6 (fl_upper_addr ?g) = up"
    unfolding a by (simp_all add: raw_in_def raw_in6_def Create_in_addr_def Create_in6_addr_def split: prod.split)
  have p: "fl_lower_addr (set_ports c sport dport ?g) = snd (SetPort (fl_lower_addr ?g)
        (if c < 0 then sport else if c > 0 then dport else if sport < dport then sport else dport))"
    "fl_upper_addr (set_ports c sport dport ?g) = snd (SetPort (fl_upper_addr ?g)
        (if c < 0 then dport else if c > 0 then sport else if sport < dport then dport else sport))"
    by (simp_all add: set_ports_def)
  show "GetPort (fl_lower_addr (set_ports c sport dport ?g)) False =
      (if c < 0 then sport else if c > 0 then dport else if sport < dport then sport else dport)"
    "GetPort (fl_upper_addr (set_ports c sport dport ?g)) False =
      (if c < 0 then dport else if c > 0 then sport else if sport < dport then dport else sport)"
    unfolding p by (simp_all only: SetPort_GetPort(1) [OF ip(1)] SetPort_GetPort(1) [OF ip(2)])
  show "flow_addr_bytes (set_ports c sport dport ?g) =
      (let (low, up) = (if c < 0 then (src, dst) else (dst, src)) in
       low @ up @ (if \<not> v6 \<and> low = replicate 4 0 \<and> up = replicate 4 255 then raw_mac (fl_lower_mac (set_ports c sport dport ?g)) else []))"
    unfolding lu flow_addr_bytes_def p
    using assms raw SetPort_GetPort(2,3) [OF ip(1)] SetPort_GetPort(2,3) [OF ip(2)] by (cases v6) simp_all
qed

lemma set_sides_lower_mac:
  "c < 0 \<Longrightarrow> fl_lower_mac (set_sides v6 eth c src dst f)
     = (case eth of None \<Rightarrow> fl_lower_mac f | Some (d, s) \<Rightarrow> snd (Create_hw (fl_lower_mac f) s 6))"
  "c > 0 \<Longrightarrow> fl_lower_mac (set_sides v6 eth c src dst f)
     = (case eth of None \<Rightarrow> fl_lower_mac f | Some (d, s) \<Rightarrow> snd (Create_hw (fl_lower_mac f) d 6))"
  by (simp_all add: set_sides_def Let_def split: option.split)

text \<open>
  C14. Both directions of a conversation are one flow: a packet and its answer, with the
  addresses, the ports and the hardware addresses exchanged, have the same digest input.
\<close>

theorem directions_share_digest:
  assumes "fl_ip_version f = (if v6 then 6 else 4)" "length src = (if v6 then 16 else 4)" "length dst = length src"
  shows "flow_hash_input n behind device False None
      (set_ports (memcmp dst src) dport sport (set_sides v6 (swap_eth eth) (memcmp dst src) dst src f))
    = flow_hash_input n behind device False None
      (set_ports (memcmp src dst) sport dport (set_sides v6 eth (memcmp src dst) src dst f))"
proof -
  let ?c = "memcmp src dst" and ?d = "memcmp dst src"
  let ?f = "set_ports ?c sport dport (set_sides v6 eth ?c src dst f)"
    and ?g = "set_ports ?d dport sport (set_sides v6 (swap_eth eth) ?d dst src f)"
  have d: "?d = - ?c" using assms(3) by (intro memcmp_sym) simp
  have z: "?c = 0 \<longleftrightarrow> src = dst" using assms(3) by (intro memcmp_eq_0) simp
  have t: "fl_ip_version ?g = fl_ip_version ?f" "fl_ip_protocol ?g = fl_ip_protocol ?f" "fl_vlan_id ?g = fl_vlan_id ?f"
    by simp_all
  have m: "fl_lower_mac ?g = fl_lower_mac ?f" if "src \<noteq> dst"
  proof -
    have "?c < 0 \<or> ?c > 0" using z that by linarith
    then show ?thesis unfolding set_ports_keeps d
      using set_sides_lower_mac [of ?c] set_sides_lower_mac [of "- ?c"]
      by (auto simp: swap_eth_def split: option.split)
  qed
  have ports: "GetPort (fl_lower_addr ?g) False = GetPort (fl_lower_addr ?f) False"
    "GetPort (fl_upper_addr ?g) False = GetPort (fl_upper_addr ?f) False"
    unfolding set_sides_ports_tuple(2,3) [OF assms(1)] unfolding d by auto
  have "flow_addr_bytes ?g = flow_addr_bytes ?f"
    unfolding set_sides_ports_tuple(1) [OF assms(1)] using m z unfolding d
    by (cases "src = dst") (auto simp: Let_def)
  then show ?thesis unfolding flow_hash_input_def t ports by simp
qed

section \<open>Reads within the capture\<close>

definition pk_wf :: "nd_packet \<Rightarrow> bool" where
  "pk_wf p \<longleftrightarrow> length (pk_data p) = unat (pk_caplen p)"

lemma pk_read_ok: "pk_wf p \<Longrightarrow> off + n \<le> unat (pk_caplen p) \<Longrightarrow> pk_read p off n = Some (take n (drop off (pk_data p)))"
  by (simp add: pk_read_def pk_wf_def)

lemma pk_read_Some: "pk_read p off n = Some bs \<Longrightarrow> off + n \<le> unat (pk_caplen p) \<and> length bs = n"
  by (auto simp: pk_read_def split: if_splits)

lemma pk_read_ex: "pk_wf p \<Longrightarrow> off + n \<le> unat (pk_caplen p) \<Longrightarrow> \<exists>bs. pk_read p off n = Some bs"
  by (simp add: pk_read_ok)

text \<open>An IPv4 header that is all in the capture is read within it.\<close>

lemma ip_header_4:
  assumes "pk_wf p" "ip_l2_len s + 20 \<le> unat (pk_caplen p)" "drop_bit 4 (pk_data p ! ip_l2_len s) = 4"
  shows "(\<exists>f st. ip_header walk eth p s = Discarded f st)
    \<or> (\<exists>s'. ip_header walk eth p s = Dissected s' \<and> fl_ip_version (ip_flow s') = 4 \<and> ip_l2_len s' = ip_l2_len s
         \<and> ip_l4 s' = ip_l2_len s + ip_l3_len s' \<and> ip_l3_len s' \<le> unat (pk_caplen p) - ip_l2_len s)"
proof -
  have r: "\<exists>bs. pk_read p (ip_l2_len s + k) n = Some bs" if "k + n \<le> 20" for k n
    using assms(2) that by (intro pk_read_ex [OF assms(1)]) linarith
  have r0: "pk_read p (ip_l2_len s) 1 = Some (take 1 (drop (ip_l2_len s) (pk_data p)))"
    using assms(2) by (intro pk_read_ok [OF assms(1)]) linarith
  have v: "drop_bit 4 (hd (take 1 (drop (ip_l2_len s) (pk_data p)))) = 4"
    using assms by (simp add: pk_wf_def hd_drop_conv_nth)
  obtain a where a: "pk_read p (ip_l2_len s + 2) 2 = Some a" using r [of 2 2] by (auto simp del: add_2_eq_Suc')
  obtain b where b: "pk_read p (ip_l2_len s + 9) 1 = Some b" using r [of 9 1] by auto
  obtain c where c: "pk_read p (ip_l2_len s + 6) 2 = Some c" using r [of 6 2] by auto
  obtain d where d: "pk_read p (ip_l2_len s + 12) 4 = Some d" using r [of 12 4] by auto
  obtain e where e: "pk_read p (ip_l2_len s + 16) 4 = Some e" using r [of 16 4] by auto
  note rs = a b c d e
  show ?thesis
    unfolding ip_header_def Let_def r0 option.case(2) v rs option.map prod.case by (simp add: not_less)
qed

text \<open>Neither port of the datagram at an offset is that of GTP.\<close>

definition no_gtp :: "nd_packet \<Rightarrow> nat \<Rightarrow> bool" where
  "no_gtp p l4 \<longleftrightarrow> pk_be p l4 2 \<noteq> Some 2152 \<and> pk_be p (l4 + 2) 2 \<noteq> Some 2152"

lemma gtp_header_none:
  assumes "pk_wf p" "ip_l4 s + ip_l4_len s \<le> unat (pk_caplen p)" "no_gtp p (ip_l4 s)"
  shows "gtp_header p s = Dissected (s, None)"
  using assms by (auto simp: gtp_header_def no_gtp_def pk_read_ok split: option.split)

lemma transport_in_bounds:
  assumes "pk_wf p" "ip_l4 s + ip_l4_len s \<le> unat (pk_caplen p)"
  shows "(\<exists>f st. transport_layer p s = Discarded f st)
    \<or> (\<exists>t. transport_layer p s = Dissected t
        \<and> (case l4_payload t of None \<Rightarrow> True | Some (off, n) \<Rightarrow> off + n \<le> unat (pk_caplen p)))"
proof -
  have r: "\<exists>bs. pk_read p (ip_l4 s + k) n = Some bs" if "k + n \<le> ip_l4_len s" for k n
    using assms(2) that by (intro pk_read_ex [OF assms(1)]) linarith
  consider "fl_ip_protocol (ip_flow s) = 6" "20 \<le> ip_l4_len s" | "fl_ip_protocol (ip_flow s) = 17" "8 \<le> ip_l4_len s"
    | "fl_ip_protocol (ip_flow s) \<noteq> 6" "fl_ip_protocol (ip_flow s) \<noteq> 17"
    | "fl_ip_protocol (ip_flow s) = 6" "ip_l4_len s < 20" | "fl_ip_protocol (ip_flow s) = 17" "ip_l4_len s < 8"
    by linarith
  then show ?thesis
  proof cases
    case 1
    obtain a where a: "pk_read p (ip_l4 s) 2 = Some a" using r [of 0 2] 1 by auto
    obtain b where b: "pk_read p (ip_l4 s + 2) 2 = Some b" using r [of 2 2] 1 by (auto simp del: add_2_eq_Suc')
    obtain c where c: "pk_read p (ip_l4 s + 4) 4 = Some c" using r [of 4 4] 1 by auto
    obtain d where d: "pk_read p (ip_l4 s + 12) 1 = Some d" using r [of 12 1] 1 by auto
    obtain e where e: "pk_read p (ip_l4 s + 13) 1 = Some e" using r [of 13 1] 1 by auto
    note rs = a b c d e
    show ?thesis
      unfolding transport_layer_def Let_def rs option.case(2) option.map prod.case using 1 assms(2) by auto
  next
    case 2
    obtain a where a: "pk_read p (ip_l4 s) 2 = Some a" using r [of 0 2] 2 by auto
    obtain b where b: "pk_read p (ip_l4 s + 2) 2 = Some b" using r [of 2 2] 2 by (auto simp del: add_2_eq_Suc')
    obtain c where c: "pk_read p (ip_l4 s + 4) 2 = Some c" using r [of 4 2] 2 by auto
    note rs = a b c
    show ?thesis
      unfolding transport_layer_def Let_def rs option.case(2) option.map prod.case using 2 assms(2) by auto
  qed (simp_all add: transport_layer_def Let_def)
qed

text \<open>A packet without a tunnel ends the layer with a payload that was captured.\<close>

lemma ip_layer_no_gtp:
  assumes "pk_wf p" "ip_l2_len s + 20 \<le> unat (pk_caplen p)" "drop_bit 4 (pk_data p ! ip_l2_len s) = 4"
    and "\<forall>s'. ip_header walk eth p s = Dissected s' \<longrightarrow> no_gtp p (ip_l4 s')" "0 < jumps"
  shows "(\<exists>f st. ip_layer walk eth p jumps s = Discarded f st)
    \<or> (\<exists>s'. ip_layer walk eth p jumps s = Dissected s' \<and> ip_header walk eth p s = Dissected s'
        \<and> ip_l4 s' + ip_l4_len s' \<le> unat (pk_caplen p))"
proof -
  obtain k where k: "jumps = Suc k" using assms(5) by (cases jumps) auto
  from ip_header_4 [OF assms(1-3), of walk eth] show ?thesis
  proof (elim disjE exE conjE)
    fix f st assume "ip_header walk eth p s = Discarded f st"
    then show ?thesis by (simp add: k)
  next
    fix s' assume h: "ip_header walk eth p s = Dissected s'" and l: "ip_l2_len s' = ip_l2_len s" "ip_l4 s' = ip_l2_len s + ip_l3_len s'"
    show ?thesis
    proof (cases "ip_l2_len s' + ip_l3_len s' + ip_l4_len s' > unat (pk_caplen p)")
      case True
      then show ?thesis by (simp add: k h)
    next
      case False
      then have b: "ip_l4 s' + ip_l4_len s' \<le> unat (pk_caplen p)" using l by simp
      have "gtp_header p s' = Dissected (s', None)" using assms(4) h by (intro gtp_header_none [OF assms(1) b]) blast
      then show ?thesis using False b by (simp add: k h)
    qed
  qed
qed


section \<open>Tunnels end\<close>

text \<open>The walk over extension headers does not go back.\<close>

definition walk_forward :: "ip6_walk \<Rightarrow> bool" where
  "walk_forward walk \<longleftrightarrow> (\<forall>d off len nh l4 l n. walk d off len nh = Some (l4, l, n) \<longrightarrow> off \<le> l4)"

lemma ip_header_l4:
  assumes "ip_header walk eth p s = Dissected s'" "walk_forward walk"
  shows "ip_l2_len s \<le> ip_l4 s' \<and> ip_l2_len s' = ip_l2_len s"
proof -
  have "ip_l2_len s + 40 \<le> l4" if "walk (pk_data p) (ip_l2_len s + 40) len nh = Some (l4, l, n)" for len nh l4 l n
    using assms(2) that unfolding walk_forward_def by blast
  then show ?thesis using assms(1)
    by (fastforce simp: ip_header_def Let_def split: option.splits if_splits prod.splits)
qed

lemma gtp_header_jump:
  assumes "gtp_header p s = Dissected (s', Some l2)" "unat (pk_caplen p) \<le> 65519"
  shows "ip_l4 s + 16 \<le> l2 \<and> l2 \<le> unat (pk_caplen p) + 12"
proof -
  obtain flags where r: "pk_read p (ip_l4 s + 9) 1 = Some flags"
    using assms(1) by (auto simp: gtp_header_def Let_def split: option.splits if_splits)
  have b: "ip_l4 s + 10 \<le> unat (pk_caplen p)" using pk_read_Some [OF r] by simp
  have "\<exists>b :: byte. l2 = (ip_l4 s + 16 + (if bit b 2 then 1 else 0) + (if bit b 1 then 4 else 0) + (if bit b 0 then 1 else 0)) mod 65536"
    using assms(1) by (auto simp: gtp_header_def Let_def split: option.splits if_splits)
  then obtain b' :: byte where "l2 = (ip_l4 s + 16 + (if bit b' 2 then 1 else 0) + (if bit b' 1 then 4 else 0) + (if bit b' 0 then 1 else 0)) mod 65536" ..
  then show ?thesis using b assms(2) by (simp split: if_splits)
qed

text \<open>
  C35. The jumps back for GTP tunnels end: for a capture of at most 65519 bytes each of
  them goes forward, so that a bound on their number that exceeds the capture is not
  reached, whatever the packet holds.
\<close>

theorem gtp_jumps_end:
  assumes "unat (pk_caplen p) \<le> 65519" "ip_l2_len s \<le> unat (pk_caplen p) + 12"
    and "walk_forward walk"
    and "unat (pk_caplen p) + 12 < ip_l2_len s + jumps"
  shows "ip_layer walk eth p jumps s \<noteq> Diverged"
  using assms(2,4)
proof (induction jumps arbitrary: s)
  case (Suc jumps)
  show ?case
  proof (cases "ip_header walk eth p s")
    case (Dissected s1)
    note h = ip_header_l4 [OF Dissected assms(3)]
    show ?thesis
    proof (cases "gtp_header p s1")
      case (Dissected r)
      obtain s2 o2 where r: "r = (s2, o2)" by force
      show ?thesis
      proof (cases o2)
        case None
        then show ?thesis using \<open>ip_header walk eth p s = _\<close> Dissected r by simp
      next
        case (Some l2)
        have j: "ip_l4 s1 + 16 \<le> l2 \<and> l2 \<le> unat (pk_caplen p) + 12"
          using gtp_header_jump [OF _ assms(1)] Dissected r Some by simp
        then have "ip_layer walk eth p jumps (s2\<lparr>ip_l2_len := l2\<rparr>) \<noteq> Diverged"
          using h Suc.prems by (intro Suc.IH) auto
        then show ?thesis using \<open>ip_header walk eth p s = _\<close> Dissected r Some by simp
      qed
    next
      case Diverged
      then show ?thesis by (auto simp: gtp_header_def Let_def split: option.splits if_splits)
    qed (use Dissected in auto)
  next
    case Diverged
    then show ?thesis by (auto simp: ip_header_def Let_def split: option.splits if_splits prod.splits)
  qed auto
qed simp

section \<open>Instances\<close>

text \<open>A DNS query of two bytes over IPv4.\<close>

definition sample_packet :: nd_packet where
  "sample_packet = \<lparr>pk_status = 0, pk_length = 30, pk_caplen = 30,
     pk_data = [0x45, 0, 0, 30, 0, 0, 0, 0, 64, 17, 0, 0, 10, 0, 0, 1, 10, 0, 0, 2, 0x30, 0x39, 0, 53, 0, 10, 0, 0, 7, 8],
     pk_sec = 1, pk_usec = 0\<rparr>"

definition sample_ip_state :: ip_state where
  "sample_ip_state = \<lparr>ip_flow = nd_flow_new 0 False False, ip_addr_cmp = 0, ip_l2_len = 0, ip_l3_len = 0, ip_l4 = 0,
     ip_l4_len = 0, ip_gtp = None, ip_stats = pkt_stats_zero\<rparr>"

lemma sample_header:
  assumes "ip_header walk None sample_packet sample_ip_state = Dissected s"
  shows "ip_l4 s = 20"
  using assms by (auto simp: ip_header_def sample_packet_def sample_ip_state_def Let_def pk_read_def split: option.splits if_splits)


theorem gtp_jumps_end_witness:
  "ip_layer (\<lambda>_ off len nh. Some (off, len, nh)) None sample_packet 43 sample_ip_state \<noteq> Diverged"
  by (rule gtp_jumps_end) (simp_all add: sample_packet_def sample_ip_state_def walk_forward_def)

theorem directions_share_digest_witness:
  "flow_hash_input 8 [] ''eth0'' False None
      (set_ports (memcmp [10, 0, 0, 2] [10, 0, 0, 1]) 53 12345
        (set_sides False (swap_eth (Some ([2, 0, 0, 0, 0, 1], [2, 0, 0, 0, 0, 2]))) (memcmp [10, 0, 0, 2] [10, 0, 0, 1])
          [10, 0, 0, 2] [10, 0, 0, 1] ((nd_flow_new 0 False False)\<lparr>fl_ip_version := 4\<rparr>)))
    = flow_hash_input 8 [] ''eth0'' False None
      (set_ports (memcmp [10, 0, 0, 1] [10, 0, 0, 2]) 12345 53
        (set_sides False (Some ([2, 0, 0, 0, 0, 1], [2, 0, 0, 0, 0, 2])) (memcmp [10, 0, 0, 1] [10, 0, 0, 2])
          [10, 0, 0, 1] [10, 0, 0, 2] ((nd_flow_new 0 False False)\<lparr>fl_ip_version := 4\<rparr>)))"
  by (rule directions_share_digest) simp_all

text \<open>The identifier of the VLAN of an untagged frame is the one that an earlier frame left in the flow of the thread.\<close>

lemma untagged_frame_keeps_vlan:
  assumes "link_header dl p f st = Dissected (type, n, eth, st')" "\<not> l2_tag type"
  shows "link_layer dl p f st = Dissected (eth, n, f\<lparr>fl_tunnel_type := TUNNEL_NONE\<rparr>, note_short p n st')"
  using assms by (simp add: link_layer_def Let_def l2_loop.simps)

text \<open>A cooked capture does not recognise a VLAN tag (0x8100), whose type it reads in the order of the host.\<close>

lemma sll_vlan_type:
  assumes "16 \<le> unat (pk_caplen p)" "pk_read p 14 2 = Some [0x81, 0x00]"
  shows "\<exists>eth n st'. link_layer DLT_LINUX_SLL p f st = Dissected (eth, n, f\<lparr>fl_tunnel_type := TUNNEL_NONE\<rparr>, st') \<and> n = 16"
  using assms by (simp add: link_layer_def link_header_def Let_def l2_loop.simps l2_tag_def ETHERTYPE_VLAN_def
      ETHERTYPE_MPLS_UC_def ETHERTYPE_MPLS_MC_def ETHERTYPE_PPPOE_def ETHERTYPE_PPPOEDISC_def)

text \<open>A family of a loopback capture that is not IP is dropped and not counted.\<close>

lemma null_other_family_uncounted:
  assumes "4 \<le> unat (pk_caplen p)" "pk_be p 0 4 = Some family" "family \<notin> {2, 24, 28, 30}"
  shows "link_layer DLT_NULL p f st = Discarded f st"
  using assms by (auto simp: link_layer_def link_header_def)
end
