(* ===== verification/NdFlowMap.thy ===== *)
theory NdFlowMap
  imports NdPrelude
begin

text \<open>
  The table of flows (\<open>src/src/nd-flow-map.cpp\<close>): a fixed number of buckets, each
  an unordered map with its mutex. A mutex is its locked bit; locking one that is
  locked does not return. A digest is the bytes of the string and its terminating
  NUL; \<open>HashToBucket\<close> reads the first eight of them as a little-endian number. The
  interface that clients rely on is the locale \<open>keyed_store\<close>.
\<close>

section \<open>Keyed stores\<close>

text \<open>
  A store with \<open>insert\<close> of \<open>std::unordered_map\<close>: an existing entry is kept and the
  insertion reports false.
\<close>

locale keyed_store =
  fixes lookup :: "'s \<Rightarrow> 'k \<Rightarrow> 'v option"
    and insert :: "'s \<Rightarrow> 'k \<Rightarrow> 'v \<Rightarrow> bool \<times> 's"
    and delete :: "'s \<Rightarrow> 'k \<Rightarrow> bool \<times> 's"
    and key :: "'k \<Rightarrow> bool"
    and inv :: "'s \<Rightarrow> bool"
  assumes inv_insert: "inv s \<Longrightarrow> key k \<Longrightarrow> inv (snd (insert s k v))"
    and inv_delete: "inv s \<Longrightarrow> key k \<Longrightarrow> inv (snd (delete s k))"
    and insert_result: "inv s \<Longrightarrow> key k \<Longrightarrow> fst (insert s k v) \<longleftrightarrow> lookup s k = None"
    and delete_result: "inv s \<Longrightarrow> key k \<Longrightarrow> fst (delete s k) \<longleftrightarrow> lookup s k \<noteq> None"
    and lookup_insert: "inv s \<Longrightarrow> key k \<Longrightarrow> key j \<Longrightarrow>
       lookup (snd (insert s k v)) j = (if j = k \<and> lookup s k = None then Some v else lookup s j)"
    and lookup_delete: "inv s \<Longrightarrow> key k \<Longrightarrow> key j \<Longrightarrow>
       lookup (snd (delete s k)) j = (if j = k then None else lookup s j)"
begin

definition insert_all :: "('k \<times> 'v) list \<Rightarrow> 's \<Rightarrow> 's" where
  "insert_all kvs s = foldl (\<lambda>s (k, v). snd (insert s k v)) s kvs"

definition delete_all :: "'k list \<Rightarrow> 's \<Rightarrow> 's" where
  "delete_all ks s = foldl (\<lambda>s k. snd (delete s k)) s ks"

lemma lookup_insert_all:
  assumes "inv s" "\<forall>kv \<in> set kvs. key (fst kv)" "key k"
  shows "inv (insert_all kvs s)
    \<and> lookup (insert_all kvs s) k = (case lookup s k of Some v \<Rightarrow> Some v | None \<Rightarrow> map_of kvs k)"
  using assms(1,2)
proof (induction kvs arbitrary: s)
  case (Cons kv kvs)
  obtain k' v where kv: "kv = (k', v)" by force
  have k': "key k'" using Cons.prems(2) kv by simp
  have i: "inv (snd (insert s k' v))" using Cons.prems(1) k' by (rule inv_insert)
  have s: "insert_all (kv # kvs) s = insert_all kvs (snd (insert s k' v))" by (simp add: insert_all_def kv)
  have "lookup (insert_all kvs (snd (insert s k' v))) k =
      (case lookup (snd (insert s k' v)) k of Some v \<Rightarrow> Some v | None \<Rightarrow> map_of kvs k)"
    and "inv (insert_all kvs (snd (insert s k' v)))"
    using Cons.IH [OF i] Cons.prems(2) by auto
  then show ?case unfolding s using lookup_insert [OF Cons.prems(1) k' assms(3), of v]
    by (auto simp: kv split: option.splits)
qed (auto simp: insert_all_def split: option.split)

lemma lookup_delete_all:
  assumes "inv s" "\<forall>j \<in> set ks. key j" "key k"
  shows "inv (delete_all ks s) \<and> lookup (delete_all ks s) k = (if k \<in> set ks then None else lookup s k)"
  using assms(1,2)
proof (induction ks arbitrary: s)
  case (Cons j ks)
  have j: "key j" using Cons.prems(2) by simp
  have i: "inv (snd (delete s j))" using Cons.prems(1) j by (rule inv_delete)
  have s: "delete_all (j # ks) s = delete_all ks (snd (delete s j))" by (simp add: delete_all_def)
  show ?case unfolding s using Cons.IH [OF i] Cons.prems(2) lookup_delete [OF Cons.prems(1) j assms(3)] by auto
qed (auto simp: delete_all_def)

lemma insert_delete:
  assumes "inv s" "key k" "key j" "lookup s k = None"
  shows "lookup (snd (delete (snd (insert s k v)) k)) j = lookup s j"
  using assms lookup_delete [OF inv_insert [OF assms(1,2)] assms(2,3)] lookup_insert [OF assms(1,2,3)] by auto

end

section \<open>The flow map\<close>

record 'f flow_map =
  fm_bucket :: "(digest \<times> 'f) list list"
  fm_locked :: "bool list"

text \<open>A call that blocks for ever, an exception, or a result.\<close>

datatype 'a outcome = Blocked | Raised string | Done 'a

definition ndFlowMap_new :: "nat \<Rightarrow> 'f flow_map" where
  "ndFlowMap_new n = \<lparr>fm_bucket = replicate n [], fm_locked = replicate n False\<rparr>"

definition GetBuckets :: "'f flow_map \<Rightarrow> nat" where
  "GetBuckets m = length (fm_bucket m)"

definition HashToBucket :: "'f flow_map \<Rightarrow> digest \<Rightarrow> nat" where
  "HashToBucket m d = le_nat (take 8 (d @ [0])) mod GetBuckets m"

definition fm_lock :: "'f flow_map \<Rightarrow> nat \<Rightarrow> 'f flow_map" where
  "fm_lock m b = m\<lparr>fm_locked := (fm_locked m)[b := True]\<rparr>"

definition fm_unlock :: "'f flow_map \<Rightarrow> nat \<Rightarrow> 'f flow_map" where
  "fm_unlock m b = m\<lparr>fm_locked := (fm_locked m)[b := False]\<rparr>"

definition fm_Lookup :: "'f flow_map \<Rightarrow> digest \<Rightarrow> bool \<Rightarrow> ('f option \<times> 'f flow_map) outcome" where
  "fm_Lookup m d acquire_lock =
     (let b = HashToBucket m d in
      if fm_locked m ! b then Blocked
      else let m = fm_lock m b;
               f = map_of (fm_bucket m ! b) d
           in Done (f, if acquire_lock then m else fm_unlock m b))"

definition fm_Insert :: "'f flow_map \<Rightarrow> digest \<Rightarrow> 'f \<Rightarrow> bool \<Rightarrow> (bool \<times> 'f flow_map) outcome" where
  "fm_Insert m d flow unlocked =
     (let b = HashToBucket m d in
      if \<not> unlocked \<and> fm_locked m ! b then Blocked
      else let m = (if unlocked then m else fm_lock m b);
               result = (map_of (fm_bucket m ! b) d = None);
               m = (if result then m\<lparr>fm_bucket := (fm_bucket m)[b := (d, flow) # fm_bucket m ! b]\<rparr> else m)
           in Done (result, if unlocked then m else fm_unlock m b))"

definition fm_InsertUnlocked :: "'f flow_map \<Rightarrow> digest \<Rightarrow> 'f \<Rightarrow> (bool \<times> 'f flow_map) outcome" where
  "fm_InsertUnlocked m d flow = fm_Insert m d flow True"

definition fm_Delete :: "'f flow_map \<Rightarrow> digest \<Rightarrow> (bool \<times> 'f flow_map) outcome" where
  "fm_Delete m d =
     (let b = HashToBucket m d in
      if fm_locked m ! b then Blocked
      else let deleted = (map_of (fm_bucket m ! b) d \<noteq> None)
           in Done (deleted, if deleted
                then m\<lparr>fm_bucket := (fm_bucket m)[b := al_delete d (fm_bucket m ! b)]\<rparr> else m))"

definition fm_Acquire :: "'f flow_map \<Rightarrow> nat \<Rightarrow> ((digest \<times> 'f) list \<times> 'f flow_map) outcome" where
  "fm_Acquire m b =
     (if b \<ge> GetBuckets m then Raised ''bucket''
      else if fm_locked m ! b then Blocked
      else Done (fm_bucket m ! b, fm_lock m b))"

definition fm_Release :: "'f flow_map \<Rightarrow> nat \<Rightarrow> 'f flow_map outcome" where
  "fm_Release m b = (if b \<ge> GetBuckets m then Raised ''bucket'' else Done (fm_unlock m b))"

definition fm_Release_digest :: "'f flow_map \<Rightarrow> digest \<Rightarrow> 'f flow_map outcome" where
  "fm_Release_digest m d = fm_Release m (HashToBucket m d)"

text \<open>What the buckets hold together, when each digest is in the bucket of its hash.\<close>

definition fm_wf :: "'f flow_map \<Rightarrow> bool" where
  "fm_wf m \<longleftrightarrow> 0 < GetBuckets m \<and> length (fm_locked m) = GetBuckets m
     \<and> (\<forall>b < GetBuckets m. \<forall>d \<in> set (map fst (fm_bucket m ! b)). HashToBucket m d = b)
     \<and> (\<forall>b < GetBuckets m. distinct (map fst (fm_bucket m ! b)))"

definition fm_free :: "'f flow_map \<Rightarrow> bool" where
  "fm_free m \<longleftrightarrow> fm_wf m \<and> fm_locked m = replicate (GetBuckets m) False"

definition fm_find :: "'f flow_map \<Rightarrow> digest \<Rightarrow> 'f option" where
  "fm_find m d = map_of (concat (fm_bucket m)) d"

text \<open>The result of an operation that returned.\<close>

fun done_value :: "'a \<Rightarrow> 'a outcome \<Rightarrow> 'a" where
  "done_value d (Done x) = x"
| "done_value d _ = d"

section \<open>Buckets\<close>

lemma HashToBucket_locked [simp]:
  "HashToBucket (m\<lparr>fm_locked := l\<rparr>) d = HashToBucket m d" "GetBuckets (m\<lparr>fm_locked := l\<rparr>) = GetBuckets m"
  by (simp_all add: HashToBucket_def GetBuckets_def)

lemma HashToBucket_lt: "fm_wf m \<Longrightarrow> HashToBucket m d < GetBuckets m"
  by (simp add: HashToBucket_def fm_wf_def)

lemma fm_find_bucket: "fm_wf m \<Longrightarrow> fm_find m d = map_of (fm_bucket m ! HashToBucket m d) d"
proof -
  assume w: "fm_wf m"
  have *: "map_of (concat bs) d = map_of (bs ! b) d"
    if "b < length bs" "\<forall>c < length bs. d \<in> set (map fst (bs ! c)) \<longrightarrow> c = b" for bs :: "(digest \<times> 'a) list list" and b
    using that
  proof (induction bs arbitrary: b)
    case (Cons x bs)
    show ?case
    proof (cases b)
      case 0
      then have "\<forall>c < length bs. d \<notin> set (map fst (bs ! c))" using Cons.prems(2) by fastforce
      then have "d \<notin> set (map fst y)" if "y \<in> set bs" for y using that by (metis in_set_conv_nth)
      then have "d \<notin> fst ` set (concat bs)" by auto
      then have "map_of (concat bs) d = None" by (simp add: map_of_eq_None_iff)
      then show ?thesis using 0 by (simp add: map_add_def split: option.split)
    next
      case (Suc b')
      then have "d \<notin> set (map fst x)" using Cons.prems(2) by (metis length_greater_0_conv list.distinct(1) nat.distinct(1) nth_Cons_0)
      then have "map_of x d = None" by (simp add: map_of_eq_None_iff)
      moreover have "map_of (concat bs) d = map_of (bs ! b') d"
        using Cons.IH [of b'] Cons.prems Suc by fastforce
      ultimately show ?thesis by (simp only: Suc concat.simps map_of_append map_add_def nth_Cons_Suc) (simp split: option.split)
    qed
  qed simp
  show ?thesis unfolding fm_find_def
  proof (rule *)
    show "HashToBucket m d < length (fm_bucket m)" using HashToBucket_lt [OF w] by (simp add: GetBuckets_def)
    show "\<forall>c < length (fm_bucket m). d \<in> set (map fst (fm_bucket m ! c)) \<longrightarrow> c = HashToBucket m d"
      using w unfolding fm_wf_def GetBuckets_def by metis
  qed
qed

lemma fm_wf_update:
  assumes "fm_wf m" "distinct (map fst xs)" "set (map fst xs) \<subseteq> insert d (set (map fst (fm_bucket m ! HashToBucket m d)))"
  shows "fm_wf (m\<lparr>fm_bucket := (fm_bucket m)[HashToBucket m d := xs]\<rparr>)"
proof -
  let ?b = "HashToBucket m d"
  have h: "HashToBucket m (fst p) = ?b" if "p \<in> set xs" for p
  proof -
    have "fst p \<in> insert d (set (map fst (fm_bucket m ! ?b)))" using assms(3) that by auto
    then show ?thesis using assms(1) HashToBucket_lt [OF assms(1)] unfolding fm_wf_def by blast
  qed
  have "HashToBucket (m\<lparr>fm_bucket := (fm_bucket m)[?b := xs]\<rparr>) j = HashToBucket m j" for j
    by (simp add: HashToBucket_def GetBuckets_def)
  moreover have "?b < length (fm_bucket m)" using HashToBucket_lt [OF assms(1)] by (simp add: GetBuckets_def)
  ultimately show ?thesis using assms(1,2) h by (auto simp: fm_wf_def GetBuckets_def nth_list_update split: if_splits)
qed

lemma fm_find_update:
  assumes "fm_wf m" "distinct (map fst xs)" "set (map fst xs) \<subseteq> insert d (set (map fst (fm_bucket m ! HashToBucket m d)))"
    and "map_of xs = (map_of (fm_bucket m ! HashToBucket m d))(d := v)"
  shows "fm_find (m\<lparr>fm_bucket := (fm_bucket m)[HashToBucket m d := xs]\<rparr>) = (fm_find m)(d := v)"
proof
  fix j
  let ?m = "m\<lparr>fm_bucket := (fm_bucket m)[HashToBucket m d := xs]\<rparr>"
  have h: "HashToBucket ?m j = HashToBucket m j" for j by (simp add: HashToBucket_def GetBuckets_def)
  have lt: "HashToBucket m d < length (fm_bucket m)" using HashToBucket_lt [OF assms(1)] by (simp add: GetBuckets_def)
  show "fm_find ?m j = ((fm_find m)(d := v)) j"
    using fm_find_bucket [OF fm_wf_update [OF assms(1-3)], of j] fm_find_bucket [OF assms(1), of j] assms(4) lt
    by (auto simp: h nth_list_update)
qed

lemma fm_locks:
  assumes "fm_free m"
  shows "\<not> fm_locked m ! HashToBucket m d"
    and "fm_locked m = l \<Longrightarrow> l[b := False] = l"
proof -
  show "\<not> fm_locked m ! HashToBucket m d" using assms HashToBucket_lt [of m d] by (simp add: fm_free_def)
  have "(replicate n False)[b := False] = replicate n False" for n by (induction n arbitrary: b) (auto split: nat.split)
  then show "fm_locked m = l \<Longrightarrow> l[b := False] = l" using assms by (auto simp: fm_free_def)
qed

section \<open>The operations that return\<close>

definition fm_lookup :: "'f flow_map \<Rightarrow> digest \<Rightarrow> 'f option" where
  "fm_lookup m d = fst (done_value (None, m) (fm_Lookup m d False))"

definition fm_insert :: "'f flow_map \<Rightarrow> digest \<Rightarrow> 'f \<Rightarrow> bool \<times> 'f flow_map" where
  "fm_insert m d f = done_value (False, m) (fm_Insert m d f False)"

definition fm_delete :: "'f flow_map \<Rightarrow> digest \<Rightarrow> bool \<times> 'f flow_map" where
  "fm_delete m d = done_value (False, m) (fm_Delete m d)"

lemma fm_Lookup_free: "fm_free m \<Longrightarrow> fm_Lookup m d False = Done (fm_find m d, m)"
  using fm_find_bucket [of m d] fm_locks [of m]
  by (cases m) (simp add: fm_Lookup_def Let_def fm_lock_def fm_unlock_def fm_free_def HashToBucket_def GetBuckets_def)

lemma fm_Insert_free:
  assumes "fm_free m"
  shows "\<exists>m'. fm_Insert m d f False = Done (fm_find m d = None, m') \<and> fm_free m'
    \<and> fm_find m' = (if fm_find m d = None then (fm_find m)(d \<mapsto> f) else fm_find m)"
proof (cases "fm_find m d")
  case None
  let ?b = "HashToBucket m d"
  let ?xs = "(d, f) # fm_bucket m ! ?b"
  let ?m = "m\<lparr>fm_bucket := (fm_bucket m)[?b := ?xs]\<rparr>"
  have w: "fm_wf m" using assms by (simp add: fm_free_def)
  have n: "map_of (fm_bucket m ! ?b) d = None" using None fm_find_bucket [OF w] by simp
  then have x: "distinct (map fst ?xs)" "set (map fst ?xs) \<subseteq> insert d (set (map fst (fm_bucket m ! ?b)))"
    using w HashToBucket_lt [OF w] by (auto simp: fm_wf_def map_of_eq_None_iff)
  have "fm_Insert m d f False = Done (True, ?m)"
    using n fm_locks [OF assms]
    by (cases m) (simp add: fm_Insert_def Let_def fm_lock_def fm_unlock_def HashToBucket_def GetBuckets_def)
  moreover have "fm_free ?m" using fm_wf_update [OF w x] assms by (simp add: fm_free_def GetBuckets_def)
  moreover have "fm_find ?m = (fm_find m)(d \<mapsto> f)" using fm_find_update [OF w x] by simp
  ultimately show ?thesis using None by simp
next
  case (Some g)
  have "map_of (fm_bucket m ! HashToBucket m d) d = Some g"
    using fm_find_bucket [of m d] assms Some by (metis fm_free_def)
  then show ?thesis using Some fm_locks [OF assms] assms
    by (cases m) (simp add: fm_Insert_def Let_def fm_free_def fm_lock_def fm_unlock_def HashToBucket_def GetBuckets_def)
qed

lemma fm_Delete_free:
  assumes "fm_free m"
  shows "\<exists>m'. fm_Delete m d = Done (fm_find m d \<noteq> None, m') \<and> fm_free m' \<and> fm_find m' = (fm_find m)(d := None)"
proof -
  let ?b = "HashToBucket m d"
  let ?xs = "al_delete d (fm_bucket m ! ?b)"
  let ?m = "m\<lparr>fm_bucket := (fm_bucket m)[?b := ?xs]\<rparr>"
  have w: "fm_wf m" using assms by (simp add: fm_free_def)
  have x: "distinct (map fst ?xs)" "set (map fst ?xs) \<subseteq> insert d (set (map fst (fm_bucket m ! ?b)))"
    using w HashToBucket_lt [OF w] by (auto simp: fm_wf_def al_delete_def distinct_map_filter)
  have 1: "fm_free ?m" using fm_wf_update [OF w x] assms by (simp add: fm_free_def GetBuckets_def)
  have 2: "fm_find ?m = (fm_find m)(d := None)" using fm_find_update [OF w x] by simp
  show ?thesis
    using 1 2 assms fm_find_bucket [OF w, of d] fm_locks(1) [OF assms, of d]
    by (auto simp: fm_Delete_def Let_def)
qed

text \<open>The flow map is a keyed store, as long as nobody holds one of its locks.\<close>

interpretation fms: keyed_store fm_lookup fm_insert fm_delete "\<lambda>_. True" fm_free
proof
  fix m :: "'a flow_map" and d j :: digest and f :: 'a
  assume m: "fm_free m"
  obtain m1 where m1: "fm_Insert m d f False = Done (fm_find m d = None, m1)" "fm_free m1"
    "fm_find m1 = (if fm_find m d = None then (fm_find m)(d \<mapsto> f) else fm_find m)"
    using fm_Insert_free [OF m] by blast
  obtain m2 where m2: "fm_Delete m d = Done (fm_find m d \<noteq> None, m2)" "fm_free m2" "fm_find m2 = (fm_find m)(d := None)"
    using fm_Delete_free [OF m] by blast
  note l = fm_Lookup_free [OF m] fm_Lookup_free [OF m1(2)] fm_Lookup_free [OF m2(2)]
  show "fm_free (snd (fm_insert m d f))" by (simp add: fm_insert_def m1)
  show "fm_free (snd (fm_delete m d))" by (simp add: fm_delete_def m2)
  show "fst (fm_insert m d f) = (fm_lookup m d = None)" by (simp add: fm_insert_def fm_lookup_def m1 l)
  show "fst (fm_delete m d) = (fm_lookup m d \<noteq> None)" by (simp add: fm_delete_def fm_lookup_def m2 l)
  show "fm_lookup (snd (fm_insert m d f)) j = (if j = d \<and> fm_lookup m d = None then Some f else fm_lookup m j)"
    by (simp add: fm_insert_def fm_lookup_def m1 l)
  show "fm_lookup (snd (fm_delete m d)) j = (if j = d then None else fm_lookup m j)"
    by (simp add: fm_delete_def fm_lookup_def m2 l)
qed

text \<open>The calls of a client that keeps the bucket locked from its lookup to its release.\<close>

lemma fm_locked_session:
  assumes "fm_free m"
  shows "fm_Lookup m d True = Done (fm_find m d, fm_lock m (HashToBucket m d))"
    and "fm_Release_digest (fm_lock m (HashToBucket m d)) d = Done m"
    and "\<exists>m2. fm_InsertUnlocked (fm_lock m (HashToBucket m d)) d f = Done (fm_find m d = None, m2)
      \<and> fm_Release_digest m2 d = Done (snd (fm_insert m d f))"
proof -
  let ?b = "HashToBucket m d"
  let ?m1 = "fm_lock m ?b"
  have w: "fm_wf m" using assms by (simp add: fm_free_def)
  note free = fm_locks [OF assms]
  have r: "fm_find m d = map_of (fm_bucket m ! ?b) d" by (rule fm_find_bucket [OF w])
  show "fm_Lookup m d True = Done (fm_find m d, ?m1)"
    using free(1) [of d] by (simp add: fm_Lookup_def Let_def r fm_lock_def)
  have h: "HashToBucket ?m1 j = HashToBucket m j" for j by (simp add: HashToBucket_def GetBuckets_def fm_lock_def)
  have "fm_unlock ?m1 ?b = m" using free(2) [OF refl, of ?b] by (cases m) (simp add: fm_lock_def fm_unlock_def)
  then show "fm_Release_digest ?m1 d = Done m"
    using HashToBucket_lt [OF w, of d] by (simp add: fm_Release_digest_def fm_Release_def h) (simp add: GetBuckets_def fm_lock_def)
  define m2 where "m2 = (if map_of (fm_bucket m ! ?b) d = None then ?m1\<lparr>fm_bucket := (fm_bucket ?m1)[?b := (d, f) # fm_bucket ?m1 ! ?b]\<rparr> else ?m1)"
  have 2: "fm_InsertUnlocked ?m1 d f = Done (fm_find m d = None, m2)"
    by (auto simp: fm_InsertUnlocked_def fm_Insert_def Let_def h m2_def r fm_lock_def)
  have h2: "HashToBucket m2 d = ?b" and b2: "GetBuckets m2 = GetBuckets m"
    by (simp_all add: m2_def HashToBucket_def GetBuckets_def fm_lock_def)
  have "fm_Release_digest m2 d = Done (fm_unlock m2 ?b)"
    using HashToBucket_lt [OF w, of d] by (simp add: fm_Release_digest_def fm_Release_def h2 b2)
  also have "fm_unlock m2 ?b = snd (fm_insert m d f)"
    using free(1) [of d]
    by (cases m) (auto simp: m2_def fm_insert_def fm_Insert_def Let_def fm_lock_def fm_unlock_def HashToBucket_def GetBuckets_def)
  finally show "\<exists>m2. fm_InsertUnlocked ?m1 d f = Done (fm_find m d = None, m2) \<and> fm_Release_digest m2 d = Done (snd (fm_insert m d f))"
    using 2 by blast
qed

text \<open>
  A new flow map that receives insertions holds, for every digest, the first
  flow inserted for it and nothing else.
\<close>

theorem flow_map_first_insert_wins:
  assumes "0 < n"
  shows "fm_lookup (foldl (\<lambda>m (d, f). snd (fm_insert m d f)) (ndFlowMap_new n) (kvs :: (digest \<times> 'f) list)) d
    = map_of kvs d"
proof -
  let ?m = "ndFlowMap_new n :: 'f flow_map"
  have new: "fm_free ?m" and "fm_find ?m d = None"
    using assms by (auto simp: fm_free_def fm_wf_def ndFlowMap_new_def GetBuckets_def fm_find_def map_of_eq_None_iff)
  then have "fm_lookup ?m d = None" by (simp add: fm_lookup_def fm_Lookup_free)
  then show ?thesis using fms.lookup_insert_all [OF new, of kvs d] by (simp add: fms.insert_all_def)
qed

theorem flow_map_first_insert_wins_witness:
  "fm_lookup (foldl (\<lambda>m (d, f). snd (fm_insert m d f)) (ndFlowMap_new 128)
     [([1, 2, 3, 4, 5, 6, 7, 8], ''a''), ([1, 2, 3, 4, 5, 6, 7, 8], ''b'')]) [1, 2, 3, 4, 5, 6, 7, 8] = Some ''a''"
  using flow_map_first_insert_wins [of 128 "[([1, 2, 3, 4, 5, 6, 7, 8], ''a''), ([1, 2, 3, 4, 5, 6, 7, 8], ''b'')]"
    "[1, 2, 3, 4, 5, 6, 7, 8]"] by simp

text \<open>
  C18. A \<open>Lookup\<close> that keeps the lock makes the update of a bucket atomic: until the
  lock is released, every locking operation on a digest of this bucket waits,
  and \<open>InsertUnlocked\<close> followed by \<open>Release\<close> leaves the map that \<open>Insert\<close> would.
\<close>

theorem flow_map_lock_protocol:
  assumes "fm_free m" "fm_Lookup m d True = Done (r, m1)"
  shows "r = fm_find m d
    \<and> (\<forall>j. HashToBucket m j = HashToBucket m d \<longrightarrow>
         fm_Lookup m1 j a = Blocked \<and> fm_Insert m1 j g False = Blocked \<and> fm_Delete m1 j = Blocked)
    \<and> (\<exists>m2. fm_InsertUnlocked m1 d f = Done (r = None, m2)
         \<and> fm_Release_digest m2 d = Done (snd (fm_insert m d f)))"
proof -
  let ?b = "HashToBucket m d"
  have lt: "?b < length (fm_locked m)" using assms(1) HashToBucket_lt [of m d] by (simp add: fm_free_def fm_wf_def)
  have m1: "r = fm_find m d" "m1 = fm_lock m ?b" using assms(2) fm_locked_session(1) [OF assms(1), of d] by simp_all
  have h: "HashToBucket m1 j = HashToBucket m j" for j by (simp add: m1(2) HashToBucket_def GetBuckets_def fm_lock_def)
  have "fm_locked m1 ! ?b" using lt by (simp add: m1(2) fm_lock_def)
  then have "\<forall>j. HashToBucket m j = ?b \<longrightarrow>
      fm_Lookup m1 j a = Blocked \<and> fm_Insert m1 j g False = Blocked \<and> fm_Delete m1 j = Blocked"
    by (simp add: fm_Lookup_def fm_Insert_def fm_Delete_def Let_def h)
  then show ?thesis using fm_locked_session(3) [OF assms(1), of d f] m1 by simp
qed

theorem flow_map_lock_protocol_witness:
  "let d = [1, 2, 3, 4, 5, 6, 7, 8]; m = ndFlowMap_new 4 :: nat flow_map; m1 = fm_lock m (HashToBucket m d)
   in fm_Insert m1 d 7 False = Blocked \<and> fm_Release_digest (snd (done_value (False, m) (fm_InsertUnlocked m1 d 5))) d
        = Done (snd (fm_insert m d 5))"
proof -
  let ?d = "[1, 2, 3, 4, 5, 6, 7, 8] :: digest"
  let ?m = "ndFlowMap_new 4 :: nat flow_map"
  have "fm_free ?m" by (simp add: fm_free_def fm_wf_def ndFlowMap_new_def GetBuckets_def)
  moreover have "fm_Lookup ?m ?d True = Done (None, fm_lock ?m (HashToBucket ?m ?d))"
    using fm_locks(1) [OF calculation] HashToBucket_lt [of ?m ?d] calculation
    by (simp add: fm_Lookup_def Let_def fm_free_def) (simp add: fm_lock_def ndFlowMap_new_def GetBuckets_def)
  ultimately obtain m2 where "\<forall>j. HashToBucket ?m j = HashToBucket ?m ?d \<longrightarrow>
      fm_Insert (fm_lock ?m (HashToBucket ?m ?d)) j 7 False = Blocked"
    "fm_InsertUnlocked (fm_lock ?m (HashToBucket ?m ?d)) ?d 5 = Done (True, m2)"
    "fm_Release_digest m2 ?d = Done (snd (fm_insert ?m ?d 5))"
    using flow_map_lock_protocol [of ?m ?d None _ False 7 5] by (metis (full_types))
  then show ?thesis by (simp add: Let_def)
qed

end
