(* ===== verification/NdFhc.thy ===== *)
theory NdFhc
  imports NdPrelude
begin

text \<open>
  The flow hash cache (\<open>src/src/nd-fhc.cpp\<close>): a list of pairs of hashes, most
  recently used first, and a map from the lower hash to the list node. A node has
  an identity, which is what an iterator is; \<open>fhc_next\<close> is the identity of the
  next node. The purge divisor and the files of the cache are arguments.
\<close>

section \<open>Caches kept in a file\<close>

locale saved_cache =
  fixes save :: "'s \<Rightarrow> 'f" and load :: "'f \<Rightarrow> 's" and view :: "'s \<Rightarrow> 'k \<Rightarrow> 'v option" and ok :: "'s \<Rightarrow> bool"
  assumes ok_load: "ok s \<Longrightarrow> ok (load (save s))"
    and view_load: "ok s \<Longrightarrow> view (load (save s)) = view s"
begin

lemma restarts:
  assumes "ok s"
  shows "ok (((load \<circ> save) ^^ n) s) \<and> view (((load \<circ> save) ^^ n) s) = view s"
  using assms by (induction n) (auto simp: ok_load view_load)

end

section \<open>The cache\<close>

type_synonym fhc_node = "nat \<times> digest \<times> digest"

record fhc =
  fhc_cache_size :: nat
  fhc_index :: "fhc_node list"
  fhc_lookup :: "(digest \<times> nat) list"
  fhc_next :: nat

definition ndFlowHashCache_new :: "nat \<Rightarrow> fhc" where
  "ndFlowHashCache_new cache_size =
     \<lparr>fhc_cache_size = cache_size, fhc_index = [], fhc_lookup = [], fhc_next = 0\<rparr>"

text \<open>One turn of the purge loop. \<open>back\<close> of an empty list is undefined; the loop never gets there.\<close>

definition fhc_purge_last :: "fhc \<Rightarrow> fhc" where
  "fhc_purge_last c =
     (if fhc_index c = [] then c
      else c\<lparr>fhc_lookup := al_delete (fst (snd (last (fhc_index c)))) (fhc_lookup c),
             fhc_index := butlast (fhc_index c)\<rparr>)"

definition fhc_push_front :: "digest \<Rightarrow> digest \<Rightarrow> fhc \<Rightarrow> fhc" where
  "fhc_push_front lower_hash upper_hash c =
     c\<lparr>fhc_index := (fhc_next c, lower_hash, upper_hash) # fhc_index c,
       fhc_lookup := al_update lower_hash (fhc_next c) (fhc_lookup c),
       fhc_next := fhc_next c + 1\<rparr>"

definition fhc_Push :: "nat \<Rightarrow> fhc \<Rightarrow> digest \<Rightarrow> digest \<Rightarrow> fhc" where
  "fhc_Push divisor c lower_hash upper_hash =
     (if map_of (fhc_lookup c) lower_hash \<noteq> None then c
      else
        (let c = (if length (fhc_lookup c) = fhc_cache_size c
                  then (fhc_purge_last ^^ (fhc_cache_size c div divisor)) c else c)
         in fhc_push_front lower_hash upper_hash c))"

definition fhc_Pop :: "fhc \<Rightarrow> digest \<Rightarrow> digest option \<times> fhc" where
  "fhc_Pop c lower_hash =
     (case map_of (fhc_lookup c) lower_hash of
        None \<Rightarrow> (None, c)
      | Some i \<Rightarrow>
          (let upper_hash = (case map_of (fhc_index c) i of Some (_, u) \<Rightarrow> u | None \<Rightarrow> []);
               c = c\<lparr>fhc_index := al_delete i (fhc_index c)\<rparr>
           in (Some upper_hash, fhc_push_front lower_hash upper_hash c)))"

section \<open>The file\<close>

definition SHA1_DIGEST_LENGTH :: nat where "SHA1_DIGEST_LENGTH = 20"

text \<open>\<open>fread\<close> of a record that is not complete ends the loop.\<close>

fun fhc_load_loop :: "nat \<Rightarrow> bytes \<Rightarrow> fhc \<Rightarrow> fhc" where
  "fhc_load_loop divisor data c =
     (if length data < 40 then c
      else fhc_load_loop divisor (drop 40 data)
             (fhc_Push divisor c (take 20 data) (take 20 (drop 20 data))))"

declare fhc_load_loop.simps [simp del]

datatype nd_fhc_save = ndFHC_DISABLED | ndFHC_PERSISTENT | ndFHC_VOLATILE

definition fhc_filename :: "nd_fhc_save \<Rightarrow> string \<Rightarrow> string \<Rightarrow> string option" where
  "fhc_filename mode persistent volatile =
     (case mode of ndFHC_PERSISTENT \<Rightarrow> Some (persistent @ ''/flow-hash-cache.dat'')
      | ndFHC_VOLATILE \<Rightarrow> Some (volatile @ ''/flow-hash-cache.dat'')
      | ndFHC_DISABLED \<Rightarrow> None)"

definition fhc_Load :: "(string \<Rightarrow> bytes option) \<Rightarrow> string option \<Rightarrow> nat \<Rightarrow> fhc \<Rightarrow> fhc" where
  "fhc_Load fs filename divisor c =
     (case filename of None \<Rightarrow> c
      | Some f \<Rightarrow> (case fs f of None \<Rightarrow> c | Some data \<Rightarrow> fhc_load_loop divisor data c))"

definition fhc_data :: "fhc \<Rightarrow> bytes" where
  "fhc_data c = concat (map (\<lambda>(_, l, u). take 20 l @ take 20 u) (fhc_index c))"

definition fhc_Save ::
  "(string \<Rightarrow> bytes option) \<Rightarrow> (string \<Rightarrow> bool) \<Rightarrow> string option \<Rightarrow> fhc \<Rightarrow> (string \<Rightarrow> bytes option)" where
  "fhc_Save fs writable filename c =
     (case filename of None \<Rightarrow> fs
      | Some f \<Rightarrow> if writable f then fs(f \<mapsto> fhc_data c) else fs)"

section \<open>Consistency of the index and the map\<close>

definition fhc_wf :: "fhc \<Rightarrow> bool" where
  "fhc_wf c \<longleftrightarrow> distinct (map fst (fhc_lookup c))
     \<and> distinct (map fst (fhc_index c)) \<and> distinct (map (\<lambda>n. fst (snd n)) (fhc_index c))
     \<and> (\<forall>n \<in> set (fhc_index c). fst n < fhc_next c)
     \<and> (\<forall>h i. map_of (fhc_lookup c) h = Some i \<longleftrightarrow> (\<exists>u. (i, h, u) \<in> set (fhc_index c)))"

text \<open>The pairs of the cache, most recently used first, and the map they stand for.\<close>

definition fhc_entries :: "fhc \<Rightarrow> (digest \<times> digest) list" where
  "fhc_entries c = map snd (fhc_index c)"

definition fhc_view :: "fhc \<Rightarrow> digest \<Rightarrow> digest option" where
  "fhc_view c = map_of (fhc_entries c)"

lemma fhc_wf_new [simp]: "fhc_wf (ndFlowHashCache_new n)"
  by (simp add: fhc_wf_def ndFlowHashCache_new_def)

lemma fhc_lookup_view:
  assumes "fhc_wf c"
  shows "map_of (fhc_lookup c) h = None \<longleftrightarrow> fhc_view c h = None"
proof -
  have "map_of (fhc_lookup c) h = None \<longleftrightarrow> (\<forall>i u. (i, h, u) \<notin> set (fhc_index c))"
    using assms by (metis fhc_wf_def not_None_eq)
  also have "\<dots> \<longleftrightarrow> h \<notin> fst ` set (fhc_entries c)" by (force simp: fhc_entries_def)
  finally show ?thesis by (simp add: fhc_view_def map_of_eq_None_iff)
qed

lemma fhc_lookup_length:
  assumes "fhc_wf c"
  shows "length (fhc_lookup c) = length (fhc_index c)"
proof -
  let ?l = "map fst (fhc_lookup c)" and ?i = "map (\<lambda>n. fst (snd n)) (fhc_index c)"
  have "h \<in> set ?l \<longleftrightarrow> h \<in> set ?i" for h
  proof -
    have "h \<in> set ?l \<longleftrightarrow> map_of (fhc_lookup c) h \<noteq> None" by (simp add: map_of_eq_None_iff)
    also have "\<dots> \<longleftrightarrow> (\<exists>i u. (i, h, u) \<in> set (fhc_index c))" using assms by (metis fhc_wf_def not_None_eq)
    finally show ?thesis by force
  qed
  then have "set ?l = set ?i" by blast
  moreover have "distinct ?l" "distinct ?i" using assms by (simp_all add: fhc_wf_def)
  ultimately have "length ?l = length ?i" using distinct_card [of ?l] distinct_card [of ?i] by simp
  then show ?thesis by simp
qed

section \<open>Refinement of a list of recently used pairs\<close>

text \<open>The abstract cache: a list of distinct keys that forgets its tail when it is full.\<close>

definition lru_push :: "nat \<Rightarrow> nat \<Rightarrow> digest \<Rightarrow> digest \<Rightarrow> (digest \<times> digest) list \<Rightarrow> (digest \<times> digest) list" where
  "lru_push cap drop_n l u es =
     (if map_of es l \<noteq> None then es
      else (l, u) # (if length es = cap then take (cap - drop_n) es else es))"

definition lru_pop :: "digest \<Rightarrow> (digest \<times> digest) list \<Rightarrow> digest option \<times> (digest \<times> digest) list" where
  "lru_pop l es = (case map_of es l of None \<Rightarrow> (None, es) | Some u \<Rightarrow> (Some u, (l, u) # al_delete l es))"

lemma fhc_purge_last:
  assumes "fhc_wf c"
  shows "fhc_wf (fhc_purge_last c) \<and> fhc_entries (fhc_purge_last c) = butlast (fhc_entries c)
    \<and> fhc_cache_size (fhc_purge_last c) = fhc_cache_size c"
proof (cases "fhc_index c" rule: rev_cases)
  case (snoc xs n)
  obtain i h u where n: "n = (i, h, u)" by (cases n)
  have w: "distinct (map fst xs)" "distinct (map (\<lambda>n. fst (snd n)) xs)" "\<forall>n \<in> set xs. fst n < fhc_next c"
    "h \<notin> (\<lambda>n. fst (snd n)) ` set xs"
    "distinct (map fst (al_delete h (fhc_lookup c)))"
    using assms by (auto simp: fhc_wf_def snoc n al_delete_def distinct_map_filter)
  moreover have "map_of (al_delete h (fhc_lookup c)) h' = Some j \<longleftrightarrow> (\<exists>u. (j, h', u) \<in> set xs)" for h' j
  proof -
    have "map_of (fhc_lookup c) h' = Some j \<longleftrightarrow> (\<exists>u'. (j, h', u') \<in> set xs \<or> (j, h', u') = (i, h, u))"
      using assms unfolding fhc_wf_def snoc n by simp blast
    then show ?thesis using w(4) by (cases "h' = h") force+
  qed
  ultimately show ?thesis by (simp add: fhc_wf_def fhc_purge_last_def fhc_entries_def snoc n map_butlast)
qed (simp add: fhc_purge_last_def assms fhc_entries_def)

lemma fhc_purge_last_n:
  assumes "fhc_wf c"
  shows "fhc_wf ((fhc_purge_last ^^ n) c)
    \<and> fhc_entries ((fhc_purge_last ^^ n) c) = take (length (fhc_entries c) - n) (fhc_entries c)
    \<and> fhc_cache_size ((fhc_purge_last ^^ n) c) = fhc_cache_size c"
proof (induction n)
  case (Suc n)
  then show ?case using fhc_purge_last [of "(fhc_purge_last ^^ n) c"]
    by (simp add: butlast_take)
qed (simp add: assms)

lemma fhc_push_front:
  assumes "distinct (map fst (fhc_lookup c))" "distinct (map fst (fhc_index c))"
    "distinct (map (\<lambda>n. fst (snd n)) (fhc_index c))" "\<forall>n \<in> set (fhc_index c). fst n < fhc_next c"
    and l: "\<forall>i u. (i, l, u) \<notin> set (fhc_index c)"
    and m: "\<And>h i. h \<noteq> l \<Longrightarrow> map_of (fhc_lookup c) h = Some i \<longleftrightarrow> (\<exists>u. (i, h, u) \<in> set (fhc_index c))"
  shows "fhc_wf (fhc_push_front l u c) \<and> fhc_entries (fhc_push_front l u c) = (l, u) # fhc_entries c"
proof -
  let ?c = "fhc_push_front l u c"
  have "map_of (fhc_lookup ?c) h = Some i \<longleftrightarrow> (\<exists>u. (i, h, u) \<in> set (fhc_index ?c))" for h i
    using m [of h i] l by (cases "h = l") (auto simp: fhc_push_front_def)
  moreover have "fhc_next c \<notin> fst ` set (fhc_index c)" "l \<notin> (\<lambda>n. fst (snd n)) ` set (fhc_index c)"
    using assms(4) l by force+
  ultimately show ?thesis
    using assms(1-4) by (auto simp: fhc_wf_def fhc_push_front_def fhc_entries_def less_Suc_eq)
qed

lemma fhc_Push_correct:
  assumes "fhc_wf c"
  shows "fhc_wf (fhc_Push divisor c l u)
    \<and> fhc_entries (fhc_Push divisor c l u) =
        lru_push (fhc_cache_size c) (fhc_cache_size c div divisor) l u (fhc_entries c)
    \<and> fhc_cache_size (fhc_Push divisor c l u) = fhc_cache_size c"
proof (cases "map_of (fhc_lookup c) l")
  case None
  define d where "d = (if length (fhc_lookup c) = fhc_cache_size c
    then (fhc_purge_last ^^ (fhc_cache_size c div divisor)) c else c)"
  have v: "map_of (fhc_entries c) l = None" using None fhc_lookup_view [OF assms] by (simp add: fhc_view_def)
  have d: "fhc_wf d" "fhc_cache_size d = fhc_cache_size c"
    "fhc_entries d = (if length (fhc_entries c) = fhc_cache_size c
       then take (fhc_cache_size c - fhc_cache_size c div divisor) (fhc_entries c) else fhc_entries c)"
    using fhc_purge_last_n [OF assms] fhc_lookup_length [OF assms] assms by (auto simp: d_def fhc_entries_def)
  have "set (fhc_entries d) \<subseteq> set (fhc_entries c)" unfolding d(3) by (auto dest: in_set_takeD)
  then have "(i, l, u') \<notin> set (fhc_index d)" for i u'
    using v by (force simp: map_of_eq_None_iff fhc_entries_def)
  then have "fhc_wf (fhc_push_front l u d) \<and> fhc_entries (fhc_push_front l u d) = (l, u) # fhc_entries d"
    using d(1) by (intro fhc_push_front) (auto simp: fhc_wf_def)
  moreover have "fhc_Push divisor c l u = fhc_push_front l u d" by (simp add: fhc_Push_def None d_def)
  ultimately show ?thesis using v d(2) by (simp add: lru_push_def d(3)) (simp add: fhc_push_front_def)
next
  case (Some i)
  then show ?thesis using fhc_lookup_view [OF assms, of l] assms
    by (auto simp: fhc_Push_def lru_push_def fhc_view_def)
qed

lemma fhc_Pop_correct:
  assumes "fhc_wf c"
  shows "fhc_wf (snd (fhc_Pop c l))
    \<and> (fst (fhc_Pop c l), fhc_entries (snd (fhc_Pop c l))) = lru_pop l (fhc_entries c)
    \<and> fhc_cache_size (snd (fhc_Pop c l)) = fhc_cache_size c"
proof (cases "map_of (fhc_lookup c) l")
  case None
  then show ?thesis using fhc_lookup_view [OF assms, of l] assms
    by (simp add: fhc_Pop_def lru_pop_def fhc_view_def)
next
  case (Some i)
  obtain u where u: "(i, l, u) \<in> set (fhc_index c)" using Some assms by (auto simp: fhc_wf_def)
  have di: "distinct (map fst (fhc_index c))" and dl: "distinct (map (\<lambda>n. fst (snd n)) (fhc_index c))"
    using assms by (simp_all add: fhc_wf_def)
  have mi: "map_of (fhc_index c) i = Some (l, u)" using di u by simp
  have e: "map fst (fhc_entries c) = map (\<lambda>n. fst (snd n)) (fhc_index c)" by (simp add: fhc_entries_def)
  have "(l, u) \<in> set (fhc_entries c)" using u by (force simp: fhc_entries_def)
  then have ml: "map_of (fhc_entries c) l = Some u" using dl e by simp
  have same: "fst n = i \<longleftrightarrow> fst (snd n) = l" if "n \<in> set (fhc_index c)" for n
    using that u di dl by (metis distinct_map fst_conv inj_on_eq_iff snd_conv)
  let ?d = "c\<lparr>fhc_index := al_delete i (fhc_index c)\<rparr>"
  have ed: "fhc_entries ?d = al_delete l (fhc_entries c)"
    using same by (auto simp: fhc_entries_def al_delete_def filter_map o_def intro!: arg_cong [where f = "map snd"] filter_cong)
  have "fhc_wf (fhc_push_front l u ?d) \<and> fhc_entries (fhc_push_front l u ?d) = (l, u) # fhc_entries ?d"
  proof (rule fhc_push_front)
    show "\<forall>i' u'. (i', l, u') \<notin> set (fhc_index ?d)" using same by (force simp: al_delete_def)
    show "map_of (fhc_lookup ?d) h = Some j \<longleftrightarrow> (\<exists>u. (j, h, u) \<in> set (fhc_index ?d))" if "h \<noteq> l" for h j
    proof -
      have "(j, h, u) \<in> set (fhc_index ?d) \<longleftrightarrow> (j, h, u) \<in> set (fhc_index c)" for u
        using same [of "(j, h, u)"] that by (auto simp: al_delete_def)
      moreover have "map_of (fhc_lookup c) h = Some j \<longleftrightarrow> (\<exists>u. (j, h, u) \<in> set (fhc_index c))"
        using assms by (simp add: fhc_wf_def)
      ultimately show ?thesis by simp
    qed
  qed (use assms in \<open>auto simp: fhc_wf_def al_delete_def distinct_map_filter\<close>)
  moreover have "fhc_Pop c l = (Some u, fhc_push_front l u ?d)" by (simp add: fhc_Pop_def Some mi)
  ultimately show ?thesis by (simp add: lru_pop_def ml ed) (simp add: fhc_push_front_def)
qed



text \<open>A request to the cache, and a sequence of them.\<close>

datatype fhc_request = FhcPush digest digest | FhcPop digest

fun fhc_step :: "nat \<Rightarrow> fhc_request \<Rightarrow> fhc \<Rightarrow> fhc" where
  "fhc_step divisor (FhcPush l u) c = fhc_Push divisor c l u"
| "fhc_step divisor (FhcPop l) c = snd (fhc_Pop c l)"

definition fhc_ok :: "fhc \<Rightarrow> bool" where
  "fhc_ok c \<longleftrightarrow> fhc_wf c \<and> length (fhc_index c) \<le> fhc_cache_size c"

lemma al_delete_shorter: "map_of xs k \<noteq> None \<Longrightarrow> length (al_delete k xs) < length xs"
  by (induction xs) (auto simp: al_delete_def le_imp_less_Suc split: if_splits)

lemma fhc_ok_step:
  assumes "0 < divisor" "divisor \<le> fhc_cache_size c" "fhc_ok c"
  shows "fhc_ok (fhc_step divisor r c) \<and> fhc_cache_size (fhc_step divisor r c) = fhc_cache_size c"
proof -
  have w: "fhc_wf c" and l: "length (fhc_entries c) \<le> fhc_cache_size c"
    using assms(3) by (simp_all add: fhc_ok_def fhc_entries_def)
  have "0 < fhc_cache_size c div divisor" using assms(1,2) by (simp add: div_greater_zero_iff)
  then have push: "length (fhc_entries (fhc_Push divisor c lh uh)) \<le> fhc_cache_size c" for lh uh
    using l assms(1,2) fhc_Push_correct [OF w, of divisor lh uh] by (auto simp: lru_push_def)
  have pop: "length (fhc_entries (snd (fhc_Pop c lh))) \<le> fhc_cache_size c" for lh
  proof (cases "map_of (fhc_entries c) lh")
    case (Some u)
    then have "length (al_delete lh (fhc_entries c)) < length (fhc_entries c)" by (intro al_delete_shorter) simp
    then show ?thesis using Some l fhc_Pop_correct [OF w, of lh] by (simp add: lru_pop_def prod_eq_iff)
  qed (use l fhc_Pop_correct [OF w, of lh] in \<open>simp add: lru_pop_def prod_eq_iff\<close>)
  have "length (fhc_entries (fhc_step divisor r c)) \<le> fhc_cache_size c" using push pop by (cases r) simp_all
  then show ?thesis using fhc_Push_correct [OF w] fhc_Pop_correct [OF w]
    by (cases r) (simp_all add: fhc_ok_def fhc_entries_def)
qed

text \<open>
  C34. With a purge divisor between one and the size of the cache, no sequence of
  requests to an empty cache makes it exceed its size.
\<close>

theorem fhc_bounded:
  assumes "0 < divisor" "divisor \<le> n"
  shows "length (fhc_lookup (fold (fhc_step divisor) rs (ndFlowHashCache_new n))) \<le> n"
proof -
  have "fhc_ok (fold (fhc_step divisor) rs c) \<and> fhc_cache_size (fold (fhc_step divisor) rs c) = n"
    if "fhc_ok c" "fhc_cache_size c = n" for c
    using that by (induction rs arbitrary: c) (simp_all add: fhc_ok_step assms)
  from this [of "ndFlowHashCache_new n"] show ?thesis
    using fhc_lookup_length
    by (metis fhc.select_convs(1,2) fhc_ok_def fhc_wf_new le0 list.size(3) ndFlowHashCache_new_def)
qed

theorem fhc_bounded_witness:
  "length (fhc_lookup (fold (fhc_step 10) [FhcPush [1] [2], FhcPop [1]] (ndFlowHashCache_new 10000))) \<le> 10000"
  by (rule fhc_bounded) simp_all

text \<open>With a larger divisor nothing is purged, and the cache grows without bound.\<close>

lemma fhc_unbounded:
  assumes "fhc_wf c" "fhc_cache_size c < divisor" "fhc_view c l = None"
  shows "length (fhc_index (fhc_Push divisor c l u)) = Suc (length (fhc_index c))"
  using fhc_Push_correct [OF assms(1), of divisor l u] assms(2,3)
  by (auto simp: lru_push_def fhc_entries_def fhc_view_def dest!: arg_cong [where f = length] split: if_splits)

section \<open>Saving and loading\<close>

definition fhc_storable :: "fhc \<Rightarrow> bool" where
  "fhc_storable c \<longleftrightarrow> fhc_ok c \<and> (\<forall>p \<in> set (fhc_entries c). length (fst p) = 20 \<and> length (snd p) = 20)"

definition fhc_load_data :: "nat \<Rightarrow> nat \<Rightarrow> bytes \<Rightarrow> fhc" where
  "fhc_load_data divisor n data = fhc_load_loop divisor data (ndFlowHashCache_new n)"

lemma fhc_load_loop_entries:
  assumes "\<forall>p \<in> set es. length (fst p) = 20 \<and> length (snd p) = 20" "fhc_wf c"
    "distinct (map fst (es @ fhc_entries c))" "length es + length (fhc_entries c) \<le> fhc_cache_size c"
  shows "let c' = fhc_load_loop divisor (concat (map (\<lambda>(l, u). take 20 l @ take 20 u) es)) c
    in fhc_wf c' \<and> fhc_entries c' = rev es @ fhc_entries c \<and> fhc_cache_size c' = fhc_cache_size c"
  using assms
proof (induction es arbitrary: c)
  case Nil
  then show ?case by (simp add: fhc_load_loop.simps)
next
  case (Cons p es)
  obtain l u where p: "p = (l, u)" by force
  have lu: "length l = 20" "length u = 20" using Cons.prems(1) p by simp_all
  let ?c = "fhc_Push divisor c l u"
  have "map_of (fhc_entries c) l = None" using Cons.prems(3) p by (auto simp: map_of_eq_None_iff)
  then have c: "fhc_wf ?c" "fhc_entries ?c = (l, u) # fhc_entries c" "fhc_cache_size ?c = fhc_cache_size c"
    using fhc_Push_correct [OF Cons.prems(2), of divisor l u] Cons.prems(4) by (auto simp: lru_push_def)
  have "fhc_load_loop divisor (concat (map (\<lambda>(l, u). take 20 l @ take 20 u) (p # es))) c
      = fhc_load_loop divisor (concat (map (\<lambda>(l, u). take 20 l @ take 20 u) es)) ?c"
    using lu by (subst fhc_load_loop.simps) (simp add: p)
  then show ?case using Cons.IH [of ?c] Cons.prems c p by (auto simp: Let_def)
qed

lemma fhc_entries_new:
  "fhc_entries (ndFlowHashCache_new n) = []" "fhc_cache_size (ndFlowHashCache_new n) = n"
  by (simp_all add: fhc_entries_def ndFlowHashCache_new_def)

lemma length_fhc_entries: "length (fhc_entries c) = length (fhc_index c)"
  by (simp add: fhc_entries_def)

lemma fhc_load_data_entries:
  assumes "fhc_storable c"
  shows "fhc_wf (fhc_load_data divisor (fhc_cache_size c) (fhc_data c))"
    and "fhc_entries (fhc_load_data divisor (fhc_cache_size c) (fhc_data c)) = rev (fhc_entries c)"
    and "fhc_cache_size (fhc_load_data divisor (fhc_cache_size c) (fhc_data c)) = fhc_cache_size c"
proof -
  have d: "fhc_data c = concat (map (\<lambda>(l, u). take 20 l @ take 20 u) (fhc_entries c))"
    by (simp add: fhc_data_def fhc_entries_def o_def split_def)
  have "map fst (fhc_entries c) = map (\<lambda>n. fst (snd n)) (fhc_index c)" by (simp add: fhc_entries_def)
  then have "distinct (map fst (fhc_entries c))" using assms by (simp add: fhc_storable_def fhc_ok_def fhc_wf_def)
  then show "fhc_wf (fhc_load_data divisor (fhc_cache_size c) (fhc_data c))"
    and "fhc_entries (fhc_load_data divisor (fhc_cache_size c) (fhc_data c)) = rev (fhc_entries c)"
    and "fhc_cache_size (fhc_load_data divisor (fhc_cache_size c) (fhc_data c)) = fhc_cache_size c"
    using fhc_load_loop_entries [of "fhc_entries c" "ndFlowHashCache_new (fhc_cache_size c)" divisor] assms
      fhc_entries_new [of "fhc_cache_size c"] length_fhc_entries [of c]
    by (auto simp: fhc_load_data_def d Let_def fhc_storable_def fhc_ok_def)
qed

text \<open>The cache of the configured size is one that survives restarts.\<close>

interpretation fhcs: saved_cache fhc_data "fhc_load_data 10 10000" fhc_view "\<lambda>c. fhc_storable c \<and> fhc_cache_size c = 10000"
proof
  fix c assume c: "fhc_storable c \<and> fhc_cache_size c = 10000"
  note l = fhc_load_data_entries [of c 10]
  let ?d = "fhc_load_data 10 10000 (fhc_data c)"
  have d: "fhc_wf ?d" "fhc_entries ?d = rev (fhc_entries c)" "fhc_cache_size ?d = 10000" using l c by simp_all
  then have "length (fhc_index ?d) = length (fhc_index c)" by (metis fhc_entries_def length_map length_rev)
  then show "fhc_storable ?d \<and> fhc_cache_size ?d = 10000" using c d by (simp add: fhc_storable_def fhc_ok_def)
  have "map fst (fhc_entries c) = map (\<lambda>n. fst (snd n)) (fhc_index c)" by (simp add: fhc_entries_def)
  then have "distinct (map fst (fhc_entries c))" using c by (simp add: fhc_storable_def fhc_ok_def fhc_wf_def)
  then show "fhc_view ?d = fhc_view c" by (simp add: fhc_view_def d(2) map_of_rev)
qed

text \<open>
  A cache of SHA-1 pairs that is saved and loaded, any number of times, holds
  the same pairs; one restart reverses the order of use.
\<close>

theorem fhc_survives_restarts:
  assumes "fhc_storable c" "fhc_cache_size c = 10000" "writable f"
  shows "fhc_entries (fhc_Load (fhc_Save fs writable (Some f) c) (Some f) 10 (ndFlowHashCache_new 10000))
      = rev (fhc_entries c)
    \<and> fhc_view (((fhc_load_data 10 10000 \<circ> fhc_data) ^^ n) c) = fhc_view c"
  using fhc_load_data_entries(2) [OF assms(1), of 10] fhcs.restarts [of c n] assms
  by (simp add: fhc_Load_def fhc_Save_def fhc_load_data_def)

theorem fhc_survives_restarts_witness:
  "let c = fhc_Push 10 (ndFlowHashCache_new 10000) (replicate 20 1) (replicate 20 2)
   in fhc_view (((fhc_load_data 10 10000 \<circ> fhc_data) ^^ 3) c) (replicate 20 1) = Some (replicate 20 2)"
proof -
  define c where "c = fhc_Push 10 (ndFlowHashCache_new 10000) (replicate 20 1) (replicate 20 2)"
  have e: "fhc_entries c = [(replicate 20 1, replicate 20 2)]" "fhc_cache_size c = 10000" and w: "fhc_wf c"
    using fhc_Push_correct [OF fhc_wf_new, of 10 10000 "replicate 20 1" "replicate 20 2"]
    by (simp_all add: c_def fhc_entries_new lru_push_def)
  then have "fhc_storable c" using length_fhc_entries [of c] by (simp add: fhc_storable_def fhc_ok_def)
  from fhc_survives_restarts [OF this e(2), of "\<lambda>_. True" "''f''" Map.empty 3] have
    "fhc_view (((fhc_load_data 10 10000 \<circ> fhc_data) ^^ 3) c) = fhc_view c" by simp
  then show ?thesis by (simp add: Let_def fhc_view_def e flip: c_def)
qed

end
