(* ===== verification/NdDhc.thy ===== *)
theory NdDhc
  imports NdAddrType NdSystem NdFhc
begin

text \<open>
  The DNS hint cache (\<open>src/src/nd-dhc.cpp\<close>): a map from the SHA-1 of an address
  to an expiry time and a host name. SHA-1, the address classification, the
  monotonic clock (one value per call) and the time to live of an entry are
  arguments. Time is that of the monotonic clock in seconds.
\<close>

type_synonym dhc = "(digest \<times> time_t \<times> string) list"

definition dhc_GetSize :: "dhc \<Rightarrow> nat" where
  "dhc_GetSize c = length c"

text \<open>The address is one to be cached; \<open>Insert\<close> moreover wants it unclassified.\<close>

definition dhc_addr_ok :: "nd_addr \<Rightarrow> bool" where
  "dhc_addr_ok a \<longleftrightarrow> IsValid a \<and> IsIP a \<and> \<not> IsNetwork a"

definition dhc_Insert_addr ::
  "inet_ntop \<Rightarrow> addr_types \<Rightarrow> (bytes \<Rightarrow> digest) \<Rightarrow> time_t \<Rightarrow> time_t \<Rightarrow> dhc \<Rightarrow> nd_addr \<Rightarrow> string \<Rightarrow> dhc" where
  "dhc_Insert_addr ntop types sha1 now ttl c a hostname =
     (if \<not> dhc_addr_ok a then c
      else if Classify ntop types a \<noteq> atOTHER then c
      else case GetAddress a of
        None \<Rightarrow> c
      | Some sa \<Rightarrow>
          (let d = sha1 (take (GetAddressSize a) sa) in
           case map_of c d of
             None \<Rightarrow> al_update d (now + ttl, hostname) c
           | Some (_, h) \<Rightarrow> al_update d (now + ttl, h) c))"

text \<open>The bytes of the hexadecimal digest, at most twenty; \<open>sscanf\<close> skips white space.\<close>

fun dhc_hex :: "nat \<Rightarrow> string \<Rightarrow> bytes" where
  "dhc_hex 0 p = []"
| "dhc_hex (Suc k) p = (case sscanf_2hhx p of None \<Rightarrow> [] | Some v \<Rightarrow> v # dhc_hex k (drop 2 p))"

definition dhc_Insert :: "time_t \<Rightarrow> time_t \<Rightarrow> dhc \<Rightarrow> string \<Rightarrow> string \<Rightarrow> dhc" where
  "dhc_Insert now ttl c hexdigest hostname =
     (let d = dhc_hex 20 hexdigest in
      if length d \<noteq> 20 then c
      else if map_of c d \<noteq> None then c
      else al_update d (now + ttl, hostname) c)"

definition dhc_Lookup :: "time_t \<Rightarrow> time_t \<Rightarrow> dhc \<Rightarrow> digest \<Rightarrow> string option \<times> dhc" where
  "dhc_Lookup now ttl c d =
     (case map_of c d of
        None \<Rightarrow> (None, c)
      | Some (_, h) \<Rightarrow> (Some h, al_update d (now + ttl, h) c))"

definition dhc_Lookup_addr ::
  "(bytes \<Rightarrow> digest) \<Rightarrow> time_t \<Rightarrow> time_t \<Rightarrow> dhc \<Rightarrow> nd_addr \<Rightarrow> string option \<times> dhc" where
  "dhc_Lookup_addr sha1 now ttl c a =
     (if \<not> dhc_addr_ok a then (None, c)
      else case GetAddress a of
        None \<Rightarrow> (None, c)
      | Some sa \<Rightarrow> if GetAddressSize a = 0 then (None, c)
          else dhc_Lookup now ttl c (sha1 (take (GetAddressSize a) sa)))"

definition dhc_Purge :: "time_t \<Rightarrow> dhc \<Rightarrow> nat \<times> dhc" where
  "dhc_Purge now c =
     (let c' = filter (\<lambda>(_, t, _). \<not> t < now) c in (length c - length c', c'))"

section \<open>The file\<close>

text \<open>
  The characters of \<open>%m[0-9A-z.-]\<close> and \<open>%m[0-9A-Fa-f]\<close>; \<open>A-z\<close> includes the six
  characters between the two alphabets. A scan set that matches nothing fails.
\<close>

definition host_char :: "char \<Rightarrow> bool" where
  "host_char c \<longleftrightarrow> isdigit c \<or> ((65 :: nat) \<le> of_char c \<and> of_char c \<le> (122 :: nat)) \<or> c = CHR ''.'' \<or> c = CHR ''-''"

definition hex_scan_char :: "char \<Rightarrow> bool" where
  "hex_scan_char c \<longleftrightarrow> isdigit c \<or> ((65 :: nat) \<le> of_char c \<and> of_char c \<le> (70 :: nat))
     \<or> ((97 :: nat) \<le> of_char c \<and> of_char c \<le> (102 :: nat))"

definition scan_set :: "(char \<Rightarrow> bool) \<Rightarrow> string \<Rightarrow> (string \<times> string) option" where
  "scan_set P s = (case takeWhile P s of [] \<Rightarrow> None | t \<Rightarrow> Some (t, dropWhile P s))"

fun scan_char :: "char \<Rightarrow> string \<Rightarrow> string option" where
  "scan_char c [] = None"
| "scan_char c (x # s) = (if x = c then Some s else None)"

definition scan_ld :: "string \<Rightarrow> string option" where
  "scan_ld s =
     (let s = dropWhile isspace s;
          s = (case s of c # r \<Rightarrow> if c = CHR ''-'' \<or> c = CHR ''+'' then r else s | [] \<Rightarrow> [])
      in map_option snd (scan_set isdigit s))"

text \<open>One \<open>fscanf\<close>: the host, the digest and what follows the line.\<close>

definition dhc_scan_line :: "string \<Rightarrow> (string \<times> string \<times> string) option" where
  "dhc_scan_line s = do {
     s \<leftarrow> scan_char (CHR 0x22) (dropWhile isspace s);
     (host, s) \<leftarrow> scan_set host_char s;
     s \<leftarrow> scan_char (CHR 0x22) s;
     s \<leftarrow> scan_char (CHR '','') (dropWhile isspace s);
     (digest, s) \<leftarrow> scan_set hex_scan_char (dropWhile isspace s);
     s \<leftarrow> scan_char (CHR '','') (dropWhile isspace s);
     s \<leftarrow> scan_ld s;
     Some (host, digest, dropWhile isspace s)
   }"

lemma scan_char_length: "scan_char c s = Some r \<Longrightarrow> length r < length s"
  by (cases s) (auto split: if_splits)

lemma scan_set_length: "scan_set P s = Some (t, r) \<Longrightarrow> length r \<le> length s"
  by (auto simp: scan_set_def length_dropWhile_le split: list.splits)

lemma scan_ld_length: "scan_ld s = Some r \<Longrightarrow> length r \<le> length s"
proof -
  assume a: "scan_ld s = Some r"
  let ?s = "dropWhile isspace s"
  let ?t = "case ?s of c # r \<Rightarrow> if c = CHR ''-'' \<or> c = CHR ''+'' then r else ?s | [] \<Rightarrow> []"
  have "length ?t \<le> length ?s" by (auto split: list.split)
  moreover have "length r \<le> length ?t" using a by (auto simp: scan_ld_def Let_def dest: scan_set_length)
  ultimately show ?thesis using length_dropWhile_le [of isspace s] by linarith
qed

lemma dhc_scan_line_shorter:
  assumes "dhc_scan_line s = Some (h, d, r)"
  shows "length r < length s"
proof -
  obtain s1 s2 s3 s4 s5 s6 s7 where
    "scan_char (CHR 0x22) (dropWhile isspace s) = Some s1" "scan_set host_char s1 = Some (h, s2)"
    "scan_char (CHR 0x22) s2 = Some s3" "scan_char (CHR '','') (dropWhile isspace s3) = Some s4"
    "scan_set hex_scan_char (dropWhile isspace s4) = Some (d, s5)"
    "scan_char (CHR '','') (dropWhile isspace s5) = Some s6" "scan_ld s6 = Some s7" "r = dropWhile isspace s7"
    using assms by (auto simp: dhc_scan_line_def Option.bind_eq_Some_conv)
  note f = scan_char_length [OF this(1)] scan_set_length [OF this(2)] scan_char_length [OF this(3)]
    scan_char_length [OF this(4)] scan_set_length [OF this(5)] scan_char_length [OF this(6)] scan_ld_length [OF this(7)]
  have "length r \<le> length s7" using \<open>r = dropWhile isspace s7\<close> by (simp add: length_dropWhile_le)
  then show ?thesis
    using f length_dropWhile_le [of isspace s] length_dropWhile_le [of isspace s3]
      length_dropWhile_le [of isspace s4] length_dropWhile_le [of isspace s5] by linarith
qed

text \<open>The loop stops at the end of the file, which the white space at the end of the format meets.\<close>

function dhc_load_loop :: "time_t \<Rightarrow> time_t \<Rightarrow> string \<Rightarrow> dhc \<Rightarrow> dhc" where
  "dhc_load_loop now ttl s c =
     (case dhc_scan_line s of
        None \<Rightarrow> c
      | Some (host, digest, r) \<Rightarrow>
          (let c = dhc_Insert now ttl c digest host
           in if r = [] then c else dhc_load_loop now ttl r c))"
  by pat_completeness auto
termination
  by (relation "measure (\<lambda>(_, _, s, _). length s)") (auto dest: dhc_scan_line_shorter)

declare dhc_load_loop.simps [simp del]

datatype nd_dhc_save = ndDHC_DISABLED | ndDHC_PERSISTENT | ndDHC_VOLATILE

definition dhc_filename :: "nd_dhc_save \<Rightarrow> string \<Rightarrow> string \<Rightarrow> string option" where
  "dhc_filename mode persistent volatile =
     (case mode of ndDHC_PERSISTENT \<Rightarrow> Some (persistent @ ''/dns-cache.csv'')
      | ndDHC_VOLATILE \<Rightarrow> Some (volatile @ ''/dns-cache.csv'')
      | ndDHC_DISABLED \<Rightarrow> None)"

definition dhc_load_data :: "time_t \<Rightarrow> time_t \<Rightarrow> string \<Rightarrow> dhc \<Rightarrow> dhc" where
  "dhc_load_data now ttl data c =
     (let header = fgets 1023 data in
      if header = [] then c else dhc_load_loop now ttl (drop (length header) data) c)"

definition dhc_Load :: "(string \<Rightarrow> string option) \<Rightarrow> string option \<Rightarrow> time_t \<Rightarrow> time_t \<Rightarrow> dhc \<Rightarrow> dhc" where
  "dhc_Load fs filename now ttl c =
     (case filename of None \<Rightarrow> c
      | Some f \<Rightarrow> (case fs f of None \<Rightarrow> c | Some data \<Rightarrow> dhc_load_data now ttl data c))"

definition dhc_line :: "time_t \<Rightarrow> digest \<times> time_t \<times> string \<Rightarrow> string" where
  "dhc_line now = (\<lambda>(d, t, h).
     CHR 0x22 # h @ CHR 0x22 # CHR '','' # nd_sha1_to_string d @ CHR '','' #
       nat_to_string (nat ((t - now) mod 2 ^ 32)) @ [CHR 0x0A])"

definition dhc_header :: string where
  "dhc_header = CHR 0x22 # ''host'' @ CHR 0x22 # CHR '','' # CHR 0x22 # ''addr_digest'' @
     CHR 0x22 # CHR '','' # CHR 0x22 # ''ttl'' @ [CHR 0x22, CHR 0x0A]"

definition dhc_data :: "time_t \<Rightarrow> dhc \<Rightarrow> string" where
  "dhc_data now c = dhc_header @ concat (map (dhc_line now) c)"

definition dhc_Save ::
  "(string \<Rightarrow> string option) \<Rightarrow> (string \<Rightarrow> bool) \<Rightarrow> string option \<Rightarrow> time_t \<Rightarrow> dhc \<Rightarrow> (string \<Rightarrow> string option)" where
  "dhc_Save fs writable filename now c =
     (case filename of None \<Rightarrow> fs
      | Some f \<Rightarrow> if writable f then fs(f \<mapsto> dhc_data now c) else fs)"

section \<open>Round trip\<close>

definition dhc_storable :: "dhc \<Rightarrow> bool" where
  "dhc_storable c \<longleftrightarrow> distinct (map fst c)
     \<and> (\<forall>(d, t, h) \<in> set c. length d = 20 \<and> h \<noteq> [] \<and> list_all host_char h)"

lemma scan_set_append:
  assumes "list_all P t" "t \<noteq> []" "r = [] \<or> \<not> P (hd r)"
  shows "scan_set P (t @ r) = Some (t, r)"
proof -
  have "takeWhile P (t @ r) = t" "dropWhile P (t @ r) = r"
    using assms by (auto simp: list_all_iff takeWhile_append dropWhile_append dropWhile_eq_self_iff
        takeWhile_eq_Nil_iff)
  then show ?thesis using assms(2) by (cases t) (auto simp: scan_set_def)
qed

lemma hex_byte_scan: "list_all hex_scan_char (hex_byte b)" "list_all (\<lambda>c. \<not> isspace c) (hex_byte b)"
proof -
  have "hex_scan_char (hex_char n) \<and> \<not> isspace (hex_char n)" if "n < 16" for n
  proof -
    have "n \<in> set [0..<16]" using that by simp
    moreover have "list_all (\<lambda>n. hex_scan_char (hex_char n) \<and> \<not> isspace (hex_char n)) [0..<16]" by code_simp
    ultimately show ?thesis unfolding list_all_iff by blast
  qed
  moreover have "unat b div 16 < 16" using unat_byte_lt [of b] by (simp add: less_mult_imp_div_less)
  ultimately show "list_all hex_scan_char (hex_byte b)" "list_all (\<lambda>c. \<not> isspace c) (hex_byte b)"
    by (simp_all add: hex_byte_def)
qed

lemma digits_nat_to_string: "list_all isdigit (nat_to_string n) \<and> nat_to_string n \<noteq> []"
proof (induction n rule: less_induct)
  case (less n)
  have d: "isdigit (digit_char k)" if "k < 10" for k
  proof -
    have "k \<in> set [0..<10]" using that by simp
    moreover have "list_all (\<lambda>k. isdigit (digit_char k)) [0..<10]" by code_simp
    ultimately show ?thesis unfolding list_all_iff by blast
  qed
  show ?case
  proof (cases "n < 10")
    case False
    then show ?thesis using less [of "n div 10"] d [of "n mod 10"] by (simp add: nat_to_string_step)
  qed (simp add: d)
qed

lemma sha1_scan:
  assumes "length d = 20"
  shows "list_all hex_scan_char (nd_sha1_to_string d)" "nd_sha1_to_string d \<noteq> []"
    "dhc_hex 20 (nd_sha1_to_string d) = d" "\<not> isspace (hd (nd_sha1_to_string d))"
proof -
  have e: "nd_sha1_to_string d = concat (map hex_byte d)" using assms by (simp add: nd_sha1_to_string_def)
  have "list_all hex_scan_char (concat (map hex_byte xs))" for xs by (induction xs) (simp_all add: hex_byte_scan)
  then show "list_all hex_scan_char (nd_sha1_to_string d)" by (simp add: e)
  show "nd_sha1_to_string d \<noteq> []" using length_nd_sha1_to_string [of d] assms by auto
  have "dhc_hex (length xs) (concat (map hex_byte xs)) = xs" for xs by (induction xs) simp_all
  then show "dhc_hex 20 (nd_sha1_to_string d) = d" using assms by (metis e)
  obtain b bs where d: "d = b # bs" using assms by (cases d) auto
  then have h: "nd_sha1_to_string d = hex_byte b @ concat (map hex_byte bs)" unfolding e by (simp add: d)
  show "\<not> isspace (hd (nd_sha1_to_string d))" unfolding h using hex_byte_scan(2) [of b] by (simp add: hex_byte_def)
qed

lemma dropWhile_space: "\<not> isspace (hd s) \<Longrightarrow> dropWhile isspace s = s"
  by (cases s) auto

lemma scan_ld_digits:
  assumes "list_all isdigit n" "n \<noteq> []"
  shows "scan_ld (n @ CHR 0x0A # r) = Some (CHR 0x0A # r)"
proof -
  obtain a as where as: "n = a # as" using assms(2) by (cases n) auto
  have "scan_set isdigit (n @ CHR 0x0A # r) = Some (n, CHR 0x0A # r)"
    using assms by (intro scan_set_append) (auto simp: isdigit_def)
  moreover have "a \<noteq> CHR ''-''" "a \<noteq> CHR ''+''" "\<not> isspace a"
    using assms(1) as by (auto simp: isdigit_def isspace_def)
  ultimately show ?thesis by (simp add: scan_ld_def as)
qed

lemma dhc_scan_line_line:
  assumes "length d = 20" "h \<noteq> []" "list_all host_char h" "r = [] \<or> \<not> isspace (hd r)"
  shows "dhc_scan_line (dhc_line now (d, t, h) @ r) = Some (h, nd_sha1_to_string d, r)"
proof -
  let ?x = "nd_sha1_to_string d"
  note x = sha1_scan [OF assms(1)]
  have c: "\<not> isspace (CHR 0x22)" "\<not> host_char (CHR 0x22)" "\<not> isspace (CHR '','')" "\<not> hex_scan_char (CHR '','')"
    "isspace (CHR 0x0A)" "\<not> isdigit (CHR 0x0A)" "\<not> isdigit (CHR ''-'')" "\<not> isdigit (CHR ''+'')"
    "\<And>c. isdigit c \<Longrightarrow> \<not> isspace c"
    by (auto simp: isspace_def host_char_def hex_scan_char_def isdigit_def)
  have 1: "scan_set host_char (h @ CHR 0x22 # s) = Some (h, CHR 0x22 # s)" for s
    using assms c by (intro scan_set_append) auto
  have 2: "scan_set hex_scan_char (?x @ CHR '','' # s) = Some (?x, CHR '','' # s)" for s
    using x c by (intro scan_set_append) auto
  have 3: "scan_ld (nat_to_string k @ CHR 0x0A # r) = Some (CHR 0x0A # r)" for k
    using digits_nat_to_string [of k] by (intro scan_ld_digits) auto
  have 4: "dropWhile isspace (?x @ s) = ?x @ s" for s using x by (intro dropWhile_space) simp
  have 5: "dropWhile isspace r = r" using assms(4) dropWhile_space [of r] by auto
  show ?thesis by (simp add: dhc_scan_line_def dhc_line_def c 1 2 3 4 5)
qed

lemma dhc_load_loop_lines:
  assumes "\<forall>(d, t, h) \<in> set es. length d = 20 \<and> h \<noteq> [] \<and> list_all host_char h" "es \<noteq> []"
  shows "dhc_load_loop now ttl (concat (map (dhc_line saved) es)) c
    = foldl (\<lambda>c (d, _, h). if map_of c d \<noteq> None then c else al_update d (now + ttl, h) c) c es"
  using assms
proof (induction es arbitrary: c)
  case (Cons p es)
  obtain d t h where p: "p = (d, t, h)" by (cases p)
  have ok: "length d = 20" "h \<noteq> []" "list_all host_char h" using Cons.prems(1) p by auto
  let ?r = "concat (map (dhc_line saved) es)"
  have "?r = [] \<or> \<not> isspace (hd ?r)" by (cases es) (auto simp: dhc_line_def isspace_def)
  note s = dhc_scan_line_line [OF ok this, of saved t]
  have i: "dhc_Insert now ttl c (nd_sha1_to_string d) h = (if map_of c d \<noteq> None then c else al_update d (now + ttl, h) c)"
    using sha1_scan(3) [OF ok(1)] ok(1) by (simp add: dhc_Insert_def)
  show ?case
  proof (cases es)
    case Nil
    then show ?thesis using s by (subst dhc_load_loop.simps) (simp add: p i)
  next
    case (Cons q es')
    then have "?r \<noteq> []" by (auto simp: dhc_line_def split_def)
    then have "dhc_load_loop now ttl (concat (map (dhc_line saved) (p # es))) c
        = dhc_load_loop now ttl ?r (dhc_Insert now ttl c (nd_sha1_to_string d) h)"
      using s by (subst dhc_load_loop.simps) (simp add: p Let_def del: concat_eq_Nil_conv)
    also have "\<dots> = foldl (\<lambda>c (d, _, h). if map_of c d \<noteq> None then c else al_update d (now + ttl, h) c)
        (dhc_Insert now ttl c (nd_sha1_to_string d) h) es"
      using Cons.prems by (intro Cons.IH) (auto simp: \<open>es = q # es'\<close>)
    finally show ?thesis by (simp only: i p foldl_Cons prod.case)
  qed
qed simp

lemma al_update_append: "k \<notin> fst ` set xs \<Longrightarrow> al_update k v (xs @ ys) = xs @ al_update k v ys"
  by (induction xs) auto

lemma dhc_insert_fold:
  assumes "distinct (map fst (c @ es))"
  shows "foldl (\<lambda>c (d, _, h). if map_of c d \<noteq> None then c else al_update d (u, h) c) c es
    = c @ map (\<lambda>(d, _, h). (d, u, h)) es"
  using assms
proof (induction es arbitrary: c)
  case (Cons p es)
  obtain d t h where p: "p = (d, t, h)" by (cases p)
  have "d \<notin> fst ` set c" using Cons.prems p by auto
  then have "map_of c d = None" "al_update d (u, h) c = c @ [(d, u, h)]"
    using al_update_append [of d c "(u, h)" "[]"] by (simp_all add: map_of_eq_None_iff)
  then show ?case using Cons.IH [of "c @ [(d, u, h)]"] Cons.prems by (simp add: p del: not_None_eq not_Some_eq)
qed simp

lemma fgets_header: "fgets 1023 (dhc_header @ s) = dhc_header" "dhc_header \<noteq> []"
  by (simp_all add: dhc_header_def numeral_eq_Suc)

lemma dhc_load_saved:
  assumes "dhc_storable c"
  shows "dhc_load_data now ttl (dhc_data saved c) [] = map (\<lambda>(d, _, h). (d, now + ttl, h)) c"
proof (cases "c = []")
  case True
  have "dhc_load_data now ttl (dhc_data saved []) [] = dhc_load_loop now ttl [] []"
    using fgets_header(1) [of "[]"] fgets_header(2) by (simp add: dhc_load_data_def dhc_data_def)
  then show ?thesis using True by (simp add: dhc_load_loop.simps dhc_scan_line_def)
next
  case False
  have "dhc_load_data now ttl (dhc_data saved c) [] = dhc_load_loop now ttl (concat (map (dhc_line saved) c)) []"
    using fgets_header by (simp add: dhc_load_data_def dhc_data_def)
  also have "\<dots> = foldl (\<lambda>c (d, _, h). if map_of c d \<noteq> None then c else al_update d (now + ttl, h) c) [] c"
    using assms False by (intro dhc_load_loop_lines) (auto simp: dhc_storable_def)
  also have "\<dots> = map (\<lambda>(d, _, h). (d, now + ttl, h)) c"
    using dhc_insert_fold [of "[]" c] assms by (simp add: dhc_storable_def)
  finally show ?thesis .
qed

definition dhc_view :: "dhc \<Rightarrow> digest \<Rightarrow> string option" where
  "dhc_view c d = map_option snd (map_of c d)"

interpretation dhcs: saved_cache "dhc_data 0" "\<lambda>data. dhc_load_data 0 1800 data []" dhc_view dhc_storable
proof
  fix c assume c: "dhc_storable c"
  note l = dhc_load_saved [OF c, of 0 1800 0]
  show "dhc_storable (dhc_load_data 0 1800 (dhc_data 0 c) [])"
    using c unfolding l by (auto simp: dhc_storable_def o_def split_def)
  have "dhc_view (map (\<lambda>(d, _, h). (d, t, h)) xs) = dhc_view xs" for t xs
    by (induction xs) (auto simp: dhc_view_def fun_eq_iff)
  then show "dhc_view (dhc_load_data 0 1800 (dhc_data 0 c) []) = dhc_view c" by (simp add: l)
qed

text \<open>
  C37. A cache of SHA-1 digests and host names that is saved and loaded has the same
  entries with a fresh time to live; any number of restarts keeps the host names.
\<close>

theorem dhc_survives_restarts:
  assumes "dhc_storable c" "writable f"
  shows "dhc_Load (dhc_Save fs writable (Some f) saved c) (Some f) now ttl [] = map (\<lambda>(d, _, h). (d, now + ttl, h)) c
    \<and> dhc_view ((((\<lambda>data. dhc_load_data 0 1800 data []) \<circ> dhc_data 0) ^^ n) c) = dhc_view c"
  using dhc_load_saved [OF assms(1), of now ttl saved] dhcs.restarts [OF assms(1), of n] assms(2)
  by (simp add: dhc_Load_def dhc_Save_def)

theorem dhc_survives_restarts_witness:
  "dhc_Load (dhc_Save Map.empty (\<lambda>_. True) (Some ''f'') 50 [(replicate 20 7, 60, ''a.example.com'')]) (Some ''f'') 5 100 []
    = [(replicate 20 7, 105, ''a.example.com'')]"
proof -
  have "dhc_storable [(replicate 20 7, 60, ''a.example.com'')]"
    by (simp add: dhc_storable_def host_char_def isdigit_def)
  from dhc_survives_restarts [OF this, of "\<lambda>_. True" "''f''" Map.empty 50 5 100 0] show ?thesis by simp
qed

lemma dhc_Purge_keeps:
  "distinct (map fst c) \<Longrightarrow> map_of (snd (dhc_Purge now c)) d = (case map_of c d of
     Some (t, h) \<Rightarrow> if t < now then None else Some (t, h) | None \<Rightarrow> None)"
  using map_of_filter_value [of c "\<lambda>v. \<not> fst v < now" d]
  by (auto simp: dhc_Purge_def Let_def split_def split: option.splits)

text \<open>
  C22. An address that has been inserted and is then looked up yields its first
  host name; the lookup renews its entry, so that a purge keeps it until the
  time to live has passed and removes it after that; the purge leaves every other
  entry as its own expiry says.
\<close>

theorem dhc_time_to_live:
  assumes "distinct (map fst c)" "dhc_addr_ok a" "Classify ntop types a = atOTHER" "GetAddress a = Some sa"
    and "c1 = dhc_Insert_addr ntop types sha1 t0 ttl c a hostname"
    and "dhc_Lookup_addr sha1 t1 ttl c1 a = (r, c2)" "dhc_Purge t2 c2 = (purged, c3)"
    and "d = sha1 (take (GetAddressSize a) sa)"
  shows "r = Some (case map_of c d of Some (_, h) \<Rightarrow> h | None \<Rightarrow> hostname)
    \<and> map_of c3 d = (if t1 + ttl < t2 then None else Some (t1 + ttl, the r))
    \<and> (\<forall>j. j \<noteq> d \<longrightarrow> map_of c3 j = (case map_of c j of
          Some (t, h) \<Rightarrow> if t < t2 then None else Some (t, h) | None \<Rightarrow> None))"
proof -
  define h where "h = (case map_of c d of Some (_, h) \<Rightarrow> h | None \<Rightarrow> hostname)"
  have sz: "GetAddressSize a \<noteq> 0"
    using assms(2) by (cases "na_addr a") (auto simp: dhc_addr_ok_def IsValid_def IsIP_def IsIPv4_def IsIPv6_def GetAddressSize_def)
  have c1: "c1 = al_update d (t0 + ttl, h) c"
    using assms(2-4) by (auto simp: assms(5,8) h_def dhc_Insert_addr_def Let_def split: option.split)
  then have 1: "r = Some h" "c2 = al_update d (t1 + ttl, h) c1"
    using assms(6) assms(2,4) sz by (auto simp: dhc_Lookup_addr_def dhc_Lookup_def simp flip: assms(8))
  have "distinct (map fst c2)" using assms(1) by (simp add: 1 c1)
  then show ?thesis using dhc_Purge_keeps [of c2 t2] assms(7) by (auto simp: 1 c1 h_def)
qed

theorem dhc_time_to_live_witness:
  "let a = ndAddr_in [8, 8, 8, 8] 0; sha1 = (\<lambda>x. x);
       c1 = dhc_Insert_addr hex_ntop addr_types_empty sha1 0 1800 [] a ''dns.google'';
       (r, c2) = dhc_Lookup_addr sha1 100 1800 c1 a
   in r = Some ''dns.google'' \<and> snd (dhc_Purge 1900 c2) = [([8, 8, 8, 8], 1900, ''dns.google'')]
     \<and> map_of (snd (dhc_Purge 1901 c2)) [8, 8, 8, 8] = None"
proof -
  define a where "a = ndAddr_in [8, 8, 8, 8] 0"
  have a: "na_addr a = SA_in 0 [8, 8, 8, 8] (replicate 8 0)" "na_prefix a = 32"
    by (simp_all add: a_def ndAddr_in_def Create_in_addr_def nd_addr_new_def)
  have f: "dhc_addr_ok a" "GetAddress a = Some [8, 8, 8, 8]" "take (GetAddressSize a) [8, 8, 8, 8] = [8, 8, 8, 8 :: byte]"
    by (simp_all add: dhc_addr_ok_def IsValid_def IsIP_def IsIPv4_def IsNetwork_def HasValidPrefix_def a GetAddress_def GetAddressSize_def)
  have t: "Classify hex_ntop addr_types_empty a = atOTHER"
    using f by (simp add: Classify_def dhc_addr_ok_def IsEthernet_def IsIPv4_def a classify_ip_def rentry_query_def
      addr_types_empty_def longest_match_def rt_empty_def)
  define c1 where "c1 = dhc_Insert_addr hex_ntop addr_types_empty (\<lambda>x. x) 0 1800 [] a ''dns.google''"
  obtain r c2 where l: "dhc_Lookup_addr (\<lambda>x. x) 100 1800 c1 a = (r, c2)" by force
  have p: "dhc_Purge t c2 = (fst (dhc_Purge t c2), snd (dhc_Purge t c2))" for t by simp
  note w = dhc_time_to_live [of "[]", OF _ f(1) t f(2) c1_def l p refl, unfolded f(3)]
  have c2: "c2 = [([8, 8, 8, 8], 1900, ''dns.google'')]"
  proof -
    have "GetAddressSize a = 4" using f(1) by (simp add: GetAddressSize_def dhc_addr_ok_def IsIPv4_def a)
    then show ?thesis using l f(1,2) t by (simp add: c1_def dhc_Insert_addr_def dhc_Lookup_addr_def dhc_Lookup_def)
  qed
  show ?thesis
    unfolding Let_def a_def [symmetric] c1_def [symmetric] l prod.case
  proof (intro conjI)
    show "r = Some ''dns.google''" using w [of 1900] by simp
    show "snd (dhc_Purge 1900 c2) = [([8, 8, 8, 8], 1900, ''dns.google'')]" by (simp add: c2 dhc_Purge_def)
    show "map_of (snd (dhc_Purge 1901 c2)) [8, 8, 8, 8] = None" using w [of 1901] by simp
  qed
qed

end
