(* ===== verification/NdCapture.thy ===== *)
theory NdCapture
  imports NdDissect NdFlowMap NdDhc
begin

text \<open>
  Capture threads (\<open>src/src/nd-capture.cpp\<close>, \<open>src/include/nd-capture.hpp\<close>): what happens to a
  dissected packet. Flows live in a store that the shared flow map refers to by index, as
  the shared pointers do. The DNS parser of the resolver library, SHA-1, the floating point
  rates and the walk over IPv6 extension headers are arguments.
\<close>

unbundle bit_operations_syntax

datatype 'a captured =
    CUndefined | CDiverged | CBlocked | CRaised string | CDone 'a

fun cbind :: "'a captured \<Rightarrow> ('a \<Rightarrow> 'b captured) \<Rightarrow> 'b captured" where
  "cbind (CDone x) k = k x"
| "cbind CUndefined k = CUndefined"
| "cbind CDiverged k = CDiverged"
| "cbind CBlocked k = CBlocked"
| "cbind (CRaised e) k = CRaised e"

fun of_outcome :: "'a outcome \<Rightarrow> 'a captured" where
  "of_outcome (Done x) = CDone x"
| "of_outcome Blocked = CBlocked"
| "of_outcome (Raised e) = CRaised e"

fun of_option :: "'a option \<Rightarrow> 'a captured" where
  "of_option (Some x) = CDone x"
| "of_option None = CUndefined"

lemma cbind_CDone_iff: "cbind m k = CDone y \<longleftrightarrow> (\<exists>x. m = CDone x \<and> k x = CDone y)"
  by (cases m) auto

section \<open>State\<close>

record agent =
  ag_map :: "nat flow_map"
  ag_store :: "nd_flow list"
  ag_flows :: nat
  ag_events :: nat
  ag_queue :: "(int \<times> nat \<times> (nd_packet \<times> nat) option) list"
  ag_dhc :: "dhc option"

record capture_config =
  cf_max_flows :: nat
  cf_syn_scan :: bool
  cf_max_detection_pkts :: nat
  cf_update_interval :: nat
  cf_threads :: nat

record capture_thread =
  ct_tag :: string
  ct_dl_type :: dlt
  ct_offline :: bool
  ct_replay_delay :: bool
  ct_flow :: nd_flow
  ct_tv_epoch :: "64 word"
  ct_ts_first :: "64 word"
  ct_ts_last :: "64 word"
  ct_stats :: pkt_stats
  ct_dpi_thread_id :: int

text \<open>What the packet code uses of libraries and of the machine.\<close>

record dns_rr =
  rr_type :: nat
  rr_name :: string
  rr_rdata :: nat

record dns_message =
  dm_rcode :: nat
  dm_qr :: nat
  dm_qd :: "dns_rr option list"
  dm_an :: "dns_rr option list"

record capture_env =
  ce_sha1 :: "bytes \<Rightarrow> bytes"
  ce_walk :: ip6_walk
  ce_rate :: "bool \<Rightarrow> 64 word \<Rightarrow> 16 word \<Rightarrow> flow_stats \<Rightarrow> flow_stats"
  ce_dns :: "bytes \<Rightarrow> dns_message option"
  ce_ntop :: inet_ntop
  ce_addr_types :: addr_types
  ce_now :: time_t
  ce_dhc_ttl :: time_t

section \<open>Time\<close>

text \<open>Ticks of a millisecond; an offline capture starts at the epoch of the thread and does not go back.\<close>

definition packet_ts :: "nd_packet \<Rightarrow> 64 word" where
  "packet_ts p = word_of_int (pk_sec p) * 1000 + word_of_int (pk_usec p div 1000)"

definition capture_ts :: "nd_packet \<Rightarrow> capture_thread \<Rightarrow> 64 word \<times> capture_thread" where
  "capture_ts p t =
     (let ts = packet_ts p in
      if ct_offline t then
        (let t = (if ct_ts_first t = 0 then t\<lparr>ct_ts_first := ts\<rparr> else t);
             ts = (ts - ct_ts_first t) + ct_tv_epoch t * 1000;
             ts = (if ct_ts_last t > ts then ct_ts_last t else ts)
         in (ts, t\<lparr>ct_ts_last := ts\<rparr>))
      else (ts, t\<lparr>ct_ts_last := ts\<rparr>))"

section \<open>DNS\<close>

definition ns_t_a :: nat where "ns_t_a = 1"
definition ns_t_ptr :: nat where "ns_t_ptr = 12"
definition ns_t_aaaa :: nat where "ns_t_aaaa = 28"

fun copy_label :: "bytes \<Rightarrow> nat \<Rightarrow> nat \<Rightarrow> bytes \<Rightarrow> nat \<times> bytes" where
  "copy_label m p 0 name = (p, name)"
| "copy_label m p (Suc len) name =
     (if length name < 79 \<and> p < length m then copy_label m (Suc p) len (name @ [m ! p]) else (p, name))"

text \<open>
  The name of an mDNS pointer record, with compression pointers followed once per label; the
  byte behind the payload is taken to be readable. The passes are counted down.
\<close>

fun mdns_name :: "nat \<Rightarrow> bytes \<Rightarrow> nat \<Rightarrow> bytes \<Rightarrow> bytes captured" where
  "mdns_name 0 m p name = CDiverged"
| "mdns_name (Suc passes) m p name =
     (if p > length m then CUndefined
      else if p = length m \<or> m ! p = 0 \<or> \<not> length name < 79 then CDone name
      else cbind (if m ! p AND 0xC0 = 0xC0 then
                    (if Suc p < length m then CDone (unat (m ! Suc p) + unat (m ! p AND 0x3F) * 256) else CUndefined)
                  else CDone p)
        (\<lambda>p. if p < length m then
               (case copy_label m (Suc p) (unat (m ! p)) (if name \<noteq> [] then name @ [0x2E] else name) of
                  (p, name) \<Rightarrow> mdns_name passes m p name)
             else CUndefined))"

text \<open>The name overwrites the front of the union, without a NUL, and is sanitized in place.\<close>

definition set_mdns_name :: "bytes \<Rightarrow> bytes \<Rightarrow> bytes" where
  "set_mdns_name name u =
     (let u = name @ drop (length name) u in
      if union_byte 0 u \<noteq> 0 then
        bytes_of_string (nd_set_hostname_buf (map (\<lambda>b. char_of (unat b)) u) (map (\<lambda>b. char_of (unat b)) u) 80 False)
      else u)"

text \<open>
  The name of the first question for an address. The code keeps a pointer into the record
  that the answers are then parsed into, so that an answer is cached under the name it
  carries itself, or under the literal dot when the question was for the root.
\<close>

definition dns_question :: "dns_message \<Rightarrow> string option" where
  "dns_question d =
     map_option rr_name (List.find (\<lambda>r. rr_type r = ns_t_a \<or> rr_type r = ns_t_aaaa) (concat (map (case_option [] (\<lambda>r. [r])) (dm_qd d))))"

definition dns_answer ::
  "capture_env \<Rightarrow> nat \<Rightarrow> bytes \<Rightarrow> nat \<Rightarrow> string option \<Rightarrow> dns_rr \<Rightarrow> nd_flow \<times> dhc \<Rightarrow> (nd_flow \<times> dhc) captured" where
  "dns_answer E passes m proto host rr s = (case s of (f, c) \<Rightarrow>
     if rr_type rr = ns_t_ptr then
       (if proto \<noteq> ND_PROTO_MDNS then CDone (f, c)
        else if HasMDNSDomainName f then CDone (f, c)
        else cbind (mdns_name passes m (rr_rdata rr) [])
               (\<lambda>name. CDone (f\<lparr>fl_union := set_mdns_name name (fl_union f)\<rparr>, c)))
     else if rr_type rr \<noteq> ns_t_a \<and> rr_type rr \<noteq> ns_t_aaaa then CDone (f, c)
     else (case host of
         None \<Rightarrow> CDone (f, c)
       | Some h \<Rightarrow>
           if proto \<noteq> ND_PROTO_DNS then CDone (f, c)
           else (let n = (if rr_type rr = ns_t_a then 4 else 16); ip = take n (drop (rr_rdata rr) m) in
                 if length ip < n then CUndefined
                 else CDone (f, dhc_Insert_addr (ce_ntop E) (ce_addr_types E) (ce_sha1 E) (ce_now E) (ce_dhc_ttl E) c
                        (if rr_type rr = ns_t_a then ndAddr_in ip 0 else ndAddr_in6 ip 0)
                        (if h = [] then ''.'' else rr_name rr)))))"

fun dns_answers ::
  "capture_env \<Rightarrow> nat \<Rightarrow> bytes \<Rightarrow> nat \<Rightarrow> string option \<Rightarrow> dns_rr option list \<Rightarrow> nd_flow \<times> dhc \<Rightarrow> (nd_flow \<times> dhc) captured" where
  "dns_answers E passes m proto host [] s = CDone s"
| "dns_answers E passes m proto host (None # rrs) s = dns_answers E passes m proto host rrs s"
| "dns_answers E passes m proto host (Some rr # rrs) s =
     cbind (dns_answer E passes m proto host rr s) (dns_answers E passes m proto host rrs)"

text \<open>Whether the packet is a query, the flow and the cache after it.\<close>

definition ProcessDNSPacket ::
  "capture_env \<Rightarrow> nat \<Rightarrow> bytes \<Rightarrow> nat \<Rightarrow> nd_flow \<Rightarrow> dhc \<Rightarrow> (bool \<times> nd_flow \<times> dhc) captured" where
  "ProcessDNSPacket E passes m proto f c =
     (case ce_dns E m of
        None \<Rightarrow> CDone (False, f, c)
      | Some d \<Rightarrow>
          if dm_rcode d \<noteq> 0 then CDone (False, f, c)
          else (let host = dns_question d in
                if host \<noteq> None \<and> dm_qr d = 0 then CDone (True, f, c)
                else if dm_qr d \<noteq> 1 then CDone (False, f, c)
                else cbind (dns_answers E passes m proto host (dm_an d) (f, c)) (\<lambda>(f, c). CDone (False, f, c))))"

section \<open>Flows\<close>

text \<open>A guess by the direction of the first packet, then by the lower port, then by the flags of TCP.\<close>

definition flow_first_origin :: "int \<Rightarrow> nd_flow \<Rightarrow> tcp_header option \<Rightarrow> flow_origin" where
  "flow_first_origin addr_cmp f tcp =
     (let origin = (if addr_cmp < 0 then ORIGIN_LOWER else ORIGIN_UPPER);
          lport = unat (GetPort (fl_lower_addr f) True); uport = unat (GetPort (fl_upper_addr f) True);
          origin = (if fl_ip_protocol f \<in> {6, 132, 17, 136} then
                      (if lport < uport then ORIGIN_UPPER else if lport > uport then ORIGIN_LOWER else origin)
                    else origin)
      in case tcp of
           None \<Rightarrow> origin
         | Some th \<Rightarrow>
             if bit (th_flags th) 1 then
               (if \<not> bit (th_flags th) 4 then (if addr_cmp < 0 then ORIGIN_LOWER else ORIGIN_UPPER)
                else (if addr_cmp < 0 then ORIGIN_UPPER else ORIGIN_LOWER))
             else origin)"

definition set_teid :: "bool \<Rightarrow> 32 word \<Rightarrow> nd_flow \<Rightarrow> nd_flow" where
  "set_teid lower teid f =
     f\<lparr>fl_gtp := (if lower then (fl_gtp f)\<lparr>gtp_lower_teid := teid\<rparr> else (fl_gtp f)\<lparr>gtp_upper_teid := teid\<rparr>)\<rparr>"

text \<open>The other direction of a tunnel brings the identifier of its other end.\<close>

definition update_teid :: "nd_packet \<Rightarrow> nat option \<Rightarrow> int \<Rightarrow> nd_flow \<Rightarrow> nd_flow captured" where
  "update_teid p gtp addr_cmp nf =
     (if fl_direction nf = addr_cmp then CDone nf
      else case gtp of
        None \<Rightarrow> CDone nf
      | Some off \<Rightarrow>
          cbind (of_option (pk_read p off 1)) (\<lambda>b.
            if drop_bit 5 (hd b) = 1 \<and> fl_tunnel_type nf = TUNNEL_GTP then
              (case fl_origin nf of
                 ORIGIN_LOWER \<Rightarrow> cbind (of_option (pk_raw32 p (off + 4))) (\<lambda>teid. CDone (set_teid False teid nf))
               | ORIGIN_UPPER \<Rightarrow> cbind (of_option (pk_raw32 p (off + 4))) (\<lambda>teid. CDone (set_teid True teid nf))
               | ORIGIN_UNKNOWN \<Rightarrow> CDone nf)
            else CDone nf))"

text \<open>The new flow that a packet starts: a copy of the key in the flow of the thread.\<close>

definition new_flow :: "capture_config \<Rightarrow> 64 word \<Rightarrow> int \<Rightarrow> tcp_header option \<Rightarrow> nd_flow \<Rightarrow> nd_flow" where
  "new_flow C ts addr_cmp tcp f =
     (let nf = (nd_flow_copy (cf_update_interval C) False False f)\<lparr>fl_direction := addr_cmp, fl_ts_first_seen := ts\<rparr>
      in nf\<lparr>fl_origin := flow_first_origin addr_cmp nf tcp\<rparr>)"

definition new_teid :: "nd_packet \<Rightarrow> nat option \<Rightarrow> nd_flow \<Rightarrow> nd_flow captured" where
  "new_teid p gtp nf =
     (case (fl_tunnel_type nf, gtp) of
        (TUNNEL_GTP, Some off) \<Rightarrow>
          (case fl_origin nf of
             ORIGIN_LOWER \<Rightarrow> cbind (of_option (pk_raw32 p (off + 4))) (\<lambda>teid. CDone (set_teid True teid nf))
           | ORIGIN_UPPER \<Rightarrow> cbind (of_option (pk_raw32 p (off + 4))) (\<lambda>teid. CDone (set_teid False teid nf))
           | ORIGIN_UNKNOWN \<Rightarrow> CDone nf)
      | (TUNNEL_GTP, None) \<Rightarrow> CUndefined
      | _ \<Rightarrow> CDone nf)"

datatype found = FDropped agent | FFlow nat agent

text \<open>The lookup keeps the bucket locked until the flow is found or stored, or the packet is dropped.\<close>

definition find_flow ::
  "capture_config \<Rightarrow> 64 word \<Rightarrow> nd_packet \<Rightarrow> digest \<Rightarrow> int \<Rightarrow> nat option \<Rightarrow> tcp_header option \<Rightarrow> nd_flow \<Rightarrow> agent \<Rightarrow> found captured" where
  "find_flow C ts p d addr_cmp gtp tcp f A =
     cbind (of_outcome (fm_Lookup (ag_map A) d True)) (\<lambda>(found, m).
       let A = A\<lparr>ag_map := m\<rparr>;
           release = (\<lambda>A k. cbind (of_outcome (fm_Release_digest (ag_map A) d)) (\<lambda>m. CDone (k (A\<lparr>ag_map := m\<rparr>)))) in
       case found of
         Some r \<Rightarrow>
           cbind (update_teid p gtp addr_cmp (ag_store A ! r)) (\<lambda>nf.
             release (A\<lparr>ag_store := (ag_store A)[r := nf]\<rparr>) (FFlow r))
       | None \<Rightarrow>
           if cf_max_flows C > 0 \<and> ag_flows A + 1 > cf_max_flows C then release A FDropped
           else if cf_syn_scan C \<and> fl_ip_protocol f = 6 \<and> map_option th_flags tcp \<noteq> Some 0x12 then release A FDropped
           else
             (let r = length (ag_store A); nf = new_flow C ts addr_cmp tcp f in
              cbind (of_outcome (fm_InsertUnlocked m d r)) (\<lambda>(inserted, m).
                if \<not> inserted then
                  cbind (of_outcome (fm_Release_digest m d)) (\<lambda>m. CRaised ''EINVAL'')
                else
                  cbind (new_teid p gtp nf) (\<lambda>nf.
                    release (A\<lparr>ag_map := m, ag_store := ag_store A @ [nf], ag_flows := ag_flows A + 1,
                               ag_events := ag_events A + 1\<rparr>) (FFlow r)))))"

section \<open>Accounting\<close>

definition account_packet :: "nd_packet \<Rightarrow> byte \<Rightarrow> pkt_stats \<Rightarrow> pkt_stats" where
  "account_packet p ip_version st =
     (let len = ucast (pk_length p);
          st = st\<lparr>ps_wire_bytes := ps_wire_bytes st + len + 24, ps_ip := ps_ip st + 1, ps_ip_bytes := ps_ip_bytes st + len\<rparr>
      in if ip_version = 4 then st\<lparr>ps_ip4 := ps_ip4 st + 1, ps_ip4_bytes := ps_ip4_bytes st + len\<rparr>
         else st\<lparr>ps_ip6 := ps_ip6 st + 1, ps_ip6_bytes := ps_ip6_bytes st + len\<rparr>)"

definition account_flow ::
  "capture_env \<Rightarrow> nd_packet \<Rightarrow> 64 word \<Rightarrow> int \<Rightarrow> nd_flow \<Rightarrow> nd_flow" where
  "account_flow E p ts addr_cmp nf =
     (let len = ucast (pk_length p); s = fl_stats nf;
          s = s\<lparr>fs_total_packets := fs_total_packets s + 1, fs_total_bytes := fs_total_bytes s + len\<rparr>;
          s = (if addr_cmp < 0 then
                 ce_rate E True ts (pk_length p)
                   (s\<lparr>fs_lower_packets := fs_lower_packets s + 1, fs_lower_bytes := fs_lower_bytes s + len\<rparr>)
               else
                 ce_rate E False ts (pk_length p)
                   (s\<lparr>fs_upper_packets := fs_upper_packets s + 1, fs_upper_bytes := fs_upper_bytes s + len\<rparr>))
      in nf\<lparr>fl_stats := s, fl_ts_last_seen := ts\<rparr>)"

text \<open>The sequence number is compared as it stands in the packet, and kept when it is not above the last one.\<close>

definition account_tcp :: "tcp_header option \<Rightarrow> nd_flow \<Rightarrow> pkt_stats \<Rightarrow> nd_flow \<times> pkt_stats" where
  "account_tcp tcp nf st =
     (case tcp of
        None \<Rightarrow> (nf, st)
      | Some th \<Rightarrow>
          (let (nf, st) =
             (if th_seq th \<le> fl_tcp_last_seq nf then
                (nf\<lparr>fl_tcp_last_seq := th_seq th,
                    fl_stats := (fl_stats nf)\<lparr>fs_tcp_seq_errors := fs_tcp_seq_errors (fl_stats nf) + 1\<rparr>\<rparr>,
                 st\<lparr>ps_tcp_seq_errors := ps_tcp_seq_errors st + 1\<rparr>)
              else (nf, st));
             nf = (if bit (th_flags th) 0 \<and> bit (th_flags th) 4
                   then nf\<lparr>fl_flags := (fl_flags nf)\<lparr>ff_tcp_fin_ack := ff_tcp_fin_ack (fl_flags nf) + 1\<rparr>\<rparr> else nf)
           in if bit (th_flags th) 2 then
                (nf\<lparr>fl_stats := (fl_stats nf)\<lparr>fs_tcp_resets := fs_tcp_resets (fl_stats nf) + 1\<rparr>\<rparr>,
                 st\<lparr>ps_tcp_resets := ps_tcp_resets st + 1\<rparr>)
              else (nf, st)))"

definition dns_proto :: "nd_flow \<Rightarrow> nat" where
  "dns_proto nf =
     (let lport = GetPort (fl_lower_addr nf) True; uport = GetPort (fl_upper_addr nf) True in
      if lport = 53 \<or> uport = 53 then ND_PROTO_DNS
      else if lport = 5353 \<or> uport = 5353 then ND_PROTO_MDNS
      else if lport = 5355 \<or> uport = 5355 then ND_PROTO_LLMNR
      else ND_PROTO_UNKNOWN)"

text \<open>A complete flow starts again at a query, with the counters of the flow of the thread.\<close>

definition dns_stage ::
  "capture_env \<Rightarrow> nat \<Rightarrow> nd_packet \<Rightarrow> (nat \<times> nat) option \<Rightarrow> nd_flow \<Rightarrow> nd_flow \<Rightarrow> agent \<Rightarrow> (nd_flow \<times> agent) captured" where
  "dns_stage E passes p payload f nf A =
     (case (ag_dhc A, payload) of
        (Some c, Some (off, len)) \<Rightarrow>
          if len > 12 \<and> pk_caplen p = pk_length p \<and> dns_proto nf \<noteq> ND_PROTO_UNKNOWN then
            cbind (of_option (pk_read p off len)) (\<lambda>m.
              cbind (ProcessDNSPacket E passes m (dns_proto nf) nf c) (\<lambda>(is_query, nf, c).
                let nf = (if is_query \<and> ff_detection_complete (fl_flags nf)
                          then (flow_Reset True nf)\<lparr>fl_stats := flow_stats_assign (fl_stats nf) (fl_stats f)\<rparr> else nf)
                in CDone (nf, A\<lparr>ag_dhc := Some c\<rparr>)))
          else CDone (nf, A)
      | _ \<Rightarrow> CDone (nf, A))"

section \<open>The whole packet\<close>

text \<open>
  A thread of detection takes the packet over while the flow still needs it; an entry of its
  queue without a packet asks for the end of an idle flow.
\<close>

definition queue_stage ::
  "capture_config \<Rightarrow> nd_packet \<Rightarrow> nat \<Rightarrow> nat \<Rightarrow> nd_flow \<Rightarrow> capture_thread \<Rightarrow> agent \<Rightarrow> (bool \<times> nd_flow \<times> capture_thread \<times> agent) captured" where
  "queue_stage C p l2_len r nf t A =
     (if \<not> ff_detection_complete (fl_flags nf) \<and> \<not> ff_expired (fl_flags nf)
         \<and> unat (fs_detection_packets (fl_stats nf)) \<le> cf_max_detection_pkts C
      then
        (let (nf, t) =
           (if fl_dpi_thread_id nf < 0 then
              (nf\<lparr>fl_dpi_thread_id := ct_dpi_thread_id t\<rparr>,
               t\<lparr>ct_dpi_thread_id := (if ct_dpi_thread_id t + 1 = int (cf_threads C) then 0 else ct_dpi_thread_id t + 1)\<rparr>)
            else (nf, t))
         in if 0 \<le> fl_dpi_thread_id nf \<and> fl_dpi_thread_id nf < int (cf_threads C)
            then CDone (True, nf, t, A\<lparr>ag_queue := ag_queue A @ [(fl_dpi_thread_id nf, r, Some (p, l2_len))]\<rparr>)
            else CRaised ''detection thread ID not found!'')
      else CDone (False, nf, t, A))"

definition flow_packet ::
  "capture_env \<Rightarrow> capture_config \<Rightarrow> nat \<Rightarrow> 64 word \<Rightarrow> nd_packet \<Rightarrow> ip_state \<Rightarrow> l4_state \<Rightarrow> capture_thread \<Rightarrow> agent
     \<Rightarrow> (bool \<times> capture_thread \<times> agent) captured" where
  "flow_packet E C passes ts p s l t A =
     (let f = flow_Hash (ce_sha1 E) 0 [] (ct_tag t) False None (l4_flow l);
          d = fl_digest_lower f; c = ip_addr_cmp s; t = t\<lparr>ct_flow := f, ct_stats := l4_stats l\<rparr>
      in cbind (find_flow C ts p d c (ip_gtp s) (l4_tcp l) f A) (\<lambda>found. case found of
           FDropped A \<Rightarrow>
             CDone (False, t\<lparr>ct_stats := (discard p (ct_stats t))\<lparr>ps_flow_dropped := ps_flow_dropped (ct_stats t) + 1\<rparr>\<rparr>, A)
         | FFlow r A \<Rightarrow>
             (let nf = ag_store A ! r;
                  st = account_packet p (fl_ip_version nf) (ct_stats t);
                  nf = account_flow E p ts c nf;
                  (nf, st) = account_tcp (if fl_ip_protocol nf = 6 then l4_tcp l else None) nf st;
                  t = t\<lparr>ct_stats := st\<rparr>
              in cbind (dns_stage E passes p (l4_payload l) f nf A) (\<lambda>(nf, A).
                   cbind (queue_stage C p (ip_l2_len s) r nf t A) (\<lambda>(queued, nf, t, A).
                     CDone (queued, t, A\<lparr>ag_store := (ag_store A)[r := nf]\<rparr>))))))"

text \<open>The result tells whether the packet was handed over.\<close>

definition ProcessPacket ::
  "capture_env \<Rightarrow> capture_config \<Rightarrow> nat \<Rightarrow> nat \<Rightarrow> nd_packet \<Rightarrow> capture_thread \<Rightarrow> agent \<Rightarrow> (bool \<times> capture_thread \<times> agent) captured" where
  "ProcessPacket E C jumps passes p t A =
     (case capture_ts p t of (ts, t) \<Rightarrow>
        (let st = ct_stats t;
             st = st\<lparr>ps_raw := ps_raw st + 1,
                     ps_maxlen := (if ucast (pk_length p) > ps_maxlen st then ucast (pk_length p) else ps_maxlen st)\<rparr>
         in case link_layer (ct_dl_type t) p (ct_flow t) st of
              Undefined \<Rightarrow> CUndefined
            | Diverged \<Rightarrow> CDiverged
            | Discarded f st \<Rightarrow> CDone (False, t\<lparr>ct_flow := f, ct_stats := st\<rparr>, A)
            | Dissected (eth, l2_len, f, st) \<Rightarrow>
                (case ip_layer (ce_walk E) eth p jumps
                        \<lparr>ip_flow = f, ip_addr_cmp = 0, ip_l2_len = l2_len, ip_l3_len = 0, ip_l4 = 0, ip_l4_len = 0,
                         ip_gtp = None, ip_stats = st\<rparr> of
                   Undefined \<Rightarrow> CUndefined
                 | Diverged \<Rightarrow> CDiverged
                 | Discarded f st \<Rightarrow> CDone (False, t\<lparr>ct_flow := f, ct_stats := st\<rparr>, A)
                 | Dissected s \<Rightarrow>
                     (case transport_layer p s of
                        Undefined \<Rightarrow> CUndefined
                      | Diverged \<Rightarrow> CDiverged
                      | Discarded f st \<Rightarrow> CDone (False, t\<lparr>ct_flow := f, ct_stats := st\<rparr>, A)
                      | Dissected l \<Rightarrow> flow_packet E C passes ts p s l t A))))"

section \<open>The flow table\<close>

text \<open>No lock is held, and every entry refers to a flow in the store that has its digest.\<close>

definition agent_ok :: "agent \<Rightarrow> bool" where
  "agent_ok A \<longleftrightarrow> fm_free (ag_map A)
     \<and> (\<forall>d r. fm_find (ag_map A) d = Some r \<longrightarrow> r < length (ag_store A) \<and> fl_digest_lower (ag_store A ! r) = d)"

text \<open>What a packet does not change of a flow that exists.\<close>

abbreviation flow_id :: "nd_flow \<Rightarrow> bytes \<times> int" where
  "flow_id f \<equiv> (fl_digest_lower f, fl_dpi_thread_id f)"

lemma flow_id_kept:
  "flow_id (set_teid l teid f) = flow_id f"
  "flow_id (account_flow E p ts c f) = flow_id f"
  "flow_id (flow_Reset full f) = flow_id f"
  by (simp_all add: set_teid_def account_flow_def flow_Reset_def Let_def)

lemma new_flow_id: "fl_digest_lower (new_flow C ts c tcp f) = fl_digest_lower f" "fl_dpi_thread_id (new_flow C ts c tcp f) = -1"
  by (simp_all add: new_flow_def nd_flow_copy_def nd_flow_new_def Let_def)

lemma update_teid_id: "update_teid p gtp c nf = CDone nf' \<Longrightarrow> flow_id nf' = flow_id nf"
  using flow_id_kept by (auto simp: update_teid_def cbind_CDone_iff split: if_splits option.splits flow_origin.splits)

lemma new_teid_id: "new_teid p gtp nf = CDone nf' \<Longrightarrow> flow_id nf' = flow_id nf"
  using flow_id_kept by (auto simp: new_teid_def cbind_CDone_iff split: option.splits flow_origin.splits tunnel_type.splits)

lemma account_tcp_id: "account_tcp tcp nf st = (nf', st') \<Longrightarrow> flow_id nf' = flow_id nf"
  by (auto simp: account_tcp_def Let_def split: option.splits if_splits)

lemma dns_answer_id: "dns_answer E n m proto host rr (f, c) = CDone (f', c') \<Longrightarrow> flow_id f' = flow_id f"
  by (auto simp: dns_answer_def cbind_CDone_iff Let_def split: if_splits option.splits)

lemma dns_answers_id: "dns_answers E n m proto host rrs (f, c) = CDone (f', c') \<Longrightarrow> flow_id f' = flow_id f"
proof (induction rrs arbitrary: f c)
  case (Cons rr rrs)
  show ?case
  proof (cases rr)
    case (Some r)
    then obtain f1 c1 where "dns_answer E n m proto host r (f, c) = CDone (f1, c1)" "dns_answers E n m proto host rrs (f1, c1) = CDone (f', c')"
      using Cons.prems by (auto simp: cbind_CDone_iff)
    then show ?thesis using Cons.IH dns_answer_id by metis
  qed (use Cons in auto)
qed simp

lemma dns_stage_kept:
  assumes "dns_stage E n p payload f nf A = CDone (nf', A')"
  shows "flow_id nf' = flow_id nf" "ag_map A' = ag_map A" "ag_store A' = ag_store A" "ag_flows A' = ag_flows A"
proof -
  have "flow_id nf1 = flow_id nf" if "ProcessDNSPacket E n m proto nf c = CDone (q, nf1, c1)" for m proto c q nf1 c1
    using that by (auto simp: ProcessDNSPacket_def Let_def cbind_CDone_iff dest: dns_answers_id split: option.splits if_splits)
  then show "flow_id nf' = flow_id nf" "ag_map A' = ag_map A" "ag_store A' = ag_store A" "ag_flows A' = ag_flows A"
    using assms flow_id_kept(3) by (auto simp: dns_stage_def cbind_CDone_iff Let_def split: option.splits if_splits)
qed

lemma queue_stage_kept:
  assumes "queue_stage C p l2 r nf t A = CDone (q, nf', t', A')"
  shows "fl_digest_lower nf' = fl_digest_lower nf" "ag_map A' = ag_map A" "ag_store A' = ag_store A" "ag_flows A' = ag_flows A"
    "ct_stats t' = ct_stats t"
  using assms by (auto simp: queue_stage_def Let_def split: if_splits)

lemma agent_ok_update:
  assumes "agent_ok A" "fl_digest_lower nf = fl_digest_lower (ag_store A ! r)"
  shows "agent_ok (A\<lparr>ag_store := (ag_store A)[r := nf]\<rparr>)"
proof -
  have "fl_digest_lower ((ag_store A)[r := nf] ! k) = fl_digest_lower (ag_store A ! k)" if "k < length (ag_store A)" for k
    using that assms(2) by (cases "k = r") auto
  then show ?thesis using assms(1) by (auto simp: agent_ok_def)
qed

lemma agent_ok_new:
  assumes "agent_ok A" "fm_find (ag_map A) d = None" "fl_digest_lower nf = d"
  shows "agent_ok (A\<lparr>ag_map := snd (fm_insert (ag_map A) d (length (ag_store A))), ag_store := ag_store A @ [nf],
      ag_flows := n, ag_events := k\<rparr>)"
proof -
  have "fm_free (ag_map A)" using assms(1) by (simp add: agent_ok_def)
  then obtain m where "fm_insert (ag_map A) d (length (ag_store A)) = (True, m)" "fm_free m"
    "fm_find m = (fm_find (ag_map A))(d \<mapsto> length (ag_store A))"
    using fm_Insert_free [of "ag_map A" d "length (ag_store A)"] assms(2) by (auto simp: fm_insert_def)
  then show ?thesis using assms by (auto simp: agent_ok_def nth_append less_SucI)
qed

text \<open>The two results of the search: the packet is dropped, or its flow is in the table.\<close>

lemma find_flow_ok:
  assumes "find_flow C ts p d c gtp tcp f A = CDone res" "agent_ok A" "fl_digest_lower f = d"
  shows "case res of FDropped A' \<Rightarrow> A' = A
    | FFlow r A' \<Rightarrow> agent_ok A' \<and> fm_find (ag_map A') d = Some r \<and> r < length (ag_store A')
        \<and> fl_digest_lower (ag_store A' ! r) = d
        \<and> (fm_find (ag_map A) d = None \<longrightarrow> ag_flows A' = ag_flows A + 1 \<and> (cf_max_flows C > 0 \<longrightarrow> ag_flows A < cf_max_flows C))
        \<and> (fm_find (ag_map A) d \<noteq> None \<longrightarrow> ag_flows A' = ag_flows A)
        \<and> fm_find (ag_map A) \<subseteq>\<^sub>m fm_find (ag_map A')"
proof -
  let ?b = "HashToBucket (ag_map A) d" and ?r = "length (ag_store A)"
  have m: "fm_free (ag_map A)" using assms(2) by (simp add: agent_ok_def)
  note session = fm_locked_session [OF m, of d]
  show ?thesis
  proof (cases "fm_find (ag_map A) d")
    case (Some r)
    then have r: "r < length (ag_store A)" "fl_digest_lower (ag_store A ! r) = d" using assms(2) by (auto simp: agent_ok_def)
    obtain nf where u: "update_teid p gtp c (ag_store A ! r) = CDone nf" "res = FFlow r (A\<lparr>ag_store := (ag_store A)[r := nf]\<rparr>)"
      using assms(1) Some by (auto simp: find_flow_def session(1,2) cbind_CDone_iff Let_def)
    have "fl_digest_lower nf = fl_digest_lower (ag_store A ! r)" using update_teid_id [OF u(1)] by simp
    then show ?thesis using agent_ok_update [OF assms(2)] r Some u(2) by simp
  next
    case None
    obtain m2 where m2: "fm_InsertUnlocked (fm_lock (ag_map A) ?b) d ?r = Done (True, m2)"
      "fm_Release_digest m2 d = Done (snd (fm_insert (ag_map A) d ?r))"
      using session(3) [of ?r] None by auto
    consider "res = FDropped A" | nf where "new_teid p gtp (new_flow C ts c tcp f) = CDone nf"
        "cf_max_flows C > 0 \<longrightarrow> ag_flows A < cf_max_flows C"
        "res = FFlow ?r (A\<lparr>ag_map := snd (fm_insert (ag_map A) d ?r), ag_store := ag_store A @ [nf],
                          ag_flows := ag_flows A + 1, ag_events := ag_events A + 1\<rparr>)"
      using assms(1) None
      by (auto simp: find_flow_def session(1,2) cbind_CDone_iff Let_def m2 split: if_splits)
    then show ?thesis
    proof cases
      case 2
      have nf: "fl_digest_lower nf = d" using new_teid_id [OF 2(1)] assms(3) by (simp add: new_flow_id)
      have f: "fm_find (snd (fm_insert (ag_map A) d ?r)) = (fm_find (ag_map A))(d \<mapsto> ?r)"
        using fm_Insert_free [OF m, of d ?r] None by (auto simp: fm_insert_def)
      show ?thesis
        using agent_ok_new [OF assms(2) None nf] 2(2,3) nf f None by (auto simp: map_le_def)
    qed simp
  qed
qed

section \<open>Results\<close>

text \<open>Stages do not block, and only the hand over to a detection thread can raise an exception.\<close>

definition clean :: "'a captured \<Rightarrow> bool" where
  "clean m \<longleftrightarrow> m \<noteq> CBlocked \<and> (\<forall>e. m \<noteq> CRaised e)"

lemma clean_simps [simp]:
  "clean (CDone x)" "clean CUndefined" "clean CDiverged" "clean (of_option opt)" "\<not> clean CBlocked" "\<not> clean (CRaised e)"
  by (auto simp: clean_def) (cases opt; simp)+

lemma clean_cbind: "clean m \<Longrightarrow> (\<And>x. m = CDone x \<Longrightarrow> clean (k x)) \<Longrightarrow> clean (cbind m k)"
  by (cases m) auto

lemma clean_update_teid: "clean (update_teid p gtp c nf)"
  by (auto simp: update_teid_def split: option.split flow_origin.split intro!: clean_cbind)

lemma clean_new_teid: "clean (new_teid p gtp nf)"
  by (auto simp: new_teid_def split: option.split flow_origin.split tunnel_type.split intro!: clean_cbind)

lemma clean_mdns_name: "clean (mdns_name n m p name)"
  by (induction n arbitrary: p name) (auto split: prod.split intro!: clean_cbind)

lemma clean_dns_answers: "clean (dns_answers E n m proto host rrs s)"
proof -
  have "clean (dns_answer E n m proto host rr s)" for rr s
    by (auto simp: dns_answer_def Let_def split: prod.split option.split intro!: clean_cbind clean_mdns_name)
  then show ?thesis by (induction E n m proto host rrs s rule: dns_answers.induct) (auto intro: clean_cbind)
qed

lemma clean_dns_stage: "clean (dns_stage E n p payload f nf A)"
proof -
  have "clean (ProcessDNSPacket E n m proto nf c)" for m proto c
    by (auto simp: ProcessDNSPacket_def Let_def split: option.split prod.split intro!: clean_cbind clean_dns_answers)
  then show ?thesis
    by (auto simp: dns_stage_def Let_def split: option.split prod.split intro!: clean_cbind)
qed

lemma clean_find_flow:
  assumes "agent_ok A"
  shows "clean (find_flow C ts p d c gtp tcp f A)"
proof -
  have m: "fm_free (ag_map A)" using assms by (simp add: agent_ok_def)
  note session = fm_locked_session [OF m, of d]
  show ?thesis
  proof (cases "fm_find (ag_map A) d")
    case (Some r)
    then show ?thesis
      by (auto simp: find_flow_def session(1,2) Let_def intro!: clean_cbind clean_update_teid)
  next
    case None
    let ?r = "length (ag_store A)"
    obtain m2 where m2: "fm_InsertUnlocked (fm_lock (ag_map A) (HashToBucket (ag_map A) d)) d ?r = Done (True, m2)"
      "fm_Release_digest m2 d = Done (snd (fm_insert (ag_map A) d ?r))"
      using session(3) [of ?r] None by auto
    show ?thesis
      using None by (auto simp: find_flow_def session(1,2) Let_def m2 intro!: clean_cbind clean_new_teid)
  qed
qed

section \<open>Hand over\<close>

text \<open>Every flow that has a detection thread has one of those that run.\<close>

definition threads_ok :: "capture_config \<Rightarrow> capture_thread \<Rightarrow> agent \<Rightarrow> bool" where
  "threads_ok C t A \<longleftrightarrow> 0 \<le> ct_dpi_thread_id t \<and> ct_dpi_thread_id t < int (cf_threads C)
     \<and> (\<forall>nf \<in> set (ag_store A). fl_dpi_thread_id nf < int (cf_threads C))"

lemma threads_ok_simps [simp]:
  "threads_ok C (t\<lparr>ct_flow := f\<rparr>) A = threads_ok C t A"
  "threads_ok C (t\<lparr>ct_stats := st\<rparr>) A = threads_ok C t A"
  "threads_ok C t (A\<lparr>ag_map := m\<rparr>) = threads_ok C t A"
  by (simp_all add: threads_ok_def)

lemma threads_ok_update:
  assumes "threads_ok C t A" "fl_dpi_thread_id nf < int (cf_threads C)"
  shows "threads_ok C t (A\<lparr>ag_store := (ag_store A)[r := nf]\<rparr>)"
  using assms set_update_subset_insert [of "ag_store A" r nf] by (auto simp: threads_ok_def)

lemma find_flow_threads:
  assumes "find_flow C ts p d c gtp tcp f A = CDone (FFlow r A')" "agent_ok A" "threads_ok C t A" "fl_digest_lower f = d"
  shows "threads_ok C t A'"
proof -
  have m: "fm_free (ag_map A)" using assms(2) by (simp add: agent_ok_def)
  note session = fm_locked_session [OF m, of d]
  show ?thesis
  proof (cases "fm_find (ag_map A) d")
    case (Some k)
    then have k: "k < length (ag_store A)" using assms(2) by (auto simp: agent_ok_def)
    obtain nf where u: "update_teid p gtp c (ag_store A ! k) = CDone nf" "A' = A\<lparr>ag_store := (ag_store A)[k := nf]\<rparr>"
      using assms(1) Some by (auto simp: find_flow_def session(1,2) cbind_CDone_iff Let_def)
    have "fl_dpi_thread_id nf < int (cf_threads C)"
      using update_teid_id [OF u(1)] assms(3) nth_mem [OF k] by (auto simp: threads_ok_def)
    then show ?thesis using threads_ok_update [OF assms(3)] u(2) by simp
  next
    case None
    let ?r = "length (ag_store A)"
    obtain m2 where m2: "fm_InsertUnlocked (fm_lock (ag_map A) (HashToBucket (ag_map A) d)) d ?r = Done (True, m2)"
      "fm_Release_digest m2 d = Done (snd (fm_insert (ag_map A) d ?r))"
      using session(3) [of ?r] None by auto
    obtain nf where nf: "new_teid p gtp (new_flow C ts c tcp f) = CDone nf" "ag_store A' = ag_store A @ [nf]"
      using assms(1) None by (auto simp: find_flow_def session(1,2) cbind_CDone_iff Let_def m2 split: if_splits)
    have "fl_dpi_thread_id nf = -1" using new_teid_id [OF nf(1)] by (simp add: new_flow_id)
    then show ?thesis using assms(3) nf(2) by (auto simp: threads_ok_def)
  qed
qed

lemma clean_queue_stage:
  assumes "threads_ok C t A" "fl_dpi_thread_id nf < int (cf_threads C)"
  shows "clean (queue_stage C p l2 r nf t A)"
  using assms by (auto simp: queue_stage_def Let_def threads_ok_def)

lemma queue_stage_threads:
  assumes "queue_stage C p l2 r nf t A = CDone (q, nf', t', A')" "threads_ok C t A" "fl_dpi_thread_id nf < int (cf_threads C)"
  shows "threads_ok C t' A'" "fl_dpi_thread_id nf' < int (cf_threads C)"
  using assms by (auto simp: queue_stage_def Let_def threads_ok_def split: if_splits)

end
