(* ===== verification/NdCaptureProps.thy ===== *)
theory NdCaptureProps
  imports NdCapture
begin

text \<open>
  What the capture thread guarantees for each packet: the flow table stays well formed, no
  exception is raised, every packet is counted once, time does not go back and the name of
  an mDNS answer fits its buffer.
\<close>

section \<open>The flow table\<close>

lemma ProcessPacket_cases:
  assumes "ProcessPacket E C jumps passes p t A = res" "clean res" "res \<noteq> CUndefined" "res \<noteq> CDiverged"
  obtains (discarded) f st where "res = CDone (False, (snd (capture_ts p t))\<lparr>ct_flow := f, ct_stats := st\<rparr>, A)"
  | (flow) s l where "res = flow_packet E C passes (fst (capture_ts p t)) p s l (snd (capture_ts p t)) A"
  using assms
  by (auto simp: ProcessPacket_def Let_def split: prod.splits dissected.splits)

text \<open>A flow and its digest are found again after the stages that follow the search.\<close>

lemma flow_packet_cases:
  assumes "flow_packet E C passes ts p s l t A = CDone (q, t', A')" "agent_ok A"
  defines "f \<equiv> flow_Hash (ce_sha1 E) 0 [] (ct_tag t) False None (l4_flow l)"
  obtains (dropped) "q = False" "A' = A"
      "find_flow C ts p (fl_digest_lower f) (ip_addr_cmp s) (ip_gtp s) (l4_tcp l) f A = CDone (FDropped A)"
      "t' = t\<lparr>ct_flow := f, ct_stats := (discard p (l4_stats l))\<lparr>ps_flow_dropped := ps_flow_dropped (l4_stats l) + 1\<rparr>\<rparr>"
  | (found) r A1 nf1 st nf2 A2 nf where
      "find_flow C ts p (fl_digest_lower f) (ip_addr_cmp s) (ip_gtp s) (l4_tcp l) f A = CDone (FFlow r A1)"
      "account_tcp (if fl_ip_protocol (ag_store A1 ! r) = 6 then l4_tcp l else None)
         (account_flow E p ts (ip_addr_cmp s) (ag_store A1 ! r))
         (account_packet p (fl_ip_version (ag_store A1 ! r)) (l4_stats l)) = (nf1, st)"
      "dns_stage E passes p (l4_payload l) f nf1 A1 = CDone (nf2, A2)"
      "\<exists>A3. queue_stage C p (ip_l2_len s) r nf2 (t\<lparr>ct_flow := f, ct_stats := st\<rparr>) A2 = CDone (q, nf, t', A3)
         \<and> A' = A3\<lparr>ag_store := (ag_store A3)[r := nf]\<rparr>"
proof -
  let ?find = "find_flow C ts p (fl_digest_lower f) (ip_addr_cmp s) (ip_gtp s) (l4_tcp l) f A"
  obtain fnd where fnd: "?find = CDone fnd"
    using assms(1) by (auto simp: flow_packet_def f_def Let_def cbind_CDone_iff)
  show thesis
  proof (cases fnd)
    case (FDropped A1)
    then have "A1 = A" using find_flow_ok [OF fnd assms(2) refl] by simp
    then show thesis using dropped assms(1) fnd FDropped by (simp add: flow_packet_def f_def Let_def discard_def)
  next
    case (FFlow r A1)
    obtain nf1 st where a: "account_tcp (if fl_ip_protocol (ag_store A1 ! r) = 6 then l4_tcp l else None)
         (account_flow E p ts (ip_addr_cmp s) (ag_store A1 ! r))
         (account_packet p (fl_ip_version (ag_store A1 ! r)) (l4_stats l)) = (nf1, st)" by force
    have ip: "fl_ip_protocol (account_flow E p ts (ip_addr_cmp s) nf) = fl_ip_protocol nf" for nf
      by (simp add: account_flow_def Let_def)
    show thesis
      using assms(1) fnd FFlow a
      by (auto simp: flow_packet_def f_def Let_def cbind_CDone_iff ip intro: found)
  qed
qed

lemma account_id:
  assumes "account_tcp tcp (account_flow E p ts c nf) st = (nf1, st1)"
  shows "flow_id nf1 = flow_id nf"
  using account_tcp_id [OF assms] flow_id_kept(2) [of E p ts c nf] by simp

lemma flow_packet_table:
  assumes "flow_packet E C passes ts p s l t A = CDone (q, t', A')" "agent_ok A"
  shows "agent_ok A' \<and> fm_find (ag_map A) \<subseteq>\<^sub>m fm_find (ag_map A')
    \<and> (ag_flows A' = ag_flows A \<or> ag_flows A' = ag_flows A + 1 \<and> (0 < cf_max_flows C \<longrightarrow> ag_flows A < cf_max_flows C))"
  using assms
proof (cases rule: flow_packet_cases)
  case dropped
  then show ?thesis using assms(2) by simp
next
  case (found r A1 nf1 st nf2 A2 nf)
  define f where "f = flow_Hash (ce_sha1 E) 0 [] (ct_tag t) False None (l4_flow l)"
  note F = find_flow_ok [OF found(1) assms(2) refl, simplified]
  obtain A3 where q: "queue_stage C p (ip_l2_len s) r nf2 (t\<lparr>ct_flow := f, ct_stats := st\<rparr>) A2 = CDone (q, nf, t', A3)"
    "A' = A3\<lparr>ag_store := (ag_store A3)[r := nf]\<rparr>" using found(4) f_def by auto
  note D = dns_stage_kept [OF found(3)] and Q = queue_stage_kept [OF q(1)]
  have nf: "fl_digest_lower nf = fl_digest_lower (ag_store A1 ! r)"
    using Q(1) D(1) account_id [OF found(2)] by simp
  have "agent_ok (A1\<lparr>ag_store := (ag_store A1)[r := nf]\<rparr>)" using agent_ok_update [OF _ nf] F by simp
  then have "agent_ok A'" using q(2) Q D by (simp add: agent_ok_def)
  moreover have "ag_map A' = ag_map A1" "ag_flows A' = ag_flows A1" using q(2) Q D by simp_all
  ultimately show ?thesis using F by auto
qed

lemma ProcessPacket_done:
  assumes "ProcessPacket E C jumps passes p t A = CDone (q, t', A')"
  obtains (discarded) f st where "q = False" "A' = A" "t' = (snd (capture_ts p t))\<lparr>ct_flow := f, ct_stats := st\<rparr>"
  | (flow) s l where "flow_packet E C passes (fst (capture_ts p t)) p s l (snd (capture_ts p t)) A = CDone (q, t', A')"
  by (rule ProcessPacket_cases [OF assms]) (auto intro: that)

text \<open>
  C1. The table of flows survives every packet: no bucket stays locked, every digest of the
  table refers to a stored flow that has it, no flow is lost or exchanged for another, and the
  configured maximum of flows is not exceeded.
\<close>

theorem packet_keeps_flow_table:
  assumes "ProcessPacket E C jumps passes p t A = CDone (q, t', A')" "agent_ok A"
    and "0 < cf_max_flows C \<longrightarrow> ag_flows A \<le> cf_max_flows C"
  shows "agent_ok A' \<and> fm_find (ag_map A) \<subseteq>\<^sub>m fm_find (ag_map A')
    \<and> (0 < cf_max_flows C \<longrightarrow> ag_flows A' \<le> cf_max_flows C)"
  using assms(1)
proof (cases rule: ProcessPacket_done)
  case discarded
  then show ?thesis using assms(2,3) by simp
next
  case (flow s l)
  then show ?thesis using flow_packet_table [OF flow assms(2)] assms(3) by auto
qed

section \<open>Exceptions\<close>

lemma clean_flow_packet:
  assumes "agent_ok A" "threads_ok C t A"
  shows "clean (flow_packet E C passes ts p s l t A)"
proof -
  define f where "f = flow_Hash (ce_sha1 E) 0 [] (ct_tag t) False None (l4_flow l)"
  have q: "clean (queue_stage C p (ip_l2_len s) r nf2 (t\<lparr>ct_flow := f, ct_stats := st\<rparr>) A2)"
    if "find_flow C ts p (fl_digest_lower f) (ip_addr_cmp s) (ip_gtp s) (l4_tcp l) f A = CDone (FFlow r A1)"
      "account_tcp tcp (account_flow E p ts (ip_addr_cmp s) (ag_store A1 ! r)) st0 = (nf1, st)"
      "dns_stage E passes p (l4_payload l) f nf1 A1 = CDone (nf2, A2)" for r A1 tcp st0 nf1 st nf2 A2
  proof -
    have T: "threads_ok C t A1" by (rule find_flow_threads [OF that(1) assms refl])
    have r: "r < length (ag_store A1)" using find_flow_ok [OF that(1) assms(1) refl] by simp
    note D = dns_stage_kept [OF that(3)]
    have "fl_dpi_thread_id nf2 = fl_dpi_thread_id (ag_store A1 ! r)" using D(1) account_id [OF that(2)] by simp
    then have "fl_dpi_thread_id nf2 < int (cf_threads C)" using T r by (simp add: threads_ok_def)
    moreover have "threads_ok C t A2" using T D(3) by (simp add: threads_ok_def)
    ultimately show ?thesis by (intro clean_queue_stage) simp_all
  qed
  have ip: "fl_ip_protocol (account_flow E p ts (ip_addr_cmp s) nf) = fl_ip_protocol nf" for nf
    by (simp add: account_flow_def Let_def)
  show ?thesis
    unfolding flow_packet_def Let_def
    by (rule clean_cbind) (auto simp: ip f_def [symmetric] split: found.split prod.split
        intro!: clean_cbind clean_find_flow [OF assms(1)] clean_dns_stage q)
qed

lemma flow_packet_threads:
  assumes "flow_packet E C passes ts p s l t A = CDone (q, t', A')" "agent_ok A" "threads_ok C t A"
  shows "threads_ok C t' A'"
  using assms(1,2)
proof (cases rule: flow_packet_cases)
  case dropped
  then show ?thesis using assms(3) by simp
next
  case (found r A1 nf1 st nf2 A2 nf)
  define f where "f = flow_Hash (ce_sha1 E) 0 [] (ct_tag t) False None (l4_flow l)"
  obtain A3 where q: "queue_stage C p (ip_l2_len s) r nf2 (t\<lparr>ct_flow := f, ct_stats := st\<rparr>) A2 = CDone (q, nf, t', A3)"
    "A' = A3\<lparr>ag_store := (ag_store A3)[r := nf]\<rparr>" using found(4) f_def by auto
  note D = dns_stage_kept [OF found(3)]
  have T: "threads_ok C t A1" by (rule find_flow_threads [OF found(1) assms(2,3) refl])
  have r: "r < length (ag_store A1)" using find_flow_ok [OF found(1) assms(2) refl] by simp
  have "fl_dpi_thread_id nf2 = fl_dpi_thread_id (ag_store A1 ! r)" using D(1) account_id [OF found(2)] by simp
  then have nf2: "fl_dpi_thread_id nf2 < int (cf_threads C)" using T r by (simp add: threads_ok_def)
  have T2: "threads_ok C (t\<lparr>ct_flow := f, ct_stats := st\<rparr>) A2" using T D(3) by (simp add: threads_ok_def)
  show ?thesis using threads_ok_update queue_stage_threads [OF q(1) T2 nf2] q(2) by simp
qed

lemma capture_ts_kept:
  "ct_dpi_thread_id (snd (capture_ts p t)) = ct_dpi_thread_id t" "ct_stats (snd (capture_ts p t)) = ct_stats t"
  "ct_flow (snd (capture_ts p t)) = ct_flow t" "ct_dl_type (snd (capture_ts p t)) = ct_dl_type t"
  by (simp_all add: capture_ts_def Let_def)

text \<open>
  C15. As long as the flows of the table and the thread refer to detection threads that run, no
  packet makes the capture thread throw an exception or wait for a bucket that it has
  locked itself, and the references stay valid.
\<close>

theorem packet_raises_nothing:
  assumes "agent_ok A" "threads_ok C t A"
  shows "(\<forall>e. ProcessPacket E C jumps passes p t A \<noteq> CRaised e) \<and> ProcessPacket E C jumps passes p t A \<noteq> CBlocked
    \<and> (\<forall>q t' A'. ProcessPacket E C jumps passes p t A = CDone (q, t', A') \<longrightarrow> threads_ok C t' A')"
proof -
  have T: "threads_ok C (snd (capture_ts p t)) A" using assms(2) by (simp add: threads_ok_def capture_ts_kept)
  have "clean (ProcessPacket E C jumps passes p t A)"
    using clean_flow_packet [OF assms(1) T]
    by (auto simp: ProcessPacket_def Let_def split: prod.split dissected.split)
  moreover have "threads_ok C t' A'" if "ProcessPacket E C jumps passes p t A = CDone (q, t', A')" for q t' A'
    using that
  proof (cases rule: ProcessPacket_done)
    case discarded
    then show ?thesis using T by simp
  next
    case (flow s l)
    then show ?thesis by (rule flow_packet_threads [OF _ assms(1) T])
  qed
  ultimately show ?thesis by (auto simp: clean_def)
qed

section \<open>Counters\<close>

text \<open>The counters of accounted packets, which the dissection leaves alone.\<close>

definition ip_counts :: "pkt_stats \<Rightarrow> 64 word list" where
  "ip_counts st = [ps_ip st, ps_ip4 st, ps_ip6 st, ps_ip_bytes st, ps_ip4_bytes st, ps_ip6_bytes st, ps_wire_bytes st, ps_raw st]"

lemma ip_counts_discard [simp]: "ip_counts (discard p st) = ip_counts st" "ip_counts (note_short p n st) = ip_counts st"
  by (simp_all add: ip_counts_def discard_def note_short_def)

lemma ip_counts_updates [simp]:
  "ip_counts (st\<lparr>ps_eth := x\<rparr>) = ip_counts st" "ip_counts (st\<lparr>ps_mpls := x\<rparr>) = ip_counts st"
  "ip_counts (st\<lparr>ps_pppoe := x\<rparr>) = ip_counts st" "ip_counts (st\<lparr>ps_vlan := x\<rparr>) = ip_counts st"
  "ip_counts (st\<lparr>ps_frags := x\<rparr>) = ip_counts st" "ip_counts (st\<lparr>ps_tcp := x\<rparr>) = ip_counts st"
  "ip_counts (st\<lparr>ps_udp := x\<rparr>) = ip_counts st" "ip_counts (st\<lparr>ps_icmp := x\<rparr>) = ip_counts st"
  "ip_counts (st\<lparr>ps_igmp := x\<rparr>) = ip_counts st" "ip_counts (st\<lparr>ps_flow_dropped := x\<rparr>) = ip_counts st"
  "ip_counts (st\<lparr>ps_tcp_seq_errors := x\<rparr>) = ip_counts st" "ip_counts (st\<lparr>ps_tcp_resets := x\<rparr>) = ip_counts st"
  by (simp_all add: ip_counts_def)

lemma mpls_loop_counts: "mpls_loop p label n st = Some (n', st') \<Longrightarrow> ip_counts st' = ip_counts st"
proof (induction p label n st rule: mpls_loop.induct)
  case (1 p label n st)
  have s: "mpls_loop p label n st = (if bit label 8 then Some (n, st)
      else (case pk_be p ((n + 4) mod 65536) 4 of None \<Rightarrow> None
        | Some label \<Rightarrow> mpls_loop p label ((n + 4) mod 65536) (note_short p ((n + 4) mod 65536) st)))"
    by (subst mpls_loop.simps) (simp add: Let_def)
  show ?case
  proof (cases "bit label 8")
    case False
    then obtain l where l: "pk_be p ((n + 4) mod 65536) 4 = Some l"
      "mpls_loop p l ((n + 4) mod 65536) (note_short p ((n + 4) mod 65536) st) = Some (n', st')"
      using 1(2) unfolding s by (auto split: option.splits)
    show ?thesis using 1(1) [OF False refl refl l] by simp
  qed (use 1 s in simp)
qed

lemma l2_step_counts:
  "l2_step p s = Dissected s' \<Longrightarrow> ip_counts (l2_stats s') = ip_counts (l2_stats s)"
  "l2_step p s = Discarded f st \<Longrightarrow> ip_counts st = ip_counts (l2_stats s)"
  by (auto simp: l2_step_def Let_def split: option.splits if_splits prod.splits dest: mpls_loop_counts)

lemma l2_loop_counts:
  "l2_loop p s = Dissected s' \<Longrightarrow> ip_counts (l2_stats s') = ip_counts (l2_stats s)"
  "l2_loop p s = Discarded f st \<Longrightarrow> ip_counts st = ip_counts (l2_stats s)"
proof (induction p s rule: l2_loop.induct)
  case (1 p s)
  {
    case 1
    then show ?case
      by (cases "l2_tag (l2_type s)"; cases "l2_step p s"; simp add: l2_loop.simps [of p s])
        (metis "1.IH"(1) l2_step_counts(1))
  next
    case 2
    then show ?case
      by (cases "l2_tag (l2_type s)"; cases "l2_step p s"; simp add: l2_loop.simps [of p s] l2_step_counts(2))
        (metis "1.IH"(2) l2_step_counts(1))
  }
qed

lemma link_header_counts:
  "link_header dl p f st = Dissected (type, n, eth, st') \<Longrightarrow> ip_counts st' = ip_counts st"
  "link_header dl p f st = Discarded f' st' \<Longrightarrow> ip_counts st' = ip_counts st"
  by (auto simp: link_header_def Let_def split: dlt.splits option.splits if_splits)

lemma link_layer_counts:
  "link_layer dl p f st = Dissected (eth, n, f', st') \<Longrightarrow> ip_counts st' = ip_counts st"
  "link_layer dl p f st = Discarded f' st' \<Longrightarrow> ip_counts st' = ip_counts st"
  by (auto simp: link_layer_def Let_def split: dissected.splits dest!: link_header_counts l2_loop_counts)

lemma ip_header_counts:
  "ip_header walk eth p s = Dissected s' \<Longrightarrow> ip_counts (ip_stats s') = ip_counts (ip_stats s)"
  "ip_header walk eth p s = Discarded f st \<Longrightarrow> ip_counts st = ip_counts (ip_stats s)"
  by (fastforce simp: ip_header_def Let_def split: option.splits if_splits prod.splits)+

lemma gtp_header_counts:
  "gtp_header p s = Dissected (s', jump) \<Longrightarrow> ip_stats s' = ip_stats s"
  "gtp_header p s = Discarded f st \<Longrightarrow> ip_counts st = ip_counts (ip_stats s)"
  by (auto simp: gtp_header_def Let_def split: option.splits if_splits)

lemma ip_layer_counts:
  "(\<forall>s'. ip_layer walk eth p jumps s = Dissected s' \<longrightarrow> ip_counts (ip_stats s') = ip_counts (ip_stats s))
   \<and> (\<forall>f st. ip_layer walk eth p jumps s = Discarded f st \<longrightarrow> ip_counts st = ip_counts (ip_stats s))"
proof (induction jumps arbitrary: s)
  case (Suc jumps)
  show ?case
  proof (cases "ip_header walk eth p s")
    case (Dissected s1)
    note h = ip_header_counts(1) [OF Dissected]
    show ?thesis
    proof (cases "gtp_header p s1")
      case (Dissected r)
      obtain s2 j where r: "r = (s2, j)" by force
      have g: "ip_stats s2 = ip_stats s1" using gtp_header_counts(1) Dissected r by simp
      show ?thesis
        using Suc.IH [of "s2\<lparr>ip_l2_len := l2\<rparr>" for l2] h g \<open>ip_header walk eth p s = _\<close> Dissected r by (cases j) auto
    qed (use h \<open>ip_header walk eth p s = _\<close> gtp_header_counts(2) in auto)
  next
    case (Discarded f st)
    then show ?thesis using ip_header_counts(2) [OF Discarded] by simp
  qed auto
qed simp

lemmas ip_layer_countsD = ip_layer_counts [THEN conjunct1, rule_format] ip_layer_counts [THEN conjunct2, rule_format]

lemma transport_layer_counts:
  "transport_layer p s = Dissected l \<Longrightarrow> ip_counts (l4_stats l) = ip_counts (ip_stats s)"
  "transport_layer p s = Discarded f st \<Longrightarrow> ip_counts st = ip_counts (ip_stats s)"
  by (auto simp: transport_layer_def Let_def split: option.splits if_splits)

lemma account_tcp_counts: "account_tcp tcp nf st = (nf', st') \<Longrightarrow> ip_counts st' = ip_counts st"
  by (auto simp: account_tcp_def Let_def split: option.splits if_splits)

lemma flow_packet_counts:
  assumes "flow_packet E C passes ts p s l t A = CDone (q, t', A')" "agent_ok A"
  shows "(q = False \<and> ip_counts (ct_stats t') = ip_counts (l4_stats l))
    \<or> (\<exists>v. ip_counts (ct_stats t') = ip_counts (account_packet p v (l4_stats l)))"
  using assms
proof (cases rule: flow_packet_cases)
  case dropped
  then show ?thesis by simp
next
  case (found r A1 nf1 st nf2 A2 nf)
  then have "ct_stats t' = st" using queue_stage_kept(5) by fastforce
  then show ?thesis using account_tcp_counts [OF found(2)] by auto
qed

lemma ProcessPacket_stages:
  assumes "ProcessPacket E C jumps passes p t A = CDone (q, t', A')"
  shows "(q = False \<and> A' = A \<and> ip_counts (ct_stats t') = ip_counts ((ct_stats t)\<lparr>ps_raw := ps_raw (ct_stats t) + 1\<rparr>))
    \<or> (\<exists>s l. flow_packet E C passes (fst (capture_ts p t)) p s l (snd (capture_ts p t)) A = CDone (q, t', A')
         \<and> ip_counts (l4_stats l) = ip_counts ((ct_stats t)\<lparr>ps_raw := ps_raw (ct_stats t) + 1\<rparr>))"
proof -
  obtain ts t1 where ts: "capture_ts p t = (ts, t1)" by force
  define st where "st = (ct_stats t)\<lparr>ps_raw := ps_raw (ct_stats t) + 1,
    ps_maxlen := (if ucast (pk_length p) > ps_maxlen (ct_stats t) then ucast (pk_length p) else ps_maxlen (ct_stats t))\<rparr>"
  have st: "ip_counts st = ip_counts ((ct_stats t)\<lparr>ps_raw := ps_raw (ct_stats t) + 1\<rparr>)" by (simp add: st_def ip_counts_def)
  have ct: "ct_stats t1 = ct_stats t" using capture_ts_kept(2) [of p t] ts by simp
  note P = assms [unfolded ProcessPacket_def ts Let_def prod.case ct st_def [symmetric]]
  show ?thesis
  proof (cases "link_layer (ct_dl_type t1) p (ct_flow t1) st")
    case (Dissected r)
    obtain eth n f st1 where "r = (eth, n, f, st1)" by (cases r)
    note L = Dissected [unfolded this] and c1 = link_layer_counts(1) [OF Dissected [unfolded this]]
    define s0 where "s0 = \<lparr>ip_flow = f, ip_addr_cmp = 0, ip_l2_len = n, ip_l3_len = 0, ip_l4 = 0, ip_l4_len = 0,
                         ip_gtp = None, ip_stats = st1\<rparr>"
    note P1 = P [unfolded L dissected.case prod.case s0_def [symmetric]]
    have s0: "ip_counts (ip_stats s0) = ip_counts st" using c1 by (simp add: s0_def)
    show ?thesis
    proof (cases "ip_layer (ce_walk E) eth p jumps s0")
      case (Dissected s)
      have c2: "ip_counts (ip_stats s) = ip_counts st" using ip_layer_countsD(1) [OF Dissected] s0 by simp
      show ?thesis
      proof (cases "transport_layer p s")
        case (Dissected l)
        then show ?thesis
          using P1 \<open>ip_layer _ _ _ _ _ = _\<close> c2 transport_layer_counts(1) [OF Dissected] ts st by auto
      qed (use P1 Dissected c2 st transport_layer_counts(2) in auto)
    next
      case (Discarded f1 st2)
      have "ip_counts st2 = ip_counts st" using ip_layer_countsD(2) [OF Discarded] s0 by simp
      then show ?thesis using P1 Discarded st by auto
    qed (use P1 in auto)
  next
    case (Discarded f1 st2)
    then show ?thesis using P link_layer_counts(2) [OF Discarded] st by auto
  qed (use P in auto)
qed


section \<open>Time\<close>

text \<open>The times that the packets of a capture are processed at.\<close>

fun capture_times :: "nd_packet list \<Rightarrow> capture_thread \<Rightarrow> 64 word list" where
  "capture_times [] t = []"
| "capture_times (p # ps) t = (case capture_ts p t of (ts, t) \<Rightarrow> ts # capture_times ps t)"

lemma capture_ts_last:
  "ct_ts_last (snd (capture_ts p t)) = fst (capture_ts p t)"
  "ct_offline (snd (capture_ts p t)) = ct_offline t"
  "ct_offline t \<Longrightarrow> ct_ts_last t \<le> fst (capture_ts p t)"
  by (auto simp: capture_ts_def Let_def not_less)

lemma offline_times_sorted: "ct_offline t \<Longrightarrow> sorted_wrt (\<le>) (ct_ts_last t # capture_times ps t)"
proof (induction ps arbitrary: t)
  case (Cons p ps)
  obtain ts u where u: "capture_ts p t = (ts, u)" by force
  have l: "ct_ts_last t \<le> ts" "ct_ts_last u = ts" "ct_offline u"
    using capture_ts_last [where p = p and t = t] Cons.prems u by simp_all
  then show ?case using Cons.IH [OF l(3)] u by (auto intro: order_trans)
qed simp

section \<open>Names of mDNS answers\<close>

lemma copy_label_length:
  "copy_label m p n name = (p', name') \<Longrightarrow> length name \<le> 79 \<Longrightarrow> length name' \<le> 79 \<and> length name \<le> length name' \<and> p \<le> p'"
proof (induction m p n name rule: copy_label.induct)
  case (2 m p len name)
  then show ?case by (fastforce split: if_splits)
qed simp

lemma copy_label_grows:
  assumes "copy_label m p n name = (p', name')" "0 < n" "p < length m" "length name < 79"
  shows "length name < length name'"
proof -
  obtain k where k: "n = Suc k" using assms(2) by (cases n) auto
  then have "copy_label m (Suc p) k (name @ [m ! p]) = (p', name')" using assms by simp
  then show ?thesis using copy_label_length [of m "Suc p" k "name @ [m ! p]"] assms(4) by simp
qed

lemma mdns_name_length: "mdns_name n m p name = CDone name' \<Longrightarrow> length name \<le> 79 \<Longrightarrow> length name' \<le> 79"
proof (induction n arbitrary: p name)
  case (Suc n)
  define name1 where "name1 = (if name \<noteq> [] then name @ [0x2E] else name)"
  show ?case
  proof (cases "p > length m \<or> p = length m \<or> m ! p = 0 \<or> \<not> length name < 79")
    case True
    then show ?thesis using Suc.prems by (auto split: if_splits)
  next
    case False
    then have l: "length name1 \<le> 79" by (simp add: name1_def)
    obtain q p1 name2 where c: "copy_label m (Suc q) (unat (m ! q)) name1 = (p1, name2)" "mdns_name n m p1 name2 = CDone name'"
      using Suc.prems(1) False unfolding mdns_name.simps name1_def [symmetric]
      by (auto simp: cbind_CDone_iff split: if_splits prod.splits)
    show ?thesis using Suc.IH [OF c(2)] copy_label_length [OF c(1) l] by simp
  qed
qed simp

text \<open>A zero byte that a compression pointer follows.\<close>

definition looping_label :: "bytes \<Rightarrow> bool" where
  "looping_label m \<longleftrightarrow> (\<exists>q. Suc q < length m \<and> m ! q = 0 \<and> m ! Suc q AND 0xC0 = 0xC0)"

lemma looping_label_upt:
  "looping_label m \<longleftrightarrow> (\<exists>q \<in> set [0..<length m - 1]. m ! q = 0 \<and> m ! Suc q AND 0xC0 = 0xC0)"
  by (simp add: looping_label_def less_diff_conv Bex_def)

text \<open>Each pass but three makes the name longer, when there is no such byte.\<close>

lemma mdns_name_ends:
  assumes "\<not> looping_label m"
  shows "name \<noteq> [] \<Longrightarrow> length name \<le> 79 \<Longrightarrow> 79 < length name + n \<Longrightarrow> mdns_name n m p name \<noteq> CDiverged"
proof (induction n arbitrary: p name)
  case (Suc n)
  show ?case
  proof (cases "p > length m \<or> p = length m \<or> m ! p = 0 \<or> \<not> length name < 79")
    case False
    have "mdns_name n m p1 name2 \<noteq> CDiverged" if c: "copy_label m (Suc q) (unat (m ! q)) (name @ [0x2E]) = (p1, name2)" for q p1 name2
    proof -
      have "length name + 1 \<le> length name2" "length name2 \<le> 79" using copy_label_length [OF c] False by simp_all
      then show ?thesis using Suc.IH [of name2 p1] Suc.prems by fastforce
    qed
    then show ?thesis using False Suc.prems(1) by (auto split: prod.split)
  qed auto
qed simp

lemma first_label:
  assumes "\<not> looping_label m" "q < length m" "m ! q \<noteq> 0" "79 \<le> n"
    "copy_label m (Suc q) (unat (m ! q)) [] = (p1, name2)"
  shows "mdns_name (Suc n) m p1 name2 \<noteq> CDiverged"
proof (cases "Suc q < length m")
  case True
  have "name2 \<noteq> []" "length name2 \<le> 79"
    using copy_label_grows [OF assms(5)] copy_label_length [OF assms(5)] True assms(3) by (auto simp: unat_gt_0)
  then show ?thesis using mdns_name_ends [OF assms(1), of name2 "Suc n" p1] assms(4) by (cases name2) auto
next
  case False
  obtain k where "unat (m ! q) = Suc k" using assms(3) by (metis not0_implies_Suc unat_eq_zero)
  then have "p1 = Suc q" "name2 = []" using assms(5) False by auto
  then show ?thesis using assms(2) False by simp
qed

text \<open>
  C28. The name of an mDNS answer fits its buffer of 80 bytes with room for a terminating zero,
  and reading it ends, after at most 82 labels and pointers, unless the packet has a zero
  byte right before a compression pointer.
\<close>

theorem mdns_name_fits_and_ends:
  "(\<forall>name. mdns_name n m p [] = CDone name \<longrightarrow> length name \<le> 79)
    \<and> (\<not> looping_label m \<longrightarrow> mdns_name 82 m p [] \<noteq> CDiverged)"
proof (intro conjI impI)
  show "\<forall>name. mdns_name n m p [] = CDone name \<longrightarrow> length name \<le> 79"
    using mdns_name_length [of n m p "[]"] by simp
next
  assume l: "\<not> looping_label m"
  have s: "mdns_name (Suc k) m p [] =
      (if p > length m then CUndefined
       else if p = length m \<or> m ! p = 0 then CDone []
       else cbind (if m ! p AND 0xC0 = 0xC0 then
                    (if Suc p < length m then CDone (unat (m ! Suc p) + unat (m ! p AND 0x3F) * 256) else CUndefined)
                  else CDone p)
        (\<lambda>p. if p < length m then
               (case copy_label m (Suc p) (unat (m ! p)) [] of (p, name) \<Rightarrow> mdns_name k m p name)
             else CUndefined))" for k p
    by simp
  have start: "mdns_name (Suc (Suc k)) m p [] \<noteq> CDiverged"
    if "p < length m \<longrightarrow> m ! p AND 0xC0 \<noteq> 0xC0" "79 \<le> k" for k p
    using first_label [OF l _ _ that(2), of p] that(1)
    by (subst s) (auto split: prod.split)
  have jump: "mdns_name 81 m p1 name2 \<noteq> CDiverged"
    if q: "q < length m" "copy_label m (Suc q) (unat (m ! q)) [] = (p1, name2)" for q p1 name2
  proof (cases "m ! q = 0")
    case True
    then have "p1 = Suc q" "name2 = []" using q(2) by auto
    moreover have "Suc q < length m \<longrightarrow> m ! Suc q AND 0xC0 \<noteq> 0xC0" using l True unfolding looping_label_def by blast
    ultimately show ?thesis using start [of "Suc q" 79] by (simp only: numeral_eq_Suc) simp
  next
    case False
    show ?thesis using first_label [OF l q(1) False _ q(2), of 80] by simp
  qed
  have "mdns_name (Suc 81) m p [] \<noteq> CDiverged"
    using jump [of p] by (subst s) (auto split: prod.split dest: jump)
  then show "mdns_name 82 m p [] \<noteq> CDiverged" by simp
qed

text \<open>With such a byte it need not end: here the pointer refers to the zero byte before it.\<close>

lemma mdns_name_loops: "mdns_name n [0, 0xC0, 0] 1 [] = CDiverged"
  by (induction n) simp_all

section \<open>Every packet is processed\<close>

lemma dissection_kept:
  "ip_header walk eth p s = Dissected s' \<Longrightarrow> ip_gtp s' = ip_gtp s \<and> fl_tunnel_type (ip_flow s') = fl_tunnel_type (ip_flow s)"
  "transport_layer p s = Dissected l \<Longrightarrow> fl_tunnel_type (l4_flow l) = fl_tunnel_type (ip_flow s)"
proof -
  have "fl_tunnel_type (set_sides v6 eth c src dst f) = fl_tunnel_type f" for v6 c src dst f
    by (simp add: set_sides_def Let_def split: option.split prod.split)
  then show "ip_header walk eth p s = Dissected s' \<Longrightarrow> ip_gtp s' = ip_gtp s \<and> fl_tunnel_type (ip_flow s') = fl_tunnel_type (ip_flow s)"
    by (fastforce simp: ip_header_def Let_def split: option.splits if_splits prod.splits)
  show "transport_layer p s = Dissected l \<Longrightarrow> fl_tunnel_type (l4_flow l) = fl_tunnel_type (ip_flow s)"
    by (auto simp: transport_layer_def set_ports_def Let_def split: option.splits if_splits)
qed

lemma find_flow_done:
  assumes "agent_ok A" "fl_tunnel_type f = TUNNEL_NONE"
  shows "\<exists>res. find_flow C ts p d c None tcp f A = CDone res \<and> (\<forall>r A1. res = FFlow r A1 \<longrightarrow> ag_dhc A1 = ag_dhc A)"
proof -
  have m: "fm_free (ag_map A)" using assms by (simp add: agent_ok_def)
  note session = fm_locked_session [OF m, of d]
  show ?thesis
  proof (cases "fm_find (ag_map A) d")
    case (Some r)
    then show ?thesis by (simp add: find_flow_def session(1,2) Let_def update_teid_def)
  next
    case None
    let ?r = "length (ag_store A)"
    obtain m2 where m2: "fm_InsertUnlocked (fm_lock (ag_map A) (HashToBucket (ag_map A) d)) d ?r = Done (True, m2)"
      "fm_Release_digest m2 d = Done (snd (fm_insert (ag_map A) d ?r))"
      using session(3) [of ?r] None by auto
    have "fl_tunnel_type (new_flow C ts c tcp f) = TUNNEL_NONE"
      using assms(2) by (simp add: new_flow_def nd_flow_copy_def nd_flow_new_def Let_def)
    then show ?thesis using None by (simp add: find_flow_def session(1,2) Let_def m2 new_teid_def)
  qed
qed

lemma ex_False [simp]: "\<exists>b. \<not> b"
  by (rule exI [of _ False]) simp

lemma flow_packet_done:
  assumes "agent_ok A" "threads_ok C t A" "ag_dhc A = None" "fl_tunnel_type (l4_flow l) = TUNNEL_NONE" "ip_gtp s = None"
  shows "\<exists>q t' A'. flow_packet E C passes ts p s l t A = CDone (q, t', A')"
proof -
  define f where "f = flow_Hash (ce_sha1 E) 0 [] (ct_tag t) False None (l4_flow l)"
  have "fl_tunnel_type f = TUNNEL_NONE" using assms(4) by (simp add: f_def flow_Hash_def Let_def)
  then obtain res where res: "find_flow C ts p (fl_digest_lower f) (ip_addr_cmp s) None (l4_tcp l) f A = CDone res"
      and dhc: "\<And>r A1. res = FFlow r A1 \<Longrightarrow> ag_dhc A1 = None"
    using find_flow_done [OF assms(1)] assms(3) by metis
  have "\<exists>y. flow_packet E C passes ts p s l t A = CDone y"
  proof (cases res)
    case (FFlow r A1)
    have stage: "dns_stage E passes p (l4_payload l) f nf A1 = CDone (nf, A1)" for nf
      using dhc [OF FFlow] by (simp add: dns_stage_def)
    have ip: "fl_ip_protocol (account_flow E p ts (ip_addr_cmp s) nf) = fl_ip_protocol nf" for nf
      by (simp add: account_flow_def Let_def)
    obtain nf1 st where a: "account_tcp (if fl_ip_protocol (ag_store A1 ! r) = 6 then l4_tcp l else None)
        (account_flow E p ts (ip_addr_cmp s) (ag_store A1 ! r))
        (account_packet p (fl_ip_version (ag_store A1 ! r)) (l4_stats l)) = (nf1, st)" by force
    let ?Q = "queue_stage C p (ip_l2_len s) r nf1 (t\<lparr>ct_flow := f, ct_stats := st\<rparr>) A1"
    have e: "flow_packet E C passes ts p s l t A
        = cbind ?Q (\<lambda>(queued, nf, t, A). CDone (queued, t, A\<lparr>ag_store := (ag_store A)[r := nf]\<rparr>))"
      using res FFlow assms(5) a by (simp add: flow_packet_def f_def [symmetric] Let_def stage ip)
    have "clean (flow_packet E C passes ts p s l t A)" by (rule clean_flow_packet [OF assms(1,2)])
    then have "clean ?Q" unfolding e by (cases ?Q) simp_all
    then obtain y where "?Q = CDone y" by (auto simp: queue_stage_def Let_def split: if_splits)
    then show ?thesis unfolding e by (auto split: prod.split)
  qed (use res assms(5) in \<open>simp add: flow_packet_def f_def [symmetric] Let_def\<close>)
  then show ?thesis by auto
qed

text \<open>A raw IPv4 packet without a tunnel is dropped, or reaches its flow.\<close>

lemma ipv4_stages:
  assumes "pk_wf p" "20 \<le> unat (pk_caplen p)" "drop_bit 4 (pk_data p ! 0) = 4" "ct_dl_type t = DLT_RAW"
    and "no_gtp p (unat (pk_data p ! 0 AND 0xF) * 4)" "0 < jumps"
  shows "(\<exists>t'. ProcessPacket E C jumps passes p t A = CDone (False, t', A))
    \<or> (\<exists>s l. ProcessPacket E C jumps passes p t A = flow_packet E C passes (fst (capture_ts p t)) p s l (snd (capture_ts p t)) A
        \<and> fl_tunnel_type (l4_flow l) = TUNNEL_NONE \<and> ip_gtp s = None)"
proof -
  obtain ts t1 where ts: "capture_ts p t = (ts, t1)" by force
  have t1: "ct_dl_type t1 = DLT_RAW" using assms(4) capture_ts_kept(4) [of p t] ts by simp
  define st where "st = (ct_stats t1)\<lparr>ps_raw := ps_raw (ct_stats t1) + 1,
    ps_maxlen := (if ucast (pk_length p) > ps_maxlen (ct_stats t1) then ucast (pk_length p) else ps_maxlen (ct_stats t1))\<rparr>"
  obtain f1 st1 where L: "link_layer (ct_dl_type t1) p (ct_flow t1) st = Dissected (None, 0, f1, st1)" "fl_tunnel_type f1 = TUNNEL_NONE"
    by (simp add: t1 link_layer_def link_header_def Let_def l2_loop.simps l2_tag_def ETHERTYPE_VLAN_def ETHERTYPE_MPLS_UC_def
        ETHERTYPE_MPLS_MC_def ETHERTYPE_PPPOE_def ETHERTYPE_PPPOEDISC_def)
  define s0 where "s0 = \<lparr>ip_flow = f1, ip_addr_cmp = 0, ip_l2_len = 0, ip_l3_len = 0, ip_l4 = 0, ip_l4_len = 0,
                         ip_gtp = None, ip_stats = st1\<rparr>"
  have P: "ProcessPacket E C jumps passes p t A =
      (case ip_layer (ce_walk E) None p jumps s0 of
         Undefined \<Rightarrow> CUndefined
       | Diverged \<Rightarrow> CDiverged
       | Discarded f st \<Rightarrow> CDone (False, t1\<lparr>ct_flow := f, ct_stats := st\<rparr>, A)
       | Dissected s \<Rightarrow>
           (case transport_layer p s of
              Undefined \<Rightarrow> CUndefined
            | Diverged \<Rightarrow> CDiverged
            | Discarded f st \<Rightarrow> CDone (False, t1\<lparr>ct_flow := f, ct_stats := st\<rparr>, A)
            | Dissected l \<Rightarrow> flow_packet E C passes ts p s l t1 A))"
    unfolding ProcessPacket_def ts Let_def prod.case st_def [symmetric] L dissected.case s0_def [symmetric] ..
  have hd0: "hd (pk_data p) = pk_data p ! 0"
    using assms(1,2) by (intro hd_conv_nth) (auto simp: pk_wf_def)
  have h: "ip_l4 s = unat (pk_data p ! 0 AND 0xF) * 4" if "ip_header (ce_walk E) None p s0 = Dissected s" for s
    using that assms(1-3) by (auto simp: s0_def ip_header_def Let_def pk_read_def pk_wf_def hd_drop_conv_nth hd0 split: option.splits if_splits)
  have g: "\<forall>s. ip_header (ce_walk E) None p s0 = Dissected s \<longrightarrow> no_gtp p (ip_l4 s)" using h assms(5) by simp
  have "(\<exists>f st. ip_layer (ce_walk E) None p jumps s0 = Discarded f st)
    \<or> (\<exists>s. ip_layer (ce_walk E) None p jumps s0 = Dissected s \<and> ip_header (ce_walk E) None p s0 = Dissected s
        \<and> ip_l4 s + ip_l4_len s \<le> unat (pk_caplen p))"
    using assms(2,3) by (intro ip_layer_no_gtp [OF assms(1) _ _ g assms(6)]) (simp_all add: s0_def)
  then show ?thesis
  proof (elim disjE exE conjE)
    fix s assume s: "ip_layer (ce_walk E) None p jumps s0 = Dissected s" "ip_header (ce_walk E) None p s0 = Dissected s"
      "ip_l4 s + ip_l4_len s \<le> unat (pk_caplen p)"
    have k: "ip_gtp s = None" "fl_tunnel_type (ip_flow s) = TUNNEL_NONE"
      using dissection_kept(1) [OF s(2)] L(2) by (simp_all add: s0_def)
    from transport_in_bounds [OF assms(1) s(3)] show ?thesis
    proof (elim disjE exE conjE)
      fix l assume l: "transport_layer p s = Dissected l"
      have "fl_tunnel_type (l4_flow l) = TUNNEL_NONE" using dissection_kept(2) [OF l] k(2) by simp
      then show ?thesis using P s(1) l k(1) ts by auto
    qed (simp add: P s(1))
  qed (simp add: P)
qed


section \<open>Instances\<close>

definition sample_env :: capture_env where
  "sample_env = \<lparr>ce_sha1 = \<lambda>_. replicate 20 7, ce_walk = \<lambda>_ _ _ _. None, ce_rate = \<lambda>_ _ _ s. s, ce_dns = \<lambda>_. None,
     ce_ntop = \<lambda>_ _. [], ce_addr_types = addr_types_empty, ce_now = 0, ce_dhc_ttl = 1800\<rparr>"

definition sample_config :: capture_config where
  "sample_config = \<lparr>cf_max_flows = 2, cf_syn_scan = True, cf_max_detection_pkts = 32, cf_update_interval = 15, cf_threads = 1\<rparr>"

definition sample_thread :: capture_thread where
  "sample_thread = \<lparr>ct_tag = ''eth0'', ct_dl_type = DLT_RAW, ct_offline = True, ct_replay_delay = False,
     ct_flow = nd_flow_new 15 False False, ct_tv_epoch = 100, ct_ts_first = 0, ct_ts_last = 0, ct_stats = pkt_stats_zero,
     ct_dpi_thread_id = 0\<rparr>"

definition sample_agent :: agent where
  "sample_agent = \<lparr>ag_map = ndFlowMap_new 4, ag_store = [], ag_flows = 0, ag_events = 0, ag_queue = [], ag_dhc = None\<rparr>"

lemma sample_agent_ok: "agent_ok sample_agent" "threads_ok sample_config sample_thread sample_agent"
  by (simp_all add: agent_ok_def sample_agent_def fm_free_def fm_wf_def ndFlowMap_new_def GetBuckets_def fm_find_def
      threads_ok_def sample_config_def sample_thread_def)

lemma sample_run:
  obtains q t' A' where "ProcessPacket sample_env sample_config 43 82 sample_packet sample_thread sample_agent = CDone (q, t', A')"
proof -
  have p: "pk_wf sample_packet" "20 \<le> unat (pk_caplen sample_packet)" "drop_bit 4 (pk_data sample_packet ! 0) = 4"
    "no_gtp sample_packet (unat (pk_data sample_packet ! 0 AND 0xF) * 4)"
    by (simp_all add: pk_wf_def sample_packet_def no_gtp_def pk_read_def be_nat_def)
  have t: "ct_dl_type sample_thread = DLT_RAW" "ag_dhc sample_agent = None" by (simp_all add: sample_thread_def sample_agent_def)
  have T: "threads_ok sample_config (snd (capture_ts sample_packet sample_thread)) sample_agent"
    using sample_agent_ok(2) by (simp add: threads_ok_def capture_ts_kept)
  show thesis
    using ipv4_stages [OF p(1-3) t(1) p(4), of 43 sample_env sample_config 82 sample_agent]
      flow_packet_done [OF sample_agent_ok(1) T t(2), of _ _ sample_env 82] that by fastforce
qed

theorem packet_keeps_flow_table_witness:
  "\<exists>q t' A'. ProcessPacket sample_env sample_config 43 82 sample_packet sample_thread sample_agent = CDone (q, t', A')
    \<and> agent_ok A' \<and> ag_flows A' \<le> 2"
proof -
  obtain q t' A' where r: "ProcessPacket sample_env sample_config 43 82 sample_packet sample_thread sample_agent = CDone (q, t', A')"
    by (rule sample_run)
  have "0 < cf_max_flows sample_config \<longrightarrow> ag_flows sample_agent \<le> cf_max_flows sample_config"
    by (simp add: sample_agent_def)
  from packet_keeps_flow_table [OF r sample_agent_ok(1) this] r show ?thesis by (auto simp: sample_config_def)
qed

theorem packet_raises_nothing_witness:
  "ProcessPacket sample_env sample_config 43 82 sample_packet sample_thread sample_agent \<noteq> CRaised ''EINVAL''"
  using packet_raises_nothing [OF sample_agent_ok] by blast


theorem mdns_name_fits_and_ends_witness:
  "mdns_name 82 [3, 0x61, 0x62, 0x63, 0, 1, 0x64, 0xC0, 0] 5 [] \<noteq> CDiverged"
proof -
  have "\<not> looping_label [3, 0x61, 0x62, 0x63, 0, 1, 0x64, 0xC0, 0]" by (simp add: looping_label_upt upt_rec)
  then show ?thesis using mdns_name_fits_and_ends by blast
qed


end
