(* ===== verification/NdConntrack.thy ===== *)
theory NdConntrack
  imports NdFlow NdFlowMap
begin

text \<open>
  The table of the connection tracker (\<open>src/src/nd-conntrack.cpp\<close>,
  \<open>src/include/nd-conntrack.hpp\<close>): the flows that the kernel reports, by the digest of their
  tuple and by their number. An object of the library \<open>libnetfilter\_conntrack\<close> is the
  values of its attributes; SHA-1 and the clock are arguments. A socket address is its family
  and its address bytes, behind which \<open>CopyAddress\<close> has zeros. The mutex is its
  locked bit: an exception of \<open>Update\<close> leaves an UPDATE event with the mutex locked.
\<close>

unbundle bit_operations_syntax

section \<open>Flows of the kernel\<close>

record nf_conntrack =
  nf_id :: "32 word"
  nf_mark :: "32 word"
  nf_l3proto :: "byte option"
  nf_l4proto :: "byte option"
  nf_orig_ipv4_src :: "bytes option"
  nf_orig_ipv4_dst :: "bytes option"
  nf_orig_ipv6_src :: "bytes option"
  nf_orig_ipv6_dst :: "bytes option"
  nf_repl_ipv4_src :: "bytes option"
  nf_repl_ipv4_dst :: "bytes option"
  nf_repl_ipv6_src :: "bytes option"
  nf_repl_ipv6_dst :: "bytes option"
  nf_orig_port_src :: "16 word option"
  nf_orig_port_dst :: "16 word option"
  nf_repl_port_src :: "16 word option"
  nf_repl_port_dst :: "16 word option"

type_synonym ct_addr = "nat \<times> bytes"

record ct_flow =
  cl_id :: "32 word"
  cl_mark :: "32 word"
  cl_updated_at :: time_t
  cl_digest :: digest
  cl_l3_proto :: nat
  cl_l4_proto :: byte
  cl_orig_port_src :: "16 word"
  cl_orig_port_dst :: "16 word"
  cl_repl_port_src :: "16 word"
  cl_repl_port_dst :: "16 word"
  cl_repl_src_valid :: bool
  cl_repl_dst_valid :: bool
  cl_orig_src :: ct_addr
  cl_orig_dst :: ct_addr
  cl_repl_src :: ct_addr
  cl_repl_dst :: ct_addr

definition CT_AF_INET :: nat where "CT_AF_INET = 2"
definition CT_AF_INET6 :: nat where "CT_AF_INET6 = 10"
definition ND_CT_FLOW_TTL :: time_t where "ND_CT_FLOW_TTL = 900"

text \<open>The reply tuple where it is known; for equal addresses the order is that of the reply's destination.\<close>

definition ct_hash_input :: "ct_flow \<Rightarrow> bytes" where
  "ct_hash_input f =
     (let src = snd (if cl_repl_src_valid f then cl_repl_src f else cl_orig_src f);
          dst = snd (if cl_repl_dst_valid f then cl_repl_dst f else cl_orig_dst f);
          ip = fst (cl_orig_src f) \<in> {CT_AF_INET, CT_AF_INET6};
          c = (if ip then memcmp src dst else 0)
      in le_bytes 2 (cl_l3_proto f) @ [cl_l4_proto f]
         @ (if \<not> ip then [] else if c < 0 then src @ dst else dst @ src)
         @ (if c < 0 then le_bytes 2 (unat (cl_repl_port_src f)) @ le_bytes 2 (unat (cl_repl_port_dst f))
            else le_bytes 2 (unat (cl_repl_port_dst f)) @ le_bytes 2 (unat (cl_repl_port_src f))))"

definition ct_Hash :: "(bytes \<Rightarrow> bytes) \<Rightarrow> ct_flow \<Rightarrow> ct_flow" where
  "ct_Hash sha1 f = f\<lparr>cl_digest := sha1 (ct_hash_input f)\<rparr>"

text \<open>One address of an event: whether it is valid, and its value.\<close>

definition ct_copy :: "nat \<Rightarrow> bytes option \<Rightarrow> bytes option \<Rightarrow> ct_addr \<Rightarrow> bool \<times> ct_addr" where
  "ct_copy af v4 v6 old =
     (case (if af = CT_AF_INET then v4 else v6) of None \<Rightarrow> (False, old) | Some a \<Rightarrow> (True, (af, a)))"

text \<open>
  \<open>Update\<close>: an exception, or nothing, and the flow, which has already been changed where
  the exception is thrown.
\<close>

definition ct_Update :: "(bytes \<Rightarrow> bytes) \<Rightarrow> time_t \<Rightarrow> nf_conntrack \<Rightarrow> ct_flow \<Rightarrow> string option \<times> ct_flow" where
  "ct_Update sha1 now ct f =
     (let f = f\<lparr>cl_updated_at := now, cl_mark := nf_mark ct, cl_repl_src_valid := False, cl_repl_dst_valid := False\<rparr> in
      case nf_l3proto ct of
        None \<Rightarrow> (Some ''ATTR_ORIG_L3PROTO not set'', f)
      | Some l3 \<Rightarrow>
          (let af = unat l3; f = f\<lparr>cl_l3_proto := af\<rparr> in
           if af \<noteq> CT_AF_INET \<and> af \<noteq> CT_AF_INET6 then (Some ''Unsupported address family'', f)
           else case nf_l4proto ct of
             None \<Rightarrow> (Some ''ATTR_ORIG_L4PROTO not set'', f)
           | Some l4 \<Rightarrow>
               (let f = f\<lparr>cl_l4_proto := l4\<rparr> in
                if nf_orig_ipv4_src ct = None \<and> nf_orig_ipv6_src ct = None
                   \<or> nf_orig_ipv4_dst ct = None \<and> nf_orig_ipv6_dst ct = None
                then (Some ''ATTR_ORIG_SRC/DST not set'', f)
                else
                  (let f = f\<lparr>cl_orig_src := snd (ct_copy af (nf_orig_ipv4_src ct) (nf_orig_ipv6_src ct) (cl_orig_src f)),
                            cl_orig_dst := snd (ct_copy af (nf_orig_ipv4_dst ct) (nf_orig_ipv6_dst ct) (cl_orig_dst f))\<rparr>;
                       f = f\<lparr>cl_orig_port_src := (case nf_orig_port_src ct of None \<Rightarrow> cl_orig_port_src f | Some p \<Rightarrow> p),
                            cl_orig_port_dst := (case nf_orig_port_dst ct of None \<Rightarrow> cl_orig_port_dst f | Some p \<Rightarrow> p)\<rparr>;
                       (sv, sa) = ct_copy af (nf_repl_ipv4_src ct) (nf_repl_ipv6_src ct) (cl_repl_src f);
                       (dv, da) = ct_copy af (nf_repl_ipv4_dst ct) (nf_repl_ipv6_dst ct) (cl_repl_dst f);
                       f = f\<lparr>cl_repl_src_valid := sv, cl_repl_dst_valid := dv, cl_repl_src := sa, cl_repl_dst := da\<rparr>;
                       f = f\<lparr>cl_repl_port_src := (case nf_repl_port_src ct of None \<Rightarrow> cl_repl_port_src f | Some p \<Rightarrow> p),
                            cl_repl_port_dst := (case nf_repl_port_dst ct of None \<Rightarrow> cl_repl_port_dst f | Some p \<Rightarrow> p)\<rparr>
                   in (None, ct_Hash sha1 f)))))"

text \<open>The addresses of a new object are not initialised.\<close>

definition ct_flow_new :: "(bytes \<Rightarrow> bytes) \<Rightarrow> time_t \<Rightarrow> ct_addr \<Rightarrow> nf_conntrack \<Rightarrow> string option \<times> ct_flow" where
  "ct_flow_new sha1 now junk ct =
     ct_Update sha1 now ct
       \<lparr>cl_id = nf_id ct, cl_mark = 0, cl_updated_at = 0, cl_digest = [], cl_l3_proto = 0, cl_l4_proto = 0,
        cl_orig_port_src = 0, cl_orig_port_dst = 0, cl_repl_port_src = 0, cl_repl_port_dst = 0,
        cl_repl_src_valid = False, cl_repl_dst_valid = False,
        cl_orig_src = junk, cl_orig_dst = junk, cl_repl_src = junk, cl_repl_dst = junk\<rparr>"

definition ct_HasExpired :: "time_t \<Rightarrow> ct_flow \<Rightarrow> bool" where
  "ct_HasExpired now f \<longleftrightarrow> cl_updated_at f + ND_CT_FLOW_TTL \<le> now"

section \<open>The table\<close>

record ct_table =
  ct_ids :: "(32 word \<times> digest) list"
  ct_flows :: "(digest \<times> ct_flow) list"
  ct_locked :: bool

datatype nfct_type = NFCT_T_NEW | NFCT_T_UPDATE | NFCT_T_DESTROY | NFCT_T_OTHER

definition ct_empty :: ct_table where
  "ct_empty = \<lparr>ct_ids = [], ct_flows = [], ct_locked = False\<rparr>"

text \<open>The result tells whether the event left with an exception; only then the mutex stays locked.\<close>

definition ProcessConntrackEvent ::
  "(bytes \<Rightarrow> bytes) \<Rightarrow> time_t \<Rightarrow> ct_addr \<Rightarrow> nfct_type \<Rightarrow> nf_conntrack \<Rightarrow> ct_table \<Rightarrow> (string option \<times> ct_table) outcome" where
  "ProcessConntrackEvent sha1 now junk type ct c =
     (if ct_locked c then Blocked
      else Done (case type of
        NFCT_T_NEW \<Rightarrow>
          (case ct_flow_new sha1 now junk ct of
             (Some e, _) \<Rightarrow> (None, c)
           | (None, f) \<Rightarrow>
               (None, c\<lparr>ct_ids := al_update (nf_id ct) (cl_digest f) (ct_ids c),
                        ct_flows := al_update (cl_digest f) f (ct_flows c)\<rparr>))
      | NFCT_T_UPDATE \<Rightarrow>
          (case map_of (ct_ids c) (nf_id ct) of
             None \<Rightarrow> (None, c)
           | Some d \<Rightarrow>
               (case map_of (ct_flows c) d of
                  None \<Rightarrow> (None, c\<lparr>ct_ids := al_delete (nf_id ct) (ct_ids c)\<rparr>)
                | Some f \<Rightarrow>
                    (case ct_Update sha1 now ct f of
                       (Some e, f) \<Rightarrow> (Some e, c\<lparr>ct_flows := al_update d f (ct_flows c), ct_locked := True\<rparr>)
                     | (None, f) \<Rightarrow>
                         if cl_digest f \<noteq> d then
                           (None, c\<lparr>ct_ids := al_update (nf_id ct) (cl_digest f) (ct_ids c),
                                    ct_flows := al_update (cl_digest f) f (al_delete d (ct_flows c))\<rparr>)
                         else (None, c\<lparr>ct_flows := al_update d f (ct_flows c)\<rparr>))))
      | NFCT_T_DESTROY \<Rightarrow>
          (case map_of (ct_ids c) (nf_id ct) of
             None \<Rightarrow> (None, c)
           | Some d \<Rightarrow> (None, c\<lparr>ct_ids := al_delete (nf_id ct) (ct_ids c), ct_flows := al_delete d (ct_flows c)\<rparr>))
      | NFCT_T_OTHER \<Rightarrow> (None, c)))"

text \<open>A purge takes the numbers of the flows that it removes out of the other map.\<close>

definition ct_PurgeFlows :: "time_t \<Rightarrow> ct_table \<Rightarrow> ct_table outcome" where
  "ct_PurgeFlows now c =
     (if ct_locked c then Blocked
      else (let old = filter (\<lambda>(_, f). ct_HasExpired now f) (ct_flows c) in
            Done (c\<lparr>ct_ids := filter (\<lambda>(i, _). i \<notin> (\<lambda>(_, f). cl_id f) ` set old) (ct_ids c),
                    ct_flows := filter (\<lambda>(_, f). \<not> ct_HasExpired now f) (ct_flows c)\<rparr>)))"

text \<open>The callback of the library, with the time of the next purge.\<close>

definition ct_event_callback ::
  "(bytes \<Rightarrow> bytes) \<Rightarrow> time_t \<Rightarrow> ct_addr \<Rightarrow> nfct_type \<Rightarrow> nf_conntrack \<Rightarrow> time_t \<times> ct_table \<Rightarrow> (string option \<times> time_t \<times> ct_table) outcome" where
  "ct_event_callback sha1 now junk type ct s = (case s of (next_purge, c) \<Rightarrow>
     (case ProcessConntrackEvent sha1 now junk type ct c of
        Done (None, c) \<Rightarrow>
          if now > next_purge then
            (case ct_PurgeFlows now c of
               Done c \<Rightarrow> Done (None, now + ND_CT_FLOW_TTL + ND_CT_FLOW_TTL div 10, c)
             | Blocked \<Rightarrow> Blocked | Raised e \<Rightarrow> Raised e)
          else Done (None, next_purge, c)
      | Done (Some e, c) \<Rightarrow> Done (Some e, next_purge, c)
      | Blocked \<Rightarrow> Blocked
      | Raised e \<Rightarrow> Raised e))"

section \<open>Looking up a flow\<close>

definition ct_lookup_input :: "nd_flow \<Rightarrow> bytes" where
  "ct_lookup_input f =
     le_bytes 2 (if fl_ip_version f = 4 then CT_AF_INET else CT_AF_INET6) @ [fl_ip_protocol f]
     @ take (GetAddressSize (fl_lower_addr f)) (case GetAddress (fl_lower_addr f) of None \<Rightarrow> [] | Some a \<Rightarrow> a)
     @ take (GetAddressSize (fl_upper_addr f)) (case GetAddress (fl_upper_addr f) of None \<Rightarrow> [] | Some a \<Rightarrow> a)
     @ le_bytes 2 (unat (GetPort (fl_lower_addr f) False)) @ le_bytes 2 (unat (GetPort (fl_upper_addr f) False))"

definition ct_translated :: "ct_flow \<Rightarrow> bool" where
  "ct_translated f \<longleftrightarrow> cl_l3_proto f \<in> {CT_AF_INET, CT_AF_INET6}
     \<and> (cl_orig_src f \<noteq> cl_repl_dst f \<or> cl_orig_dst f \<noteq> cl_repl_src f)"

definition ct_UpdateFlow :: "(bytes \<Rightarrow> bytes) \<Rightarrow> time_t \<Rightarrow> nd_flow \<Rightarrow> ct_table \<Rightarrow> (nd_flow \<times> ct_table) outcome" where
  "ct_UpdateFlow sha1 now f c =
     (if ct_locked c then Blocked
      else Done (let d = sha1 (ct_lookup_input f) in
        case map_of (ct_flows c) d of
          None \<Rightarrow> (f, c)
        | Some cf \<Rightarrow>
            if \<not> (cl_repl_src_valid cf \<and> cl_repl_dst_valid cf) then (f, c)
            else (if ct_translated cf then f\<lparr>fl_flags := (fl_flags f)\<lparr>ff_ip_nat := True\<rparr>\<rparr> else f,
                  c\<lparr>ct_flows := al_update d (cf\<lparr>cl_updated_at := now\<rparr>) (ct_flows c)\<rparr>)))"

section \<open>Reachable tables\<close>

text \<open>What the thread and its clients do to the table.\<close>

inductive ct_reach :: "(bytes \<Rightarrow> bytes) \<Rightarrow> ct_table \<Rightarrow> bool" for sha1 where
  start: "ct_reach sha1 ct_empty"
| event: "ct_reach sha1 c \<Longrightarrow> ct_event_callback sha1 now junk type ct (t, c) = Done (e, t', c') \<Longrightarrow> ct_reach sha1 c'"
| lookup: "ct_reach sha1 c \<Longrightarrow> ct_UpdateFlow sha1 now f c = Done (f', c') \<Longrightarrow> ct_reach sha1 c'"

inductive_cases ct_reachE: "ct_reach sha1 c"

definition ct_ok :: "(bytes \<Rightarrow> bytes) \<Rightarrow> ct_table \<Rightarrow> bool" where
  "ct_ok sha1 c \<longleftrightarrow> \<not> ct_locked c \<and> distinct (map fst (ct_flows c)) \<and> distinct (map fst (ct_ids c))
     \<and> (\<forall>d f. map_of (ct_flows c) d = Some f \<longrightarrow> cl_digest f = d \<and> d = sha1 (ct_hash_input f))"

lemma ct_hash_input_kept [simp]:
  "ct_hash_input (f\<lparr>cl_digest := d\<rparr>) = ct_hash_input f" "ct_hash_input (f\<lparr>cl_updated_at := t\<rparr>) = ct_hash_input f"
  by (simp_all add: ct_hash_input_def Let_def cong: if_cong)

lemma ct_Update_digest: "ct_Update sha1 now ct f = (None, f') \<Longrightarrow> cl_digest f' = sha1 (ct_hash_input f')"
  by (auto simp: ct_Update_def Let_def ct_Hash_def split: option.splits if_splits prod.splits)

lemma ct_flow_new_digest: "ct_flow_new sha1 now junk ct = (None, f) \<Longrightarrow> cl_digest f = sha1 (ct_hash_input f)"
  unfolding ct_flow_new_def by (rule ct_Update_digest)

lemma ct_ok_put:
  "ct_ok sha1 c \<Longrightarrow> cl_digest f = sha1 (ct_hash_input f) \<Longrightarrow> distinct (map fst ids) \<Longrightarrow>
     ct_ok sha1 (c\<lparr>ct_ids := ids, ct_flows := al_update (cl_digest f) f (ct_flows c)\<rparr>)"
  by (auto simp: ct_ok_def)

lemma ct_ok_del: "ct_ok sha1 c \<Longrightarrow> ct_ok sha1 (c\<lparr>ct_flows := al_delete d (ct_flows c)\<rparr>)"
  by (auto simp: ct_ok_def)

lemma ct_ok_ids: "ct_ok sha1 c \<Longrightarrow> distinct (map fst ids) \<Longrightarrow> ct_ok sha1 (c\<lparr>ct_ids := ids\<rparr>)"
  by (auto simp: ct_ok_def)

lemma ct_event_ok:
  assumes "ct_ok sha1 c" "ProcessConntrackEvent sha1 now junk type ct c = Done (e, c')"
  shows "if e = None then ct_ok sha1 c' else ct_locked c'"
proof -
  have d: "distinct (map fst (ct_ids c))" "\<not> ct_locked c" using assms(1) by (simp_all add: ct_ok_def)
  show ?thesis
  proof (cases type)
    case NFCT_T_NEW
    obtain e1 f where n: "ct_flow_new sha1 now junk ct = (e1, f)" by force
    show ?thesis
    proof (cases e1)
      case None
      have f: "cl_digest f = sha1 (ct_hash_input f)" using ct_flow_new_digest n None by simp
      show ?thesis using assms NFCT_T_NEW n None d ct_ok_put [OF assms(1) f distinct_al_update [OF d(1)]]
        by (auto simp: ProcessConntrackEvent_def)
    qed (use assms NFCT_T_NEW n d in \<open>auto simp: ProcessConntrackEvent_def\<close>)
  next
    case NFCT_T_UPDATE
    show ?thesis
    proof (cases "map_of (ct_ids c) (nf_id ct)")
      case (Some k)
      show ?thesis
      proof (cases "map_of (ct_flows c) k")
        case None
        then show ?thesis using assms NFCT_T_UPDATE Some d ct_ok_ids [OF assms(1)] by (auto simp: ProcessConntrackEvent_def)
      next
        case (Some f)
        obtain e1 f1 where u: "ct_Update sha1 now ct f = (e1, f1)" by force
        show ?thesis
        proof (cases e1)
          case None
          then have f1: "cl_digest f1 = sha1 (ct_hash_input f1)" using u ct_Update_digest by simp
          show ?thesis
          proof (cases "cl_digest f1 = k")
            case True
            then show ?thesis
              using assms NFCT_T_UPDATE \<open>map_of (ct_ids c) (nf_id ct) = _\<close> Some u None d ct_ok_put [OF assms(1) f1 d(1)]
              by (auto simp: ProcessConntrackEvent_def)
          next
            case False
            then show ?thesis
              using assms NFCT_T_UPDATE \<open>map_of (ct_ids c) (nf_id ct) = _\<close> Some u None d
                ct_ok_put [OF ct_ok_del [OF assms(1), of k] f1 distinct_al_update [OF d(1)]]
              by (auto simp: ProcessConntrackEvent_def)
          qed
        next
          case (Some e2)
          then show ?thesis
            using assms NFCT_T_UPDATE \<open>map_of (ct_ids c) (nf_id ct) = _\<close> \<open>map_of (ct_flows c) k = _\<close> u d
            by (auto simp: ProcessConntrackEvent_def)
        qed
      qed
    qed (use assms NFCT_T_UPDATE d in \<open>auto simp: ProcessConntrackEvent_def\<close>)
  next
    case NFCT_T_DESTROY
    show ?thesis
    proof (cases "map_of (ct_ids c) (nf_id ct)")
      case (Some k)
      then show ?thesis
        using assms NFCT_T_DESTROY d ct_ok_del [OF ct_ok_ids [OF assms(1) distinct_al_delete [OF d(1), of "nf_id ct"]], of k]
        by (auto simp: ProcessConntrackEvent_def)
    qed (use assms NFCT_T_DESTROY d in \<open>auto simp: ProcessConntrackEvent_def\<close>)
  qed (use assms d in \<open>auto simp: ProcessConntrackEvent_def\<close>)
qed

lemma distinct_filter_fst: "distinct (map fst xs) \<Longrightarrow> distinct (map fst (filter P xs))"
  by (induction xs) auto

lemma ct_purge_ok: "ct_ok sha1 c \<Longrightarrow> ct_PurgeFlows now c = Done c' \<Longrightarrow> ct_ok sha1 c'"
  using map_of_filter_value [of "ct_flows c" "\<lambda>f. \<not> ct_HasExpired now f"]
  by (auto simp: ct_ok_def ct_PurgeFlows_def Let_def distinct_filter_fst case_prod_unfold split: if_splits option.splits)

lemma ct_UpdateFlow_ok: "ct_ok sha1 c \<Longrightarrow> ct_UpdateFlow sha1 now f c = Done (f', c') \<Longrightarrow> ct_ok sha1 c'"
proof -
  assume ok: "ct_ok sha1 c" and u: "ct_UpdateFlow sha1 now f c = Done (f', c')"
  show ?thesis
  proof (cases "map_of (ct_flows c) (sha1 (ct_lookup_input f))")
    case (Some cf)
    have "cl_digest cf = sha1 (ct_lookup_input f)" "cl_digest cf = sha1 (ct_hash_input cf)"
      using ok Some by (auto simp: ct_ok_def)
    then have "ct_ok sha1 (c\<lparr>ct_flows := al_update (sha1 (ct_lookup_input f)) (cf\<lparr>cl_updated_at := now\<rparr>) (ct_flows c)\<rparr>)"
      using ok by (auto simp: ct_ok_def)
    then show ?thesis using u ok Some by (auto simp: ct_UpdateFlow_def Let_def split: if_splits)
  qed (use ok u in \<open>auto simp: ct_UpdateFlow_def Let_def split: if_splits\<close>)
qed

lemma ct_reach_ok: "ct_reach sha1 c \<Longrightarrow> ct_locked c \<or> ct_ok sha1 c"
proof (induction rule: ct_reach.induct)
  case (event c now junk type ct t e t' c')
  obtain e1 c1 where p: "ProcessConntrackEvent sha1 now junk type ct c = Done (e1, c1)"
    using event.hyps(2) by (cases "ProcessConntrackEvent sha1 now junk type ct c") (auto simp: ct_event_callback_def)
  have "ct_ok sha1 c" using event.IH p by (auto simp: ProcessConntrackEvent_def)
  from ct_event_ok [OF this p] show ?case
    using event.hyps(2) p ct_purge_ok [of sha1 c1 now]
    by (cases e1) (auto simp: ct_event_callback_def split: if_splits outcome.splits)
next
  case (lookup c now f f' c')
  have "ct_ok sha1 c" using lookup by (auto simp: ct_UpdateFlow_def)
  then show ?case using ct_UpdateFlow_ok lookup.hyps(2) by blast
qed (simp add: ct_ok_def ct_empty_def)


section \<open>Translated connections\<close>

text \<open>The address bytes of a side.\<close>

definition raw_side :: "nd_addr \<Rightarrow> bytes" where
  "raw_side a = (case GetAddress a of None \<Rightarrow> [] | Some b \<Rightarrow> b)"

text \<open>The reply direction of a tracked connection is one of the two directions of a flow.\<close>

definition ct_matches :: "ct_flow \<Rightarrow> nd_flow \<Rightarrow> bool" where
  "ct_matches cf f \<longleftrightarrow>
     (let af = (if fl_ip_version f = 4 then CT_AF_INET else CT_AF_INET6); n = (if fl_ip_version f = 4 then 4 else 16);
          lower = (raw_side (fl_lower_addr f), GetPort (fl_lower_addr f) False);
          upper = (raw_side (fl_upper_addr f), GetPort (fl_upper_addr f) False) in
      cl_l3_proto cf = af \<and> fst (cl_orig_src cf) = af \<and> cl_l4_proto cf = fl_ip_protocol f
      \<and> cl_repl_src_valid cf \<and> cl_repl_dst_valid cf
      \<and> GetAddressSize (fl_lower_addr f) = n \<and> GetAddressSize (fl_upper_addr f) = n
      \<and> length (fst lower) = n \<and> length (fst upper) = n \<and> memcmp (fst lower) (fst upper) < 0
      \<and> ((snd (cl_repl_src cf), cl_repl_port_src cf) = lower \<and> (snd (cl_repl_dst cf), cl_repl_port_dst cf) = upper
       \<or> (snd (cl_repl_src cf), cl_repl_port_src cf) = upper \<and> (snd (cl_repl_dst cf), cl_repl_port_dst cf) = lower))"

lemma ct_matches_input:
  assumes "ct_matches cf f"
  shows "ct_hash_input cf = ct_lookup_input f"
proof -
  let ?l = "raw_side (fl_lower_addr f)" and ?u = "raw_side (fl_upper_addr f)"
  let ?af = "if fl_ip_version f = 4 then CT_AF_INET else CT_AF_INET6"
  have m: "cl_l3_proto cf = ?af" "fst (cl_orig_src cf) = ?af" "cl_l4_proto cf = fl_ip_protocol f"
    "cl_repl_src_valid cf" "cl_repl_dst_valid cf"
    "take (GetAddressSize (fl_lower_addr f)) ?l = ?l" "take (GetAddressSize (fl_upper_addr f)) ?u = ?u"
    "memcmp ?l ?u < 0" "length ?u = length ?l"
    using assms by (auto simp: ct_matches_def Let_def)
  have af: "?af \<in> {CT_AF_INET, CT_AF_INET6}" by simp
  have g: "\<not> memcmp ?u ?l < 0" using memcmp_sym [of ?l ?u] m(8,9) by simp
  have "snd (cl_repl_src cf) = ?l \<and> snd (cl_repl_dst cf) = ?u \<and> cl_repl_port_src cf = GetPort (fl_lower_addr f) False
        \<and> cl_repl_port_dst cf = GetPort (fl_upper_addr f) False
    \<or> snd (cl_repl_src cf) = ?u \<and> snd (cl_repl_dst cf) = ?l \<and> cl_repl_port_src cf = GetPort (fl_upper_addr f) False
        \<and> cl_repl_port_dst cf = GetPort (fl_lower_addr f) False"
    using assms by (auto simp: ct_matches_def Let_def)
  then show ?thesis
    unfolding ct_hash_input_def ct_lookup_input_def Let_def m(1-3) raw_side_def [symmetric] m(6,7)
    using af m(4,5,8) g by (elim disjE conjE) simp_all
qed

text \<open>
  C29. A flow is marked as translated exactly when the connection that the kernel tracks for
  either of its directions has a reply that is not the reverse of the original: the lookup
  by the digest of the flow finds the connection by the digest of its reply.
\<close>

theorem conntrack_marks_translated:
  assumes "ct_reach sha1 c" "\<not> ct_locked c" "map_of (ct_flows c) (cl_digest cf) = Some cf" "ct_matches cf f"
  shows "\<exists>c'. ct_UpdateFlow sha1 now f c
    = Done (f\<lparr>fl_flags := (fl_flags f)\<lparr>ff_ip_nat := ff_ip_nat (fl_flags f)
        \<or> cl_orig_src cf \<noteq> cl_repl_dst cf \<or> cl_orig_dst cf \<noteq> cl_repl_src cf\<rparr>\<rparr>, c')"
proof -
  have "ct_ok sha1 c" using assms(1,2) ct_reach_ok by blast
  then have d: "map_of (ct_flows c) (sha1 (ct_lookup_input f)) = Some cf"
    using assms(3) ct_matches_input [OF assms(4)] unfolding ct_ok_def by metis
  have v: "cl_l3_proto cf \<in> {CT_AF_INET, CT_AF_INET6}" "cl_repl_src_valid cf" "cl_repl_dst_valid cf"
    using assms(4) by (auto simp: ct_matches_def Let_def)
  let ?c = "c\<lparr>ct_flows := al_update (sha1 (ct_lookup_input f)) (cf\<lparr>cl_updated_at := now\<rparr>) (ct_flows c)\<rparr>"
  have u: "ct_UpdateFlow sha1 now f c
      = Done (if ct_translated cf then f\<lparr>fl_flags := (fl_flags f)\<lparr>ff_ip_nat := True\<rparr>\<rparr> else f, ?c)"
    using assms(2) v(2,3) by (simp add: ct_UpdateFlow_def d)
  have t: "ct_translated cf \<longleftrightarrow> cl_orig_src cf \<noteq> cl_repl_dst cf \<or> cl_orig_dst cf \<noteq> cl_repl_src cf"
    using v(1) unfolding ct_translated_def by blast
  have "f\<lparr>fl_flags := (fl_flags f)\<lparr>ff_ip_nat := ff_ip_nat (fl_flags f)\<rparr>\<rparr> = f" by simp
  then show ?thesis unfolding u t [symmetric] by (cases "ct_translated cf") simp_all
qed

section \<open>Instances and departures\<close>

definition sample_ct :: nf_conntrack where
  "sample_ct = \<lparr>nf_id = 1, nf_mark = 0, nf_l3proto = Some 2, nf_l4proto = Some 17,
     nf_orig_ipv4_src = Some [192, 168, 1, 2], nf_orig_ipv4_dst = Some [9, 9, 9, 9], nf_orig_ipv6_src = None, nf_orig_ipv6_dst = None,
     nf_repl_ipv4_src = Some [9, 9, 9, 9], nf_repl_ipv4_dst = Some [192, 168, 1, 2], nf_repl_ipv6_src = None, nf_repl_ipv6_dst = None,
     nf_orig_port_src = Some 0, nf_orig_port_dst = Some 0, nf_repl_port_src = Some 0, nf_repl_port_dst = Some 0\<rparr>"

definition sample_cf :: ct_flow where
  "sample_cf = snd (ct_flow_new (\<lambda>m. m) 0 (0, []) sample_ct)"

definition sample_table :: ct_table where
  "sample_table = \<lparr>ct_ids = [(1, cl_digest sample_cf)], ct_flows = [(cl_digest sample_cf, sample_cf)], ct_locked = False\<rparr>"

lemma sample_new: "ct_flow_new (\<lambda>m. m) 0 (0, []) sample_ct = (None, sample_cf)"
  by (simp add: sample_cf_def ct_flow_new_def ct_Update_def sample_ct_def ct_copy_def CT_AF_INET_def)

lemma sample_table_reach: "ct_reach (\<lambda>m. m) sample_table"
proof (rule ct_reach.event [OF ct_reach.start])
  show "ct_event_callback (\<lambda>m. m) 0 (0, []) NFCT_T_NEW sample_ct (900, ct_empty) = Done (None, 900, sample_table)"
    by (simp add: ct_event_callback_def ProcessConntrackEvent_def ct_empty_def sample_new sample_table_def)
      (simp add: sample_ct_def)
qed


lemma sample_matches: "ct_matches sample_cf sample_flow"
  by (simp add: ct_matches_def sample_cf_def ct_flow_new_def ct_Update_def sample_ct_def ct_copy_def ct_Hash_def CT_AF_INET_def
      sample_flow_defs raw_side_def GetAddress_def GetAddressSize_def IsValid_def IsIPv4_def IsIPv6_def GetPort_def memcmp.simps)

theorem conntrack_marks_translated_witness:
  "\<exists>c'. ct_UpdateFlow (\<lambda>m. m) 5 sample_flow sample_table
    = Done (sample_flow\<lparr>fl_flags := (fl_flags sample_flow)\<lparr>ff_ip_nat := ff_ip_nat (fl_flags sample_flow)
        \<or> cl_orig_src sample_cf \<noteq> cl_repl_dst sample_cf \<or> cl_orig_dst sample_cf \<noteq> cl_repl_src sample_cf\<rparr>\<rparr>, c')"
proof (rule conntrack_marks_translated [OF sample_table_reach])
  show "\<not> ct_locked sample_table" "map_of (ct_flows sample_table) (cl_digest sample_cf) = Some sample_cf"
    by (simp_all add: sample_table_def)
qed (rule sample_matches)

text \<open>
  Two numbers of one tuple share its entry: when the first number goes, the second one refers
  to nothing, although its connection lives.
\<close>

lemma shared_tuple_lost:
  assumes "\<not> ct_locked c" "map_of (ct_ids c) i = Some d" "map_of (ct_ids c) j = Some d" "i \<noteq> j"
    "ProcessConntrackEvent sha1 now junk NFCT_T_DESTROY (ct\<lparr>nf_id := i\<rparr>) c = Done (e, c')"
  shows "map_of (ct_ids c') j = Some d" "map_of (ct_flows c') d = None"
  using assms by (auto simp: ProcessConntrackEvent_def)

text \<open>An update without a protocol throws with the mutex locked; nothing gets it after that.\<close>

lemma update_throws_locked:
  assumes "\<not> ct_locked c" "map_of (ct_ids c) (nf_id ct) = Some d" "map_of (ct_flows c) d = Some f" "nf_l3proto ct = None"
  obtains c' where "ProcessConntrackEvent sha1 now junk NFCT_T_UPDATE ct c = Done (Some ''ATTR_ORIG_L3PROTO not set'', c')"
    "ct_UpdateFlow sha1 now2 nf c' = Blocked"
  using assms by (simp add: ProcessConntrackEvent_def ct_Update_def ct_UpdateFlow_def)

end
