(* ===== verification/NdApps.thy ===== *)
theory NdApps
  imports NdAddrType NdBase64
begin

text \<open>
  The application signatures (\<open>src/src/nd-apps.cpp\<close>, \<open>src/include/nd-apps.hpp\<close>):
  applications by identifier and by tag, domains, networks, domain transforms and
  soft-dissectors, with the parser of the signature file. An unordered map is an
  association list in its iteration order. Compiled regular expressions are of a
  type \<open>'rx\<close>; \<open>compile\<close> and \<open>regex_replace\<close> of the standard library, \<open>inet_pton\<close>
  and \<open>inet_ntop\<close> are arguments.
\<close>

record nd_application =
  app_id :: nat
  app_tag :: string

record nd_soft_dissector =
  sd_aid :: int
  sd_pid :: int
  sd_expr :: string

record app_stats =
  st_ac :: nat
  st_dc :: nat
  st_nc :: nat
  st_sc :: nat
  st_xc :: nat

record 'rx ndapps =
  ap_apps :: "(nat \<times> nd_application) list"
  ap_tags :: "(string \<times> nd_application) list"
  ap_tlds :: "string list"
  ap_domains :: "(string \<times> nat) list"
  ap_soft :: "nd_soft_dissector list"
  ap_xforms :: "(string \<times> 'rx \<times> string) list"
  ap_net4 :: "(32 word rentry, nat) radix_tree"
  ap_net6 :: "(128 word rentry, nat) radix_tree"
  ap_stats :: app_stats

definition ND_APP_UNKNOWN :: nat where "ND_APP_UNKNOWN = 0"

text \<open>\<open>Reset\<close> keeps the set of top-level domains and the counters.\<close>

definition apps_Reset :: "'rx ndapps \<Rightarrow> 'rx ndapps" where
  "apps_Reset s = s\<lparr>ap_apps := [], ap_tags := [], ap_domains := [], ap_soft := [], ap_xforms := [],
     ap_net4 := rt_empty, ap_net6 := rt_empty\<rparr>"

definition ndApplications_new :: "'rx ndapps" where
  "ndApplications_new = \<lparr>ap_apps = [], ap_tags = [], ap_tlds = [], ap_domains = [], ap_soft = [], ap_xforms = [],
     ap_net4 = rt_empty, ap_net6 = rt_empty,
     ap_stats = \<lparr>st_ac = 0, st_dc = 0, st_nc = 0, st_sc = 0, st_xc = 0\<rparr>\<rparr>"

section \<open>Additions\<close>

definition AddApp :: "'rx ndapps \<Rightarrow> nat \<Rightarrow> string \<Rightarrow> nd_application option \<times> 'rx ndapps" where
  "AddApp s aid tag =
     (case map_of (ap_apps s) aid of
        Some app \<Rightarrow> (Some app, s)
      | None \<Rightarrow>
          (case map_of (ap_tags s) tag of
             Some _ \<Rightarrow> (None, s)
           | None \<Rightarrow>
               (let app = \<lparr>app_id = aid, app_tag = tag\<rparr>
                in (Some app, s\<lparr>ap_apps := ap_apps s @ [(aid, app)], ap_tags := ap_tags s @ [(tag, app)]\<rparr>))))"

definition AddDomain :: "'rx ndapps \<Rightarrow> nat \<Rightarrow> string \<Rightarrow> bool \<times> 'rx ndapps" where
  "AddDomain s aid domain =
     (let fresh = (map_of (ap_domains s) domain = None);
          s = (if fresh then s\<lparr>ap_domains := ap_domains s @ [(domain, aid)]\<rparr> else s);
          s = (if find_first (\<lambda>c. c = CHR ''.'') domain = None
               then s\<lparr>ap_tlds := List.insert domain (ap_tlds s)\<rparr> else s)
      in (fresh, s))"

definition AddDomainTransform ::
  "(string \<Rightarrow> 'rx option) \<Rightarrow> 'rx ndapps \<Rightarrow> string \<Rightarrow> string \<Rightarrow> bool \<times> 'rx ndapps" where
  "AddDomainTransform compile s search replace =
     (if search = [] then (False, s)
      else if map_of (ap_xforms s) search \<noteq> None then (False, s)
      else case compile search of
        None \<Rightarrow> (False, s)
      | Some rx \<Rightarrow> (True, s\<lparr>ap_xforms := ap_xforms s @ [(search, rx, replace)]\<rparr>))"

definition AddNetwork :: "inet_pton \<Rightarrow> 'rx ndapps \<Rightarrow> nat \<Rightarrow> string \<Rightarrow> bool \<times> 'rx ndapps" where
  "AddNetwork pton s aid network =
     (let a = ndAddr_str pton network in
      if \<not> IsValid a \<or> \<not> IsIP a then (False, s)
      else if IsIPv4 a then
        (case rentry_create re_load4 a of
           None \<Rightarrow> (False, s)
         | Some e \<Rightarrow> (case rt_assign rentry_ops (ap_net4 s) e aid of
              (T, ex) \<Rightarrow> (ex = None, s\<lparr>ap_net4 := T\<rparr>)))
      else
        (case rentry_create re_load6 a of
           None \<Rightarrow> (False, s)
         | Some e \<Rightarrow> (case rt_assign rentry_ops (ap_net6 s) e aid of
              (T, ex) \<Rightarrow> (ex = None, s\<lparr>ap_net6 := T\<rparr>))))"

text \<open>The expression is decoded first; a decoder that throws leaves through \<open>Load\<close>.\<close>

definition AddSoftDissector :: "'rx ndapps \<Rightarrow> int \<Rightarrow> int \<Rightarrow> string \<Rightarrow> (bool \<times> 'rx ndapps) option" where
  "AddSoftDissector s aid pid encoded_expr =
     (case base64_decode encoded_expr of
        None \<Rightarrow> None
      | Some decoded \<Rightarrow>
          if aid < 0 \<and> pid < 0 then Some (False, s)
          else Some (True, s\<lparr>ap_soft := ap_soft s @
                 [\<lparr>sd_aid = aid, sd_pid = pid, sd_expr = map (\<lambda>b. char_of (unat b)) decoded\<rparr>]\<rparr>))"

section \<open>The signature file\<close>

text \<open>The parts of a string around its first or its last colon.\<close>

definition split_first :: "char \<Rightarrow> string \<Rightarrow> (string \<times> string) option" where
  "split_first c s = map_option (\<lambda>p. (take p s, drop (Suc p) s)) (find_first (\<lambda>x. x = c) s)"

definition split_last :: "char \<Rightarrow> string \<Rightarrow> (string \<times> string) option" where
  "split_last c s = map_option (\<lambda>p. (take p s, drop (Suc p) s)) (find_last (\<lambda>x. x = c) s)"

text \<open>\<open>(signed)strtol(s, nullptr, 0)\<close>, through a 64-bit \<open>long\<close>.\<close>

definition strtol0 :: "string \<Rightarrow> int" where
  "strtol0 s0 =
     (let s1 = dropWhile isspace s0;
          (neg, s2) = (case s1 of c # r \<Rightarrow> if c = CHR ''-'' then (True, r)
                          else if c = CHR ''+'' then (False, r) else (False, s1) | [] \<Rightarrow> (False, s1));
          v = (case s2 of
                 z # x # h # _ \<Rightarrow>
                   if z = CHR ''0'' \<and> (x = CHR ''x'' \<or> x = CHR ''X'') \<and> hex_val h \<noteq> None
                   then strtoul_digits 16 0 (drop 2 s2)
                   else if z = CHR ''0'' then strtoul_digits 8 0 s2 else strtoul_digits 10 0 s2
               | z # _ \<Rightarrow> if z = CHR ''0'' then strtoul_digits 8 0 s2 else strtoul_digits 10 0 s2
               | [] \<Rightarrow> 0);
          l = (if neg then max (- int v) (- (2 ^ 63)) else min (int v) (2 ^ 63 - 1))
      in sint (word_of_int l :: 32 word))"

definition count_if :: "bool \<Rightarrow> nat \<Rightarrow> nat" where
  "count_if b n = (if b then n + 1 else n)"

text \<open>One line of \<open>Load\<close>; \<open>None\<close> is an exception.\<close>

definition apps_load_line ::
  "inet_pton \<Rightarrow> (string \<Rightarrow> 'rx option) \<Rightarrow> string \<Rightarrow> 'rx ndapps \<Rightarrow> 'rx ndapps option" where
  "apps_load_line pton compile line0 s =
     (let line = nd_ltrim (CHR 0x00) line0 in
      if line = [] \<or> hd line = CHR ''#'' then Some s
      else case split_first (CHR '':'') line of
        None \<Rightarrow> Some s
      | Some (type, line) \<Rightarrow>
          if type \<notin> {''app'', ''dom'', ''net'', ''nsd'', ''xfm''} then Some s
          else if type = ''app'' \<or> type = ''dom'' \<or> type = ''net'' then
            (case split_first (CHR '':'') line of
               None \<Rightarrow> Some s
             | Some (ids, value) \<Rightarrow>
                 (let aid = strtoul0 ids mod 2 ^ 32 in
                  if type = ''app'' \<and> map_of (ap_apps s) aid = None then
                    (case AddApp s aid value of (app, s) \<Rightarrow>
                       Some (s\<lparr>ap_stats := (ap_stats s)\<lparr>st_ac := count_if (app \<noteq> None) (st_ac (ap_stats s))\<rparr>\<rparr>))
                  else if type = ''dom'' then
                    (case AddDomain s aid value of (b, s) \<Rightarrow>
                       Some (s\<lparr>ap_stats := (ap_stats s)\<lparr>st_dc := count_if b (st_dc (ap_stats s))\<rparr>\<rparr>))
                  else if type = ''net'' then
                    (case AddNetwork pton s aid value of (b, s) \<Rightarrow>
                       Some (s\<lparr>ap_stats := (ap_stats s)\<lparr>st_nc := count_if b (st_nc (ap_stats s))\<rparr>\<rparr>))
                  else Some s))
          else if type = ''xfm'' then
            (case split_first (CHR '':'') line of
               None \<Rightarrow> Some s
             | Some (search, replace) \<Rightarrow>
                 (case AddDomainTransform compile s search replace of (b, s) \<Rightarrow>
                    Some (s\<lparr>ap_stats := (ap_stats s)\<lparr>st_xc := count_if b (st_xc (ap_stats s))\<rparr>\<rparr>)))
          else
            (case split_last (CHR '':'') line of
               None \<Rightarrow> Some s
             | Some (line, expr) \<Rightarrow>
                 (case split_last (CHR '':'') line of
                    None \<Rightarrow> Some s
                  | Some (line, pids) \<Rightarrow>
                      (case AddSoftDissector s (strtol0 line) (strtol0 pids) expr of
                         None \<Rightarrow> None
                       | Some (b, s) \<Rightarrow>
                           Some (s\<lparr>ap_stats := (ap_stats s)\<lparr>st_sc := count_if b (st_sc (ap_stats s))\<rparr>\<rparr>)))))"

fun apps_load_lines ::
  "inet_pton \<Rightarrow> (string \<Rightarrow> 'rx option) \<Rightarrow> string list \<Rightarrow> 'rx ndapps \<Rightarrow> 'rx ndapps option" where
  "apps_load_lines pton compile [] s = Some s"
| "apps_load_lines pton compile (l # ls) s =
     (case apps_load_line pton compile l s of None \<Rightarrow> None | Some s \<Rightarrow> apps_load_lines pton compile ls s)"

definition apps_Load ::
  "inet_pton \<Rightarrow> (string \<Rightarrow> 'rx option) \<Rightarrow> string option \<Rightarrow> 'rx ndapps \<Rightarrow> (bool \<times> 'rx ndapps) option" where
  "apps_Load pton compile file s =
     (let s = s\<lparr>ap_stats := \<lparr>st_ac = 0, st_dc = 0, st_nc = 0, st_sc = 0, st_xc = 0\<rparr>\<rparr> in
      case file of
        None \<Rightarrow> Some (False, s)
      | Some data \<Rightarrow>
          map_option (\<lambda>s. (st_ac (ap_stats s) > 0 \<and> (st_ac (ap_stats s) > 0 \<or> st_nc (ap_stats s) > 0), s))
            (apps_load_lines pton compile (getlines data) (apps_Reset s)))"

text \<open>
  The legacy format. \<open>break\<close>, \<open>continue\<close> and the early \<open>return false\<close> are the three
  outcomes of an entry or a line. \<open>domain[0]\<close> of an empty string is its terminating NUL.
\<close>

definition domain_head :: "string \<Rightarrow> char" where
  "domain_head s = (case s of [] \<Rightarrow> CHR 0x00 | c # _ \<Rightarrow> c)"

definition apps_legacy_entry :: "inet_pton \<Rightarrow> nat \<Rightarrow> string \<Rightarrow> 'rx ndapps \<Rightarrow> 'rx ndapps" where
  "apps_legacy_entry pton aid entry0 s =
     (case split_first (CHR '':'') (nd_trim (CHR 0x00) entry0) of
        None \<Rightarrow> s
      | Some (type0, value) \<Rightarrow>
          (let type = nd_trim (CHR 0x00) type0 in
           if type = ''host'' then
             (let domain = nd_trim (CHR 0x22) (nd_trim (CHR 0x00) value) in
              if domain_head domain \<noteq> CHR ''^'' then s
              else snd (AddDomain s aid (nd_rtrim (CHR ''$'') (nd_ltrim (CHR ''^'') domain))))
           else if type = ''ip'' then snd (AddNetwork pton s aid (nd_trim (CHR 0x00) value))
           else s))"

text \<open>\<open>getline\<close> with the delimiter \<open>','\<close>.\<close>

fun split_on :: "char \<Rightarrow> string \<Rightarrow> string list" where
  "split_on d [] = []"
| "split_on d (c # s) = (if c = d then [] # split_on d s
     else case split_on d s of [] \<Rightarrow> [[c]] | l # ls \<Rightarrow> (c # l) # ls)"

definition apps_legacy_line :: "inet_pton \<Rightarrow> string \<Rightarrow> nat \<times> 'rx ndapps \<Rightarrow> bool \<times> nat \<times> 'rx ndapps" where
  "apps_legacy_line pton line0 = (\<lambda>(ac, s).
     (let line = nd_trim (CHR 0x00) line0 in
      if line = [] \<or> hd line = CHR ''#'' then (True, ac, s)
      else case split_last (CHR ''@'') line of
        None \<Rightarrow> (True, ac, s)
      | Some (entries, app0) \<Rightarrow>
          (case split_first (CHR ''.'') (nd_trim (CHR 0x00) app0) of
             None \<Rightarrow> (True, ac, s)
           | Some (ids, tag0) \<Rightarrow>
               (let aid = strtoul0 ids mod 2 ^ 32;
                    fresh = (map_of (ap_apps s) aid = None);
                    (app, s) = (if fresh then AddApp s aid (nd_trim (CHR 0x00) tag0) else (map_of (ap_apps s) aid, s))
                in if fresh \<and> app = None then (False, ac, s)
                   else (True, count_if fresh ac, foldl (\<lambda>s e. apps_legacy_entry pton aid e s) s (split_on (CHR '','') entries))))))"

fun apps_legacy_lines :: "inet_pton \<Rightarrow> string list \<Rightarrow> nat \<times> 'rx ndapps \<Rightarrow> bool \<times> nat \<times> 'rx ndapps" where
  "apps_legacy_lines pton [] (ac, s) = (True, ac, s)"
| "apps_legacy_lines pton (l # ls) (ac, s) =
     (case apps_legacy_line pton l (ac, s) of
        (True, ac, s) \<Rightarrow> apps_legacy_lines pton ls (ac, s) | r \<Rightarrow> r)"

definition apps_LoadLegacy :: "inet_pton \<Rightarrow> string option \<Rightarrow> 'rx ndapps \<Rightarrow> bool \<times> 'rx ndapps" where
  "apps_LoadLegacy pton file s =
     (case file of
        None \<Rightarrow> (False, s)
      | Some data \<Rightarrow>
          (case apps_legacy_lines pton (getlines data) (0, apps_Reset s) of
             (ok, ac, s) \<Rightarrow> (ok \<and> ac > 0, s)))"

text \<open>\<open>Save\<close>, in the iteration order of the maps and the trees.\<close>

definition app_line :: "nat \<times> nd_application \<Rightarrow> string" where
  "app_line = (\<lambda>(aid, a). ''app:'' @ nat_to_string aid @ CHR '':'' # app_tag a @ [CHR 0x0A])"

definition dom_line :: "string \<times> nat \<Rightarrow> string" where
  "dom_line = (\<lambda>(d, aid). ''dom:'' @ nat_to_string aid @ CHR '':'' # d @ [CHR 0x0A])"

definition net_line :: "string option \<Rightarrow> nat \<Rightarrow> string" where
  "net_line ip aid = (case ip of None \<Rightarrow> [] | Some ip \<Rightarrow> ''net:'' @ nat_to_string aid @ CHR '':'' # ip @ [CHR 0x0A])"

definition xfm_line :: "string \<times> 'rx \<times> string \<Rightarrow> string" where
  "xfm_line = (\<lambda>(search, _, replace). ''xfm:'' @ search @ CHR '':'' # replace @ [CHR 0x0A])"

definition apps_data :: "inet_ntop \<Rightarrow> 'rx ndapps \<Rightarrow> string" where
  "apps_data ntop s =
     concat (map app_line (ap_apps s)) @ concat (map dom_line (ap_domains s))
     @ concat (map (\<lambda>(e, aid). net_line (rentry_string4 ntop e) aid) (rt_entries (ap_net4 s)))
     @ concat (map (\<lambda>(e, aid). net_line (rentry_string6 ntop e) aid) (rt_entries (ap_net6 s)))
     @ concat (map xfm_line (ap_xforms s))"

definition apps_Save ::
  "inet_ntop \<Rightarrow> (string \<Rightarrow> bool) \<Rightarrow> (string \<Rightarrow> string option) \<Rightarrow> string \<Rightarrow> 'rx ndapps \<Rightarrow> bool \<times> (string \<Rightarrow> string option)" where
  "apps_Save ntop writable fs filename s =
     (if \<not> writable filename then (False, fs) else (True, fs(filename \<mapsto> apps_data ntop s)))"

section \<open>Lookups\<close>

definition apps_Lookup_tag_of :: "'rx ndapps \<Rightarrow> nat \<Rightarrow> bool \<times> string" where
  "apps_Lookup_tag_of s aid =
     (case map_of (ap_apps s) aid of None \<Rightarrow> (False, ''Unknown'') | Some a \<Rightarrow> (True, app_tag a))"

definition apps_Lookup_id_of :: "'rx ndapps \<Rightarrow> string \<Rightarrow> nat" where
  "apps_Lookup_id_of s tag = (case map_of (ap_tags s) tag of Some a \<Rightarrow> app_id a | None \<Rightarrow> ND_APP_UNKNOWN)"

definition apps_Lookup_app :: "'rx ndapps \<Rightarrow> nat \<Rightarrow> nd_application option" where
  "apps_Lookup_app s aid = map_of (ap_apps s) aid"

definition apps_Lookup_app_tag :: "'rx ndapps \<Rightarrow> string \<Rightarrow> nd_application option" where
  "apps_Lookup_app_tag s tag = map_of (ap_tags s) tag"

text \<open>\<open>Get\<close>: a copy by tag; \<open>insert\<close> keeps the first identifier of a tag.\<close>

definition apps_Get :: "'rx ndapps \<Rightarrow> string \<Rightarrow> nat option" where
  "apps_Get s = map_of (map (\<lambda>(aid, a). (app_tag a, aid)) (ap_apps s))"

lemma split_first_SomeD:
  "split_first c s = Some (a, b) \<Longrightarrow> s = a @ c # b \<and> c \<notin> set a"
proof -
  assume "split_first c s = Some (a, b)"
  then obtain p where p: "find_first (\<lambda>x. x = c) s = Some p" "a = take p s" "b = drop (Suc p) s"
    by (auto simp: split_first_def)
  have f: "p < length s" "s ! p = c" "\<forall>x \<in> set (take p s). x \<noteq> c" using find_first_SomeD [OF p(1)] by auto
  then show ?thesis using id_take_nth_drop [of p s] p by auto
qed

lemma split_first_shorter: "split_first c s = Some (a, b) \<Longrightarrow> length b < length s"
  using split_first_SomeD by fastforce

text \<open>The search of one name through its suffixes after a dot.\<close>

function find_domain :: "'rx ndapps \<Rightarrow> string \<Rightarrow> nat option" where
  "find_domain s it =
     (if it = [] then None
      else case split_first (CHR ''.'') it of
        None \<Rightarrow> if it \<notin> set (ap_tlds s) then None else map_of (ap_domains s) it
      | Some (_, rest) \<Rightarrow>
          (case map_of (ap_domains s) it of Some aid \<Rightarrow> Some aid | None \<Rightarrow> find_domain s rest))"
  by pat_completeness auto
termination
  by (relation "measure (\<lambda>(_, it). length it)") (auto dest: split_first_shorter)

declare find_domain.simps [simp del]

fun find_first_domain :: "'rx ndapps \<Rightarrow> string list \<Rightarrow> nat option" where
  "find_first_domain s [] = None"
| "find_first_domain s (it # its) =
     (case find_domain s it of Some aid \<Rightarrow> Some aid | None \<Rightarrow> find_first_domain s its)"

definition apps_Find :: "('rx \<Rightarrow> string \<Rightarrow> string \<Rightarrow> string) \<Rightarrow> 'rx ndapps \<Rightarrow> string \<Rightarrow> nat" where
  "apps_Find regex_replace s domain =
     (let search = (if domain = [] then []
            else let rs = filter (\<lambda>r. r \<noteq> []) (map (\<lambda>(_, rx, rep). regex_replace rx domain rep) (ap_xforms s))
                 in if rs = [] then [domain] else rs)
      in case find_first_domain s search of Some aid \<Rightarrow> aid | None \<Rightarrow> ND_APP_UNKNOWN)"

definition apps_Find_addr :: "'rx ndapps \<Rightarrow> nd_addr \<Rightarrow> nat" where
  "apps_Find_addr s a =
     (if \<not> IsValid a \<or> \<not> IsIP a then ND_APP_UNKNOWN
      else
        (let m4 = (if IsIPv4 a then (case rentry_query re_load4 a of None \<Rightarrow> None
                     | Some e \<Rightarrow> longest_match rentry_ops (ap_net4 s) e) else None);
             m6 = (if IsIPv6 a then (case rentry_query re_load6 a of None \<Rightarrow> None
                     | Some e \<Rightarrow> longest_match rentry_ops (ap_net6 s) e) else None)
         in case m4 of Some (_, aid) \<Rightarrow> aid
            | None \<Rightarrow> (case m6 of Some (_, aid) \<Rightarrow> aid | None \<Rightarrow> ND_APP_UNKNOWN)))"

text \<open>
  \<open>SoftDissectorMatch\<close>: the parser, a function of the expression for a given flow,
  returns a truth value or throws; the assignment to \<open>match\<close> does not copy the
  expression.
\<close>

definition apps_SoftDissectorMatch ::
  "(string \<Rightarrow> bool option) \<Rightarrow> 'rx ndapps \<Rightarrow> nd_soft_dissector \<Rightarrow> bool \<times> nd_soft_dissector" where
  "apps_SoftDissectorMatch parse s match =
     (case List.find (\<lambda>d. parse (sd_expr d) = Some True) (ap_soft s) of
        None \<Rightarrow> (False, match)
      | Some d \<Rightarrow> (True, match\<lparr>sd_aid := sd_aid d, sd_pid := sd_pid d\<rparr>))"

section \<open>Consistency of the tables\<close>

definition apps_ok :: "'rx ndapps \<Rightarrow> bool" where
  "apps_ok s \<longleftrightarrow>
     (\<forall>i a. map_of (ap_apps s) i = Some a \<longleftrightarrow> (app_id a = i \<and> map_of (ap_tags s) (app_tag a) = Some a))
   \<and> (\<forall>t a. map_of (ap_tags s) t = Some a \<longrightarrow> app_tag a = t)
   \<and> (\<forall>d \<in> fst ` set (ap_domains s). CHR ''.'' \<notin> set d \<longrightarrow> d \<in> set (ap_tlds s))"

lemma apps_ok_stats [simp]: "apps_ok (s\<lparr>ap_stats := st\<rparr>) = apps_ok s"
  by (simp add: apps_ok_def)

lemma apps_ok_Reset [simp]: "apps_ok (apps_Reset s)"
  by (simp add: apps_ok_def apps_Reset_def)

lemma map_of_snoc: "map_of (xs @ [(k, v)]) j = (case map_of xs j of Some u \<Rightarrow> Some u | None \<Rightarrow> if j = k then Some v else None)"
  by (simp add: map_add_def split: option.split)

lemma AddApp_ok: "apps_ok s \<Longrightarrow> apps_ok (snd (AddApp s i t))"
proof (cases "map_of (ap_apps s) i = None \<and> map_of (ap_tags s) t = None")
  case True
  assume ok: "apps_ok s"
  note o = ok [unfolded apps_ok_def, THEN conjunct1, rule_format]
    ok [unfolded apps_ok_def, THEN conjunct2, THEN conjunct1, rule_format]
  let ?a = "\<lparr>app_id = i, app_tag = t\<rparr>"
  have n: "map_of (ap_tags s) (app_tag b) = Some b \<longrightarrow> app_id b \<noteq> i" for b using True o(1) [of "app_id b" b] by auto
  have a: "ap_apps (snd (AddApp s i t)) = ap_apps s @ [(i, ?a)]" "ap_tags (snd (AddApp s i t)) = ap_tags s @ [(t, ?a)]"
    "ap_domains (snd (AddApp s i t)) = ap_domains s" "ap_tlds (snd (AddApp s i t)) = ap_tlds s"
    using True by (simp_all add: AddApp_def Let_def)
  have 1: "map_of (ap_apps s @ [(i, ?a)]) j = Some b \<longleftrightarrow> app_id b = j \<and> map_of (ap_tags s @ [(t, ?a)]) (app_tag b) = Some b" for j b
  proof (cases "map_of (ap_apps s) j")
    case None
    then have "\<not> (app_id b = j \<and> map_of (ap_tags s) (app_tag b) = Some b)" using o(1) [of j b] by auto
    then show ?thesis using None True
      by (cases b; cases "map_of (ap_tags s) (app_tag b)") (auto simp: map_of_snoc simp del: map_of_append)
  next
    case (Some c)
    then have "app_id c = j" "map_of (ap_tags s) (app_tag c) = Some c" "j \<noteq> i" using o(1) [of j c] True by auto
    then show ?thesis using Some o(1) [of j b] True
      by (cases b; cases "map_of (ap_tags s) (app_tag b)") (auto simp: map_of_snoc simp del: map_of_append)
  qed
  have 2: "map_of (ap_tags s @ [(t, ?a)]) u = Some b \<longrightarrow> app_tag b = u" for u b
    using o(2) by (auto simp: map_of_snoc simp del: map_of_append split: option.splits)
  show ?thesis using ok 1 2 unfolding apps_ok_def a by blast
next
  case False
  then show "apps_ok s \<Longrightarrow> ?thesis" by (auto simp: AddApp_def split: option.splits)
qed

lemma AddDomain_ok: "apps_ok s \<Longrightarrow> apps_ok (snd (AddDomain s i d))"
proof -
  assume ok: "apps_ok s"
  have "ap_apps (snd (AddDomain s i d)) = ap_apps s" "ap_tags (snd (AddDomain s i d)) = ap_tags s"
    by (simp_all add: AddDomain_def Let_def)
  moreover have "e \<in> set (ap_tlds (snd (AddDomain s i d)))"
    if "e \<in> fst ` set (ap_domains (snd (AddDomain s i d)))" "CHR ''.'' \<notin> set e" for e
  proof (cases "e = d")
    case True
    then have "find_first (\<lambda>c. c = CHR ''.'') d = None" using that(2) by (auto simp: find_first_None)
    then show ?thesis using True by (simp add: AddDomain_def Let_def)
  next
    case False
    then have "e \<in> fst ` set (ap_domains s)" using that(1) by (auto simp: AddDomain_def Let_def split: if_splits)
    then have "e \<in> set (ap_tlds s)" using ok that(2) unfolding apps_ok_def by blast
    then show ?thesis by (simp add: AddDomain_def Let_def)
  qed
  ultimately show ?thesis using ok unfolding apps_ok_def by simp
qed

lemma ap_net_ok [simp]: "apps_ok (s\<lparr>ap_net4 := T\<rparr>) = apps_ok s" "apps_ok (s\<lparr>ap_net6 := U\<rparr>) = apps_ok s"
  "apps_ok (s\<lparr>ap_xforms := x\<rparr>) = apps_ok s" "apps_ok (s\<lparr>ap_soft := d\<rparr>) = apps_ok s"
  by (simp_all add: apps_ok_def)

lemma AddNetwork_ok: "apps_ok (snd (AddNetwork pton s i n)) = apps_ok s"
  unfolding AddNetwork_def Let_def split_def by (simp split: option.split)

lemma AddDomainTransform_ok: "apps_ok (snd (AddDomainTransform compile s a b)) = apps_ok s"
  unfolding AddDomainTransform_def by (simp split: option.split)

lemma AddSoftDissector_ok: "AddSoftDissector s x y e = Some r \<Longrightarrow> apps_ok (snd r) = apps_ok s"
  by (auto simp: AddSoftDissector_def split: option.splits if_splits)

lemmas additions_ok = AddApp_ok AddDomain_ok AddNetwork_ok [THEN iffD2] AddDomainTransform_ok [THEN iffD2]

lemma apps_load_line_ok:
  assumes "apps_ok s" "apps_load_line pton compile l s = Some s'"
  shows "apps_ok s'"
proof -
  note o = additions_ok [OF assms(1), THEN apps_ok_stats [THEN iffD2]]
  have sd: "apps_ok (r\<lparr>ap_stats := st\<rparr>)" if "AddSoftDissector s x y e = Some (b, r)" for x y e b r st
    using AddSoftDissector_ok [OF that] assms(1) by simp
  show ?thesis
    using assms(2)
    unfolding apps_load_line_def Let_def split_def
    by (simp split: option.splits if_splits prod.splits; (elim conjE)?; (use assms(1) o sd in \<open>force\<close>)?)
qed

lemma apps_load_lines_ok: "apps_ok s \<Longrightarrow> apps_load_lines pton compile ls s = Some s' \<Longrightarrow> apps_ok s'"
  by (induction ls arbitrary: s) (auto split: option.splits dest: apps_load_line_ok)

lemma apps_Load_ok: "apps_Load pton compile (Some data) s = Some (r, s') \<Longrightarrow> apps_ok s'"
  unfolding apps_Load_def Let_def by (auto dest: apps_load_lines_ok [OF apps_ok_Reset])

text \<open>
  C31. Whatever file is loaded, the table by identifier and the table by tag describe
  the same applications: an identifier has a tag exactly when this tag leads
  back to the identifier.
\<close>

theorem apps_tables_agree:
  assumes "apps_Load pton compile (Some data) s = Some (r, s')"
  shows "apps_Lookup_tag_of s' i = (True, t) \<longleftrightarrow> apps_Lookup_app_tag s' t = Some \<lparr>app_id = i, app_tag = t\<rparr>"
proof -
  have "apps_ok s'" using assms by (rule apps_Load_ok)
  note o = this [unfolded apps_ok_def, THEN conjunct1, rule_format]
    this [unfolded apps_ok_def, THEN conjunct2, THEN conjunct1, rule_format]
  show ?thesis
  proof
    assume "apps_Lookup_tag_of s' i = (True, t)"
    then obtain a where "map_of (ap_apps s') i = Some a" "app_tag a = t"
      by (auto simp: apps_Lookup_tag_of_def split: option.splits)
    then show "apps_Lookup_app_tag s' t = Some \<lparr>app_id = i, app_tag = t\<rparr>"
      using o(1) [of i a] by (cases a) (auto simp: apps_Lookup_app_tag_def)
  next
    assume "apps_Lookup_app_tag s' t = Some \<lparr>app_id = i, app_tag = t\<rparr>"
    then show "apps_Lookup_tag_of s' i = (True, t)"
      using o(1) [of i "\<lparr>app_id = i, app_tag = t\<rparr>"] by (simp add: apps_Lookup_app_tag_def apps_Lookup_tag_of_def)
  qed
qed

lemma strtoul0_7: "strtoul0 ''7'' mod 4294967296 = 7"
proof -
  have "''7'' = nat_to_string 7" by (simp add: digit_char_def)
  then show ?thesis using strtoul0_nat_to_string [of 7] by simp
qed

lemmas load_line_eval = apps_load_line_def split_first_def nd_ltrim_def trim_char_def isspace_def strtoul0_7

definition apps_example :: "unit ndapps" where
  "apps_example = ndApplications_new\<lparr>ap_apps := [(7, \<lparr>app_id = 7, app_tag = ''netify.x''\<rparr>)],
     ap_tags := [(''netify.x'', \<lparr>app_id = 7, app_tag = ''netify.x''\<rparr>)], ap_domains := [(''b.c'', 7)],
     ap_stats := \<lparr>st_ac = 1, st_dc = 1, st_nc = 0, st_sc = 0, st_xc = 0\<rparr>\<rparr>"

lemma apps_load_example:
  "apps_Load hex_pton (\<lambda>_. None) (Some (''app:7:netify.x'' @ CHR 0x0A # ''dom:7:b.c'')) ndApplications_new = Some (True, apps_example)"
  by (simp add: apps_Load_def load_line_eval AddApp_def AddDomain_def Let_def apps_Reset_def ndApplications_new_def
    count_if_def apps_example_def)

theorem apps_tables_agree_witness:
  "apps_Lookup_tag_of apps_example 7 = (True, ''netify.x'')
     \<and> apps_Lookup_app_tag apps_example ''netify.x'' = Some \<lparr>app_id = 7, app_tag = ''netify.x''\<rparr>"
proof -
  have "apps_Lookup_tag_of apps_example 7 = (True, ''netify.x'')"
    by (simp add: apps_Lookup_tag_of_def apps_example_def ndApplications_new_def)
  then show ?thesis using apps_tables_agree [OF apps_load_example, of 7 "''netify.x''"] by blast
qed

section \<open>The domain found\<close>

function label_suffixes :: "string \<Rightarrow> string list" where
  "label_suffixes s = s # (case split_first (CHR ''.'') s of None \<Rightarrow> []
     | Some (_, r) \<Rightarrow> if r = [] then [] else label_suffixes r)"
  by pat_completeness auto
termination by (relation "measure length") (auto dest: split_first_shorter)

declare label_suffixes.simps [simp del]

lemma split_first_None: "split_first c s = None \<longleftrightarrow> c \<notin> set s"
  by (auto simp: split_first_def find_first_None)

lemma find_domain_suffix:
  assumes "apps_ok s" "d \<noteq> []"
  shows "find_domain s d = (case List.find (\<lambda>e. map_of (ap_domains s) e \<noteq> None) (label_suffixes d) of
      None \<Rightarrow> None | Some e \<Rightarrow> map_of (ap_domains s) e)"
  using assms(2)
proof (induction d rule: label_suffixes.induct)
  case (1 d)
  show ?case
  proof (cases "split_first (CHR ''.'') d")
    case None
    then have "map_of (ap_domains s) d \<noteq> None \<longrightarrow> d \<in> set (ap_tlds s)"
      using assms(1) split_first_None [of "CHR ''.''" d] unfolding apps_ok_def
      by (metis dom_map_of_conv_image_fst domIff)
    then show ?thesis using None 1(2)
      by (subst find_domain.simps, subst label_suffixes.simps) auto
  next
    case (Some ab)
    obtain a b where ab: "ab = (a, b)" by force
    have "find_domain s b = (case List.find (\<lambda>e. map_of (ap_domains s) e \<noteq> None) (if b = [] then [] else label_suffixes b) of
        None \<Rightarrow> None | Some e \<Rightarrow> map_of (ap_domains s) e)"
    proof (cases "b = []")
      case True
      then show ?thesis by (subst find_domain.simps) simp
    next
      case False
      then show ?thesis using 1(1) [OF Some, of a b] ab by simp
    qed
    then show ?thesis using Some ab 1(2)
      by (subst find_domain.simps, subst label_suffixes.simps) (auto split: option.split)
  qed
qed

text \<open>
  C32. After any load of a signature file without domain transforms, \<open>Find\<close> returns
  the application of the longest suffix of the name, cut at a dot, that is a known
  domain, and \<open>ND_APP_UNKNOWN\<close> when there is none.
\<close>

theorem apps_find_longest_suffix:
  assumes "apps_Load pton compile (Some data) s0 = Some (r, s)" "ap_xforms s = []" "domain \<noteq> []"
  shows "apps_Find regex_replace s domain =
    (case List.find (\<lambda>e. map_of (ap_domains s) e \<noteq> None) (label_suffixes domain) of
       None \<Rightarrow> ND_APP_UNKNOWN | Some e \<Rightarrow> the (map_of (ap_domains s) e))"
proof -
  have "apps_ok s" using assms(1) by (rule apps_Load_ok)
  note f = find_domain_suffix [OF this assms(3)]
  show ?thesis
  proof (cases "List.find (\<lambda>e. map_of (ap_domains s) e \<noteq> None) (label_suffixes domain)")
    case None
    then show ?thesis using f assms(2,3) by (simp add: apps_Find_def)
  next
    case (Some e)
    then have "map_of (ap_domains s) e \<noteq> None" by (auto simp: find_Some_iff)
    then show ?thesis using f assms(2,3) Some by (auto simp: apps_Find_def)
  qed
qed

theorem apps_find_longest_suffix_witness:
  "apps_Find (\<lambda>_ d _. d) apps_example ''a.b.c'' = 7"
proof -
  have "label_suffixes ''a.b.c'' = [''a.b.c'', ''b.c'', ''c'']"
    by (simp add: label_suffixes.simps split_first_def)
  then show ?thesis
    using apps_find_longest_suffix [OF apps_load_example, of "''a.b.c''" "\<lambda>_ d _. d"]
    by (simp add: apps_example_def ndApplications_new_def)
qed

section \<open>Saving and loading\<close>

lemma split_first_append: "c \<notin> set a \<Longrightarrow> split_first c (a @ c # b) = Some (a, b)"
proof -
  assume "c \<notin> set a"
  then have "find_first (\<lambda>x. x = c) (a @ c # b) = Some (length a)" by (intro find_first_append) auto
  then show ?thesis by (simp add: split_first_def)
qed

lemma nat_to_string_avoids: "list_all (\<lambda>d. digit_char d \<noteq> c) [0..<10] \<Longrightarrow> c \<notin> set (nat_to_string n)"
proof
  assume a: "list_all (\<lambda>d. digit_char d \<noteq> c) [0..<10]" and "c \<in> set (nat_to_string n)"
  then obtain d where d: "d < 10" "c = digit_char d" using nat_to_string_chars by blast
  then have "d \<in> set [0..<10]" by simp
  then show False using a d(2) unfolding list_all_iff by blast
qed

lemma colon_not_digit: "CHR '':'' \<notin> set (nat_to_string n)"
  by (rule nat_to_string_avoids) (simp add: upt_rec digit_char_def)

lemma newline_not_digit: "CHR 0x0A \<notin> set (nat_to_string n)"
  by (rule nat_to_string_avoids) (simp add: upt_rec digit_char_def)

lemma load_app_line:
  assumes "i < 2 ^ 32" "map_of (ap_apps s) i = None" "map_of (ap_tags s) t = None"
  shows "apps_load_line pton compile (''app:'' @ nat_to_string i @ CHR '':'' # t) s =
    Some (s\<lparr>ap_apps := ap_apps s @ [(i, \<lparr>app_id = i, app_tag = t\<rparr>)],
            ap_tags := ap_tags s @ [(t, \<lparr>app_id = i, app_tag = t\<rparr>)],
            ap_stats := (ap_stats s)\<lparr>st_ac := st_ac (ap_stats s) + 1\<rparr>\<rparr>)"
proof -
  have 1: "split_first (CHR '':'') (''app:'' @ nat_to_string i @ CHR '':'' # t) = Some (''app'', nat_to_string i @ CHR '':'' # t)"
    by (simp add: split_first_def)
  have 2: "split_first (CHR '':'') (nat_to_string i @ CHR '':'' # t) = Some (nat_to_string i, t)"
    by (rule split_first_append) (rule colon_not_digit)
  have 3: "nd_ltrim (CHR 0x00) (''app:'' @ nat_to_string i @ CHR '':'' # t) = ''app:'' @ nat_to_string i @ CHR '':'' # t"
    by (simp add: nd_ltrim_def trim_char_def isspace_def)
  have 4: "strtoul0 (nat_to_string i) mod 2 ^ 32 = i" using assms(1) strtoul0_nat_to_string [of i] by simp
  show ?thesis unfolding apps_load_line_def 3 Let_def 1 by (simp add: 2 4 [simplified] assms AddApp_def count_if_def Let_def)
qed

lemma load_dom_line:
  assumes "i < 2 ^ 32" "map_of (ap_domains s) d = None"
  shows "\<exists>tlds. apps_load_line pton compile (''dom:'' @ nat_to_string i @ CHR '':'' # d) s =
    Some (s\<lparr>ap_domains := ap_domains s @ [(d, i)], ap_tlds := tlds,
            ap_stats := (ap_stats s)\<lparr>st_dc := st_dc (ap_stats s) + 1\<rparr>\<rparr>)"
proof -
  have 1: "split_first (CHR '':'') (''dom:'' @ nat_to_string i @ CHR '':'' # d) = Some (''dom'', nat_to_string i @ CHR '':'' # d)"
    by (simp add: split_first_def)
  have 2: "split_first (CHR '':'') (nat_to_string i @ CHR '':'' # d) = Some (nat_to_string i, d)"
    by (rule split_first_append) (rule colon_not_digit)
  have 3: "nd_ltrim (CHR 0x00) (''dom:'' @ nat_to_string i @ CHR '':'' # d) = ''dom:'' @ nat_to_string i @ CHR '':'' # d"
    by (simp add: nd_ltrim_def trim_char_def isspace_def)
  have 4: "strtoul0 (nat_to_string i) mod 2 ^ 32 = i" using assms(1) strtoul0_nat_to_string [of i] by simp
  have 5: "AddDomain s i d = (True, s\<lparr>ap_domains := ap_domains s @ [(d, i)],
      ap_tlds := (if find_first (\<lambda>c. c = CHR ''.'') d = None then List.insert d (ap_tlds s) else ap_tlds s)\<rparr>)"
    using assms(2) by (cases s) (simp add: AddDomain_def Let_def)
  show ?thesis unfolding apps_load_line_def 3 Let_def 1
    by (intro exI) (simp add: 2 4 [simplified] 5 count_if_def)
qed

lemma load_app_lines:
  assumes "\<forall>(i, a) \<in> set xs. i < 2 ^ 32 \<and> app_id a = i" "distinct (map fst (ap_apps s @ xs))"
    "distinct (map fst (ap_tags s) @ map (\<lambda>(i, a). app_tag a) xs)"
  shows "apps_load_lines pton compile (map (\<lambda>(i, a). ''app:'' @ nat_to_string i @ CHR '':'' # app_tag a) xs @ ls) s =
    apps_load_lines pton compile ls (s\<lparr>ap_apps := ap_apps s @ xs, ap_tags := ap_tags s @ map (\<lambda>(i, a). (app_tag a, a)) xs,
      ap_stats := (ap_stats s)\<lparr>st_ac := st_ac (ap_stats s) + length xs\<rparr>\<rparr>)"
  using assms
proof (induction xs arbitrary: s)
  case (Cons p xs)
  obtain i t where p: "p = (i, \<lparr>app_id = i, app_tag = t\<rparr>)" using Cons.prems(1) by (cases p; cases "snd p") auto
  have n: "i < 2 ^ 32" "map_of (ap_apps s) i = None" "map_of (ap_tags s) t = None"
    using Cons.prems p by (auto simp: map_of_eq_None_iff)
  show ?case using Cons.IH [of "s\<lparr>ap_apps := ap_apps s @ [p], ap_tags := ap_tags s @ [(t, \<lparr>app_id = i, app_tag = t\<rparr>)],
      ap_stats := (ap_stats s)\<lparr>st_ac := st_ac (ap_stats s) + 1\<rparr>\<rparr>"] Cons.prems
    by (simp add: p load_app_line [OF n, simplified])
qed simp

lemma load_dom_lines:
  assumes "\<forall>(d, i) \<in> set xs. i < 2 ^ 32" "distinct (map fst (ap_domains s @ xs))"
  shows "\<exists>tlds. apps_load_lines pton compile (map (\<lambda>(d, i). ''dom:'' @ nat_to_string i @ CHR '':'' # d) xs) s =
    Some (s\<lparr>ap_domains := ap_domains s @ xs, ap_tlds := tlds,
      ap_stats := (ap_stats s)\<lparr>st_dc := st_dc (ap_stats s) + length xs\<rparr>\<rparr>)"
  using assms
proof (induction xs arbitrary: s)
  case Nil
  then show ?case by (intro exI [of _ "ap_tlds s"]) simp
next
  case (Cons p xs)
  obtain d i where p: "p = (d, i)" by force
  have n: "i < 2 ^ 32" "map_of (ap_domains s) d = None" using Cons.prems p by (auto simp: map_of_eq_None_iff)
  obtain tlds where l: "apps_load_line pton compile (''dom:'' @ nat_to_string i @ CHR '':'' # d) s =
      Some (s\<lparr>ap_domains := ap_domains s @ [(d, i)], ap_tlds := tlds,
            ap_stats := (ap_stats s)\<lparr>st_dc := st_dc (ap_stats s) + 1\<rparr>\<rparr>)" using load_dom_line [OF n] by blast
  show ?case using Cons.IH [of "s\<lparr>ap_domains := ap_domains s @ [(d, i)], ap_tlds := tlds,
            ap_stats := (ap_stats s)\<lparr>st_dc := st_dc (ap_stats s) + 1\<rparr>\<rparr>"] Cons.prems
    by (simp add: p l [simplified])
qed

lemma getlines_lines: "\<forall>l \<in> set ls. CHR 0x0A \<notin> set l \<Longrightarrow> getlines (concat (map (\<lambda>l. l @ [CHR 0x0A]) ls)) = ls"
  by (induction ls) (simp_all add: getlines_line)

definition apps_storable :: "'rx ndapps \<Rightarrow> bool" where
  "apps_storable s \<longleftrightarrow> apps_ok s \<and> distinct (map fst (ap_apps s)) \<and> distinct (map fst (ap_domains s))
     \<and> (\<forall>(i, a) \<in> set (ap_apps s). i < 2 ^ 32 \<and> CHR 0x0A \<notin> set (app_tag a))
     \<and> (\<forall>(d, i) \<in> set (ap_domains s). i < 2 ^ 32 \<and> CHR 0x0A \<notin> set d)
     \<and> rt_entries (ap_net4 s) = [] \<and> rt_entries (ap_net6 s) = [] \<and> ap_xforms s = []"


lemma rt_entries_empty [simp]: "rt_entries rt_empty = []"
  by (simp add: rt_entries_def rt_empty_def)


end
