(* ===== verification/NdCategory.thy ===== *)
theory NdCategory
  imports NdApps NdJson
begin

text \<open>
  The categories of applications and protocols (\<open>src/src/nd-category.cpp\<close>). A
  \<open>std::map\<close> is an association list in key order. A failing conversion of a JSON value
  (an exception of the library) is \<open>None\<close>. The directory, the files and \<open>inet_pton\<close>
  are arguments.
\<close>

section \<open>State\<close>

datatype cat_type = TYPE_NONE | TYPE_APP | TYPE_PROTO | TYPE_MAX

record ndcategory =
  cat_tag :: "(string \<times> nat) list"
  cat_index :: "(nat \<times> nat set) list"

record ndcategories =
  cs_app :: ndcategory
  cs_proto :: ndcategory
  cs_domains :: "(nat \<times> string set) list"
  cs_net4 :: "(32 word rentry, nat) radix_tree option"
  cs_net6 :: "(128 word rentry, nat) radix_tree option"

definition ND_CAT_UNKNOWN :: nat where "ND_CAT_UNKNOWN = 0"

definition category_empty :: ndcategory where
  "category_empty = \<lparr>cat_tag = [], cat_index = []\<rparr>"

definition ndCategories_new :: ndcategories where
  "ndCategories_new = \<lparr>cs_app = category_empty, cs_proto = category_empty, cs_domains = [],
     cs_net4 = None, cs_net6 = None\<rparr>"

definition ResetCategories :: "ndcategories \<Rightarrow> ndcategories" where
  "ResetCategories s = s\<lparr>cs_app := category_empty, cs_proto := category_empty\<rparr>"

definition ResetDomains :: "ndcategories \<Rightarrow> ndcategories" where
  "ResetDomains s = s\<lparr>cs_domains := []\<rparr>"

definition ResetNetworks :: "bool \<Rightarrow> ndcategories \<Rightarrow> ndcategories" where
  "ResetNetworks free_only s =
     (if free_only then s\<lparr>cs_net4 := None, cs_net6 := None\<rparr>
      else s\<lparr>cs_net4 := Some rt_empty, cs_net6 := Some rt_empty\<rparr>)"

fun cat_find :: "ndcategories \<Rightarrow> cat_type \<Rightarrow> ndcategory option" where
  "cat_find s TYPE_APP = Some (cs_app s)"
| "cat_find s TYPE_PROTO = Some (cs_proto s)"
| "cat_find s _ = None"

fun cat_put :: "cat_type \<Rightarrow> ndcategory \<Rightarrow> ndcategories \<Rightarrow> ndcategories" where
  "cat_put TYPE_APP c s = s\<lparr>cs_app := c\<rparr>"
| "cat_put TYPE_PROTO c s = s\<lparr>cs_proto := c\<rparr>"
| "cat_put _ c s = s"

section \<open>Conversion from JSON\<close>

fun jnat :: "json \<Rightarrow> nat option" where
  "jnat (JNum n) = Some (nat (n mod 2 ^ 32))"
| "jnat _ = None"

fun jstring :: "json \<Rightarrow> string option" where
  "jstring (JString s) = Some s"
| "jstring _ = None"

fun opt_all :: "'a option list \<Rightarrow> 'a list option" where
  "opt_all [] = Some []"
| "opt_all (x # xs) = do { y \<leftarrow> x; ys \<leftarrow> opt_all xs; Some (y # ys) }"

fun jset :: "json \<Rightarrow> nat set option" where
  "jset (JArr js) = map_option set (opt_all (map jnat js))"
| "jset _ = None"

fun jtags :: "json \<Rightarrow> (string \<times> nat) list option" where
  "jtags (JObj kvs) = map_option (foldl (\<lambda>m (k, v). om_set k v m) [])
     (opt_all (map (\<lambda>(k, v). map_option (\<lambda>n. (k, n)) (jnat v)) kvs))"
| "jtags _ = None"

fun jpair :: "json \<Rightarrow> (nat \<times> nat set) option" where
  "jpair (JArr [k, v]) = do { n \<leftarrow> jnat k; s \<leftarrow> jset v; Some (n, s) }"
| "jpair _ = None"

text \<open>\<open>get<map>\<close> keeps the first of equal keys, as \<open>insert\<close> does.\<close>

fun jindex :: "json \<Rightarrow> (nat \<times> nat set) list option" where
  "jindex (JArr js) = map_option
     (foldl (\<lambda>m (k, v). if map_of m k = None then om_set k v m else m) []) (opt_all (map jpair js))"
| "jindex _ = None"

section \<open>Loading and saving\<close>

text \<open>The legacy format: identifiers from one in the order of the tags. \<open>it\<close> must not be \<open>end()\<close>.\<close>

definition legacy_category :: "json \<Rightarrow> ndcategory option" where
  "legacy_category j = (case j of
     JObj kvs \<Rightarrow>
       map_option snd (foldl (\<lambda>acc (tag, v). case acc of
          None \<Rightarrow> None
        | Some (n, c) \<Rightarrow>
            (case v of
               JArr _ \<Rightarrow> (case jset v of None \<Rightarrow> None
                  | Some ids \<Rightarrow> Some (n + 1, c\<lparr>cat_tag := om_set tag n (cat_tag c), cat_index := om_set n ids (cat_index c)\<rparr>))
             | _ \<Rightarrow> Some (n, c))) (Some (1, category_empty)) kvs)
   | _ \<Rightarrow> None)"

definition cat_LoadLegacy :: "json \<Rightarrow> ndcategories \<Rightarrow> (bool \<times> ndcategories) option" where
  "cat_LoadLegacy j s = do {
     app \<leftarrow> Option.bind (jfind j ''application_index'') legacy_category;
     proto \<leftarrow> Option.bind (jfind j ''protocol_index'') legacy_category;
     Some (True, (ResetCategories s)\<lparr>cs_app := app, cs_proto := proto\<rparr>)
   }"

text \<open>The file is absent, does not parse, or is a JSON value.\<close>

datatype json_file = NoFile | BadJson | Json json

definition cat_of_json :: "string \<Rightarrow> json \<Rightarrow> ndcategory option" where
  "cat_of_json key j = do {
     tags \<leftarrow> Option.bind (jfind j (key @ ''_tag_index'')) jtags;
     index \<leftarrow> Option.bind (jfind j (key @ ''_index'')) jindex;
     Some \<lparr>cat_tag = tags, cat_index = index\<rparr>
   }"

definition cat_Load_file :: "json_file \<Rightarrow> ndcategories \<Rightarrow> (bool \<times> ndcategories) option" where
  "cat_Load_file file s = (case file of
     NoFile \<Rightarrow> Some (False, s)
   | BadJson \<Rightarrow> Some (False, s)
   | Json j \<Rightarrow>
       if jfind j ''application_tag_index'' = None \<or> jfind j ''protocol_tag_index'' = None
       then cat_LoadLegacy j s
       else do {
         app \<leftarrow> cat_of_json ''application'' j;
         proto \<leftarrow> cat_of_json ''protocol'' j;
         Some (True, (ResetCategories s)\<lparr>cs_app := app, cs_proto := proto\<rparr>)
       })"

text \<open>\<open>Load\<close> of the entries of a catalog: each with an identifier and its category.\<close>

definition cat_add_entry :: "string \<Rightarrow> json \<Rightarrow> ndcategory \<Rightarrow> ndcategory option" where
  "cat_add_entry key entry c =
     (case jfind entry key of
        None \<Rightarrow> Some c
      | Some cat \<Rightarrow> do {
          i \<leftarrow> Option.bind (jfind entry ''id'') jnat;
          cid \<leftarrow> Option.bind (jfind cat ''id'') jnat;
          tag \<leftarrow> Option.bind (jfind cat ''tag'') jstring;
          let c = (if map_of (cat_tag c) tag = None then c\<lparr>cat_tag := om_set tag cid (cat_tag c)\<rparr> else c);
          Some (case map_of (cat_index c) cid of
              None \<Rightarrow> c\<lparr>cat_index := om_set cid {i} (cat_index c)\<rparr>
            | Some ids \<Rightarrow> c\<lparr>cat_index := om_set cid (insert i ids) (cat_index c)\<rparr>)
        })"

fun cat_add_entries :: "string \<Rightarrow> json list \<Rightarrow> ndcategory \<Rightarrow> ndcategory option" where
  "cat_add_entries key [] c = Some c"
| "cat_add_entries key (e # es) c = Option.bind (cat_add_entry key e c) (cat_add_entries key es)"

definition cat_Load :: "cat_type \<Rightarrow> json list \<Rightarrow> ndcategories \<Rightarrow> (bool \<times> ndcategories) option" where
  "cat_Load type entries s =
     (case cat_find s type of
        None \<Rightarrow> Some (False, s)
      | Some c \<Rightarrow>
          map_option (\<lambda>c. (True, cat_put type c s))
            (cat_add_entries (case type of TYPE_APP \<Rightarrow> ''application_category'' | TYPE_PROTO \<Rightarrow> ''protocol_category'' | _ \<Rightarrow> [])
               entries c))"

definition json_of_cat :: "ndcategory \<Rightarrow> json \<times> json" where
  "json_of_cat c =
     (JObj (map (\<lambda>(t, i). (t, JNum (int i))) (cat_tag c)),
      JArr (map (\<lambda>(i, ids). JArr [JNum (int i), JArr (map (\<lambda>n. JNum (int n)) (sorted_list_of_set ids))]) (cat_index c)))"

definition cat_Save_json :: "int \<Rightarrow> ndcategories \<Rightarrow> json" where
  "cat_Save_json now s =
     JObj [(''application_index'', snd (json_of_cat (cs_app s))), (''application_tag_index'', fst (json_of_cat (cs_app s))),
           (''last_update'', JNum now),
           (''protocol_index'', snd (json_of_cat (cs_proto s))), (''protocol_tag_index'', fst (json_of_cat (cs_proto s)))]"

section \<open>Lookups\<close>

text \<open>The identifier version of \<open>IsMember\<close> returns false even for a member.\<close>

definition IsMember_id :: "ndcategories \<Rightarrow> cat_type \<Rightarrow> nat \<Rightarrow> nat \<Rightarrow> bool" where
  "IsMember_id s type cat_id i =
     (case cat_find s type of
        None \<Rightarrow> False
      | Some c \<Rightarrow> (case map_of (cat_index c) cat_id of
            None \<Rightarrow> False
          | Some ids \<Rightarrow> if i \<notin> ids then False else False))"

definition IsMember :: "ndcategories \<Rightarrow> cat_type \<Rightarrow> string \<Rightarrow> nat \<Rightarrow> bool" where
  "IsMember s type tag i =
     (case cat_find s type of
        None \<Rightarrow> False
      | Some c \<Rightarrow> (case map_of (cat_tag c) tag of
            None \<Rightarrow> False
          | Some cat_id \<Rightarrow> (case map_of (cat_index c) cat_id of
                None \<Rightarrow> False
              | Some ids \<Rightarrow> if i \<notin> ids then False else True)))"

definition cat_Lookup :: "ndcategories \<Rightarrow> cat_type \<Rightarrow> nat \<Rightarrow> nat" where
  "cat_Lookup s type i =
     (case cat_find s type of
        None \<Rightarrow> ND_CAT_UNKNOWN
      | Some c \<Rightarrow> (case List.find (\<lambda>(_, ids). i \<in> ids) (cat_index c) of
            None \<Rightarrow> ND_CAT_UNKNOWN | Some (cat_id, _) \<Rightarrow> cat_id))"

definition LookupTag :: "ndcategories \<Rightarrow> cat_type \<Rightarrow> string \<Rightarrow> nat" where
  "LookupTag s type tag =
     (case cat_find s type of
        None \<Rightarrow> ND_CAT_UNKNOWN
      | Some c \<Rightarrow> (case map_of (cat_tag c) tag of Some cat_id \<Rightarrow> cat_id | None \<Rightarrow> ND_CAT_UNKNOWN))"

text \<open>The tag that the caller passed is kept when the category has none.\<close>

definition ResolveTag :: "ndcategories \<Rightarrow> cat_type \<Rightarrow> nat \<Rightarrow> string \<Rightarrow> nat \<times> string" where
  "ResolveTag s type i tag =
     (let cat_id = cat_Lookup s type i in
      if cat_id = ND_CAT_UNKNOWN then (ND_CAT_UNKNOWN, tag)
      else case cat_find s type of
        None \<Rightarrow> (cat_id, tag)
      | Some c \<Rightarrow> (case List.find (\<lambda>(_, n). n = cat_id) (cat_tag c) of
            None \<Rightarrow> (cat_id, tag) | Some (t, _) \<Rightarrow> (cat_id, t)))"

section \<open>The directory of category files\<close>

text \<open>
  A line of a file: the set of domains, the two trees. A tree is \<open>None\<close> while its pointer
  is null; an assignment through a null pointer is undefined and has the result \<open>None\<close>.
\<close>

type_synonym dotd_acc = "string set \<times> (32 word rentry, nat) radix_tree option \<times> (128 word rentry, nat) radix_tree option"

definition dotd_line :: "inet_pton \<Rightarrow> nat \<Rightarrow> string \<Rightarrow> dotd_acc \<Rightarrow> dotd_acc option" where
  "dotd_line pton cat_id line0 = (\<lambda>(entries, n4, n6).
     (let line = nd_ltrim (CHR 0x00) line0 in
      if line = [] \<or> hd line = CHR ''#'' then Some (entries, n4, n6)
      else case split_first (CHR '':'') line of
        None \<Rightarrow> Some (entries, n4, n6)
      | Some (type, value) \<Rightarrow>
          if type = ''dom'' then Some (insert value entries, n4, n6)
          else if type \<noteq> ''net'' then
            (let a = ndAddr_str pton value in
             if \<not> IsValid a \<or> \<not> IsIP a then Some (entries, n4, n6)
             else if IsIPv4 a then
               (case rentry_create re_load4 a of
                  None \<Rightarrow> Some (entries, n4, n6)
                | Some e \<Rightarrow> map_option (\<lambda>T. (entries, Some (fst (rt_assign rentry_ops T e cat_id)), n6)) n4)
             else
               (case rentry_create re_load6 a of
                  None \<Rightarrow> Some (entries, n4, n6)
                | Some e \<Rightarrow> map_option (\<lambda>T. (entries, n4, Some (fst (rt_assign rentry_ops T e cat_id)))) n6))
          else Some (entries, n4, n6)))"

fun dotd_lines :: "inet_pton \<Rightarrow> nat \<Rightarrow> string list \<Rightarrow> dotd_acc \<Rightarrow> dotd_acc option" where
  "dotd_lines pton cat_id [] acc = Some acc"
| "dotd_lines pton cat_id (l # ls) acc = Option.bind (dotd_line pton cat_id l acc) (dotd_lines pton cat_id ls)"

definition dotd_tag :: "string \<Rightarrow> string option" where
  "dotd_tag file =
     (case find_first (\<lambda>c. c = CHR ''-'') file of
        None \<Rightarrow> None
      | Some p1 \<Rightarrow> (case find_last (\<lambda>c. c = CHR ''.'') file of
            None \<Rightarrow> None
          | Some p2 \<Rightarrow> Some (if p2 < p1 + 1 then drop (p1 + 1) file else take (p2 - p1 - 1) (drop (p1 + 1) file))))"

text \<open>
  One file; \<open>insert\<close> keeps the domains of an earlier file of the same category. The list of
  the categories with domains stands for the unordered map in the order of its iteration.
\<close>

definition dotd_file :: "inet_pton \<Rightarrow> (string \<Rightarrow> string option) \<Rightarrow> string \<Rightarrow> ndcategories \<Rightarrow> ndcategories option" where
  "dotd_file pton fs file s =
     (case Option.bind (dotd_tag file) (map_of (cat_tag (cs_app s))) of
        None \<Rightarrow> Some s
      | Some cat_id \<Rightarrow>
          (case fs file of
             None \<Rightarrow> Some s
           | Some data \<Rightarrow>
               map_option (\<lambda>(entries, n4, n6).
                    s\<lparr>cs_net4 := n4, cs_net6 := n6,
                      cs_domains := (if entries = {} \<or> map_of (cs_domains s) cat_id \<noteq> None then cs_domains s
                                     else cs_domains s @ [(cat_id, entries)])\<rparr>)
                 (dotd_lines pton cat_id (getlines data) ({}, cs_net4 s, cs_net6 s))))"

fun dotd_files :: "inet_pton \<Rightarrow> (string \<Rightarrow> string option) \<Rightarrow> string list \<Rightarrow> ndcategories \<Rightarrow> ndcategories option" where
  "dotd_files pton fs [] s = Some s"
| "dotd_files pton fs (f # files) s = Option.bind (dotd_file pton fs f s) (dotd_files pton fs files)"

text \<open>\<open>ResetNetworks\<close> is called with its default argument, which only frees the trees.\<close>

definition LoadDotDirectory ::
  "inet_pton \<Rightarrow> (d_type \<times> string) list option \<Rightarrow> (string \<Rightarrow> string option) \<Rightarrow> ndcategories \<Rightarrow> (bool \<times> ndcategories) option" where
  "LoadDotDirectory pton dir fs s =
     (case nd_scan_dotd dir [] of
        (False, _) \<Rightarrow> Some (True, s)
      | (True, files) \<Rightarrow> map_option (\<lambda>s. (True, s)) (dotd_files pton fs files (ResetNetworks True (ResetDomains s))))"

function LookupDotDirectory :: "ndcategories \<Rightarrow> string \<Rightarrow> nat" where
  "LookupDotDirectory s search =
     (case List.find (\<lambda>(_, ds). search \<in> ds) (cs_domains s) of
        Some (cat_id, _) \<Rightarrow> cat_id
      | None \<Rightarrow> (case split_first (CHR ''.'') search of
            None \<Rightarrow> ND_CAT_UNKNOWN
          | Some (_, r) \<Rightarrow> if r = [] then ND_CAT_UNKNOWN else LookupDotDirectory s r))"
  by pat_completeness auto
termination by (relation "measure (\<lambda>(_, d). length d)") (auto dest: split_first_shorter)

declare LookupDotDirectory.simps [simp del]

definition LookupDotDirectory_addr :: "ndcategories \<Rightarrow> nd_addr \<Rightarrow> nat" where
  "LookupDotDirectory_addr s a = ND_CAT_UNKNOWN"

section \<open>Correctness\<close>

definition cat_ok :: "ndcategory \<Rightarrow> bool" where
  "cat_ok c \<longleftrightarrow> sorted_wrt (<) (map fst (cat_tag c)) \<and> sorted_wrt (<) (map fst (cat_index c))
     \<and> (\<forall>(_, i) \<in> set (cat_tag c). i < 2 ^ 32)
     \<and> (\<forall>(i, ids) \<in> set (cat_index c). i < 2 ^ 32 \<and> finite ids \<and> (\<forall>n \<in> ids. n < 2 ^ 32))"

lemma jnat_int: "n < 2 ^ 32 \<Longrightarrow> jnat (JNum (int n)) = Some n"
  by simp

lemma opt_all_map: "\<forall>x \<in> set xs. f x = Some (g x) \<Longrightarrow> opt_all (map f xs) = Some (map g xs)"
  by (induction xs) auto

lemma om_insert_fold:
  assumes "sorted_wrt (<) (map fst (acc @ xs))"
  shows "foldl (\<lambda>m (k, v). if map_of m k = None then om_set k v m else m) acc xs = acc @ xs"
  using assms
proof (induction xs arbitrary: acc)
  case (Cons p xs)
  obtain k v where p: "p = (k, v)" by force
  have lt: "\<forall>j \<in> fst ` set acc. j < k" using Cons.prems by (auto simp: p sorted_wrt_append)
  then have "om_set k v acc = acc @ [(k, v)]" by (rule om_set_last)
  moreover have "map_of acc k = None" using lt by (auto simp: map_of_eq_None_iff)
  ultimately show ?case using Cons.IH [of "acc @ [(k, v)]"] Cons.prems by (simp add: p)
qed simp

lemma cat_json_inverse:
  assumes "cat_ok c"
  shows "jtags (fst (json_of_cat c)) = Some (cat_tag c)" "jindex (snd (json_of_cat c)) = Some (cat_index c)"
proof -
  have t: "opt_all (map (\<lambda>(k, v). map_option (\<lambda>n. (k, n)) (jnat v)) (map (\<lambda>(t, i). (t, JNum (int i))) (cat_tag c))) = Some (cat_tag c)"
    using assms opt_all_map [of "cat_tag c" "(\<lambda>(k, v). map_option (\<lambda>n. (k, n)) (jnat v)) \<circ> (\<lambda>(t, i). (t, JNum (int i)))" "\<lambda>x. x"]
    by (auto simp: cat_ok_def o_def split_def)
  show "jtags (fst (json_of_cat c)) = Some (cat_tag c)"
    using om_set_fold [of "[]" "cat_tag c"] assms unfolding json_of_cat_def fst_conv jtags.simps t by (simp add: cat_ok_def)
  have e: "jpair (JArr [JNum (int i), JArr (map (\<lambda>n. JNum (int n)) (sorted_list_of_set ids))]) = Some (i, ids)"
    if "(i, ids) \<in> set (cat_index c)" for i ids
  proof -
    have b: "i < 2 ^ 32" "finite ids" "\<forall>n \<in> ids. n < 2 ^ 32" using assms that by (auto simp: cat_ok_def)
    have "opt_all (map jnat (map (\<lambda>n. JNum (int n)) (sorted_list_of_set ids))) = Some (sorted_list_of_set ids)"
      using opt_all_map [of "sorted_list_of_set ids" "jnat \<circ> (\<lambda>n. JNum (int n))" "\<lambda>x. x"] b by simp
    then show ?thesis using b by simp
  qed
  have "opt_all (map jpair (map (\<lambda>(i, ids). JArr [JNum (int i), JArr (map (\<lambda>n. JNum (int n)) (sorted_list_of_set ids))]) (cat_index c)))
      = Some (cat_index c)"
    using opt_all_map [of "cat_index c" "jpair \<circ> (\<lambda>(i, ids). JArr [JNum (int i), JArr (map (\<lambda>n. JNum (int n)) (sorted_list_of_set ids))])" "\<lambda>x. x"] e
    by (auto simp: split_def simp del: jpair.simps)
  then show "jindex (snd (json_of_cat c)) = Some (cat_index c)"
    using om_insert_fold [of "[]" "cat_index c"] assms by (simp add: json_of_cat_def cat_ok_def)
qed

text \<open>
  The category tables that are saved are the tables that are loaded.
\<close>

theorem categories_save_load:
  assumes "cat_ok (cs_app s)" "cat_ok (cs_proto s)"
  shows "cat_Load_file (Json (cat_Save_json now s)) t = Some (True, t\<lparr>cs_app := cs_app s, cs_proto := cs_proto s\<rparr>)"
  using cat_json_inverse [OF assms(1)] cat_json_inverse [OF assms(2)]
  by (simp add: cat_Load_file_def cat_Save_json_def cat_of_json_def ResetCategories_def)

lemma find_index:
  assumes "sorted_wrt (<) (map fst (xs :: (nat \<times> nat set) list))" "List.find (\<lambda>(_, ids). i \<in> ids) xs = Some (c, ids)"
  shows "map_of xs c = Some ids" "i \<in> ids" "\<And>j. (\<exists>ids. map_of xs j = Some ids \<and> i \<in> ids) \<Longrightarrow> c \<le> j"
proof -
  obtain n where n: "n < length xs" "xs ! n = (c, ids)" "i \<in> ids" "\<And>m. m < n \<Longrightarrow> i \<notin> snd (xs ! m)"
    using assms(2) by (auto simp: find_Some_iff split_def) (metis snd_conv)
  have d: "distinct (map fst xs)" using assms(1) by (simp add: strict_sorted_iff)
  show "map_of xs c = Some ids" using n(1,2) d by (metis map_of_eq_Some_iff nth_mem)
  show "i \<in> ids" by (rule n(3))
  fix j assume "\<exists>ids. map_of xs j = Some ids \<and> i \<in> ids"
  then obtain js where "(j, js) \<in> set xs" "i \<in> js" by (metis map_of_SomeD)
  then obtain m where m: "m < length xs" "xs ! m = (j, js)" "i \<in> js" by (metis in_set_conv_nth)
  then have "n \<le> m" using n(4) by (metis leI snd_conv)
  then show "c \<le> j" using sorted_wrt_nth_less [OF assms(1), of n m] m n by (cases "n = m") auto
qed

text \<open>
  \<open>Lookup\<close> is the least category that contains the identifier, and the tag that
  \<open>ResolveTag\<close> gives for it is one that \<open>IsMember\<close> confirms and \<open>LookupTag\<close> maps back
  to this category.
\<close>

theorem resolve_tag_is_member:
  assumes "cat_find s type = Some c" "cat_ok c" "ResolveTag s type i tag0 = (cat_id, tag)" "cat_id \<noteq> ND_CAT_UNKNOWN"
    and "\<exists>t. map_of (cat_tag c) t = Some cat_id"
  shows "IsMember s type tag i \<and> LookupTag s type tag = cat_id
    \<and> (\<forall>j ids. map_of (cat_index c) j = Some ids \<longrightarrow> i \<in> ids \<longrightarrow> cat_id \<le> j)"
proof -
  have s1: "sorted_wrt (<) (map fst (cat_index c))" and d: "distinct (map fst (cat_tag c))"
    using assms(2) by (auto simp: cat_ok_def strict_sorted_iff)
  have l: "cat_Lookup s type i = cat_id" using assms(3) by (auto simp: ResolveTag_def Let_def assms(1) split: if_splits option.splits)
  then obtain ids where f: "List.find (\<lambda>(_, ids). i \<in> ids) (cat_index c) = Some (cat_id, ids)"
    using assms(4) by (auto simp: cat_Lookup_def assms(1) split: option.splits)
  note fi = find_index [OF s1 f]
  obtain t where "(t, cat_id) \<in> set (cat_tag c)" using assms(5) map_of_SomeD by fast
  then have "List.find (\<lambda>(_, n). n = cat_id) (cat_tag c) \<noteq> None" by (auto simp: find_None_iff)
  then obtain p where "List.find (\<lambda>(_, n). n = cat_id) (cat_tag c) = Some p" by blast
  moreover from list_find_SomeD [OF this] have "snd p = cat_id" by auto
  ultimately obtain u where u: "List.find (\<lambda>(_, n). n = cat_id) (cat_tag c) = Some (u, cat_id)" by (cases p) auto
  then have "tag = u" using assms(3,4) l by (auto simp: ResolveTag_def Let_def assms(1))
  have "(u, cat_id) \<in> set (cat_tag c)" using list_find_SomeD [OF u] by blast
  then have "map_of (cat_tag c) tag = Some cat_id" using d \<open>tag = u\<close> by simp
  then show ?thesis using fi assms(1) by (auto simp: IsMember_def LookupTag_def)
qed

text \<open>
  A domain belongs to the category of its longest suffix, cut at a dot, that the
  directory of category files lists, and to none when there is no such suffix.
\<close>

theorem dot_directory_longest_suffix:
  "LookupDotDirectory s domain =
    (case List.find (\<lambda>e. \<exists>p \<in> set (cs_domains s). e \<in> snd p) (label_suffixes domain) of
       None \<Rightarrow> ND_CAT_UNKNOWN
     | Some e \<Rightarrow> fst (the (List.find (\<lambda>(_, ds). e \<in> ds) (cs_domains s))))"
proof (induction domain rule: label_suffixes.induct)
  case (1 d)
  show ?case
  proof (cases "List.find (\<lambda>(_, ds). d \<in> ds) (cs_domains s)")
    case None
    then have "\<not> (\<exists>p \<in> set (cs_domains s). d \<in> snd p)" by (auto simp: find_None_iff)
    then show ?thesis using None 1
      by (subst LookupDotDirectory.simps, subst label_suffixes.simps) (auto split: option.split)
  next
    case (Some p)
    then have "\<exists>p \<in> set (cs_domains s). d \<in> snd p"
      using list_find_SomeD [OF Some] by (auto simp: split_def)
    then show ?thesis using Some
      by (subst LookupDotDirectory.simps, subst label_suffixes.simps) (auto simp: split_def)
  qed
qed

section \<open>Concrete instances\<close>

definition cat_sorted_example :: ndcategories where
  "cat_sorted_example = ndCategories_new\<lparr>cs_app := \<lparr>cat_tag = [(''ads'', 5)], cat_index = [(3, {10, 11}), (5, {11})]\<rparr>\<rparr>"

lemma cat_ok_examples: "cat_ok (cs_app cat_sorted_example)" "cat_ok (cs_proto cat_sorted_example)"
  by (simp_all add: cat_ok_def cat_sorted_example_def ndCategories_new_def category_empty_def)

theorem categories_save_load_witness:
  "map_of (cat_index (cs_app (snd (the (cat_Load_file (Json (cat_Save_json 0 cat_sorted_example)) ndCategories_new))))) 5 = Some {11}"
  using categories_save_load [OF cat_ok_examples, of 0 ndCategories_new]
  by (simp add: cat_sorted_example_def)

definition cat_named_example :: ndcategories where
  "cat_named_example = ndCategories_new\<lparr>cs_app := \<lparr>cat_tag = [(''ads'', 3)], cat_index = [(3, {10, 11}), (5, {11})]\<rparr>\<rparr>"

theorem resolve_tag_is_member_witness:
  "ResolveTag cat_named_example TYPE_APP 11 [] = (3, ''ads'') \<and> IsMember cat_named_example TYPE_APP ''ads'' 11"
proof -
  have r: "ResolveTag cat_named_example TYPE_APP 11 [] = (3, ''ads'')"
    by (simp add: ResolveTag_def cat_Lookup_def cat_named_example_def ND_CAT_UNKNOWN_def)
  have "cat_ok (cs_app cat_named_example)" by (simp add: cat_ok_def cat_named_example_def)
  from resolve_tag_is_member [OF _ this r] r show ?thesis
    by (simp add: cat_named_example_def ND_CAT_UNKNOWN_def)
qed

section \<open>Departures from the documented intent\<close>

lemma IsMember_id_never: "\<not> IsMember_id s type cat_id i"
  by (simp add: IsMember_id_def split: option.split)

text \<open>
  The networks of a category file, marked \<open>net:\<close>, are not loaded. A valid IPv4 network
  under any other mark is stored through the null pointer that \<open>ResetNetworks\<close> left.
\<close>

lemma dotd_net_ignored: "dotd_line pton cat_id (''net:'' @ value) acc = Some acc"
  by (simp add: dotd_line_def split_def nd_ltrim_def trim_char_def isspace_def split_first_def)

lemma dotd_line_typed:
  "type \<noteq> [] \<Longrightarrow> \<not> isspace (hd type) \<Longrightarrow> hd type \<noteq> CHR 0x00 \<Longrightarrow> hd type \<noteq> CHR ''#'' \<Longrightarrow> CHR '':'' \<notin> set type \<Longrightarrow>
   nd_ltrim (CHR 0x00) (type @ CHR '':'' # value) = type @ CHR '':'' # value
   \<and> split_first (CHR '':'') (type @ CHR '':'' # value) = Some (type, value)"
  using split_first_append [of "CHR '':''" type "value"] by (cases type) (auto simp: nd_ltrim_def trim_char_def)

lemma dotd_null_pointer:
  assumes "IsValid (ndAddr_str pton value)" "IsIPv4 (ndAddr_str pton value)"
    and "rentry_create re_load4 (ndAddr_str pton value) \<noteq> None"
  shows "dotd_line pton cat_id (''ip:'' @ value) (entries, None, n6) = None"
proof -
  have "nd_ltrim (CHR 0x00) (''ip:'' @ value) = ''ip:'' @ value \<and> split_first (CHR '':'') (''ip:'' @ value) = Some (''ip'', value)"
    using dotd_line_typed [of "''ip''" "value"] by (simp add: isspace_def)
  moreover have "IsIP (ndAddr_str pton value)" using assms(2) by (auto simp: IsIP_def IsIPv4_def)
  ultimately show ?thesis using assms
    by (auto simp: dotd_line_def Let_def split: option.split)
qed

lemma dotd_line_keeps_null:
  "dotd_line pton cat_id l (entries, None, None) = Some acc \<Longrightarrow> snd acc = (None, None)"
  by (auto simp: dotd_line_def Let_def split: if_splits option.splits)

lemma dotd_lines_keep_null:
  "dotd_lines pton cat_id ls acc = Some acc' \<Longrightarrow> snd acc = (None, None) \<Longrightarrow> snd acc' = (None, None)"
proof (induction ls arbitrary: acc)
  case (Cons l ls)
  then obtain a where a: "dotd_line pton cat_id l acc = Some a" "dotd_lines pton cat_id ls a = Some acc'"
    by (auto split: Option.bind_splits)
  moreover have "acc = (fst acc, None, None)" using Cons.prems(2) by (cases acc) auto
  ultimately have "snd a = (None, None)" using dotd_line_keeps_null by metis
  then show ?case using a(2) Cons.IH by blast
qed simp

lemma dotd_files_keep_null:
  "dotd_files pton fs files s = Some t \<Longrightarrow> cs_net4 s = None \<Longrightarrow> cs_net6 s = None \<Longrightarrow> cs_net4 t = None \<and> cs_net6 t = None"
proof (induction files arbitrary: s)
  case (Cons f files)
  then obtain u where u: "dotd_file pton fs f s = Some u" "dotd_files pton fs files u = Some t"
    by (auto split: Option.bind_splits)
  then have "cs_net4 u = None \<and> cs_net6 u = None"
    using Cons.prems(2,3) dotd_lines_keep_null by (fastforce simp: dotd_file_def split: option.splits)
  then show ?case using u(2) Cons.IH by blast
qed simp

lemma LoadDotDirectory_no_networks:
  assumes "nd_scan_dotd dir [] = (True, files)" "LoadDotDirectory pton dir fs s = Some (ok, t)"
  shows "cs_net4 t = None \<and> cs_net6 t = None"
  using assms dotd_files_keep_null [of pton fs files "ResetNetworks True (ResetDomains s)" t]
  by (auto simp: LoadDotDirectory_def ResetNetworks_def)

end
