(* ===== verification/NdDetection.thy ===== *)
theory NdDetection
  imports NdCaptureProps NdConntrack NdFhc NdApps NdCategory
begin

text \<open>
  Detection threads (\<open>src/src/nd-detection.cpp\<close>, \<open>src/include/nd-detection.hpp\<close>): what
  becomes of a flow while its packets go through nDPI. The library's packet engine is an
  argument, and the fields of its flow structure that the code reads are a record. A null
  structure that is read is \<open>CUndefined\<close>. The endpoint table of the interface and the
  events for plugins are logs of what is sent to them; printing is left out.
\<close>

unbundle bit_operations_syntax

section \<open>Tables\<close>

definition ND_PROTO_APPLE_PUSH :: nat where "ND_PROTO_APPLE_PUSH = 238"
definition ND_PROTO_AVAST :: nat where "ND_PROTO_AVAST = 306"
definition ND_PROTO_FACEBOOK_VOIP :: nat where "ND_PROTO_FACEBOOK_VOIP = 327"
definition ND_PROTO_LINE_CALL :: nat where "ND_PROTO_LINE_CALL = 310"
definition ND_PROTO_NEST_LOG_SINK :: nat where "ND_PROTO_NEST_LOG_SINK = 43"
definition ND_PROTO_SPOTIFY :: nat where "ND_PROTO_SPOTIFY = 156"
definition ND_PROTO_SIGNAL_CALL :: nat where "ND_PROTO_SIGNAL_CALL = 39"
definition ND_PROTO_SKYPE_TEAMS_CALL :: nat where "ND_PROTO_SKYPE_TEAMS_CALL = 38"
definition ND_PROTO_SYNCTHING :: nat where "ND_PROTO_SYNCTHING = 312"
definition ND_PROTO_TELEGRAM_VOIP :: nat where "ND_PROTO_TELEGRAM_VOIP = 333"
definition ND_PROTO_TIVOCONNECT :: nat where "ND_PROTO_TIVOCONNECT = 313"
definition ND_PROTO_TPLINK_SHP :: nat where "ND_PROTO_TPLINK_SHP = 314"
definition ND_PROTO_TUYA_LP :: nat where "ND_PROTO_TUYA_LP = 304"
definition ND_PROTO_UBNTAC2 :: nat where "ND_PROTO_UBNTAC2 = 31"
definition ND_PROTO_WHATSAPP_CALL :: nat where "ND_PROTO_WHATSAPP_CALL = 246"
definition ND_PROTO_ZOOM :: nat where "ND_PROTO_ZOOM = 248"
definition ND_PROTO_STUN :: nat where "ND_PROTO_STUN = 78"
definition ND_PROTO_COAP :: nat where "ND_PROTO_COAP = 27"
definition ND_PROTO_XMPPS :: nat where "ND_PROTO_XMPPS = 322"
definition ND_PROTO_DOT :: nat where "ND_PROTO_DOT = 260"
definition ND_PROTO_SMBV23 :: nat where "ND_PROTO_SMBV23 = 41"
definition ND_PROTO_IRCS :: nat where "ND_PROTO_IRCS = 279"
definition ND_PROTO_DOQ :: nat where "ND_PROTO_DOQ = 261"
definition ND_PROTO_MSSQL_TDS :: nat where "ND_PROTO_MSSQL_TDS = 114"

text \<open>
  The keys of the table of negotiated protocols are pointers (\<open>const char *\<close>), compared as
  such: a literal of the program is the same pointer only as itself, a text that the library
  has allocated is no literal.
\<close>

datatype c_pointer = Literal string | Allocated string

fun c_text :: "c_pointer \<Rightarrow> string" where
  "c_text (Literal s) = s"
| "c_text (Allocated s) = s"

definition alpn_entries :: "(string \<times> nat) list" where
  "alpn_entries =
    [(''http/0.9'', ND_PROTO_HTTPS),
     (''http/1.0'', ND_PROTO_HTTPS),
     (''http/1.1'', ND_PROTO_HTTPS),
     (''spdy/1'', ND_PROTO_QUIC),
     (''spdy/2'', ND_PROTO_QUIC),
     (''spdy/3'', ND_PROTO_QUIC),
     (''stun.turn'', ND_PROTO_STUN),
     (''stun.nat-discovery'', ND_PROTO_STUN),
     (''h2'', ND_PROTO_HTTPS),
     (''h2c'', ND_PROTO_HTTPS),
     (''webrtc'', ND_PROTO_TLS),
     (''c-webrtc'', ND_PROTO_TLS),
     (''ftp'', ND_PROTO_FTPS),
     (''imap'', ND_PROTO_MAIL_IMAPS),
     (''pop3'', ND_PROTO_MAIL_POPS),
     (''managesieve'', ND_PROTO_TLS),
     (''coap'', ND_PROTO_COAP),
     (''xmpp-client'', ND_PROTO_XMPPS),
     (''xmpp-server'', ND_PROTO_XMPPS),
     (''acme-tls/1'', ND_PROTO_TLS),
     (''mqtt'', ND_PROTO_MQTTS),
     (''dot'', ND_PROTO_DOT),
     (''ntske/1'', ND_PROTO_TLS),
     (''sunrpc'', ND_PROTO_TLS),
     (''h3'', ND_PROTO_HTTPS),
     (''smb'', ND_PROTO_SMBV23),
     (''irc'', ND_PROTO_IRCS),
     (''nntp'', ND_PROTO_NNTPS),
     (''nnsp'', ND_PROTO_NNTPS),
     (''doq'', ND_PROTO_DOQ),
     (''sip/2'', ND_PROTO_SIPS),
     (''tds/8.0'', ND_PROTO_MSSQL_TDS),
     (''dicom'', ND_PROTO_TLS)]"

definition nd_alpn_protos :: "(c_pointer \<times> nat) list" where
  "nd_alpn_protos = map (\<lambda>(key, p). (Literal key, p)) alpn_entries"

text \<open>Protocols that stand for an application.\<close>

definition app_twins :: "(nat \<times> string) list" where
  "app_twins =
    [(ND_PROTO_APPLE_PUSH, ''netify.apple-push''),
     (ND_PROTO_AVAST, ''netify.avast''),
     (ND_PROTO_FACEBOOK_VOIP, ''netify.meta-messaging''),
     (ND_PROTO_LINE_CALL, ''netify.line''),
     (ND_PROTO_NEST_LOG_SINK, ''netify.nest''),
     (ND_PROTO_SPOTIFY, ''netify.spotify''),
     (ND_PROTO_SIGNAL_CALL, ''netify.signal''),
     (ND_PROTO_SKYPE_TEAMS_CALL, ''netify.teams''),
     (ND_PROTO_STEAM, ''netify.steam''),
     (ND_PROTO_SYNCTHING, ''netify.syncthing''),
     (ND_PROTO_TEAMVIEWER, ''netify.teamviewer''),
     (ND_PROTO_TELEGRAM_VOIP, ''netify.telegram''),
     (ND_PROTO_TIVOCONNECT, ''netify.tivo''),
     (ND_PROTO_TPLINK_SHP, ''netify.tp-link''),
     (ND_PROTO_TUYA_LP, ''netify.tuya-smart''),
     (ND_PROTO_UBNTAC2, ''netify.ubiquiti''),
     (ND_PROTO_WHATSAPP_CALL, ''netify.whatsapp''),
     (ND_PROTO_ZOOM, ''netify.zoom'')]"

section \<open>State\<close>

record ndpi_flow =
  nf_host_server_name :: string
  nf_extra_packets :: bool
  nf_certificate_processed :: bool
  nf_ssl_version :: "16 word"
  nf_server_cipher :: "16 word"
  nf_serverCN :: "string option"
  nf_issuerDN :: "string option"
  nf_subjectDN :: "string option"
  nf_ja3_server :: string
  nf_fingerprint :: "bytes option"
  nf_advertised_alpns :: "string option"
  nf_negotiated_alpn :: "string option"
  nf_ssh_client :: string
  nf_ssh_server :: string
  nf_user_agent :: "string option"
  nf_url :: "string option"
  nf_dhcp_fingerprint :: string
  nf_dhcp_class_ident :: string
  nf_risk :: "64 word"
  nf_rest :: nat

definition ndpi_flow_zero :: ndpi_flow where
  "ndpi_flow_zero = \<lparr>nf_host_server_name = [], nf_extra_packets = False, nf_certificate_processed = False,
     nf_ssl_version = 0, nf_server_cipher = 0, nf_serverCN = None, nf_issuerDN = None, nf_subjectDN = None,
     nf_ja3_server = [], nf_fingerprint = None, nf_advertised_alpns = None, nf_negotiated_alpn = None,
     nf_ssh_client = [], nf_ssh_server = [], nf_user_agent = None, nf_url = None, nf_dhcp_fingerprint = [],
     nf_dhcp_class_ident = [], nf_risk = 0, nf_rest = 0\<rparr>"

datatype dpi_event = EVENT_DPI_NEW | EVENT_DPI_UPDATE | EVENT_DPI_COMPLETE

text \<open>Libraries, tables that stay the same while an entry is processed, and configuration.\<close>

record 'rx det_env =
  de_ndpi :: "string \<Rightarrow> nat"
  de_process :: "ndpi_flow \<Rightarrow> bytes \<Rightarrow> 64 word \<Rightarrow> (nat \<times> nat) \<times> ndpi_flow"
  de_giveup :: "ndpi_flow \<Rightarrow> (nat \<times> nat) option \<times> ndpi_flow"
  de_risk2score :: "64 word \<Rightarrow> 16 word \<times> 16 word \<times> 16 word"
  de_max_risk :: nat
  de_sha1 :: "bytes \<Rightarrow> bytes"
  de_pton :: inet_pton
  de_ntop :: inet_ntop
  de_strdup :: "string \<Rightarrow> nat"
  de_regex :: "'rx \<Rightarrow> string \<Rightarrow> string \<Rightarrow> string"
  de_parse :: "nd_flow \<Rightarrow> string \<Rightarrow> bool option"
  de_apps :: "'rx ndapps"
  de_categories :: ndcategories
  de_addr_types :: addr_types
  de_tag :: string
  de_host_size :: nat
  de_ndpi_size :: nat
  de_behind :: bytes
  de_now :: time_t
  de_dhc_ttl :: time_t
  de_fhc_divisor :: nat
  de_soft_dissectors :: bool
  de_max_detection_pkts :: nat
  de_iface_lan :: bool
  de_privacy_mac :: "bytes list"
  de_privacy_host :: "(sa_family \<times> bytes) list"

record det_state =
  ds_flow :: nd_flow
  ds_ndpi :: ndpi_flow
  ds_dhc :: "dhc option"
  ds_fhc :: "fhc option"
  ds_conntrack :: "ct_table option"
  ds_endpoints :: "(nd_addr \<times> nd_addr) list"
  ds_events :: "dpi_event list"
  ds_flows :: nat

abbreviation upd_flow :: "(nd_flow \<Rightarrow> nd_flow) \<Rightarrow> det_state \<Rightarrow> det_state" where
  "upd_flow g s \<equiv> s\<lparr>ds_flow := g (ds_flow s)\<rparr>"

abbreviation upd_flags :: "(flow_flags \<Rightarrow> flow_flags) \<Rightarrow> nd_flow \<Rightarrow> nd_flow" where
  "upd_flags g f \<equiv> f\<lparr>fl_flags := g (fl_flags f)\<rparr>"

abbreviation upd_category :: "(flow_category \<Rightarrow> flow_category) \<Rightarrow> nd_flow \<Rightarrow> nd_flow" where
  "upd_category g f \<equiv> f\<lparr>fl_category := g (fl_category f)\<rparr>"

text \<open>Writes to the union of the flow: some bytes, and what \<open>snprintf\<close> writes of a string.\<close>

definition union_put :: "nat \<Rightarrow> bytes \<Rightarrow> nd_flow \<Rightarrow> nd_flow" where
  "union_put off bs f = f\<lparr>fl_union := take off (fl_union f) @ bs @ drop (off + length bs) (fl_union f)\<rparr>"

definition snprintf_bytes :: "nat \<Rightarrow> string \<Rightarrow> bytes" where
  "snprintf_bytes n str = bytes_of_string (take (n - 1) (cstr str)) @ [0]"

text \<open>\<open>nd\_set\_hostname\<close> of the common name: what it leaves of the array of 256 bytes.\<close>

definition put_server_cn :: "string \<Rightarrow> nd_flow \<Rightarrow> nd_flow" where
  "put_server_cn cn f =
     union_put 24 (bytes_of_string (nd_set_hostname_buf
        (map (\<lambda>b. char_of (unat b)) (take 256 (drop 24 (fl_union f)))) cn 256 True)) f"

text \<open>The texts that \<open>getline\<close> with a comma reads until the stream is no longer good.\<close>

fun alpn_list :: "string \<Rightarrow> string list" where
  "alpn_list [] = [[]]"
| "alpn_list (c # s) = (if c = CHR '','' then [] # alpn_list s
     else case alpn_list s of l # ls \<Rightarrow> (c # l) # ls | [] \<Rightarrow> [[c]])"

section \<open>Applications\<close>

abbreviation find_proto :: "'rx det_env \<Rightarrow> nat \<Rightarrow> nd_flow \<Rightarrow> nat" where
  "find_proto E i f \<equiv> nd_ndpi_proto_find (de_ndpi E) i
     (unat (GetPort (fl_lower_addr f) True)) (unat (GetPort (fl_upper_addr f) True))"

definition SetDetectedApplication :: "'rx det_env \<Rightarrow> nat \<Rightarrow> nd_flow \<Rightarrow> nd_flow" where
  "SetDetectedApplication E aid f =
     (if aid = ND_APP_UNKNOWN then f
      else (let f = f\<lparr>fl_detected_application := aid, fl_detected_application_name := snd (apps_Lookup_tag_of (de_apps E) aid)\<rparr>
            in upd_category (\<lambda>c. c\<lparr>fc_application := cat_Lookup (de_categories E) TYPE_APP aid\<rparr>) f))"

text \<open>The application while it is unknown, by a name or by an address.\<close>

definition detect_by_name :: "'rx det_env \<Rightarrow> string \<Rightarrow> nd_flow \<Rightarrow> nd_flow" where
  "detect_by_name E name f =
     (if fl_detected_application f = ND_APP_UNKNOWN \<and> name \<noteq> []
      then SetDetectedApplication E (apps_Find (de_regex E) (de_apps E) name) f else f)"

definition detect_by_address :: "'rx det_env \<Rightarrow> nd_addr \<Rightarrow> nd_flow \<Rightarrow> nd_flow" where
  "detect_by_address E a f =
     (if fl_detected_application f = ND_APP_UNKNOWN
      then SetDetectedApplication E (apps_Find_addr (de_apps E) a) f else f)"

definition detect_application :: "'rx det_env \<Rightarrow> nd_flow \<Rightarrow> nd_flow" where
  "detect_application E f =
     (let f = (case map_of app_twins (fl_detected_protocol f) of None \<Rightarrow> f
               | Some tag \<Rightarrow> SetDetectedApplication E (apps_Lookup_id_of (de_apps E) tag) f);
          f = detect_by_name E (fl_host_server_name f) f;
          f = detect_by_name E (fl_dns_host_name f) f
      in if GetMasterProtocol f = ND_PROTO_DNS then f
         else if fl_lower_type f = atOTHER
         then detect_by_address E (fl_upper_addr f) (detect_by_address E (fl_lower_addr f) f)
         else detect_by_address E (fl_lower_addr f) (detect_by_address E (fl_upper_addr f) f))"

section \<open>Negotiated protocols\<close>

text \<open>The result tells whether the flow is to be reported.\<close>

definition ProcessALPN :: "bool \<Rightarrow> c_pointer \<Rightarrow> nd_flow \<Rightarrow> bool \<times> nd_flow" where
  "ProcessALPN client detected f =
     (if client \<and> \<not> fl_tls_alpn_set f then
        (True, f\<lparr>fl_tls_alpn := fl_tls_alpn f @ alpn_list (c_text detected), fl_tls_alpn_set := True\<rparr>)
      else if \<not> fl_tls_alpn_server_set f then
        (let f = f\<lparr>fl_tls_alpn_server := fl_tls_alpn_server f @ [c_text detected], fl_tls_alpn_server_set := True\<rparr>
         in case map_of nd_alpn_protos detected of
              None \<Rightarrow> (False, f)
            | Some p \<Rightarrow>
                if p = fl_detected_protocol f then (False, f)
                else (True, upd_flags (\<lambda>g. g\<lparr>ff_detection_updated := True\<rparr>)
                        (f\<lparr>fl_detected_protocol := p, fl_detected_protocol_name := nd_proto_get_name p\<rparr>)))
      else (False, f))"

section \<open>The first report of a flow\<close>

text \<open>
  A hit is looked up for the sides that are not local; a hit of an earlier pass counts even
  where no lookup of this one gives a name.
\<close>

definition det_hint :: "'rx det_env \<Rightarrow> det_state \<Rightarrow> det_state" where
  "det_hint E s =
     (case ds_dhc s of None \<Rightarrow> s
      | Some c \<Rightarrow>
          if GetMasterProtocol (ds_flow s) = ND_PROTO_DNS then s
          else
            (let f = ds_flow s;
                 look = (\<lambda>a c. dhc_Lookup_addr (de_sha1 E) (de_now E) (de_dhc_ttl E) c a);
                 (hit, name, c) = (if fl_lower_type f = atOTHER
                   then (case look (fl_lower_addr f) c of (None, c) \<Rightarrow> (False, [], c) | (Some h, c) \<Rightarrow> (True, h, c))
                   else (ff_dhc_hit (fl_flags f), [], c));
                 (hit, name, c) = (if \<not> hit \<and> fl_upper_type f = atOTHER
                   then (case look (fl_upper_addr f) c of (None, c) \<Rightarrow> (False, name, c) | (Some h, c) \<Rightarrow> (True, h, c))
                   else (hit, name, c));
                 s = s\<lparr>ds_flow := upd_flags (\<lambda>g. g\<lparr>ff_dhc_hit := hit\<rparr>) f, ds_dhc := Some c\<rparr>
             in if \<not> hit then s
                else s\<lparr>ds_flow := (ds_flow s)\<lparr>fl_dns_host_name := name\<rparr>,
                       ds_ndpi := (if nf_host_server_name (ds_ndpi s) = [] \<or> nd_is_ipaddr (de_pton E) (nf_host_server_name (ds_ndpi s))
                         then (ds_ndpi s)\<lparr>nf_host_server_name := take (de_host_size E - 2) (cstr name)\<rparr> else ds_ndpi s)\<rparr>))"

text \<open>The metadata of the certificate, in both places that take it over.\<close>

definition take_server_cn :: "det_state \<Rightarrow> bool \<times> det_state" where
  "take_server_cn s =
     (case nf_serverCN (ds_ndpi s) of
        Some cn \<Rightarrow> if union_byte 24 (fl_union (ds_flow s)) = 0
          then (True, (upd_flow (put_server_cn cn) s)\<lparr>ds_ndpi := (ds_ndpi s)\<lparr>nf_serverCN := None\<rparr>\<rparr>)
          else (False, s)
      | None \<Rightarrow> (False, s))"

definition take_issuer_dn :: "'rx det_env \<Rightarrow> det_state \<Rightarrow> bool \<times> det_state" where
  "take_issuer_dn E s =
     (case nf_issuerDN (ds_ndpi s) of
        Some dn \<Rightarrow> if ssl_issuer_dn (fl_union (ds_flow s)) = 0
          then (True, (upd_flow (union_put 16 (le_bytes 8 (de_strdup E dn))) s)\<lparr>ds_ndpi := (ds_ndpi s)\<lparr>nf_issuerDN := None\<rparr>\<rparr>)
          else (False, s)
      | None \<Rightarrow> (False, s))"

definition take_subject_dn :: "'rx det_env \<Rightarrow> det_state \<Rightarrow> bool \<times> det_state" where
  "take_subject_dn E s =
     (case nf_subjectDN (ds_ndpi s) of
        Some dn \<Rightarrow> if ssl_subject_dn (fl_union (ds_flow s)) = 0
          then (True, (upd_flow (union_put 8 (le_bytes 8 (de_strdup E dn))) s)\<lparr>ds_ndpi := (ds_ndpi s)\<lparr>nf_subjectDN := None\<rparr>\<rparr>)
          else (False, s)
      | None \<Rightarrow> (False, s))"

definition find_by_cn :: "'rx det_env \<Rightarrow> nd_flow \<Rightarrow> nat" where
  "find_by_cn E f = apps_Find (de_regex E) (de_apps E) (ssl_server_cn (fl_union f))"

definition isprint :: "char \<Rightarrow> bool" where
  "isprint c \<longleftrightarrow> (32 :: nat) \<le> of_char c \<and> of_char c \<le> (126 :: nat)"

text \<open>What is taken over by protocol; the user agent ends at its first character that is not printable.\<close>

definition det_metadata :: "'rx det_env \<Rightarrow> det_state \<Rightarrow> det_state" where
  "det_metadata E s =
     (let p = GetMasterProtocol (ds_flow s) in
      if p \<in> {ND_PROTO_TLS, ND_PROTO_QUIC} then
        (let s = upd_flow (union_put 0 (le_bytes 2 (unat (nf_ssl_version (ds_ndpi s))))) s;
             s = upd_flow (union_put 2 (le_bytes 2 (unat (nf_server_cipher (ds_ndpi s))))) s;
             (taken, s) = take_server_cn s;
             s = (if taken \<and> fl_detected_application (ds_flow s) = ND_APP_UNKNOWN
                  then upd_flow (\<lambda>f. SetDetectedApplication E (find_by_cn E f) f) s else s)
         in snd (take_subject_dn E (snd (take_issuer_dn E s))))
      else if p \<in> {ND_PROTO_HTTP, ND_PROTO_SSDP} then
        (let s = (case nf_user_agent (ds_ndpi s) of None \<Rightarrow> s
               | Some ua \<Rightarrow>
                   (let ua = takeWhile isprint ua in
                    (upd_flow (union_put 0 (snprintf_bytes 512 ua)) s)\<lparr>ds_ndpi := (ds_ndpi s)\<lparr>nf_user_agent := Some ua\<rparr>\<rparr>))
         in case nf_url (ds_ndpi s) of None \<Rightarrow> s | Some url \<Rightarrow> upd_flow (union_put 512 (snprintf_bytes 512 url)) s)
      else if p = ND_PROTO_DHCP then
        upd_flow (\<lambda>f. union_put 48 (snprintf_bytes 96 (nf_dhcp_class_ident (ds_ndpi s)))
          (union_put 0 (snprintf_bytes 48 (nf_dhcp_fingerprint (ds_ndpi s))) f)) s
      else if p = ND_PROTO_SSH then
        upd_flow (\<lambda>f. union_put 48 (snprintf_bytes 48 (nf_ssh_server (ds_ndpi s)))
          (union_put 0 (snprintf_bytes 48 (nf_ssh_client (ds_ndpi s))) f)) s
      else s)"

definition flow_Hash_mdata :: "'rx det_env \<Rightarrow> nd_flow \<Rightarrow> nd_flow" where
  "flow_Hash_mdata E f = flow_Hash (de_sha1 E) (de_ndpi_size E) (de_behind E) (de_tag E) True None f"

text \<open>
  The digest of the metadata, or the one that the cache has for the flow; \<open>equal\<close>
  compares with a prefix of the second range.
\<close>

definition det_digest :: "'rx det_env \<Rightarrow> det_state \<Rightarrow> det_state" where
  "det_digest E s =
     (let f = ds_flow s in
      case (if GetPort (fl_lower_addr f) False \<noteq> 0 \<and> GetPort (fl_upper_addr f) False \<noteq> 0 then ds_fhc s else None) of
        None \<Rightarrow> upd_flow (flow_Hash_mdata E) s
      | Some c \<Rightarrow>
          (case fhc_Pop c (fl_digest_lower f) of
             (None, c) \<Rightarrow>
               (let f = flow_Hash_mdata E f in
                s\<lparr>ds_flow := f,
                  ds_fhc := Some (if take (length (fl_digest_lower f)) (fl_digest_mdata f) = fl_digest_lower f
                    then fhc_Push (de_fhc_divisor E) c (fl_digest_lower f) (fl_digest_mdata f) else c)\<rparr>)
           | (Some d, c) \<Rightarrow>
               s\<lparr>ds_flow := (if take (length (fl_digest_mdata f)) d = fl_digest_mdata f
                   then upd_flags (\<lambda>g. g\<lparr>ff_fhc_hit := True\<rparr>) (f\<lparr>fl_digest_mdata := d\<rparr>) else f),
                 ds_fhc := Some c\<rparr>))"

definition is_home :: "addr_type \<Rightarrow> bool" where
  "is_home t \<longleftrightarrow> t \<in> {atLOCAL, atLOCALNET, atRESERVED}"

definition det_endpoints :: "'rx det_env \<Rightarrow> nd_flow \<Rightarrow> (nd_addr \<times> nd_addr) list" where
  "det_endpoints E f =
     map snd (filter (\<lambda>(t, mac, ip). is_home t \<and> Classify (de_ntop E) (de_addr_types E) mac = atOTHER)
       [(fl_lower_type f, fl_lower_mac f, fl_lower_addr f), (fl_upper_type f, fl_upper_mac f, fl_upper_addr f)])"

definition det_conntrack :: "'rx det_env \<Rightarrow> det_state \<Rightarrow> det_state captured" where
  "det_conntrack E s =
     (case (if de_iface_lan E then None else ds_conntrack s) of
        None \<Rightarrow> CDone s
      | Some c \<Rightarrow>
          if (fl_lower_type (ds_flow s), fl_upper_type (ds_flow s)) \<in> {(atLOCAL, atOTHER), (atOTHER, atLOCAL)}
          then cbind (of_outcome (ct_UpdateFlow (de_sha1 E) (de_now E) (ds_flow s) c))
                 (\<lambda>(f, c). CDone (s\<lparr>ds_flow := f, ds_conntrack := Some c\<rparr>))
          else CDone s)"

text \<open>Which sides are private: by hardware address and by host.\<close>

definition mask_side :: "bool \<Rightarrow> bool \<Rightarrow> byte \<Rightarrow> byte" where
  "mask_side lower upper m = (let m = (if lower then m OR 1 else m) in if upper then m OR 2 else m)"

definition det_privacy :: "'rx det_env \<Rightarrow> nd_flow \<Rightarrow> nd_flow" where
  "det_privacy E f =
     (let m = foldl (\<lambda>m mac. if m = 3 then m else mask_side (mac = raw_mac (fl_lower_mac f)) (mac = raw_mac (fl_upper_mac f)) m)
                (fl_privacy_mask f) (de_privacy_mac E);
          m = foldl (\<lambda>m (family, ip). if m = 3 then m
                 else case family of
                   AF_INET \<Rightarrow> mask_side (ip = raw_in (fl_lower_addr f)) (ip = raw_in (fl_upper_addr f)) m
                 | AF_INET6 \<Rightarrow> mask_side (ip = raw_in6 (fl_lower_addr f)) (ip = raw_in6 (fl_upper_addr f)) m
                 | _ \<Rightarrow> m) m (de_privacy_host E)
      in f\<lparr>fl_privacy_mask := m\<rparr>)"

definition det_categories :: "'rx det_env \<Rightarrow> ndpi_flow \<Rightarrow> nd_flow \<Rightarrow> nd_flow" where
  "det_categories E n f =
     (let p = fl_detected_protocol f;
          f = f\<lparr>fl_detected_protocol_name := nd_proto_get_name p\<rparr>;
          f = (if p \<noteq> ND_PROTO_UNKNOWN
               then upd_category (\<lambda>c. c\<lparr>fc_protocol := cat_Lookup (de_categories E) TYPE_PROTO p\<rparr>) f else f)
      in if nf_host_server_name n \<noteq> []
         then upd_category (\<lambda>c. c\<lparr>fc_domain := LookupDotDirectory (de_categories E) (nf_host_server_name n)\<rparr>) f else f)"

definition ProcessFlow :: "'rx det_env \<Rightarrow> det_state \<Rightarrow> det_state captured" where
  "ProcessFlow E s =
     (if \<not> fl_ndpi_flow (ds_flow s) then CUndefined
      else
        (let s = upd_flow (\<lambda>f. f\<lparr>fl_lower_type := Classify (de_ntop E) (de_addr_types E) (fl_lower_addr f),
                                 fl_upper_type := Classify (de_ntop E) (de_addr_types E) (fl_upper_addr f)\<rparr>) s;
             s = det_hint E s;
             s = upd_flow (\<lambda>f. f\<lparr>fl_host_server_name :=
                   nd_set_hostname (nf_host_server_name (ds_ndpi s)) (min 80 (de_host_size E)) True\<rparr>) s;
             s = det_digest E (det_metadata E (upd_flow (detect_application E) s));
             s = s\<lparr>ds_endpoints := ds_endpoints s @ det_endpoints E (ds_flow s)\<rparr>
         in cbind (det_conntrack E s) (\<lambda>s.
              CDone (upd_flow (\<lambda>f. upd_flags (\<lambda>g. g\<lparr>ff_detection_init := True\<rparr>)
                 (det_privacy E (UpdateLowerMaps (det_categories E (ds_ndpi s) f)))) s))))"

section \<open>Risks, guesses and reports\<close>

definition ProcessRisks :: "'rx det_env \<Rightarrow> det_state \<Rightarrow> det_state captured" where
  "ProcessRisks E s =
     (if \<not> fl_ndpi_flow (ds_flow s) then CUndefined
      else
        (let r = nf_risk (ds_ndpi s);
             s = (if r = 0 then s
                  else case de_risk2score E r of (score, client, server) \<Rightarrow>
                    upd_flow (\<lambda>f. f\<lparr>fl_risks := foldl (\<lambda>rs i. if bit r i then insort_insert (nd_ndpi_risk_find (de_ndpi E) i) rs else rs)
                                      (fl_risks f) [0..<de_max_risk E],
                                   fl_risk_score := score, fl_risk_score_client := client, fl_risk_score_server := server\<rparr>) s)
         in CDone (upd_flow (upd_flags (\<lambda>g. g\<lparr>ff_risks_checked := True\<rparr>)) s)))"

definition SetGuessedProtocol :: "'rx det_env \<Rightarrow> det_state \<Rightarrow> det_state captured" where
  "SetGuessedProtocol E s =
     (if \<not> fl_ndpi_flow (ds_flow s) then CUndefined
      else case de_giveup E (ds_ndpi s) of (guess, n) \<Rightarrow>
        (let s = s\<lparr>ds_ndpi := n\<rparr>;
             s = (case guess of None \<Rightarrow> s
                  | Some (master, app) \<Rightarrow>
                      upd_flow (\<lambda>f. let p = find_proto E master f
                        in f\<lparr>fl_detected_protocol := (if p = ND_PROTO_UNKNOWN then find_proto E app f else p)\<rparr>) s)
         in CDone (upd_flow (upd_flags (\<lambda>g. g\<lparr>ff_detection_guessed := True\<rparr>)) s)))"

text \<open>Categories that are still unknown; a domain is read of the structure of the library.\<close>

definition known_categories :: "'rx det_env \<Rightarrow> nd_flow \<Rightarrow> nd_flow" where
  "known_categories E f =
     (let f = (if fc_application (fl_category f) = ND_CAT_UNKNOWN \<and> fl_detected_application f \<noteq> ND_APP_UNKNOWN
               then upd_category (\<lambda>c. c\<lparr>fc_application := cat_Lookup (de_categories E) TYPE_APP (fl_detected_application f)\<rparr>) f else f)
      in if fc_protocol (fl_category f) = ND_CAT_UNKNOWN \<and> fl_detected_protocol f \<noteq> ND_PROTO_UNKNOWN
         then upd_category (\<lambda>c. c\<lparr>fc_protocol := cat_Lookup (de_categories E) TYPE_PROTO (fl_detected_protocol f)\<rparr>) f else f)"

definition update_categories :: "'rx det_env \<Rightarrow> det_state \<Rightarrow> det_state captured" where
  "update_categories E s =
     (let s = upd_flow (known_categories E) s in
      if fc_domain (fl_category (ds_flow s)) \<noteq> ND_CAT_UNKNOWN then CDone s
      else if \<not> fl_ndpi_flow (ds_flow s) then CUndefined
      else if nf_host_server_name (ds_ndpi s) = [] then CDone s
      else CDone (upd_flow (upd_category (\<lambda>c. c\<lparr>fc_domain :=
             LookupDotDirectory (de_categories E) (nf_host_server_name (ds_ndpi s))\<rparr>)) s))"

text \<open>The soft dissectors: what the matching one sets, and whether one matched.\<close>

definition soft_application :: "'rx det_env \<Rightarrow> int \<Rightarrow> nd_flow \<Rightarrow> nd_flow" where
  "soft_application E aid f =
     (if \<not> aid > -1 then f
      else if aid = int ND_APP_UNKNOWN then
        upd_category (\<lambda>c. c\<lparr>fc_application := ND_CAT_UNKNOWN\<rparr>) (f\<lparr>fl_detected_application := 0, fl_detected_application_name := []\<rparr>)
      else SetDetectedApplication E (nat aid) f)"

definition soft_protocol :: "'rx det_env \<Rightarrow> int \<Rightarrow> nd_flow \<Rightarrow> nd_flow" where
  "soft_protocol E pid f =
     (if \<not> pid > -1 then f
      else (upd_category (\<lambda>c. c\<lparr>fc_protocol := cat_Lookup (de_categories E) TYPE_PROTO (nat pid)\<rparr>) (f\<lparr>fl_detected_protocol := nat pid\<rparr>))
         \<lparr>fl_detected_protocol_name := nd_proto_get_name (nat pid)\<rparr>)"

definition soft_dissect :: "'rx det_env \<Rightarrow> nd_flow \<Rightarrow> bool \<times> nd_flow" where
  "soft_dissect E f =
     (if \<not> de_soft_dissectors E then (False, f)
      else case apps_SoftDissectorMatch (de_parse E f) (de_apps E) \<lparr>sd_aid = -1, sd_pid = -1, sd_expr = []\<rparr> of
        (False, _) \<Rightarrow> (False, f)
      | (True, d) \<Rightarrow>
          (True, soft_protocol E (sd_pid d) (soft_application E (sd_aid d) (upd_flags (\<lambda>g. g\<lparr>ff_soft_dissector := True\<rparr>) f))))"

abbreviation is_complete :: "det_state \<Rightarrow> bool" where
  "is_complete s \<equiv> ff_detection_complete (fl_flags (ds_flow s))"

definition dpi_event_of :: "nd_flow \<Rightarrow> dpi_event" where
  "dpi_event_of f = (if ff_detection_complete (fl_flags f) then EVENT_DPI_COMPLETE
     else if ff_detection_updated (fl_flags f) then EVENT_DPI_UPDATE else EVENT_DPI_NEW)"

lemma SetDetectedApplication_flags [simp]: "fl_flags (SetDetectedApplication E a f) = fl_flags f"
  by (simp add: SetDetectedApplication_def Let_def)

lemma known_categories_flags [simp]: "fl_flags (known_categories E f) = fl_flags f"
  by (simp add: known_categories_def Let_def)

lemma update_categories_flags: "update_categories E s = CDone s' \<Longrightarrow> fl_flags (ds_flow s') = fl_flags (ds_flow s)"
  by (auto simp: update_categories_def Let_def split: if_splits)

lemma soft_flags [simp]:
  "fl_flags (soft_application E aid f) = fl_flags f" "fl_flags (soft_protocol E pid f) = fl_flags f"
  by (simp_all add: soft_application_def soft_protocol_def)

lemma soft_dissect_complete: "soft_dissect E f = (m, f') \<Longrightarrow> ff_detection_complete (fl_flags f') = ff_detection_complete (fl_flags f)"
  by (auto simp: soft_dissect_def split: if_splits prod.splits bool.splits)

lemma ProcessRisks_complete: "ProcessRisks E s = CDone s' \<Longrightarrow> is_complete s' = is_complete s"
  by (auto simp: ProcessRisks_def Let_def split: if_splits prod.splits)

lemma cbind_cong [fundef_cong]:
  "m = m' \<Longrightarrow> (\<And>x. m' = CDone x \<Longrightarrow> k x = k' x) \<Longrightarrow> cbind m k = cbind m' k'"
  by (cases m') simp_all

function FlowUpdate :: "'rx det_env \<Rightarrow> det_state \<Rightarrow> det_state captured"
  and SetDetectionComplete :: "'rx det_env \<Rightarrow> det_state \<Rightarrow> det_state captured" where
  "FlowUpdate E s =
     cbind (update_categories E s) (\<lambda>s. case soft_dissect E (ds_flow s) of (matched, f) \<Rightarrow>
       cbind (if matched then SetDetectionComplete E (s\<lparr>ds_flow := f\<rparr>) else CDone s) (\<lambda>s.
         CDone (s\<lparr>ds_events := ds_events s @ [dpi_event_of (ds_flow s)]\<rparr>)))"
| "SetDetectionComplete E s =
     (if is_complete s then CDone s
      else cbind (let s = upd_flow (upd_flags (\<lambda>g. g\<lparr>ff_detection_complete := True\<rparr>)) s
                  in if ff_risks_checked (fl_flags (ds_flow s)) then CDone s else ProcessRisks E s) (FlowUpdate E))"
  by pat_completeness auto
termination
  by (relation "measure (\<lambda>x. case x of Inl (E, s) \<Rightarrow> if is_complete s then 1 else 3
        | Inr (E, s) \<Rightarrow> if is_complete s then 0 else 2)")
    (auto simp: Let_def dest!: update_categories_flags soft_dissect_complete [OF sym] ProcessRisks_complete split: if_splits)

declare FlowUpdate.simps [simp del] SetDetectionComplete.simps [simp del]

section \<open>Packets\<close>

text \<open>The protocol that the library finds; one over STUN replaces what is known.\<close>

definition protocol_if :: "bool \<Rightarrow> nat \<Rightarrow> nd_flow \<Rightarrow> nd_flow" where
  "protocol_if b p f = (if b then f\<lparr>fl_detected_protocol := p\<rparr> else f)"

definition det_protocol :: "'rx det_env \<Rightarrow> nat \<Rightarrow> nat \<Rightarrow> nd_flow \<Rightarrow> nd_flow" where
  "det_protocol E master app f =
     (let unknown = de_ndpi E ''UNKNOWN'';
          f = protocol_if (master = de_ndpi E ''STUN'' \<and> app \<noteq> unknown \<and> find_proto E app f \<noteq> ND_PROTO_TODO) (find_proto E app f) f;
          f = protocol_if (fl_detected_protocol f = ND_PROTO_UNKNOWN \<and> master \<noteq> unknown) (find_proto E master f) f
      in protocol_if (fl_detected_protocol f = ND_PROTO_UNKNOWN \<and> app \<noteq> unknown) (find_proto E app f) f)"

abbreviation mark_updated :: "bool \<times> det_state \<Rightarrow> bool \<times> det_state" where
  "mark_updated r \<equiv> (case r of (changed, s) \<Rightarrow>
     (changed, if changed then upd_flow (upd_flags (\<lambda>g. g\<lparr>ff_detection_updated := True\<rparr>)) s else s))"

text \<open>
  What later packets add to a flow of TLS or QUIC. Whether the flow is reported is what the
  negotiated protocol says, where there is one.
\<close>

definition tls_cipher :: "det_state \<Rightarrow> bool \<times> det_state" where
  "tls_cipher s =
     (if ssl_cipher_suite (fl_union (ds_flow s)) = 0 \<and> nf_server_cipher (ds_ndpi s) \<noteq> 0
      then (True, upd_flow (union_put 2 (le_bytes 2 (unat (nf_server_cipher (ds_ndpi s))))) s)
      else (False, s))"

definition tls_server_cn :: "'rx det_env \<Rightarrow> det_state \<Rightarrow> bool \<times> det_state" where
  "tls_server_cn E s =
     (case take_server_cn s of (taken, s) \<Rightarrow>
        (taken, if taken then upd_flow (\<lambda>f. SetDetectedApplication E (find_by_cn E f) f) s else s))"

definition tls_ja3 :: "det_state \<Rightarrow> bool \<times> det_state" where
  "tls_ja3 s =
     (if union_byte 313 (fl_union (ds_flow s)) = 0 \<and> nf_ja3_server (ds_ndpi s) \<noteq> []
      then (True, upd_flow (union_put 313 (snprintf_bytes 33 (nf_ja3_server (ds_ndpi s)))) s)
      else (False, s))"

definition tls_fingerprint :: "det_state \<Rightarrow> bool \<times> det_state" where
  "tls_fingerprint s =
     (case nf_fingerprint (ds_ndpi s) of
        Some fp \<Rightarrow> if \<not> ssl_fingerprint_found (fl_union (ds_flow s))
          then (True, upd_flow (\<lambda>f. union_put 346 [1] (union_put 347 (take 20 fp) f)) s) else (False, s)
      | None \<Rightarrow> (False, s))"

definition tls_update :: "'rx det_env \<Rightarrow> det_state \<Rightarrow> bool \<times> det_state" where
  "tls_update E s =
     (let (u1, s) = mark_updated (tls_cipher s);
          (u2, s) = mark_updated (tls_server_cn E s);
          (u3, s) = mark_updated (take_issuer_dn E s);
          (u4, s) = mark_updated (take_subject_dn E s);
          (u5, s) = mark_updated (tls_ja3 s);
          (u6, s) = mark_updated (tls_fingerprint s);
          s = (case nf_advertised_alpns (ds_ndpi s) of None \<Rightarrow> s
               | Some a \<Rightarrow> (upd_flow (\<lambda>f. snd (ProcessALPN True (Allocated a) f)) s)\<lparr>ds_ndpi := (ds_ndpi s)\<lparr>nf_advertised_alpns := None\<rparr>\<rparr>)
      in case nf_negotiated_alpn (ds_ndpi s) of
           None \<Rightarrow> (u1 \<or> u2 \<or> u3 \<or> u4 \<or> u5 \<or> u6, s)
         | Some a \<Rightarrow> (fst (ProcessALPN False (Allocated a) (ds_flow s)),
             (upd_flow (\<lambda>f. snd (ProcessALPN False (Allocated a) f)) s)\<lparr>ds_ndpi := (ds_ndpi s)\<lparr>nf_negotiated_alpn := None\<rparr>\<rparr>))"

definition extra_update :: "'rx det_env \<Rightarrow> det_state \<Rightarrow> bool \<times> det_state" where
  "extra_update E s =
     (let s = upd_flow (upd_flags (\<lambda>g. g\<lparr>ff_detection_updated := False\<rparr>)) s; p = GetMasterProtocol (ds_flow s) in
      if p \<in> {ND_PROTO_TLS, ND_PROTO_QUIC} then tls_update E s
      else if p = ND_PROTO_DNS then (False, s)
      else if p = ND_PROTO_MDNS then mark_updated (HasMDNSDomainName (ds_flow s), s)
      else if p = ND_PROTO_SSH \<and> union_byte 48 (fl_union (ds_flow s)) = 0 \<and> nf_ssh_server (ds_ndpi s) \<noteq> [] then
        mark_updated (True, upd_flow (union_put 48 (snprintf_bytes 48 (nf_ssh_server (ds_ndpi s)))) s)
      else (False, s))"

text \<open>A structure of the library is made where there is none.\<close>

definition det_prepare :: "det_state \<Rightarrow> det_state" where
  "det_prepare s = (if fl_ndpi_flow (ds_flow s) then s
     else s\<lparr>ds_flow := (ds_flow s)\<lparr>fl_ndpi_flow := True\<rparr>, ds_ndpi := ndpi_flow_zero, ds_flows := ds_flows s + 1\<rparr>)"

definition det_library :: "'rx det_env \<Rightarrow> bytes \<Rightarrow> det_state \<Rightarrow> det_state" where
  "det_library E data s =
     (case de_process E (ds_ndpi s) data (fl_ts_last_seen (ds_flow s)) of ((master, app), n) \<Rightarrow>
        upd_flow (det_protocol E master app) (s\<lparr>ds_ndpi := n\<rparr>))"

definition det_ProcessPacket :: "'rx det_env \<Rightarrow> bytes \<Rightarrow> det_state \<Rightarrow> det_state captured" where
  "det_ProcessPacket E data s0 =
     (let s = det_library E data (det_prepare s0); extra = nf_extra_packets (ds_ndpi s); init = ff_detection_init (fl_flags (ds_flow s)) in
      cbind (if \<not> init \<and> fl_detected_protocol (ds_flow s) \<noteq> ND_PROTO_UNKNOWN
             then cbind (ProcessFlow E s) (\<lambda>s. CDone (True, s))
             else if init then CDone (extra_update E s) else CDone (False, s)) (\<lambda>(report, s).
      let extra = (extra \<and> \<not> (GetMasterProtocol (ds_flow s) \<in> {ND_PROTO_TLS, ND_PROTO_QUIC} \<and> nf_certificate_processed (ds_ndpi s)))
      in cbind (if report then FlowUpdate E s else CDone s) (\<lambda>s.
           if ff_detection_init (fl_flags (ds_flow s)) \<and> \<not> extra then SetDetectionComplete E s else CDone s)))"

section \<open>Entries of the queue\<close>

abbreviation det_packets :: "det_state \<Rightarrow> nat" where
  "det_packets s \<equiv> unat (fs_detection_packets (fl_stats (ds_flow s)))"

text \<open>The steps for the last packet of a flow, and for its end.\<close>

definition finish_entry :: "'rx det_env \<Rightarrow> bytes option \<Rightarrow> det_state \<Rightarrow> det_state captured" where
  "finish_entry E packet s =
     cbind (if packet = None then CDone s else det_ProcessPacket E (case packet of None \<Rightarrow> [] | Some d \<Rightarrow> d) s) (\<lambda>s.
     cbind (ProcessFlow E s) (\<lambda>s.
     cbind (if fl_detected_protocol (ds_flow s) = ND_PROTO_UNKNOWN then SetGuessedProtocol E s else CDone s) (\<lambda>s.
     cbind (SetDetectionComplete E s) (\<lambda>s.
       CDone (if ff_expiring (fl_flags (ds_flow s))
         then upd_flow (upd_flags (\<lambda>g. g\<lparr>ff_expired := True, ff_expiring := False\<rparr>)) s else s)))))"

text \<open>An entry of the queue: the bytes of a packet, or the request to finish the flow.\<close>

definition process_entry :: "'rx det_env \<Rightarrow> bytes option \<Rightarrow> det_state \<Rightarrow> det_state captured" where
  "process_entry E packet s =
     (let data = (case packet of None \<Rightarrow> [] | Some d \<Rightarrow> d); g = fl_flags (ds_flow s) in
      cbind (if det_packets s = 0 \<or> \<not> ff_detection_complete g \<and> \<not> ff_expiring g \<and> det_packets s < de_max_detection_pkts E
             then det_ProcessPacket E data (upd_flow (\<lambda>f. f\<lparr>fl_stats := (fl_stats f)\<lparr>fs_detection_packets := fs_detection_packets (fl_stats f) + 1\<rparr>\<rparr>) s)
             else CDone s) (\<lambda>s.
      cbind (if det_packets s = de_max_detection_pkts E
                \<or> ff_expiring (fl_flags (ds_flow s)) \<and> \<not> ff_expired (fl_flags (ds_flow s)) then finish_entry E packet s
             else CDone s) (\<lambda>s.
        CDone (if is_complete s then upd_flow flow_Release s else s))))"

section \<open>What detection leaves alone\<close>

text \<open>A computation ends, with a result of a certain kind.\<close>

definition ends :: "'a captured \<Rightarrow> ('a \<Rightarrow> bool) \<Rightarrow> bool" where
  "ends m P \<longleftrightarrow> (\<exists>x. m = CDone x \<and> P x)"

lemma ends_simps [simp]:
  "ends (CDone x) P \<longleftrightarrow> P x"
  "ends (cbind m k) P \<longleftrightarrow> ends m (\<lambda>x. ends (k x) P)"
  by (auto simp: ends_def cbind_CDone_iff)

lemma ends_mono: "ends m P \<Longrightarrow> (\<And>x. P x \<Longrightarrow> Q x) \<Longrightarrow> ends m Q"
  by (auto simp: ends_def)

lemma ends_CDoneD: "ends m P \<Longrightarrow> m = CDone x \<Longrightarrow> P x"
  by (simp add: ends_def)

text \<open>The connection of a flow, and how far it is through its life.\<close>

definition conn_part :: "nd_flow \<Rightarrow> _" where
  "conn_part f = ((fl_ip_version f, fl_ip_protocol f, fl_vlan_id f, fl_digest_lower f, fl_dpi_thread_id f, fl_ts_last_seen f),
     (fl_lower_mac f, fl_upper_mac f, fl_lower_addr f, fl_upper_addr f), fl_stats f,
     ff_expired (fl_flags f), ff_expiring (fl_flags f), ff_tcp_fin_ack (fl_flags f))"

text \<open>The name and the category of the application are those of its identifier.\<close>

definition app_ok :: "'rx det_env \<Rightarrow> nd_flow \<Rightarrow> bool" where
  "app_ok E f \<longleftrightarrow>
     (let a = fl_detected_application f in
      fl_detected_application_name f = (if a = ND_APP_UNKNOWN then [] else snd (apps_Lookup_tag_of (de_apps E) a))
      \<and> fc_application (fl_category f) = (if a = ND_APP_UNKNOWN then ND_CAT_UNKNOWN else cat_Lookup (de_categories E) TYPE_APP a))"

text \<open>How far the detection is, which only grows.\<close>

definition progress :: "nd_flow \<Rightarrow> nd_flow \<Rightarrow> bool" where
  "progress f0 f \<longleftrightarrow> (ff_detection_complete (fl_flags f0) \<longrightarrow> ff_detection_complete (fl_flags f))
     \<and> (ff_detection_init (fl_flags f0) \<longrightarrow> ff_detection_init (fl_flags f))
     \<and> (ff_risks_checked (fl_flags f0) \<longrightarrow> ff_risks_checked (fl_flags f))"

definition flow_ok :: "'rx det_env \<Rightarrow> nd_flow \<Rightarrow> nd_flow \<Rightarrow> bool" where
  "flow_ok E f0 f \<longleftrightarrow> conn_part f = conn_part f0 \<and> fl_ndpi_flow f \<and> app_ok E f \<and> progress f0 f"

named_theorems flow_ok_rules

lemma SetDetectedApplication_ok [flow_ok_rules]:
  "flow_ok E f0 f \<Longrightarrow> flow_ok E f0 (SetDetectedApplication E a f)"
  by (simp add: flow_ok_def conn_part_def app_ok_def progress_def SetDetectedApplication_def Let_def)

lemma detect_application_ok [flow_ok_rules]:
  assumes "flow_ok E f0 f"
  shows "flow_ok E f0 (detect_application E f)"
proof -
  have n: "flow_ok E f0 (detect_by_name E x f)" if "flow_ok E f0 f" for x f
    using that by (simp add: detect_by_name_def SetDetectedApplication_ok)
  have a: "flow_ok E f0 (detect_by_address E x f)" if "flow_ok E f0 f" for x f
    using that by (simp add: detect_by_address_def SetDetectedApplication_ok)
  show ?thesis using assms
    by (auto simp: detect_application_def Let_def intro!: n a SetDetectedApplication_ok split: option.split)
qed

lemma union_put_ok [flow_ok_rules]: "flow_ok E f0 f \<Longrightarrow> flow_ok E f0 (union_put n bs f)"
  by (simp add: flow_ok_def conn_part_def app_ok_def progress_def union_put_def)

lemma put_server_cn_ok [flow_ok_rules]: "flow_ok E f0 f \<Longrightarrow> flow_ok E f0 (put_server_cn cn f)"
  by (simp add: put_server_cn_def union_put_ok)

lemma ProcessALPN_ok [flow_ok_rules]: "flow_ok E f0 f \<Longrightarrow> flow_ok E f0 (snd (ProcessALPN client a f))"
  by (auto simp: ProcessALPN_def flow_ok_def conn_part_def app_ok_def progress_def Let_def split: option.split)

lemma flow_Hash_mdata_ok [flow_ok_rules]: "flow_ok E f0 f \<Longrightarrow> flow_ok E f0 (flow_Hash_mdata E f)"
  by (simp add: flow_Hash_mdata_def flow_Hash_def flow_ok_def conn_part_def app_ok_def progress_def Let_def)

lemma flow_mask_ok: "flow_ok E f0 f \<Longrightarrow> flow_ok E f0 (f\<lparr>fl_privacy_mask := m\<rparr>)"
  by (simp add: flow_ok_def conn_part_def app_ok_def progress_def)

lemma det_privacy_ok [flow_ok_rules]: "flow_ok E f0 f \<Longrightarrow> flow_ok E f0 (det_privacy E f)"
  by (simp add: det_privacy_def Let_def flow_mask_ok)

lemma det_categories_ok [flow_ok_rules]: "flow_ok E f0 f \<Longrightarrow> flow_ok E f0 (det_categories E n f)"
  by (simp add: det_categories_def flow_ok_def conn_part_def app_ok_def progress_def Let_def)

lemma UpdateLowerMaps_ok [flow_ok_rules]: "flow_ok E f0 f \<Longrightarrow> flow_ok E f0 (UpdateLowerMaps f)"
  by (auto simp: UpdateLowerMaps_def flow_ok_def conn_part_def app_ok_def progress_def Let_def split: tunnel_type.split prod.split)

lemma protocol_if_ok: "flow_ok E f0 f \<Longrightarrow> flow_ok E f0 (protocol_if b p f)"
  by (simp add: protocol_if_def flow_ok_def conn_part_def app_ok_def progress_def)

lemma det_protocol_ok [flow_ok_rules]: "flow_ok E f0 f \<Longrightarrow> flow_ok E f0 (det_protocol E m a f)"
  unfolding det_protocol_def Let_def by (intro protocol_if_ok)

lemma soft_dissect_ok [flow_ok_rules]:
  assumes "flow_ok E f0 f"
  shows "flow_ok E f0 (snd (soft_dissect E f))"
proof -
  have 1: "flow_ok E f0 (upd_flags (\<lambda>g. g\<lparr>ff_soft_dissector := True\<rparr>) f)"
    using assms by (simp add: flow_ok_def conn_part_def app_ok_def progress_def)
  have 2: "flow_ok E f0 (soft_application E a f)" if "flow_ok E f0 f" for a f
    using that SetDetectedApplication_ok [OF that]
    by (simp add: soft_application_def) (simp add: flow_ok_def conn_part_def app_ok_def progress_def ND_APP_UNKNOWN_def)
  have 3: "flow_ok E f0 (soft_protocol E p f)" if "flow_ok E f0 f" for p f
    using that by (simp add: soft_protocol_def flow_ok_def conn_part_def app_ok_def progress_def)
  show ?thesis using assms 3 [OF 2 [OF 1]] by (simp add: soft_dissect_def split: bool.split prod.split)
qed

lemma flow_flags_ok [flow_ok_rules]:
  assumes "flow_ok E f0 f"
  shows "flow_ok E f0 (upd_flags (\<lambda>g. g\<lparr>ff_detection_updated := b\<rparr>) f)"
    "flow_ok E f0 (upd_flags (\<lambda>g. g\<lparr>ff_detection_init := True\<rparr>) f)"
    "flow_ok E f0 (upd_flags (\<lambda>g. g\<lparr>ff_detection_complete := True\<rparr>) f)"
    "flow_ok E f0 (upd_flags (\<lambda>g. g\<lparr>ff_detection_guessed := b\<rparr>) f)"
    "flow_ok E f0 (upd_flags (\<lambda>g. g\<lparr>ff_risks_checked := True\<rparr>) f)"
    "flow_ok E f0 (upd_flags (\<lambda>g. g\<lparr>ff_dhc_hit := b\<rparr>) f)"
    "flow_ok E f0 (upd_flags (\<lambda>g. g\<lparr>ff_fhc_hit := b\<rparr>) f)"
    "flow_ok E f0 (upd_flags (\<lambda>g. g\<lparr>ff_ip_nat := b\<rparr>) f)"
  using assms by (simp_all add: flow_ok_def conn_part_def app_ok_def progress_def)

definition ct_free :: "det_state \<Rightarrow> bool" where
  "ct_free s \<longleftrightarrow> (case ds_conntrack s of None \<Rightarrow> True | Some c \<Rightarrow> \<not> ct_locked c)"

definition det_ok :: "'rx det_env \<Rightarrow> nd_flow \<Rightarrow> det_state \<Rightarrow> bool" where
  "det_ok E f0 s \<longleftrightarrow> flow_ok E f0 (ds_flow s) \<and> ct_free s"

lemma det_ok_fields [simp]:
  "det_ok E f0 (s\<lparr>ds_ndpi := n\<rparr>) = det_ok E f0 s" "det_ok E f0 (s\<lparr>ds_dhc := d\<rparr>) = det_ok E f0 s"
  "det_ok E f0 (s\<lparr>ds_fhc := h\<rparr>) = det_ok E f0 s" "det_ok E f0 (s\<lparr>ds_endpoints := e\<rparr>) = det_ok E f0 s"
  "det_ok E f0 (s\<lparr>ds_events := ev\<rparr>) = det_ok E f0 s" "det_ok E f0 (s\<lparr>ds_flows := k\<rparr>) = det_ok E f0 s"
  by (simp_all add: det_ok_def ct_free_def)

lemma det_ok_put: "det_ok E f0 s \<Longrightarrow> flow_ok E f0 f \<Longrightarrow> det_ok E f0 (s\<lparr>ds_flow := f\<rparr>)"
  by (simp add: det_ok_def ct_free_def)

lemma det_ok_flowD: "det_ok E f0 s \<Longrightarrow> flow_ok E f0 (ds_flow s)"
  by (simp add: det_ok_def)

lemma flow_ok_fields:
  assumes "flow_ok E f0 f"
  shows "flow_ok E f0 (f\<lparr>fl_lower_type := t, fl_upper_type := u\<rparr>)" "flow_ok E f0 (f\<lparr>fl_dns_host_name := n\<rparr>)"
    "flow_ok E f0 (f\<lparr>fl_host_server_name := n\<rparr>)" "flow_ok E f0 (f\<lparr>fl_digest_mdata := d\<rparr>)"
    "flow_ok E f0 (f\<lparr>fl_risks := rs, fl_risk_score := a, fl_risk_score_client := b, fl_risk_score_server := c\<rparr>)"
    "flow_ok E f0 (f\<lparr>fl_detected_protocol := p\<rparr>)"
    "flow_ok E f0 (upd_category (\<lambda>c. c\<lparr>fc_protocol := x\<rparr>) f)"
    "flow_ok E f0 (upd_category (\<lambda>c. c\<lparr>fc_domain := x\<rparr>) f)"
  using assms by (simp_all add: flow_ok_def conn_part_def app_ok_def progress_def)

lemma det_hint_ok:
  assumes "det_ok E f0 s"
  shows "det_ok E f0 (det_hint E s)"
proof (cases "ds_dhc s = None \<or> GetMasterProtocol (ds_flow s) = ND_PROTO_DNS")
  case False
  have 1: "flow_ok E f0 (upd_flags (\<lambda>g. g\<lparr>ff_dhc_hit := h\<rparr>) (ds_flow s))" for h
    by (rule flow_flags_ok [OF det_ok_flowD [OF assms]])
  note 2 = flow_ok_fields(2) [OF 1]
  show ?thesis using assms 1 2 False
    by (auto simp: det_hint_def Let_def case_prod_unfold det_ok_put)
qed (auto simp: det_hint_def assms split: option.split)

lemma take_ok:
  assumes "det_ok E f0 s"
  shows "det_ok E f0 (snd (take_server_cn s))" "det_ok E f0 (snd (take_issuer_dn E' s))" "det_ok E f0 (snd (take_subject_dn E' s))"
  using assms det_ok_flowD [OF assms]
  by (auto simp: take_server_cn_def take_issuer_dn_def take_subject_dn_def intro!: det_ok_put flow_ok_rules split: option.split)

lemma det_metadata_ok:
  assumes "det_ok E f0 s"
  shows "det_ok E f0 (det_metadata E s)"
proof -
  have u: "det_ok E f0 (upd_flow (union_put n bs) s)" if "det_ok E f0 s" for n bs s
    by (rule det_ok_put [OF that union_put_ok [OF det_ok_flowD [OF that]]])
  have a: "det_ok E f0 (upd_flow (\<lambda>f. SetDetectedApplication E (find_by_cn E f) f) s)" if "det_ok E f0 s" for s
    by (rule det_ok_put [OF that SetDetectedApplication_ok [OF det_ok_flowD [OF that]]])
  have t: "det_ok E f0 s'" if "take_server_cn s = (b, s')" "det_ok E f0 s" for s s' b
    using take_ok(1) [OF that(2)] that(1) by simp
  show ?thesis
    using assms u [OF u [OF assms]] u [OF assms] union_put_ok [OF union_put_ok [OF det_ok_flowD [OF assms]]]
    by (auto simp: det_metadata_def Let_def intro!: take_ok a u det_ok_put dest!: t split: option.split prod.split)
qed

lemma det_digest_ok:
  assumes "det_ok E f0 s"
  shows "det_ok E f0 (det_digest E s)"
proof -
  note f = det_ok_flowD [OF assms]
  show ?thesis
    using assms f flow_Hash_mdata_ok [OF f] flow_flags_ok(7) [OF flow_ok_fields(4) [OF f]]
    by (auto simp: det_digest_def Let_def intro!: det_ok_put split: option.split prod.split)
qed

lemma det_conntrack_ends:
  assumes "det_ok E f0 s"
  shows "ends (det_conntrack E s) (det_ok E f0)"
proof (cases "if de_iface_lan E then None else ds_conntrack s")
  case (Some c)
  then have c: "\<not> de_iface_lan E" "ds_conntrack s = Some c" by (auto split: if_splits)
  have l: "\<not> ct_locked c" using assms c by (simp add: det_ok_def ct_free_def)
  obtain r where r: "ct_UpdateFlow (de_sha1 E) (de_now E) (ds_flow s) c = Done r"
    using l by (cases "ct_UpdateFlow (de_sha1 E) (de_now E) (ds_flow s) c") (simp_all add: ct_UpdateFlow_def)
  then obtain f' c' where u: "ct_UpdateFlow (de_sha1 E) (de_now E) (ds_flow s) c = Done (f', c')" by (cases r) simp
  then have f': "f' = ds_flow s \<or> f' = upd_flags (\<lambda>g. g\<lparr>ff_ip_nat := True\<rparr>) (ds_flow s)" and c': "\<not> ct_locked c'"
    using l by (auto simp: ct_UpdateFlow_def Let_def split: option.splits if_splits)
  have "flow_ok E f0 f'" using f' flow_flags_ok(8) det_ok_flowD [OF assms] by auto
  then show ?thesis using assms c u c' by (simp add: det_conntrack_def det_ok_def ct_free_def)
qed (use assms in \<open>simp add: det_conntrack_def\<close>)

lemma ProcessFlow_ends:
  assumes "det_ok E f0 s"
  shows "ends (ProcessFlow E s) (\<lambda>s'. det_ok E f0 s' \<and> ff_detection_init (fl_flags (ds_flow s')))"
proof -
  have n: "fl_ndpi_flow (ds_flow s)" using assms by (simp add: det_ok_def flow_ok_def)
  let ?t = "upd_flow (\<lambda>f. f\<lparr>fl_lower_type := Classify (de_ntop E) (de_addr_types E) (fl_lower_addr f),
              fl_upper_type := Classify (de_ntop E) (de_addr_types E) (fl_upper_addr f)\<rparr>) s"
  have 1: "det_ok E f0 (det_hint E ?t)"
    by (intro det_hint_ok det_ok_put assms flow_ok_fields det_ok_flowD)
  define u where "u = det_hint E ?t"
  let ?h = "nd_set_hostname (nf_host_server_name (ds_ndpi u)) (min 80 (de_host_size E)) True"
  have u1: "det_ok E f0 (upd_flow (\<lambda>f. f\<lparr>fl_host_server_name := ?h\<rparr>) u)"
    using 1 unfolding u_def by (intro det_ok_put flow_ok_fields det_ok_flowD)
  define v where "v = upd_flow (\<lambda>f. f\<lparr>fl_host_server_name := ?h\<rparr>) u"
  have v: "det_ok E f0 (upd_flow (detect_application E) v)"
    by (rule det_ok_put [OF u1 [folded v_def] detect_application_ok [OF det_ok_flowD [OF u1 [folded v_def]]]])
  let ?s = "det_digest E (det_metadata E (upd_flow (detect_application E) v))"
  have 2: "det_ok E f0 (?s\<lparr>ds_endpoints := ds_endpoints ?s @ det_endpoints E (ds_flow ?s)\<rparr>)"
    using det_digest_ok [OF det_metadata_ok [OF v]] by simp
  have 3: "det_ok E f0 (upd_flow (\<lambda>f. upd_flags (\<lambda>g. g\<lparr>ff_detection_init := True\<rparr>)
      (det_privacy E (UpdateLowerMaps (det_categories E (ds_ndpi w) f)))) w)" if "det_ok E f0 w" for w
    using that by (intro det_ok_put flow_flags_ok det_privacy_ok UpdateLowerMaps_ok det_categories_ok det_ok_flowD)
  show ?thesis
    using n ends_mono [OF det_conntrack_ends [OF 2], of "\<lambda>w. det_ok E f0 (upd_flow (\<lambda>f. upd_flags (\<lambda>g. g\<lparr>ff_detection_init := True\<rparr>)
      (det_privacy E (UpdateLowerMaps (det_categories E (ds_ndpi w) f)))) w)"] 3
    by (simp add: ProcessFlow_def Let_def u_def v_def)
qed

lemma ProcessRisks_ends:
  assumes "det_ok E f0 s"
  shows "ends (ProcessRisks E s) (\<lambda>s'. det_ok E f0 s' \<and> ff_risks_checked (fl_flags (ds_flow s')))"
proof -
  note f = det_ok_flowD [OF assms]
  have n: "fl_ndpi_flow (ds_flow s)" using f by (simp add: flow_ok_def)
  have r: "flow_ok E f0 (upd_flags (\<lambda>g. g\<lparr>ff_risks_checked := True\<rparr>)
     ((ds_flow s)\<lparr>fl_risks := rs, fl_risk_score := a, fl_risk_score_client := b, fl_risk_score_server := c\<rparr>))" for rs a b c
    by (rule flow_flags_ok(5) [OF flow_ok_fields(5) [OF f]])
  show ?thesis using n assms f flow_flags_ok(5) [OF f] r
    by (auto simp: ProcessRisks_def Let_def intro!: det_ok_put split: prod.split)
qed

lemma SetGuessedProtocol_ends:
  assumes "det_ok E f0 s"
  shows "ends (SetGuessedProtocol E s) (det_ok E f0)"
proof -
  note f = det_ok_flowD [OF assms]
  have n: "fl_ndpi_flow (ds_flow s)" using f by (simp add: flow_ok_def)
  show ?thesis using n assms f flow_flags_ok(4) [OF f] flow_flags_ok(4) [OF flow_ok_fields(6) [OF f]]
    by (auto simp: SetGuessedProtocol_def Let_def intro!: det_ok_put split: prod.split option.split)
qed

lemma app_category_ok:
  "flow_ok E f0 f \<Longrightarrow> fl_detected_application f \<noteq> ND_APP_UNKNOWN \<Longrightarrow>
     flow_ok E f0 (upd_category (\<lambda>c. c\<lparr>fc_application := cat_Lookup (de_categories E) TYPE_APP (fl_detected_application f)\<rparr>) f)"
  by (simp add: flow_ok_def conn_part_def app_ok_def progress_def Let_def)

lemma known_categories_ok [flow_ok_rules]:
  assumes "flow_ok E f0 f"
  shows "flow_ok E f0 (known_categories E f)"
proof -
  have p: "flow_ok E f0 (if b then upd_category (\<lambda>c. c\<lparr>fc_protocol := x\<rparr>) g else g)" if "flow_ok E f0 g" for g b x
    using that flow_ok_fields(7) [OF that] by (cases b) simp_all
  have "flow_ok E f0 (if fc_application (fl_category f) = ND_CAT_UNKNOWN \<and> fl_detected_application f \<noteq> ND_APP_UNKNOWN
      then upd_category (\<lambda>c. c\<lparr>fc_application := cat_Lookup (de_categories E) TYPE_APP (fl_detected_application f)\<rparr>) f else f)"
    using assms app_category_ok [OF assms] by simp
  then show ?thesis unfolding known_categories_def Let_def by (rule p)
qed

lemma update_categories_ends:
  assumes "det_ok E f0 s"
  shows "ends (update_categories E s) (det_ok E f0)"
proof -
  note k = known_categories_ok [OF det_ok_flowD [OF assms]]
  show ?thesis
    using k det_ok_put [OF assms k] det_ok_put [OF assms flow_ok_fields(8) [OF k]]
    by (simp add: update_categories_def Let_def flow_ok_def)
qed

lemma set_complete_ok:
  assumes "det_ok E f0 s"
  shows "det_ok E f0 (upd_flow (upd_flags (\<lambda>g. g\<lparr>ff_detection_complete := True\<rparr>)) s)"
  by (rule det_ok_put [OF assms flow_flags_ok(3) [OF det_ok_flowD [OF assms]]])

lemma det_ok_complete: "det_ok E f0 s \<Longrightarrow> ff_detection_complete (fl_flags f0) \<Longrightarrow> is_complete s"
  by (simp add: det_ok_def flow_ok_def progress_def)

lemma conn_refl: "flow_ok E f0 f \<Longrightarrow> flow_ok E f f"
  by (simp add: flow_ok_def progress_def)

lemma flow_ok_trans: "flow_ok E f0 f \<Longrightarrow> flow_ok E f g \<Longrightarrow> flow_ok E f0 g"
  by (auto simp: flow_ok_def progress_def)

lemma det_ok_refl: "det_ok E f0 s \<Longrightarrow> det_ok E (ds_flow s) s"
  unfolding det_ok_def using conn_refl by blast

lemma det_ok_trans: "det_ok E f0 s \<Longrightarrow> det_ok E (ds_flow s) s' \<Longrightarrow> det_ok E f0 s'"
  unfolding det_ok_def using flow_ok_trans by blast

lemma report_ends:
  fixes E :: "'rx det_env"
  shows FlowUpdate_ends: "det_ok E f0 s \<Longrightarrow> ends (FlowUpdate E s) (det_ok E f0)"
    and SetDetectionComplete_ends: "det_ok E f0 t \<Longrightarrow> ends (SetDetectionComplete E t) (\<lambda>s'. det_ok E f0 s' \<and> is_complete s')"
proof (induction E s and E t arbitrary: f0 and f0 rule: FlowUpdate_SetDetectionComplete.induct)
  case (1 E s)
  obtain u where u: "update_categories E s = CDone u" "det_ok E f0 u"
    using update_categories_ends [OF 1(2)] unfolding ends_def by blast
  obtain m f where f: "soft_dissect E (ds_flow u) = (m, f)" by force
  have "flow_ok E f0 f" using soft_dissect_ok [OF det_ok_flowD [OF u(2)]] f by simp
  then have s: "det_ok E f0 (u\<lparr>ds_flow := f\<rparr>)" by (rule det_ok_put [OF u(2)])
  have "ends (if m then SetDetectionComplete E (u\<lparr>ds_flow := f\<rparr>) else CDone u) (det_ok E f0)"
  proof (cases m)
    case True
    show ?thesis using ends_mono [OF 1(1) [OF u(1) f [symmetric] True s]] True by simp
  qed (simp add: u(2))
  then show ?case unfolding FlowUpdate.simps [of E s] by (simp add: u(1) f)
next
  case (2 E s)
  show ?case
  proof (cases "is_complete s")
    case False
    let ?t = "upd_flow (upd_flags (\<lambda>g. g\<lparr>ff_detection_complete := True\<rparr>)) s"
    let ?m = "if ff_risks_checked (fl_flags (ds_flow ?t)) then CDone ?t else ProcessRisks E ?t"
    have t: "det_ok E f0 ?t" by (rule set_complete_ok [OF 2(2)])
    have "ends ?m (\<lambda>v. det_ok E (ds_flow ?t) v)"
      using det_ok_refl [OF t] ends_mono [OF ProcessRisks_ends [OF det_ok_refl [OF t]]] by simp
    then obtain v where v: "?m = CDone v" "det_ok E (ds_flow ?t) v" unfolding ends_def by blast
    have w: "det_ok E f0 v" by (rule det_ok_trans [OF t v(2)])
    have "is_complete v" using det_ok_complete [OF v(2)] by simp
    have "ends (FlowUpdate E v) (\<lambda>s'. det_ok E (ds_flow v) s')"
      using 2(1) [OF False] v(1) det_ok_refl [OF w] by (simp add: Let_def)
    then have "ends (FlowUpdate E v) (\<lambda>s'. det_ok E f0 s' \<and> is_complete s')"
      by (rule ends_mono) (use det_ok_trans [OF w] det_ok_complete \<open>is_complete v\<close> in blast)
    then show ?thesis unfolding SetDetectionComplete.simps [of E s] using False v(1) by (simp add: Let_def)
  qed (use 2(2) in \<open>simp add: SetDetectionComplete.simps [of E s]\<close>)
qed

lemma mark_updated_ok: "det_ok E f0 (snd r) \<Longrightarrow> det_ok E f0 (snd (mark_updated r))"
  using flow_flags_ok(1) [of E f0 "ds_flow (snd r)" True]
  by (auto simp: det_ok_flowD intro: det_ok_put split: prod.split)

lemma tls_parts_ok:
  assumes "det_ok E f0 s"
  shows "det_ok E f0 (snd (tls_cipher s))" "det_ok E f0 (snd (tls_server_cn E s))"
    "det_ok E f0 (snd (tls_ja3 s))" "det_ok E f0 (snd (tls_fingerprint s))"
proof -
  note f = det_ok_flowD [OF assms]
  show "det_ok E f0 (snd (tls_cipher s))" "det_ok E f0 (snd (tls_ja3 s))" "det_ok E f0 (snd (tls_fingerprint s))"
    using assms det_ok_put [OF assms union_put_ok [OF f]] det_ok_put [OF assms union_put_ok [OF union_put_ok [OF f]]]
    by (simp_all add: tls_cipher_def tls_ja3_def tls_fingerprint_def split: option.split)
  note t = take_ok(1) [OF assms]
  show "det_ok E f0 (snd (tls_server_cn E s))"
    using t det_ok_put [OF t SetDetectedApplication_ok [OF det_ok_flowD [OF t]]]
    by (simp add: tls_server_cn_def case_prod_unfold)
qed

lemma ProcessALPN_state_ok:
  assumes "det_ok E f0 s"
  shows "det_ok E f0 ((upd_flow (\<lambda>f. snd (ProcessALPN client a f)) s)\<lparr>ds_ndpi := n\<rparr>)"
  using det_ok_put [OF assms ProcessALPN_ok [OF det_ok_flowD [OF assms]]] by simp

lemma tls_update_ok:
  assumes "det_ok E f0 s"
  shows "det_ok E f0 (snd (tls_update E s))"
proof -
  note m1 = mark_updated_ok [OF tls_parts_ok(1) [OF assms]]
  obtain u1 s1 where s1: "mark_updated (tls_cipher s) = (u1, s1)" by force
  have 1: "det_ok E f0 s1" using m1 s1 by simp
  obtain u2 s2 where s2: "mark_updated (tls_server_cn E s1) = (u2, s2)" by force
  have 2: "det_ok E f0 s2" using mark_updated_ok [OF tls_parts_ok(2) [OF 1]] s2 by simp
  obtain u3 s3 where s3: "mark_updated (take_issuer_dn E s2) = (u3, s3)" by force
  have 3: "det_ok E f0 s3" using mark_updated_ok [OF take_ok(2) [OF 2, of E]] s3 by simp
  obtain u4 s4 where s4: "mark_updated (take_subject_dn E s3) = (u4, s4)" by force
  have 4: "det_ok E f0 s4" using mark_updated_ok [OF take_ok(3) [OF 3, of E]] s4 by simp
  obtain u5 s5 where s5: "mark_updated (tls_ja3 s4) = (u5, s5)" by force
  have 5: "det_ok E f0 s5" using mark_updated_ok [OF tls_parts_ok(3) [OF 4]] s5 by simp
  obtain u6 s6 where s6: "mark_updated (tls_fingerprint s5) = (u6, s6)" by force
  have 6: "det_ok E f0 s6" using mark_updated_ok [OF tls_parts_ok(4) [OF 5]] s6 by simp
  let ?s7 = "case nf_advertised_alpns (ds_ndpi s6) of None \<Rightarrow> s6
      | Some a \<Rightarrow> (upd_flow (\<lambda>f. snd (ProcessALPN True (Allocated a) f)) s6)\<lparr>ds_ndpi := (ds_ndpi s6)\<lparr>nf_advertised_alpns := None\<rparr>\<rparr>"
  have 7: "det_ok E f0 ?s7" using 6 ProcessALPN_state_ok [OF 6] by (cases "nf_advertised_alpns (ds_ndpi s6)") simp_all
  show ?thesis
    unfolding tls_update_def s1 s2 s3 s4 s5 s6 Let_def prod.case
    using 7 ProcessALPN_state_ok [OF 7] by (simp split: option.splits)
qed

lemma extra_update_ok:
  assumes "det_ok E f0 s"
  shows "det_ok E f0 (snd (extra_update E s))"
proof -
  let ?s = "upd_flow (upd_flags (\<lambda>g. g\<lparr>ff_detection_updated := False\<rparr>)) s"
  have s: "det_ok E f0 ?s" by (rule det_ok_put [OF assms flow_flags_ok(1) [OF det_ok_flowD [OF assms]]])
  have m: "det_ok E f0 (snd (mark_updated (b, ?s)))" for b using mark_updated_ok [of E f0 "(b, ?s)"] s by simp
  have u: "det_ok E f0 (snd (mark_updated (True, upd_flow (union_put n bs) ?s)))" for n bs
    using mark_updated_ok [of E f0 "(True, upd_flow (union_put n bs) ?s)"] det_ok_put [OF s union_put_ok [OF det_ok_flowD [OF s]]] by simp
  show ?thesis
    unfolding extra_update_def Let_def
    using s tls_update_ok [OF s] m [of True] m [of False] u
    by (auto split: if_split)
qed

definition det_ready :: "'rx det_env \<Rightarrow> det_state \<Rightarrow> bool" where
  "det_ready E s \<longleftrightarrow> app_ok E (ds_flow s) \<and> ct_free s"

lemma det_ok_ready: "det_ok E f0 s \<Longrightarrow> det_ready E s"
  by (simp add: det_ready_def det_ok_def flow_ok_def)

lemma det_prepare_ok: "det_ready E s \<Longrightarrow> det_ok E (ds_flow s) (det_prepare s)"
  by (simp add: det_ready_def det_ok_def flow_ok_def det_prepare_def conn_part_def app_ok_def progress_def ct_free_def)

lemma ProcessPacket_ends:
  assumes "det_ready E s"
  shows "ends (det_ProcessPacket E data s) (det_ok E (ds_flow s))"
proof -
  let ?f0 = "ds_flow s"
  let ?s = "det_library E data (det_prepare s)"
  have l: "det_ok E ?f0 ?s"
    using det_prepare_ok [OF assms] det_protocol_ok [OF det_ok_flowD [OF det_prepare_ok [OF assms]]]
    by (auto simp: det_library_def intro!: det_ok_put split: prod.split)
  let ?init = "ff_detection_init (fl_flags (ds_flow ?s))"
  let ?m = "if \<not> ?init \<and> fl_detected_protocol (ds_flow ?s) \<noteq> ND_PROTO_UNKNOWN
        then cbind (ProcessFlow E ?s) (\<lambda>s. CDone (True, s)) else if ?init then CDone (extra_update E ?s) else CDone (False, ?s)"
  have m: "ends ?m (\<lambda>r. det_ok E ?f0 (snd r))"
    using l extra_update_ok [OF l] ends_mono [OF ProcessFlow_ends [OF l]] by simp
  have n: "ends (cbind (if report then FlowUpdate E t else CDone t) (\<lambda>s.
      if ff_detection_init (fl_flags (ds_flow s)) \<and> \<not> extra then SetDetectionComplete E s else CDone s)) (det_ok E ?f0)"
    if "det_ok E ?f0 t" for t report extra
  proof -
    have "ends (if report then FlowUpdate E t else CDone t) (det_ok E ?f0)"
      using that FlowUpdate_ends [OF that] by simp
    then obtain u where u: "(if report then FlowUpdate E t else CDone t) = CDone u" "det_ok E ?f0 u"
      unfolding ends_def by blast
    show ?thesis unfolding u(1) using u(2) ends_mono [OF SetDetectionComplete_ends [OF u(2)]] by simp
  qed
  obtain r where r: "?m = CDone r" "det_ok E ?f0 (snd r)" using m unfolding ends_def by blast
  show ?thesis
    unfolding det_ProcessPacket_def Let_def r(1) cbind.simps case_prod_unfold
    by (rule n [OF r(2)])
qed

text \<open>What an entry of the queue does to the connection, in one go.\<close>

definition bump_packets :: "nd_flow \<Rightarrow> nd_flow" where
  "bump_packets f = f\<lparr>fl_stats := (fl_stats f)\<lparr>fs_detection_packets := fs_detection_packets (fl_stats f) + 1\<rparr>\<rparr>"

definition flow_packets :: "nd_flow \<Rightarrow> nat" where
  "flow_packets f = unat (fs_detection_packets (fl_stats f))"

definition entry_counted :: "'rx det_env \<Rightarrow> nd_flow \<Rightarrow> bool" where
  "entry_counted E f \<longleftrightarrow> flow_packets f = 0
     \<or> \<not> ff_detection_complete (fl_flags f) \<and> \<not> ff_expiring (fl_flags f) \<and> flow_packets f < de_max_detection_pkts E"

definition entry_count :: "'rx det_env \<Rightarrow> nd_flow \<Rightarrow> nd_flow" where
  "entry_count E f = (if entry_counted E f then bump_packets f else f)"

definition entry_last :: "'rx det_env \<Rightarrow> nd_flow \<Rightarrow> bool" where
  "entry_last E f \<longleftrightarrow> flow_packets f = de_max_detection_pkts E \<or> ff_expiring (fl_flags f) \<and> \<not> ff_expired (fl_flags f)"

definition entry_expire :: "'rx det_env \<Rightarrow> nd_flow \<Rightarrow> nd_flow" where
  "entry_expire E f = (if entry_last E f \<and> ff_expiring (fl_flags f)
     then upd_flags (\<lambda>g. g\<lparr>ff_expired := True, ff_expiring := False\<rparr>) f else f)"

definition after_entry :: "'rx det_env \<Rightarrow> nd_flow \<Rightarrow> nd_flow" where
  "after_entry E f = entry_expire E (entry_count E f)"

lemma conn_flags: "conn_part f = conn_part g \<Longrightarrow>
    flow_packets f = flow_packets g \<and> ff_expiring (fl_flags f) = ff_expiring (fl_flags g) \<and> ff_expired (fl_flags f) = ff_expired (fl_flags g)"
  by (simp add: conn_part_def flow_packets_def)

lemma conn_entry_last:
  assumes "conn_part f = conn_part g"
  shows "entry_last E f = entry_last E g"
  using conn_flags [OF assms] by (simp add: entry_last_def)

lemma conn_entry_expire:
  assumes "conn_part f = conn_part g"
  shows "conn_part (entry_expire E f) = conn_part (entry_expire E g)"
proof -
  have b: "(entry_last E f \<and> ff_expiring (fl_flags f)) = (entry_last E g \<and> ff_expiring (fl_flags g))"
    using conn_flags [OF assms] conn_entry_last [OF assms, of E] by simp
  have u: "conn_part (upd_flags (\<lambda>g. g\<lparr>ff_expired := True, ff_expiring := False\<rparr>) f)
      = conn_part (upd_flags (\<lambda>g. g\<lparr>ff_expired := True, ff_expiring := False\<rparr>) g)"
    using assms by (simp add: conn_part_def)
  show ?thesis unfolding entry_expire_def b using u assms by simp
qed

text \<open>Beside the connection: what detection keeps, and when a flow is complete.\<close>

definition entry_done :: "'rx det_env \<Rightarrow> nd_flow \<Rightarrow> det_state \<Rightarrow> bool" where
  "entry_done E f s \<longleftrightarrow> conn_part (ds_flow s) = conn_part (after_entry E f) \<and> det_ready E s \<and> progress f (ds_flow s)
     \<and> (entry_last E (entry_count E f) \<longrightarrow> is_complete s)
     \<and> (is_complete s \<longrightarrow> \<not> fl_ndpi_flow (ds_flow s))"

lemma bump_progress: "progress (bump_packets f) g = progress f g"
  by (simp add: progress_def bump_packets_def)

lemma entry_count_progress: "progress (entry_count E f) g = progress f g"
  by (simp add: entry_count_def bump_progress)

text \<open>The last step: the structure of the library goes when the flow is complete.\<close>

lemma release_done:
  assumes "conn_part (ds_flow s) = conn_part (after_entry E f)" "det_ready E s" "progress f (ds_flow s)"
    "entry_last E (entry_count E f) \<longrightarrow> is_complete s"
  shows "entry_done E f (if is_complete s then upd_flow flow_Release s else s)"
proof (cases "is_complete s")
  case True
  have "conn_part (flow_Release (ds_flow s)) = conn_part (ds_flow s)" "app_ok E (flow_Release (ds_flow s)) = app_ok E (ds_flow s)"
    "fl_flags (flow_Release (ds_flow s)) = fl_flags (ds_flow s)" "\<not> fl_ndpi_flow (flow_Release (ds_flow s))"
    by (simp_all add: flow_Release_def conn_part_def app_ok_def)
  then show ?thesis using assms True by (simp add: entry_done_def det_ready_def ct_free_def progress_def)
qed (use assms in \<open>simp add: entry_done_def\<close>)

lemma finish_entry_ends:
  assumes r: "det_ready E s" and n: "fl_ndpi_flow (ds_flow s) \<or> packet \<noteq> None" and l: "entry_last E (ds_flow s)"
  shows "ends (finish_entry E packet s) (\<lambda>s'. conn_part (ds_flow s') = conn_part (entry_expire E (ds_flow s))
    \<and> det_ready E s' \<and> progress (ds_flow s) (ds_flow s') \<and> is_complete s')"
proof -
  let ?f0 = "ds_flow s"
  have 0: "det_ok E ?f0 s" if "fl_ndpi_flow ?f0"
    using r that by (simp add: det_ok_def flow_ok_def det_ready_def progress_def)
  have "ends (if packet = None then CDone s else det_ProcessPacket E (case packet of None \<Rightarrow> [] | Some d \<Rightarrow> d) s) (det_ok E ?f0)"
    using 0 n ProcessPacket_ends [OF r] by (cases packet) simp_all
  then obtain s1 where s1: "(if packet = None then CDone s else det_ProcessPacket E (case packet of None \<Rightarrow> [] | Some d \<Rightarrow> d) s) = CDone s1"
    "det_ok E ?f0 s1" unfolding ends_def by blast
  obtain s2 where s2: "ProcessFlow E s1 = CDone s2" "det_ok E ?f0 s2"
    using ProcessFlow_ends [OF s1(2)] unfolding ends_def by blast
  obtain s3 where s3: "(if fl_detected_protocol (ds_flow s2) = ND_PROTO_UNKNOWN then SetGuessedProtocol E s2 else CDone s2) = CDone s3"
    "det_ok E ?f0 s3" using SetGuessedProtocol_ends [OF s2(2)] s2(2) unfolding ends_def by (metis (full_types))
  obtain s4 where s4: "SetDetectionComplete E s3 = CDone s4" "det_ok E ?f0 s4" "is_complete s4"
    using SetDetectionComplete_ends [OF s3(2)] unfolding ends_def by blast
  let ?s5 = "if ff_expiring (fl_flags (ds_flow s4)) then upd_flow (upd_flags (\<lambda>g. g\<lparr>ff_expired := True, ff_expiring := False\<rparr>)) s4 else s4"
  have c: "conn_part (ds_flow s4) = conn_part ?f0" using s4(2) by (simp add: det_ok_def flow_ok_def)
  then have l4: "entry_last E (ds_flow s4)" using l conn_entry_last by blast
  have "ds_flow ?s5 = entry_expire E (ds_flow s4)" using l4 by (simp add: entry_expire_def)
  then have "conn_part (ds_flow ?s5) = conn_part (entry_expire E ?f0)" using conn_entry_expire [OF c] by simp
  moreover have "det_ready E ?s5" "progress ?f0 (ds_flow ?s5)" "is_complete ?s5"
    using s4(2,3) by (simp_all add: det_ready_def det_ok_def flow_ok_def app_ok_def progress_def ct_free_def)
  ultimately show ?thesis unfolding finish_entry_def by (simp add: s1(1) s2(1) s3(1) s4(1))
qed

lemma entry_count_conn:
  "conn_part (entry_count E f) = conn_part g \<Longrightarrow> conn_part (after_entry E f) = conn_part (entry_expire E g)"
  unfolding after_entry_def by (rule conn_entry_expire)

lemma process_entry_done:
  assumes r: "det_ready E s"
    and n: "entry_last E (entry_count E (ds_flow s)) \<longrightarrow> fl_ndpi_flow (ds_flow s) \<or> packet \<noteq> None \<or> entry_counted E (ds_flow s)"
  shows "ends (process_entry E packet s) (entry_done E (ds_flow s))"
proof -
  let ?f = "ds_flow s"
  let ?d = "case packet of None \<Rightarrow> [] | Some d \<Rightarrow> d"
  let ?b = "upd_flow bump_packets s"
  have b: "det_ready E ?b" using r by (simp add: det_ready_def app_ok_def ct_free_def bump_packets_def)
  let ?m = "if entry_counted E ?f then det_ProcessPacket E ?d ?b else CDone s"
  have "ends ?m (\<lambda>t. conn_part (ds_flow t) = conn_part (entry_count E ?f) \<and> det_ready E t \<and> progress ?f (ds_flow t)
      \<and> (entry_counted E ?f \<or> fl_ndpi_flow ?f \<longrightarrow> fl_ndpi_flow (ds_flow t)))"
  proof (cases "entry_counted E ?f")
    case True
    have "ends (det_ProcessPacket E ?d ?b) (\<lambda>t. conn_part (ds_flow t) = conn_part (entry_count E ?f) \<and> det_ready E t
        \<and> progress ?f (ds_flow t) \<and> fl_ndpi_flow (ds_flow t))"
      by (rule ends_mono [OF ProcessPacket_ends [OF b]])
        (use True in \<open>simp add: det_ok_def flow_ok_def det_ready_def entry_count_def bump_progress\<close>)
    then show ?thesis using True by (simp add: ends_mono)
  qed (use r in \<open>simp add: entry_count_def progress_def\<close>)
  then obtain t where t: "?m = CDone t" and tc: "conn_part (ds_flow t) = conn_part (entry_count E ?f)"
    and tr: "det_ready E t" and tp: "progress ?f (ds_flow t)"
    and tn: "entry_counted E ?f \<or> fl_ndpi_flow ?f \<longrightarrow> fl_ndpi_flow (ds_flow t)"
    unfolding ends_def by blast
  have last: "entry_last E (ds_flow t) = entry_last E (entry_count E ?f)" by (rule conn_entry_last [OF tc])
  have exp: "conn_part (after_entry E ?f) = conn_part (entry_expire E (ds_flow t))"
    by (rule entry_count_conn [OF tc [symmetric]])
  let ?m2 = "if entry_last E (ds_flow t) then finish_entry E packet t else CDone t"
  have "ends ?m2 (\<lambda>u. conn_part (ds_flow u) = conn_part (after_entry E ?f) \<and> det_ready E u \<and> progress ?f (ds_flow u)
      \<and> (entry_last E (entry_count E ?f) \<longrightarrow> is_complete u))"
  proof (cases "entry_last E (ds_flow t)")
    case True
    have nt: "fl_ndpi_flow (ds_flow t) \<or> packet \<noteq> None" using n tn True last by blast
    have "ends (finish_entry E packet t) (\<lambda>u. conn_part (ds_flow u) = conn_part (after_entry E ?f) \<and> det_ready E u
        \<and> progress ?f (ds_flow u) \<and> is_complete u)"
      by (rule ends_mono [OF finish_entry_ends [OF tr nt True]]) (use exp tp in \<open>simp add: progress_def\<close>)
    then show ?thesis using True by (simp add: ends_mono)
  next
    case False
    have "conn_part (entry_expire E (ds_flow t)) = conn_part (ds_flow t)" using False by (simp add: entry_expire_def)
    then show ?thesis using False last exp tr tp by simp
  qed
  then obtain u where u: "?m2 = CDone u" "conn_part (ds_flow u) = conn_part (after_entry E ?f)" "det_ready E u"
    "progress ?f (ds_flow u)" "entry_last E (entry_count E ?f) \<longrightarrow> is_complete u"
    unfolding ends_def by blast
  have "process_entry E packet s = cbind ?m (\<lambda>t. cbind (if entry_last E (ds_flow t) then finish_entry E packet t else CDone t)
      (\<lambda>u. CDone (if is_complete u then upd_flow flow_Release u else u)))"
    by (simp only: process_entry_def Let_def entry_counted_def entry_last_def flow_packets_def bump_packets_def)
  then show ?thesis using release_done [OF u(2-5)] by (simp add: t u(1))
qed

section \<open>Properties\<close>

lemma flow_packets_bump:
  "flow_packets (bump_packets f) = (if flow_packets f = 255 then 0 else flow_packets f + 1)"
proof -
  have "flow_packets (bump_packets f) = (flow_packets f + 1) mod 256"
    by (simp add: flow_packets_def bump_packets_def unat_word_ariths)
  moreover have "flow_packets f < 256" 
    unfolding flow_packets_def using unsigned_less [of "fs_detection_packets (fl_stats f)", where 'a = nat] by simp
  ultimately show ?thesis by auto
qed

lemma flow_packets_conn: "conn_part f = conn_part g \<Longrightarrow> flow_packets f = flow_packets g"
  using conn_flags [of f g] by blast

lemma flow_packets_after: "flow_packets (after_entry E f) = flow_packets (entry_count E f)"
  by (simp add: after_entry_def entry_expire_def flow_packets_def)

text \<open>
  C7. The entry that ends an idle flow, or a packet that comes after the flow began to expire,
  runs to its end and leaves the flow complete, expired and without the structure of the
  library, whatever the library and the tables say, so that the flow can be purged. The
  structure is there, or the entry makes it.
\<close>

theorem expiring_flow_ends:
  assumes "app_ok E (ds_flow s)" "ct_free s"
    and "ff_expiring (fl_flags (ds_flow s))" "\<not> ff_expired (fl_flags (ds_flow s))"
    and "fl_ndpi_flow (ds_flow s) \<or> packet \<noteq> None \<or> flow_packets (ds_flow s) = 0"
  shows "\<exists>s'. process_entry E packet s = CDone s' \<and> ff_detection_complete (fl_flags (ds_flow s'))
    \<and> ff_expired (fl_flags (ds_flow s')) \<and> \<not> ff_expiring (fl_flags (ds_flow s')) \<and> \<not> fl_ndpi_flow (ds_flow s')"
proof -
  have r: "det_ready E s" using assms(1,2) by (simp add: det_ready_def)
  have n: "fl_ndpi_flow (ds_flow s) \<or> packet \<noteq> None \<or> entry_counted E (ds_flow s)" using assms(5) by (auto simp: entry_counted_def)
  have l: "entry_last E (entry_count E (ds_flow s))" "ff_expiring (fl_flags (entry_count E (ds_flow s)))"
    using assms(3,4) by (simp_all add: entry_last_def entry_count_def bump_packets_def)
  obtain s' where s': "process_entry E packet s = CDone s'" "entry_done E (ds_flow s) s'"
    using process_entry_done [OF r] n unfolding ends_def by blast
  have "ff_expired (fl_flags (after_entry E (ds_flow s)))" "\<not> ff_expiring (fl_flags (after_entry E (ds_flow s)))"
    using l by (simp_all add: after_entry_def entry_expire_def)
  then show ?thesis using s' l(1) conn_flags [of "ds_flow s'" "after_entry E (ds_flow s)"] by (auto simp: entry_done_def)
qed



text \<open>The applications that an unknown one may become, in the order in which they are tried.\<close>

definition app_candidates :: "'rx det_env \<Rightarrow> nd_flow \<Rightarrow> nat list" where
  "app_candidates E f =
     (let name = (\<lambda>n. if n = [] then ND_APP_UNKNOWN else apps_Find (de_regex E) (de_apps E) n);
          addr = apps_Find_addr (de_apps E)
      in [case map_of app_twins (fl_detected_protocol f) of None \<Rightarrow> ND_APP_UNKNOWN | Some tag \<Rightarrow> apps_Lookup_id_of (de_apps E) tag,
          name (fl_host_server_name f), name (fl_dns_host_name f)]
         @ (if GetMasterProtocol f = ND_PROTO_DNS then []
            else if fl_lower_type f = atOTHER then [addr (fl_lower_addr f), addr (fl_upper_addr f)]
            else [addr (fl_upper_addr f), addr (fl_lower_addr f)]))"

fun first_known :: "nat list \<Rightarrow> nat" where
  "first_known [] = ND_APP_UNKNOWN"
| "first_known (a # as) = (if a \<noteq> ND_APP_UNKNOWN then a else first_known as)"

lemma set_app_simps [simp]:
  "fl_detected_application (SetDetectedApplication E a f) = (if a = ND_APP_UNKNOWN then fl_detected_application f else a)"
  "fl_host_server_name (SetDetectedApplication E a f) = fl_host_server_name f"
  "fl_dns_host_name (SetDetectedApplication E a f) = fl_dns_host_name f"
  "fl_detected_protocol (SetDetectedApplication E a f) = fl_detected_protocol f"
  "fl_lower_type (SetDetectedApplication E a f) = fl_lower_type f"
  "fl_lower_addr (SetDetectedApplication E a f) = fl_lower_addr f"
  "fl_upper_addr (SetDetectedApplication E a f) = fl_upper_addr f"
  by (simp_all add: SetDetectedApplication_def Let_def)

lemma GetMaster_app [simp]: "GetMasterProtocol (SetDetectedApplication E a f) = GetMasterProtocol f"
  by (simp add: GetMasterProtocol_def)

lemma detect_by_simps [simp]:
  "fl_detected_application (detect_by_name E n f) = (if fl_detected_application f = ND_APP_UNKNOWN
     then (if n = [] then ND_APP_UNKNOWN else apps_Find (de_regex E) (de_apps E) n) else fl_detected_application f)"
  "fl_detected_application (detect_by_address E a f) = (if fl_detected_application f = ND_APP_UNKNOWN
     then apps_Find_addr (de_apps E) a else fl_detected_application f)"
  "fl_dns_host_name (detect_by_name E n f) = fl_dns_host_name f"
  "fl_lower_type (detect_by_name E n f) = fl_lower_type f"
  "fl_lower_addr (detect_by_name E n f) = fl_lower_addr f" "fl_upper_addr (detect_by_name E n f) = fl_upper_addr f"
  "fl_lower_addr (detect_by_address E a f) = fl_lower_addr f" "fl_upper_addr (detect_by_address E a f) = fl_upper_addr f"
  "GetMasterProtocol (detect_by_name E n f) = GetMasterProtocol f"
  by (auto simp: detect_by_name_def detect_by_address_def)

text \<open>
  C9. The application of a flow whose application is still unknown is the first known one
  among: the twin of its protocol, the one of its server name, the one of its DNS name, and,
  unless it is a DNS flow, those of its addresses, the remote side first.
\<close>

theorem application_precedence:
  assumes "fl_detected_application f = ND_APP_UNKNOWN"
  shows "fl_detected_application (detect_application E f) = first_known (app_candidates E f)"
proof -
  define g where "g = (case map_of app_twins (fl_detected_protocol f) of None \<Rightarrow> f
    | Some tag \<Rightarrow> SetDetectedApplication E (apps_Lookup_id_of (de_apps E) tag) f)"
  have g: "fl_detected_application g = (case map_of app_twins (fl_detected_protocol f) of None \<Rightarrow> ND_APP_UNKNOWN
      | Some tag \<Rightarrow> apps_Lookup_id_of (de_apps E) tag)"
    "fl_host_server_name g = fl_host_server_name f" "fl_dns_host_name g = fl_dns_host_name f" "GetMasterProtocol g = GetMasterProtocol f"
    "fl_lower_type g = fl_lower_type f" "fl_lower_addr g = fl_lower_addr f" "fl_upper_addr g = fl_upper_addr f"
    using assms unfolding g_def by (cases "map_of app_twins (fl_detected_protocol f)"; simp)+
  show ?thesis
    unfolding detect_application_def Let_def g_def [symmetric]
    by (simp add: app_candidates_def Let_def g)
qed

section \<open>Instances\<close>

definition sample_det_env :: "unit det_env" where
  "sample_det_env = \<lparr>de_ndpi = sample_ndpi, de_process = (\<lambda>n _ _. ((sample_ndpi ''UNKNOWN'', sample_ndpi ''UNKNOWN''), n)),
     de_giveup = (\<lambda>n. (None, n)), de_risk2score = (\<lambda>_. (0, 0, 0)), de_max_risk = 55, de_sha1 = (\<lambda>m. m),
     de_pton = (\<lambda>_ _. None), de_ntop = hex_ntop, de_strdup = (\<lambda>_. 1), de_regex = (\<lambda>_ d _. d),
     de_parse = (\<lambda>_ _. Some False), de_apps = ndApplications_new, de_categories = ndCategories_new,
     de_addr_types = addr_types_empty, de_tag = ''dpi0'', de_host_size = 80, de_ndpi_size = 8, de_behind = [],
     de_now = 0, de_dhc_ttl = 0, de_fhc_divisor = 10, de_soft_dissectors = False, de_max_detection_pkts = 32,
     de_iface_lan = False, de_privacy_mac = [], de_privacy_host = []\<rparr>"

definition sample_det :: "nd_flow \<Rightarrow> det_state" where
  "sample_det f = \<lparr>ds_flow = f, ds_ndpi = ndpi_flow_zero, ds_dhc = None, ds_fhc = None, ds_conntrack = None,
     ds_endpoints = [], ds_events = [], ds_flows = 0\<rparr>"

lemma sample_det_ready:
  "app_ok sample_det_env (ds_flow (sample_det sample_flow))" "ct_free (sample_det f)"
  "app_ok sample_det_env (ds_flow (sample_det (upd_flags (\<lambda>g. g\<lparr>ff_expiring := True\<rparr>) sample_flow)))"
  by (simp_all add: app_ok_def sample_det_def sample_det_env_def sample_flow_def nd_flow_new_def ct_free_def ND_APP_UNKNOWN_def ND_CAT_UNKNOWN_def)

theorem expiring_flow_ends_witness:
  "\<exists>s'. process_entry sample_det_env None (sample_det (upd_flags (\<lambda>g. g\<lparr>ff_expiring := True\<rparr>) sample_flow)) = CDone s'
    \<and> ff_detection_complete (fl_flags (ds_flow s')) \<and> ff_expired (fl_flags (ds_flow s'))
    \<and> \<not> ff_expiring (fl_flags (ds_flow s')) \<and> \<not> fl_ndpi_flow (ds_flow s')"
  by (rule expiring_flow_ends [OF sample_det_ready(3,2)])
    (simp_all add: sample_det_def sample_flow_def nd_flow_new_def flow_flags_new_def flow_packets_def flow_stats_new_def)



theorem application_precedence_witness:
  "fl_detected_application (detect_application sample_det_env sample_flow) = first_known (app_candidates sample_det_env sample_flow)"
  by (rule application_precedence) (simp add: sample_flow_def nd_flow_new_def ND_APP_UNKNOWN_def)

section \<open>Departures\<close>

text \<open>The table of negotiated protocols is never hit: its keys are other pointers than the text of a packet.\<close>

lemma alpn_never_found: "map_of nd_alpn_protos (Allocated a) = None"
  by (auto simp: nd_alpn_protos_def map_of_eq_None_iff)

lemma alpn_never_refines: "fl_detected_protocol (snd (ProcessALPN client (Allocated a) f)) = fl_detected_protocol f"
  by (simp add: ProcessALPN_def Let_def alpn_never_found)

text \<open>So a negotiated protocol only takes the report of the packet away, whatever else it brought.\<close>

lemma negotiated_kept [simp]:
  "nf_negotiated_alpn (ds_ndpi (snd (mark_updated r))) = nf_negotiated_alpn (ds_ndpi (snd r))"
  "nf_negotiated_alpn (ds_ndpi (snd (tls_cipher s))) = nf_negotiated_alpn (ds_ndpi s)"
  "nf_negotiated_alpn (ds_ndpi (snd (tls_server_cn E s))) = nf_negotiated_alpn (ds_ndpi s)"
  "nf_negotiated_alpn (ds_ndpi (snd (take_issuer_dn E s))) = nf_negotiated_alpn (ds_ndpi s)"
  "nf_negotiated_alpn (ds_ndpi (snd (take_subject_dn E s))) = nf_negotiated_alpn (ds_ndpi s)"
  "nf_negotiated_alpn (ds_ndpi (snd (tls_ja3 s))) = nf_negotiated_alpn (ds_ndpi s)"
  "nf_negotiated_alpn (ds_ndpi (snd (tls_fingerprint s))) = nf_negotiated_alpn (ds_ndpi s)"
  by (auto simp: tls_cipher_def tls_server_cn_def take_server_cn_def take_issuer_dn_def take_subject_dn_def tls_ja3_def
      tls_fingerprint_def split: prod.split option.split)

lemma negotiated_alpn_unreported:
  assumes "nf_negotiated_alpn (ds_ndpi s) = Some a"
  shows "\<not> fst (tls_update E s)"
proof -
  have u: "\<not> fst (ProcessALPN False (Allocated a) f)" for f by (simp add: ProcessALPN_def Let_def alpn_never_found)
  obtain u1 s1 where s1: "mark_updated (tls_cipher s) = (u1, s1)" by force
  obtain u2 s2 where s2: "mark_updated (tls_server_cn E s1) = (u2, s2)" by force
  obtain u3 s3 where s3: "mark_updated (take_issuer_dn E s2) = (u3, s3)" by force
  obtain u4 s4 where s4: "mark_updated (take_subject_dn E s3) = (u4, s4)" by force
  obtain u5 s5 where s5: "mark_updated (tls_ja3 s4) = (u5, s5)" by force
  obtain u6 s6 where s6: "mark_updated (tls_fingerprint s5) = (u6, s6)" by force
  note k = negotiated_kept(1) [of "tls_cipher s", unfolded s1] negotiated_kept(1) [of "tls_server_cn E s1", unfolded s2]
    negotiated_kept(1) [of "take_issuer_dn E s2", unfolded s3] negotiated_kept(1) [of "take_subject_dn E s3", unfolded s4]
    negotiated_kept(1) [of "tls_ja3 s4", unfolded s5] negotiated_kept(1) [of "tls_fingerprint s5", unfolded s6]
  have "nf_negotiated_alpn (ds_ndpi s6) = Some a" using k assms by simp
  then show ?thesis
    unfolding tls_update_def s1 s2 s3 s4 s5 s6 Let_def prod.case
    using u by (cases "nf_advertised_alpns (ds_ndpi s6)") simp_all
qed

text \<open>The cache of digests is filled only where the digests of a flow and of its metadata agree.\<close>

lemma fhc_never_filled:
  assumes "ds_fhc s = Some c" "map_of (fhc_lookup c) (fl_digest_lower (ds_flow s)) = None"
    and "take (length (fl_digest_lower (ds_flow s))) (fl_digest_mdata (flow_Hash_mdata E (ds_flow s))) \<noteq> fl_digest_lower (ds_flow s)"
  shows "ds_fhc (det_digest E s) = Some c"
  using assms by (simp add: det_digest_def Let_def fhc_Pop_def flow_Hash_mdata_def flow_Hash_def)

text \<open>A digest that the cache has replaces only an equal one.\<close>

lemma fhc_never_restores:
  assumes "ds_fhc s = Some c" "GetPort (fl_lower_addr (ds_flow s)) False \<noteq> 0" "GetPort (fl_upper_addr (ds_flow s)) False \<noteq> 0"
    and "fst (fhc_Pop c (fl_digest_lower (ds_flow s))) = Some d" "length d = length (fl_digest_mdata (ds_flow s))"
  shows "fl_digest_mdata (ds_flow (det_digest E s)) = fl_digest_mdata (ds_flow s)"
  using assms by (auto simp: det_digest_def Let_def split: prod.splits option.splits)

text \<open>A second pass over a flow whose name came with the upper side forgets the name.\<close>

lemma second_pass_forgets_name:
  assumes "ds_dhc s = Some c" "GetMasterProtocol (ds_flow s) \<noteq> ND_PROTO_DNS"
    and "fl_lower_type (ds_flow s) \<noteq> atOTHER" "ff_dhc_hit (fl_flags (ds_flow s))"
  shows "fl_dns_host_name (ds_flow (det_hint E s)) = []"
  using assms by (simp add: det_hint_def Let_def)

text \<open>The name of a certificate replaces an application that is already known.\<close>

lemma cn_replaces_application:
  assumes "union_byte 24 (fl_union (ds_flow s)) = 0" "nf_serverCN (ds_ndpi s) = Some cn"
    and "find_by_cn E (put_server_cn cn (ds_flow s)) \<noteq> ND_APP_UNKNOWN"
  shows "fl_detected_application (ds_flow (snd (tls_server_cn E s))) = find_by_cn E (put_server_cn cn (ds_flow s))"
  using assms by (simp add: tls_server_cn_def take_server_cn_def)

text \<open>A protocol over STUN replaces the one that is known, and leaves its name and category.\<close>

lemma protocol_if_keeps:
  "fl_detected_protocol_name (protocol_if b p f) = fl_detected_protocol_name f" "fl_category (protocol_if b p f) = fl_category f"
  by (simp_all add: protocol_if_def)

lemma stun_keeps_name:
  "fl_detected_protocol_name (det_protocol E m a f) = fl_detected_protocol_name f" "fl_category (det_protocol E m a f) = fl_category f"
  by (simp_all only: det_protocol_def Let_def protocol_if_keeps)

text \<open>No flow has mDNS for its master protocol: the update for its names is never reached.\<close>

lemma mdns_never_master: "GetMasterProtocol f \<noteq> ND_PROTO_MDNS"
  by (simp add: GetMasterProtocol_def Let_def ND_PROTO_HTTPS_def ND_PROTO_TLS_def ND_PROTO_FTPS_def ND_PROTO_FTPS_DATA_def
      ND_PROTO_MAIL_IMAPS_def ND_PROTO_MAIL_POPS_def ND_PROTO_MAIL_SMTPS_def ND_PROTO_MQTTS_def ND_PROTO_NNTPS_def ND_PROTO_SIPS_def
      ND_PROTO_HTTP_def ND_PROTO_HTTP_CONNECT_def ND_PROTO_HTTP_PROXY_def ND_PROTO_OOKLA_def ND_PROTO_PPSTREAM_def ND_PROTO_QQ_def
      ND_PROTO_RTSP_def ND_PROTO_STEAM_def ND_PROTO_TEAMVIEWER_def ND_PROTO_XBOX_def ND_PROTO_DNS_def ND_PROTO_MDNS_def
      ND_PROTO_LLMNR_def)

text \<open>
  A complete flow that used all its packets: a late packet runs its detection again, with a
  new structure; a request to finish it reads the structure that is gone.
\<close>

lemma late_packet_detected_again:
  assumes "is_complete s" "det_packets s = de_max_detection_pkts E" "0 < de_max_detection_pkts E"
  shows "process_entry E packet s = cbind (finish_entry E packet s) (\<lambda>s. CDone (if is_complete s then upd_flow flow_Release s else s))"
  using assms by (simp add: process_entry_def Let_def)

lemma late_request_reads_null:
  assumes "is_complete s" "det_packets s = de_max_detection_pkts E" "0 < de_max_detection_pkts E" "\<not> fl_ndpi_flow (ds_flow s)"
  shows "process_entry E None s = CUndefined"
  using assms by (simp add: process_entry_def finish_entry_def ProcessFlow_def Let_def)

text \<open>A maximum that does not fit the counter of eight bits is never reached.\<close>

lemma counter_wraps:
  "flow_packets f = 255 \<Longrightarrow> \<not> ff_detection_complete (fl_flags f) \<Longrightarrow> \<not> ff_expiring (fl_flags f) \<Longrightarrow>
     256 \<le> de_max_detection_pkts E \<Longrightarrow> flow_packets (entry_count E f) = 0"
  by (simp add: entry_count_def entry_counted_def flow_packets_bump)

end
