(* ===== verification/NdInstance.thy ===== *)
theory NdInstance
  imports NdDetection
begin

text \<open>
  The life of the flows in the agent (\<open>src/src/nd-instance.cpp\<close>, and the queues of
  \<open>src/src/nd-detection.cpp\<close>): capture threads insert flows and queue packets, detection
  threads take entries from their queues, and the periodic update marks idle flows, asks for
  their end and removes those that are expired and that nothing else refers to. The
  reference count of a flow is one for the table, one for each queue entry, and one for each
  reference that plugins keep. Steps of threads interleave as whole packets, entries and
  updates.
\<close>

section \<open>State\<close>

record instance_status =
  si_flows_prev :: nat
  si_flows_purged :: nat
  si_flows_expiring :: nat
  si_flows_expired :: nat
  si_flows_active :: nat
  si_flows_in_use :: nat

datatype flow_event = EVENT_FLOW_EXPIRING nat | EVENT_FLOW_EXPIRE nat

record instance_state =
  is_agent :: agent
  is_ndpi :: "nat \<Rightarrow> ndpi_flow"
  is_fhc :: "fhc option"
  is_conntrack :: "ct_table option"
  is_endpoints :: "(nd_addr \<times> nd_addr) list"
  is_held :: "nat list"
  is_dpi_events :: "(nat \<times> dpi_event) list"
  is_dpi_flows :: nat
  is_events :: "flow_event list"
  is_status :: instance_status

record flow_ttls =
  tl_idle_flow :: time_t
  tl_idle_tcp_flow :: time_t

abbreviation upd_agent :: "(agent \<Rightarrow> agent) \<Rightarrow> instance_state \<Rightarrow> instance_state" where
  "upd_agent g s \<equiv> s\<lparr>is_agent := g (is_agent s)\<rparr>"

abbreviation upd_status :: "(instance_status \<Rightarrow> instance_status) \<Rightarrow> instance_state \<Rightarrow> instance_state" where
  "upd_status g s \<equiv> s\<lparr>is_status := g (is_status s)\<rparr>"

abbreviation flow_at :: "instance_state \<Rightarrow> nat \<Rightarrow> nd_flow" where
  "flow_at s r \<equiv> ag_store (is_agent s) ! r"

definition put_flow :: "nat \<Rightarrow> nd_flow \<Rightarrow> instance_state \<Rightarrow> instance_state" where
  "put_flow r f s = upd_agent (\<lambda>A. A\<lparr>ag_store := (ag_store A)[r := f]\<rparr>) s"

definition use_count :: "instance_state \<Rightarrow> nat \<Rightarrow> nat" where
  "use_count s r = 1 + length (filter (\<lambda>(_, i, _). i = r) (ag_queue (is_agent s))) + count_list (is_held s) r"

section \<open>Expiring flows\<close>

text \<open>The result tells whether the flow now waits for its detection thread.\<close>

definition ExpireFlow :: "capture_config \<Rightarrow> nat \<Rightarrow> instance_state \<Rightarrow> bool \<times> instance_state" where
  "ExpireFlow C r s =
     (let f = flow_at s r in
      if ff_detection_complete (fl_flags f) then (False, put_flow r (upd_flags (\<lambda>g. g\<lparr>ff_expired := True\<rparr>) f) s)
      else if \<not> ff_expiring (fl_flags f) then
        (let f = upd_flags (\<lambda>g. g\<lparr>ff_expiring := True\<rparr>) f in
         if 0 \<le> fl_dpi_thread_id f \<and> fl_dpi_thread_id f < int (cf_threads C) then
           (True, (upd_agent (\<lambda>A. A\<lparr>ag_queue := ag_queue A @ [(fl_dpi_thread_id f, r, None)]\<rparr>) (put_flow r f s))
                    \<lparr>is_events := is_events s @ [EVENT_FLOW_EXPIRING r]\<rparr>)
         else (False, put_flow r (upd_flags (\<lambda>g. g\<lparr>ff_expired := True\<rparr>) f) s))
      else (False, s))"

definition flow_ttl :: "flow_ttls \<Rightarrow> nd_flow \<Rightarrow> time_t" where
  "flow_ttl T f = (if fl_ip_protocol f \<noteq> 6 then tl_idle_flow T
     else if ff_tcp_fin_ack (fl_flags f) \<noteq> 0 then tl_idle_flow T else tl_idle_tcp_flow T)"

definition flow_idle :: "flow_ttls \<Rightarrow> time_t \<Rightarrow> nd_flow \<Rightarrow> bool" where
  "flow_idle T now f \<longleftrightarrow> int (unat (fl_ts_last_seen f) div 1000) + flow_ttl T f < now"

text \<open>One flow of a bucket: whether its entry stays.\<close>

definition process_flow :: "capture_config \<Rightarrow> flow_ttls \<Rightarrow> time_t \<Rightarrow> nat \<Rightarrow> instance_state \<Rightarrow> bool \<times> instance_state" where
  "process_flow C T now r s =
     (let s = (if use_count s r > 1 then upd_status (\<lambda>i. i\<lparr>si_flows_in_use := si_flows_in_use i + 1\<rparr>) s else s);
          s = (if \<not> ff_expired (fl_flags (flow_at s r)) \<and> flow_idle T now (flow_at s r) then
                 (case ExpireFlow C r s of (waits, s) \<Rightarrow>
                    if waits then upd_status (\<lambda>i. i\<lparr>si_flows_expiring := si_flows_expiring i + 1\<rparr>) s else s)
               else s)
      in if ff_expired (fl_flags (flow_at s r)) then
           (let s = upd_status (\<lambda>i. i\<lparr>si_flows_expired := si_flows_expired i + 1\<rparr>) s in
            if use_count s r = 1
            then (False, upd_status (\<lambda>i. i\<lparr>si_flows_purged := si_flows_purged i + 1\<rparr>) (s\<lparr>is_events := is_events s @ [EVENT_FLOW_EXPIRE r]\<rparr>))
            else (True, s))
         else if ff_detection_init (fl_flags (flow_at s r))
                 \<and> (fs_lower_packets (fl_stats (flow_at s r)) \<noteq> 0 \<or> fs_upper_packets (fl_stats (flow_at s r)) \<noteq> 0)
         then (True, put_flow r (flow_Reset False (flow_at s r)) (upd_status (\<lambda>i. i\<lparr>si_flows_active := si_flows_active i + 1\<rparr>) s))
         else (True, s))"

fun process_flows :: "capture_config \<Rightarrow> flow_ttls \<Rightarrow> time_t \<Rightarrow> (digest \<times> nat) list \<Rightarrow> instance_state \<Rightarrow> (digest \<times> nat) list \<times> instance_state" where
  "process_flows C T now [] s = ([], s)"
| "process_flows C T now ((d, r) # es) s =
     (case process_flow C T now r s of (keep, s) \<Rightarrow>
        case process_flows C T now es s of (kept, s) \<Rightarrow> (if keep then (d, r) # kept else kept, s))"

fun process_buckets :: "capture_config \<Rightarrow> flow_ttls \<Rightarrow> time_t \<Rightarrow> nat list \<Rightarrow> instance_state \<Rightarrow> instance_state captured" where
  "process_buckets C T now [] s = CDone s"
| "process_buckets C T now (b # bs) s =
     cbind (of_outcome (fm_Acquire (ag_map (is_agent s)) b)) (\<lambda>(es, m).
       case process_flows C T now es (upd_agent (\<lambda>A. A\<lparr>ag_map := m\<rparr>) s) of (kept, s) \<Rightarrow>
         cbind (of_outcome (fm_Release (m\<lparr>fm_bucket := (fm_bucket m)[b := kept]\<rparr>) b)) (\<lambda>m.
           process_buckets C T now bs (upd_agent (\<lambda>A. A\<lparr>ag_map := m\<rparr>) s)))"

text \<open>The counter of flows is unsigned; the update takes away what it purged.\<close>

definition size_minus :: "nat \<Rightarrow> nat \<Rightarrow> nat" where
  "size_minus a b = (if b \<le> a then a - b else 2 ^ 64 + a - b)"

definition ProcessFlows :: "capture_config \<Rightarrow> flow_ttls \<Rightarrow> time_t \<Rightarrow> instance_state \<Rightarrow> instance_state captured" where
  "ProcessFlows C T now s =
     (let s = upd_status (\<lambda>i. i\<lparr>si_flows_purged := 0, si_flows_expiring := 0, si_flows_expired := 0, si_flows_active := 0,
                                si_flows_in_use := 0\<rparr>) s in
      cbind (process_buckets C T now [0..<GetBuckets (ag_map (is_agent s))] s) (\<lambda>s.
        CDone (upd_agent (\<lambda>A. A\<lparr>ag_flows := size_minus (ag_flows A) (si_flows_purged (is_status s))\<rparr>)
          (upd_status (\<lambda>i. i\<lparr>si_flows_prev := ag_flows (is_agent s)\<rparr>) s))))"

text \<open>The part of an update that changes flows and caches.\<close>

definition ProcessUpdate :: "capture_config \<Rightarrow> flow_ttls \<Rightarrow> time_t \<Rightarrow> time_t \<Rightarrow> instance_state \<Rightarrow> instance_state captured" where
  "ProcessUpdate C T clock now s =
     ProcessFlows C T now (upd_agent (\<lambda>A. A\<lparr>ag_dhc := map_option (\<lambda>c. snd (dhc_Purge clock c)) (ag_dhc A)\<rparr>) s)"

text \<open>Before a capture ends, every flow of the table is asked to end.\<close>

fun expire_flows :: "capture_config \<Rightarrow> (digest \<times> nat) list \<Rightarrow> instance_state \<Rightarrow> instance_state" where
  "expire_flows C [] s = s"
| "expire_flows C ((d, r) # es) s =
     expire_flows C es (if \<not> ff_expired (fl_flags (flow_at s r)) \<and> \<not> ff_expiring (fl_flags (flow_at s r))
       then snd (ExpireFlow C r s) else s)"

fun expire_buckets :: "capture_config \<Rightarrow> nat list \<Rightarrow> instance_state \<Rightarrow> instance_state captured" where
  "expire_buckets C [] s = CDone s"
| "expire_buckets C (b # bs) s =
     cbind (of_outcome (fm_Acquire (ag_map (is_agent s)) b)) (\<lambda>(es, m).
       let s = expire_flows C es (upd_agent (\<lambda>A. A\<lparr>ag_map := m\<rparr>) s) in
       cbind (of_outcome (fm_Release (ag_map (is_agent s)) b)) (\<lambda>m.
         expire_buckets C bs (upd_agent (\<lambda>A. A\<lparr>ag_map := m\<rparr>) s)))"

definition DestroyCaptureThreads :: "capture_config \<Rightarrow> bool \<Rightarrow> instance_state \<Rightarrow> instance_state captured" where
  "DestroyCaptureThreads C expire s =
     (if expire then expire_buckets C [0..<GetBuckets (ag_map (is_agent s))] s else CDone s)"

section \<open>Detection threads\<close>

text \<open>The queue of a thread is what the common list has of it.\<close>

fun take_entry :: "int \<Rightarrow> (int \<times> 'a) list \<Rightarrow> ('a \<times> (int \<times> 'a) list) option" where
  "take_entry k [] = None"
| "take_entry k (e # q) = (if fst e = k then Some (snd e, q) else map_option (\<lambda>(x, q'). (x, e # q')) (take_entry k q))"

definition entry_data :: "nd_packet \<times> nat \<Rightarrow> bytes" where
  "entry_data pl = (case pl of (p, l2_len) \<Rightarrow> take (unat (pk_caplen p) - l2_len) (drop l2_len (pk_data p)))"

definition det_state_of :: "nat \<Rightarrow> instance_state \<Rightarrow> det_state" where
  "det_state_of r s = \<lparr>ds_flow = flow_at s r, ds_ndpi = is_ndpi s r, ds_dhc = ag_dhc (is_agent s), ds_fhc = is_fhc s,
     ds_conntrack = is_conntrack s, ds_endpoints = is_endpoints s, ds_events = [], ds_flows = is_dpi_flows s\<rparr>"

definition put_det :: "nat \<Rightarrow> det_state \<Rightarrow> instance_state \<Rightarrow> instance_state" where
  "put_det r d s =
     (upd_agent (\<lambda>A. A\<lparr>ag_dhc := ds_dhc d\<rparr>) (put_flow r (ds_flow d) s))
       \<lparr>is_ndpi := (is_ndpi s)(r := ds_ndpi d), is_fhc := ds_fhc d, is_conntrack := ds_conntrack d,
        is_endpoints := ds_endpoints d, is_dpi_events := is_dpi_events s @ map (Pair r) (ds_events d), is_dpi_flows := ds_flows d\<rparr>"

text \<open>One turn of the loop: the next entry of the thread, or nothing.\<close>

definition dpi_step :: "'rx det_env \<Rightarrow> int \<Rightarrow> instance_state \<Rightarrow> instance_state captured" where
  "dpi_step E k s =
     (case take_entry k (ag_queue (is_agent s)) of
        None \<Rightarrow> CDone s
      | Some ((r, packet), q) \<Rightarrow>
          cbind (process_entry E (map_option entry_data packet) (det_state_of r s)) (\<lambda>d.
            CDone (put_det r d (upd_agent (\<lambda>A. A\<lparr>ag_queue := q\<rparr>) s))))"

lemma take_entry_split:
  "take_entry k q = Some (x, q') \<Longrightarrow> \<exists>xs ys. q = xs @ (k, x) # ys \<and> q' = xs @ ys \<and> k \<notin> fst ` set xs"
proof (induction q arbitrary: q')
  case (Cons e q)
  show ?case
  proof (cases "fst e = k")
    case True
    then show ?thesis using Cons.prems by (intro exI [of _ "[]"] exI [of _ q]) auto
  next
    case False
    then obtain p where p: "take_entry k q = Some (x, p)" "q' = e # p" using Cons.prems by auto
    obtain xs ys where "q = xs @ (k, x) # ys" "p = xs @ ys" "k \<notin> fst ` set xs" using Cons.IH [OF p(1)] by blast
    then show ?thesis using False p(2) by (intro exI [of _ "e # xs"] exI [of _ ys]) auto
  qed
qed simp

lemma take_entry_none: "take_entry k q = None \<longleftrightarrow> k \<notin> fst ` set q"
  by (induction q) auto

lemma dpi_step_queue:
  assumes "take_entry k (ag_queue (is_agent s)) = Some ((r, packet), q)" "dpi_step E k s = CDone s'"
  shows "ag_queue (is_agent s') = q"
  using assms by (auto simp: dpi_step_def cbind_CDone_iff put_det_def put_flow_def)

text \<open>The loop of a detection thread, until its queue is empty.\<close>

function ProcessPacketQueue :: "'rx det_env \<Rightarrow> int \<Rightarrow> instance_state \<Rightarrow> instance_state captured" where
  "ProcessPacketQueue E k s =
     (if take_entry k (ag_queue (is_agent s)) = None then CDone s
      else cbind (dpi_step E k s) (ProcessPacketQueue E k))"
  by pat_completeness auto
termination
proof (relation "measure (\<lambda>(E, k, s). length (ag_queue (is_agent s)))")
  fix E :: "'rx det_env" and k s s'
  assume "take_entry k (ag_queue (is_agent s)) \<noteq> None" "dpi_step E k s = CDone s'"
  then show "((E, k, s'), E, k, s) \<in> measure (\<lambda>(E, k, s). length (ag_queue (is_agent s)))"
    using dpi_step_queue [of k s _ _ _ E s'] take_entry_split by fastforce
qed simp

declare ProcessPacketQueue.simps [simp del]

section \<open>What an update does to a flow\<close>

definition asks :: "capture_config \<Rightarrow> flow_ttls \<Rightarrow> time_t \<Rightarrow> nd_flow \<Rightarrow> bool" where
  "asks C T now f \<longleftrightarrow> \<not> ff_expired (fl_flags f) \<and> flow_idle T now f \<and> \<not> ff_detection_complete (fl_flags f)
     \<and> \<not> ff_expiring (fl_flags f) \<and> 0 \<le> fl_dpi_thread_id f \<and> fl_dpi_thread_id f < int (cf_threads C)"

text \<open>The flow after its look at the time, and after the whole visit.\<close>

definition aged :: "capture_config \<Rightarrow> flow_ttls \<Rightarrow> time_t \<Rightarrow> nd_flow \<Rightarrow> nd_flow" where
  "aged C T now f =
     (if ff_expired (fl_flags f) \<or> \<not> flow_idle T now f then f
      else if ff_detection_complete (fl_flags f) then upd_flags (\<lambda>g. g\<lparr>ff_expired := True\<rparr>) f
      else if ff_expiring (fl_flags f) then f
      else if asks C T now f then upd_flags (\<lambda>g. g\<lparr>ff_expiring := True\<rparr>) f
      else upd_flags (\<lambda>g. g\<lparr>ff_expiring := True, ff_expired := True\<rparr>) f)"

definition visit :: "capture_config \<Rightarrow> flow_ttls \<Rightarrow> time_t \<Rightarrow> nd_flow \<Rightarrow> nd_flow" where
  "visit C T now f =
     (let f = aged C T now f in
      if \<not> ff_expired (fl_flags f) \<and> ff_detection_init (fl_flags f)
         \<and> (fs_lower_packets (fl_stats f) \<noteq> 0 \<or> fs_upper_packets (fl_stats f) \<noteq> 0)
      then flow_Reset False f else f)"

definition purges :: "capture_config \<Rightarrow> flow_ttls \<Rightarrow> time_t \<Rightarrow> instance_state \<Rightarrow> nat \<Rightarrow> bool" where
  "purges C T now s r \<longleftrightarrow> ff_expired (fl_flags (aged C T now (flow_at s r))) \<and> use_count s r = 1"

definition ask_entries :: "capture_config \<Rightarrow> flow_ttls \<Rightarrow> time_t \<Rightarrow> instance_state \<Rightarrow> nat list \<Rightarrow> (int \<times> nat \<times> (nd_packet \<times> nat) option) list" where
  "ask_entries C T now s rs = map (\<lambda>r. (fl_dpi_thread_id (flow_at s r), r, None)) (filter (\<lambda>r. asks C T now (flow_at s r)) rs)"

text \<open>The flows of a list have been visited; everything else is as it was, but for the log and the counts.\<close>

definition visited :: "capture_config \<Rightarrow> flow_ttls \<Rightarrow> time_t \<Rightarrow> nat list \<Rightarrow> instance_state \<Rightarrow> instance_state \<Rightarrow> bool" where
  "visited C T now rs s s' \<longleftrightarrow>
     ag_flows (is_agent s') = ag_flows (is_agent s)
     \<and> is_held s' = is_held s \<and> is_ndpi s' = is_ndpi s \<and> is_conntrack s' = is_conntrack s \<and> is_fhc s' = is_fhc s
     \<and> length (ag_store (is_agent s')) = length (ag_store (is_agent s))
     \<and> (\<forall>k < length (ag_store (is_agent s)). flow_at s' k = (if k \<in> set rs then visit C T now (flow_at s k) else flow_at s k))
     \<and> ag_queue (is_agent s') = ag_queue (is_agent s) @ ask_entries C T now s rs
     \<and> si_flows_purged (is_status s') = si_flows_purged (is_status s) + length (filter (purges C T now s) rs)"

lemma process_flow_visited:
  assumes "r < length (ag_store (is_agent s))" "process_flow C T now r s = (keep, s')"
  shows "keep = (\<not> purges C T now s r)" "visited C T now [r] s s'" "ag_map (is_agent s') = ag_map (is_agent s)"
proof -
  let ?f = "flow_at s r"
  define s1 where "s1 = (if use_count s r > 1 then upd_status (\<lambda>i. i\<lparr>si_flows_in_use := si_flows_in_use i + 1\<rparr>) s else s)"
  have s1: "is_agent s1 = is_agent s" "is_held s1 = is_held s" "is_ndpi s1 = is_ndpi s" "is_conntrack s1 = is_conntrack s"
    "is_fhc s1 = is_fhc s" "si_flows_purged (is_status s1) = si_flows_purged (is_status s)" by (simp_all add: s1_def)
  define s2 where "s2 = (if \<not> ff_expired (fl_flags ?f) \<and> flow_idle T now ?f then
      (case ExpireFlow C r s1 of (waits, s) \<Rightarrow> if waits then upd_status (\<lambda>i. i\<lparr>si_flows_expiring := si_flows_expiring i + 1\<rparr>) s else s)
      else s1)"
  have s2: "is_agent s2 = (is_agent s)\<lparr>ag_store := (ag_store (is_agent s))[r := aged C T now ?f],
      ag_queue := ag_queue (is_agent s) @ ask_entries C T now s [r]\<rparr>"
    "is_held s2 = is_held s" "is_ndpi s2 = is_ndpi s" "is_conntrack s2 = is_conntrack s" "is_fhc s2 = is_fhc s"
    "si_flows_purged (is_status s2) = si_flows_purged (is_status s)"
    using s1 assms(1) by (auto simp: s2_def ExpireFlow_def Let_def put_flow_def aged_def asks_def ask_entries_def)
  have f2: "flow_at s2 r = aged C T now ?f" using s2(1) assms(1) by simp
  have u: "use_count s2 r = use_count s r" if "ff_expired (fl_flags (aged C T now ?f))"
  proof -
    have "\<not> asks C T now ?f" using that by (auto simp: aged_def asks_def split: if_splits)
    then show ?thesis using s2 by (simp add: use_count_def ask_entries_def)
  qed
  have p: "process_flow C T now r s =
     (if ff_expired (fl_flags (flow_at s2 r)) then
           (let s = upd_status (\<lambda>i. i\<lparr>si_flows_expired := si_flows_expired i + 1\<rparr>) s2 in
            if use_count s r = 1
            then (False, upd_status (\<lambda>i. i\<lparr>si_flows_purged := si_flows_purged i + 1\<rparr>) (s\<lparr>is_events := is_events s @ [EVENT_FLOW_EXPIRE r]\<rparr>))
            else (True, s))
         else if ff_detection_init (fl_flags (flow_at s2 r))
                 \<and> (fs_lower_packets (fl_stats (flow_at s2 r)) \<noteq> 0 \<or> fs_upper_packets (fl_stats (flow_at s2 r)) \<noteq> 0)
         then (True, put_flow r (flow_Reset False (flow_at s2 r)) (upd_status (\<lambda>i. i\<lparr>si_flows_active := si_flows_active i + 1\<rparr>) s2))
         else (True, s2))"
    by (simp only: process_flow_def Let_def s1_def [symmetric] s1(1) s2_def [symmetric])
  have uu: "use_count (upd_status g s2) r = use_count s2 r" for g by (simp add: use_count_def)
  show "keep = (\<not> purges C T now s r)"
    using assms(2) u uu unfolding p f2 by (auto simp: purges_def Let_def split: if_splits)
  show "visited C T now [r] s s'"
    using assms u uu s2 unfolding p f2
    by (auto simp: visited_def visit_def purges_def Let_def put_flow_def nth_list_update split: if_splits)
  show "ag_map (is_agent s') = ag_map (is_agent s)"
    using assms(2) s2 unfolding p f2 by (auto simp: Let_def put_flow_def split: if_splits)
qed

lemma visited_refl: "visited C T now [] s s"
  by (simp add: visited_def ask_entries_def)

text \<open>A visit of other flows does not change what happens to a flow.\<close>

lemma visited_purges:
  assumes "visited C T now rs s s'" "r < length (ag_store (is_agent s))" "r \<notin> set rs"
  shows "flow_at s' r = flow_at s r" "purges C T now s' r = purges C T now s r"
proof -
  show f: "flow_at s' r = flow_at s r" using assms by (simp add: visited_def)
  have "filter (\<lambda>(_, i, _). i = r) (ask_entries C T now s rs) = []"
    using assms(3) by (auto simp: ask_entries_def filter_empty_conv)
  then have "use_count s' r = use_count s r" using assms(1) by (simp add: visited_def use_count_def)
  then show "purges C T now s' r = purges C T now s r" using f by (simp add: purges_def)
qed

lemma visited_append:
  assumes 1: "visited C T now xs s s1" and 2: "visited C T now ys s1 s2"
    and d: "distinct (xs @ ys)" and b: "\<forall>r \<in> set (xs @ ys). r < length (ag_store (is_agent s))"
  shows "visited C T now (xs @ ys) s s2"
proof -
  have f: "flow_at s1 r = flow_at s r" "purges C T now s1 r = purges C T now s r" if "r \<in> set ys" for r
    using visited_purges [OF 1] that d b by auto
  have a: "ask_entries C T now s1 ys = ask_entries C T now s ys"
    using f(1) by (auto simp: ask_entries_def intro!: map_cong filter_cong)
  have p: "filter (purges C T now s1) ys = filter (purges C T now s) ys" using f(2) by (auto intro: filter_cong)
  have "ask_entries C T now s (xs @ ys) = ask_entries C T now s xs @ ask_entries C T now s ys" by (simp add: ask_entries_def)
  then show ?thesis using 1 2 d a p by (auto simp: visited_def)
qed

lemma process_flows_visited:
  assumes "process_flows C T now es s = (kept, s')" "distinct (map snd es)" "\<forall>r \<in> set (map snd es). r < length (ag_store (is_agent s))"
  shows "kept = filter (\<lambda>(_, r). \<not> purges C T now s r) es \<and> visited C T now (map snd es) s s'
    \<and> ag_map (is_agent s') = ag_map (is_agent s)"
  using assms
proof (induction es arbitrary: s kept s')
  case Nil
  then show ?case by (simp add: visited_refl)
next
  case (Cons e es)
  obtain d r where e: "e = (d, r)" by force
  obtain keep s1 where s1: "process_flow C T now r s = (keep, s1)" by force
  obtain kept1 s2 where s2: "process_flows C T now es s1 = (kept1, s2)" by force
  have r: "r < length (ag_store (is_agent s))" using Cons.prems(3) e by simp
  note v = process_flow_visited [OF r s1]
  have b: "\<forall>r \<in> set (map snd es). r < length (ag_store (is_agent s1))" using Cons.prems(3) v(2) by (simp add: visited_def)
  have ih: "kept1 = filter (\<lambda>(_, r). \<not> purges C T now s1 r) es" "visited C T now (map snd es) s1 s2" "ag_map (is_agent s2) = ag_map (is_agent s1)"
    using Cons.IH [OF s2 _ b] Cons.prems(2) by simp_all
  have "purges C T now s1 (snd x) = purges C T now s (snd x)" if "x \<in> set es" for x
    using visited_purges(2) [OF v(2), of "snd x"] that Cons.prems(2,3) e by (auto simp: image_iff)
  then have "filter (\<lambda>(_, r). \<not> purges C T now s1 r) es = filter (\<lambda>(_, r). \<not> purges C T now s r) es"
    by (auto intro!: filter_cong)
  moreover have "visited C T now ([r] @ map snd es) s s2"
    by (rule visited_append [OF v(2) ih(2)]) (use Cons.prems(2,3) e in auto)
  ultimately show ?case using Cons.prems(1) e s1 s2 v(1,3) ih(1,3) by simp
qed

section \<open>The whole table\<close>

lemma bucket_entry:
  assumes "agent_ok A" "b < GetBuckets (ag_map A)" "(d, r) \<in> set (fm_bucket (ag_map A) ! b)"
  shows "fm_find (ag_map A) d = Some r" "HashToBucket (ag_map A) d = b" "r < length (ag_store A)" "fl_digest_lower (ag_store A ! r) = d"
proof -
  have w: "fm_wf (ag_map A)" using assms(1) by (simp add: agent_ok_def fm_free_def)
  have "d \<in> set (map fst (fm_bucket (ag_map A) ! b))" using assms(3) by force
  then show h: "HashToBucket (ag_map A) d = b" using w assms(2) unfolding fm_wf_def by blast
  have "distinct (map fst (fm_bucket (ag_map A) ! b))" using w assms(2) by (simp add: fm_wf_def)
  then show f: "fm_find (ag_map A) d = Some r" using fm_find_bucket [OF w, of d] h assms(3) by simp
  show "r < length (ag_store A)" "fl_digest_lower (ag_store A ! r) = d" using f assms(1) by (auto simp: agent_ok_def)
qed

lemma bucket_distinct:
  assumes "agent_ok A" "b < GetBuckets (ag_map A)"
  shows "distinct (map snd (fm_bucket (ag_map A) ! b))"
proof -
  have "distinct (map fst (fm_bucket (ag_map A) ! b))" using assms by (simp add: agent_ok_def fm_free_def fm_wf_def)
  moreover have "inj_on snd (set (fm_bucket (ag_map A) ! b))"
  proof (rule inj_onI)
    fix x y assume "x \<in> set (fm_bucket (ag_map A) ! b)" "y \<in> set (fm_bucket (ag_map A) ! b)" "snd x = snd y"
    then show "x = y"
      using bucket_entry(4) [OF assms, of "fst x" "snd x"] bucket_entry(4) [OF assms, of "fst y" "snd y"]
      by (metis prod.collapse)
  qed
  ultimately show ?thesis by (simp add: distinct_map)
qed

text \<open>A flow is in one bucket only.\<close>

lemma bucket_disjoint:
  assumes "agent_ok A" "b < GetBuckets (ag_map A)" "c < GetBuckets (ag_map A)" "b \<noteq> c"
  shows "set (map snd (fm_bucket (ag_map A) ! b)) \<inter> set (map snd (fm_bucket (ag_map A) ! c)) = {}"
proof -
  have False if "(d, r) \<in> set (fm_bucket (ag_map A) ! b)" "(e, r) \<in> set (fm_bucket (ag_map A) ! c)" for d e r
    using bucket_entry(2,4) [OF assms(1,2) that(1)] bucket_entry(2,4) [OF assms(1,3) that(2)] assms(4) by simp
  then show ?thesis by auto
qed

lemma fm_put_bucket:
  assumes "fm_free m" "b < GetBuckets m" "kept = filter P (fm_bucket m ! b)"
  shows "fm_Acquire m b = Done (fm_bucket m ! b, fm_lock m b)"
    and "fm_Release ((fm_lock m b)\<lparr>fm_bucket := (fm_bucket (fm_lock m b))[b := kept]\<rparr>) b = Done (m\<lparr>fm_bucket := (fm_bucket m)[b := kept]\<rparr>)"
    and "fm_free (m\<lparr>fm_bucket := (fm_bucket m)[b := kept]\<rparr>)"
proof -
  let ?m = "m\<lparr>fm_bucket := (fm_bucket m)[b := kept]\<rparr>"
  show "fm_Acquire m b = Done (fm_bucket m ! b, fm_lock m b)"
    using assms(1,2) by (simp add: fm_Acquire_def fm_free_def)
  show "fm_Release ((fm_lock m b)\<lparr>fm_bucket := (fm_bucket (fm_lock m b))[b := kept]\<rparr>) b = Done ?m"
    using assms(1,2) fm_locks(2) [OF assms(1), of "fm_locked m" b]
    by (cases m) (simp add: fm_Release_def fm_lock_def fm_unlock_def GetBuckets_def)
  have h: "HashToBucket ?m d = HashToBucket m d" "GetBuckets ?m = GetBuckets m" for d by (simp_all add: HashToBucket_def GetBuckets_def)
  have s: "set (map fst kept) \<subseteq> set (map fst (fm_bucket m ! b))" "distinct (map fst kept)"
    using assms by (auto simp: fm_free_def fm_wf_def distinct_map_filter)
  have "HashToBucket m d = b" if "d \<in> set (map fst kept)" for d
    using that s(1) assms(1,2) unfolding fm_free_def fm_wf_def by blast
  then show "fm_free ?m" using assms(1,2) s
    by (auto simp: fm_free_def fm_wf_def h nth_list_update GetBuckets_def)
qed

lemma visited_map [simp]:
  "visited C T now rs (upd_agent (\<lambda>A. A\<lparr>ag_map := m\<rparr>) s) s' = visited C T now rs s s'"
  "visited C T now rs s (upd_agent (\<lambda>A. A\<lparr>ag_map := m\<rparr>) s') = visited C T now rs s s'"
  "purges C T now (upd_agent (\<lambda>A. A\<lparr>ag_map := m\<rparr>) s) = purges C T now s"
proof -
  show p: "purges C T now (upd_agent (\<lambda>A. A\<lparr>ag_map := m\<rparr>) s) = purges C T now s" by (simp add: purges_def use_count_def fun_eq_iff)
  show "visited C T now rs (upd_agent (\<lambda>A. A\<lparr>ag_map := m\<rparr>) s) s' = visited C T now rs s s'"
    "visited C T now rs s (upd_agent (\<lambda>A. A\<lparr>ag_map := m\<rparr>) s') = visited C T now rs s s'"
    unfolding visited_def p by (simp_all add: ask_entries_def)
qed

lemma aged_digest [simp]: "fl_digest_lower (aged C T now f) = fl_digest_lower f"
  by (simp add: aged_def)

lemma visit_digest: "fl_digest_lower (visit C T now f) = fl_digest_lower f"
  using flow_id_kept(3) [of False "aged C T now f"] by (simp add: visit_def Let_def)

lemma visited_agent_ok:
  assumes "visited C T now rs s s'" "agent_ok (is_agent s)" "fm_free (ag_map (is_agent s'))"
    and "fm_find (ag_map (is_agent s')) \<subseteq>\<^sub>m fm_find (ag_map (is_agent s))"
  shows "agent_ok (is_agent s')"
  unfolding agent_ok_def
proof (intro conjI allI impI)
  fix d r assume "fm_find (ag_map (is_agent s')) d = Some r"
  then have "fm_find (ag_map (is_agent s)) d = Some r" using assms(4) by (metis domI map_le_def)
  then have "r < length (ag_store (is_agent s))" "fl_digest_lower (flow_at s r) = d" using assms(2) by (auto simp: agent_ok_def)
  then show "r < length (ag_store (is_agent s'))" "fl_digest_lower (flow_at s' r) = d"
    using assms(1) visit_digest by (auto simp: visited_def)
qed (rule assms(3))

lemma fm_find_filter:
  assumes "fm_free m" "b < GetBuckets m"
  shows "fm_find (m\<lparr>fm_bucket := (fm_bucket m)[b := filter P (fm_bucket m ! b)]\<rparr>) d
    = (if HashToBucket m d = b then map_of (filter P (fm_bucket m ! b)) d else fm_find m d)"
proof -
  let ?m = "m\<lparr>fm_bucket := (fm_bucket m)[b := filter P (fm_bucket m ! b)]\<rparr>"
  have f: "fm_free ?m" by (rule fm_put_bucket(3) [OF assms refl])
  have h: "HashToBucket ?m d = HashToBucket m d" by (simp add: HashToBucket_def GetBuckets_def)
  have "HashToBucket m d < length (fm_bucket m)" using assms(1) HashToBucket_lt [of m d] by (simp add: fm_free_def GetBuckets_def)
  then show ?thesis
    using fm_find_bucket [of ?m d] fm_find_bucket [of m d] f assms(1) by (auto simp: fm_free_def h nth_list_update)
qed

lemma map_of_filter_le: "distinct (map fst xs) \<Longrightarrow> map_of (filter P xs) \<subseteq>\<^sub>m map_of xs"
  by (auto simp: map_le_def distinct_map_filter dest!: map_of_SomeD)

definition filter_buckets :: "('a \<Rightarrow> bool) \<Rightarrow> nat list \<Rightarrow> 'a list list \<Rightarrow> 'a list list" where
  "filter_buckets P bs xss = map (\<lambda>b. if b \<in> set bs then filter P (xss ! b) else xss ! b) [0..<length xss]"

text \<open>The flows of some buckets, in the order of the visit.\<close>

definition bucket_flows :: "instance_state \<Rightarrow> nat list \<Rightarrow> nat list" where
  "bucket_flows s bs = concat (map (\<lambda>b. map snd (fm_bucket (ag_map (is_agent s)) ! b)) bs)"

lemma bucket_flows_less:
  assumes "agent_ok (is_agent s)" "\<forall>b \<in> set bs. b < GetBuckets (ag_map (is_agent s))" "r \<in> set (bucket_flows s bs)"
  shows "r < length (ag_store (is_agent s))"
  using assms bucket_entry(3) [OF assms(1)] by (fastforce simp: bucket_flows_def)

lemma bucket_flows_distinct:
  assumes "agent_ok (is_agent s)" "\<forall>b \<in> set bs. b < GetBuckets (ag_map (is_agent s))" "distinct bs"
  shows "distinct (bucket_flows s bs)"
  using assms(2,3)
proof (induction bs)
  case (Cons b bs)
  have "set (map snd (fm_bucket (ag_map (is_agent s)) ! b)) \<inter> set (bucket_flows s bs) = {}"
    using bucket_disjoint [OF assms(1), of b] Cons.prems unfolding bucket_flows_def by fastforce
  then show ?case using Cons bucket_distinct [OF assms(1), of b] by (auto simp: bucket_flows_def)
qed (simp add: bucket_flows_def)

lemma process_buckets_visited:
  assumes "agent_ok (is_agent s)" "distinct bs" "\<forall>b \<in> set bs. b < GetBuckets (ag_map (is_agent s))"
  shows "\<exists>s'. process_buckets C T now bs s = CDone s' \<and> visited C T now (bucket_flows s bs) s s'
    \<and> ag_map (is_agent s') = (ag_map (is_agent s))\<lparr>fm_bucket :=
         filter_buckets (\<lambda>(_, r). \<not> purges C T now s r) bs (fm_bucket (ag_map (is_agent s)))\<rparr>
    \<and> agent_ok (is_agent s')"
  using assms
proof (induction bs arbitrary: s)
  case Nil
  have "ag_map (is_agent s) = (ag_map (is_agent s))\<lparr>fm_bucket := filter_buckets P [] (fm_bucket (ag_map (is_agent s)))\<rparr>" for P
    by (simp add: filter_buckets_def map_nth)
  then show ?case using Nil(1) by (simp add: visited_refl bucket_flows_def)
next
  case (Cons b bs)
  define m where "m = ag_map (is_agent s)"
  let ?es = "fm_bucket m ! b" and ?P = "\<lambda>(_ :: digest, r). \<not> purges C T now s r"
  have m: "fm_free m" and b: "b < GetBuckets m" using Cons.prems by (auto simp: m_def agent_ok_def)
  let ?s0 = "upd_agent (\<lambda>A. A\<lparr>ag_map := fm_lock m b\<rparr>) s"
  obtain kept s1 where s1: "process_flows C T now ?es ?s0 = (kept, s1)" by force
  have "kept = filter (\<lambda>(_, r). \<not> purges C T now ?s0 r) ?es \<and> visited C T now (map snd ?es) ?s0 s1
      \<and> ag_map (is_agent s1) = ag_map (is_agent ?s0)"
    by (rule process_flows_visited [OF s1])
      (use bucket_distinct [OF Cons.prems(1), of b] bucket_entry(3) [OF Cons.prems(1), of b] b in \<open>auto simp: m_def\<close>)
  then have v1: "kept = filter ?P ?es" "visited C T now (map snd ?es) s s1" by simp_all
  let ?m1 = "m\<lparr>fm_bucket := (fm_bucket m)[b := kept]\<rparr>"
  define s2 where "s2 = upd_agent (\<lambda>A. A\<lparr>ag_map := ?m1\<rparr>) s1"
  note put = fm_put_bucket [OF m b v1(1)]
  have v2: "visited C T now (map snd ?es) s s2" using v1(2) by (simp add: s2_def)
  have map2: "ag_map (is_agent s2) = ?m1" by (simp add: s2_def)
  have "fm_find ?m1 \<subseteq>\<^sub>m fm_find m"
  proof -
    have "map_of (filter ?P ?es) \<subseteq>\<^sub>m map_of ?es" using m b by (intro map_of_filter_le) (simp add: fm_free_def fm_wf_def)
    then show ?thesis using fm_find_filter [OF m b, of ?P] fm_find_bucket [of m] m v1(1)
      by (auto simp: map_le_def fm_free_def)
  qed
  then have ok2: "agent_ok (is_agent s2)"
    using visited_agent_ok [OF v2 Cons.prems(1)] put(3) map2 by (simp add: m_def)
  have g: "GetBuckets (ag_map (is_agent s2)) = GetBuckets m" by (simp add: map2 GetBuckets_def)
  obtain s' where s': "process_buckets C T now bs s2 = CDone s'" "visited C T now (bucket_flows s2 bs) s2 s'"
    "ag_map (is_agent s') = (ag_map (is_agent s2))\<lparr>fm_bucket :=
       filter_buckets (\<lambda>(_, r). \<not> purges C T now s2 r) bs (fm_bucket (ag_map (is_agent s2)))\<rparr>" "agent_ok (is_agent s')"
    using Cons.IH [OF ok2] Cons.prems(2,3) g by (auto simp: m_def)
  have same: "fm_bucket (ag_map (is_agent s2)) ! c = fm_bucket m ! c" if "c \<in> set bs" for c
    using that Cons.prems(2) by (cases "c = b") (auto simp: map2)
  have fl: "bucket_flows s2 bs = bucket_flows s bs"
    unfolding bucket_flows_def m_def [symmetric] using same by (auto intro!: arg_cong [of _ _ concat] map_cong)
  have d: "distinct (map snd ?es @ bucket_flows s bs)"
    using bucket_flows_distinct [OF Cons.prems(1,3,2)] by (simp add: bucket_flows_def m_def)
  have lt: "\<forall>r \<in> set (map snd ?es @ bucket_flows s bs). r < length (ag_store (is_agent s))"
    using bucket_flows_less [OF Cons.prems(1,3)] by (simp add: bucket_flows_def m_def)
  have v: "visited C T now (map snd ?es @ bucket_flows s bs) s s'"
    by (rule visited_append [OF v2 _ d lt]) (use s'(2) fl in simp)
  have p: "purges C T now s2 r = purges C T now s r" if "r \<in> set (bucket_flows s bs)" for r
    using visited_purges(2) [OF v2, of r] that d lt by auto
  have "filter_buckets (\<lambda>(_, r). \<not> purges C T now s2 r) bs (fm_bucket ?m1) = filter_buckets ?P (b # bs) (fm_bucket m)"
  proof -
    have "filter (\<lambda>(_, r). \<not> purges C T now s2 r) (fm_bucket m ! c) = filter ?P (fm_bucket m ! c)" if "c \<in> set bs" for c
    proof -
      have "snd x \<in> set (bucket_flows s bs)" if "x \<in> set (fm_bucket m ! c)" for x
        using that \<open>c \<in> set bs\<close> by (auto simp: bucket_flows_def m_def)
      then show ?thesis using p by (intro filter_cong) (auto simp: case_prod_unfold)
    qed
    moreover have "(fm_bucket m)[b := kept] ! c = fm_bucket m ! c" if "c \<in> set bs" for c
      using same [OF that] by (simp add: map2)
    ultimately show ?thesis using Cons.prems(2) by (auto simp: filter_buckets_def nth_list_update v1(1) [symmetric])
  qed
  then have "ag_map (is_agent s') = m\<lparr>fm_bucket := filter_buckets ?P (b # bs) (fm_bucket m)\<rparr>" using s'(3) map2 by simp
  moreover have "bucket_flows s (b # bs) = map snd ?es @ bucket_flows s bs" by (simp add: bucket_flows_def m_def)
  moreover have "process_buckets C T now (b # bs) s = process_buckets C T now bs s2"
    using put(1,2) s1 by (simp add: m_def s2_def)
  ultimately show ?case using s'(1,4) v by (simp add: m_def)
qed

section \<open>The update\<close>

abbreviation table_flows :: "instance_state \<Rightarrow> nat list" where
  "table_flows s \<equiv> bucket_flows s [0..<GetBuckets (ag_map (is_agent s))]"

lemma table_flows_set:
  assumes "agent_ok (is_agent s)"
  shows "r \<in> set (table_flows s) \<longleftrightarrow> (\<exists>d. fm_find (ag_map (is_agent s)) d = Some r)"
proof
  assume "r \<in> set (table_flows s)"
  then obtain b d where "b < GetBuckets (ag_map (is_agent s))" "(d, r) \<in> set (fm_bucket (ag_map (is_agent s)) ! b)"
    by (auto simp: bucket_flows_def)
  then show "\<exists>d. fm_find (ag_map (is_agent s)) d = Some r" using bucket_entry(1) [OF assms] by blast
next
  assume "\<exists>d. fm_find (ag_map (is_agent s)) d = Some r"
  then obtain d where d: "fm_find (ag_map (is_agent s)) d = Some r" by blast
  have w: "fm_wf (ag_map (is_agent s))" using assms by (simp add: agent_ok_def fm_free_def)
  have "map_of (fm_bucket (ag_map (is_agent s)) ! HashToBucket (ag_map (is_agent s)) d) d = Some r"
    using d fm_find_bucket [OF w, of d] by simp
  then have "(d, r) \<in> set (fm_bucket (ag_map (is_agent s)) ! HashToBucket (ag_map (is_agent s)) d)" by (rule map_of_SomeD)
  then show "r \<in> set (table_flows s)" using HashToBucket_lt [OF w, of d] by (force simp: bucket_flows_def)
qed

lemma fm_find_purged:
  assumes "fm_free m" "fm_free m'" "m' = m\<lparr>fm_bucket := filter_buckets (\<lambda>(_, r). Q r) [0..<GetBuckets m] (fm_bucket m)\<rparr>"
  shows "fm_find m' d = (case fm_find m d of None \<Rightarrow> None | Some r \<Rightarrow> if Q r then Some r else None)"
proof -
  have w: "fm_wf m" "fm_wf m'" using assms by (simp_all add: fm_free_def)
  let ?h = "HashToBucket m d"
  have h: "HashToBucket m' d = ?h" by (simp add: assms(3) HashToBucket_def GetBuckets_def filter_buckets_def)
  have lt: "?h < length (fm_bucket m)" using HashToBucket_lt [OF w(1)] by (simp add: GetBuckets_def)
  have b: "fm_bucket m' ! ?h = filter (\<lambda>(_, r). Q r) (fm_bucket m ! ?h)"
    using lt by (simp add: assms(3) filter_buckets_def GetBuckets_def)
  have "distinct (map fst (fm_bucket m ! ?h))" using w(1) lt by (simp add: fm_wf_def GetBuckets_def)
  then have "map_of (filter (\<lambda>(_, r). Q r) (fm_bucket m ! ?h)) d
      = (case map_of (fm_bucket m ! ?h) d of None \<Rightarrow> None | Some r \<Rightarrow> if Q r then Some r else None)"
    using map_of_filter_value [of "fm_bucket m ! ?h" Q d] by (simp add: case_prod_unfold split: option.splits)
  then show ?thesis using fm_find_bucket [OF w(1), of d] fm_find_bucket [OF w(2), of d] by (simp add: h b)
qed

lemma ProcessFlows_result:
  assumes "agent_ok (is_agent s)"
  shows "\<exists>s1. ProcessFlows C T now s = CDone (upd_agent (\<lambda>A. A\<lparr>ag_flows := size_minus (ag_flows (is_agent s)) (length (filter (purges C T now s) (table_flows s)))\<rparr>)
          (upd_status (\<lambda>i. i\<lparr>si_flows_prev := ag_flows (is_agent s)\<rparr>) s1))
    \<and> ag_queue (is_agent s1) = ag_queue (is_agent s) @ ask_entries C T now s (table_flows s)
    \<and> is_held s1 = is_held s \<and> is_conntrack s1 = is_conntrack s \<and> is_ndpi s1 = is_ndpi s
    \<and> length (ag_store (is_agent s1)) = length (ag_store (is_agent s))
    \<and> (\<forall>k < length (ag_store (is_agent s)). flow_at s1 k = (if k \<in> set (table_flows s) then visit C T now (flow_at s k) else flow_at s k))
    \<and> agent_ok (is_agent s1)
    \<and> (\<forall>d. fm_find (ag_map (is_agent s1)) d
         = (case fm_find (ag_map (is_agent s)) d of None \<Rightarrow> None | Some r \<Rightarrow> if purges C T now s r then None else Some r))
    \<and> table_flows s1 = filter (\<lambda>r. \<not> purges C T now s r) (table_flows s)"
proof -
  let ?m = "ag_map (is_agent s)" and ?bs = "[0..<GetBuckets (ag_map (is_agent s))]"
  define s0 where "s0 = upd_status (\<lambda>i. i\<lparr>si_flows_purged := 0, si_flows_expiring := 0, si_flows_expired := 0,
      si_flows_active := 0, si_flows_in_use := 0\<rparr>) s"
  have 0: "is_agent s0 = is_agent s" "is_held s0 = is_held s" "is_conntrack s0 = is_conntrack s" "is_ndpi s0 = is_ndpi s"
    "si_flows_purged (is_status s0) = 0" "purges C T now s0 = purges C T now s" "ask_entries C T now s0 = ask_entries C T now s"
    "bucket_flows s0 = bucket_flows s"
    by (simp_all add: s0_def purges_def use_count_def ask_entries_def bucket_flows_def fun_eq_iff)
  obtain s1 where s1: "process_buckets C T now ?bs s0 = CDone s1" "visited C T now (table_flows s) s0 s1"
    "ag_map (is_agent s1) = ?m\<lparr>fm_bucket := filter_buckets (\<lambda>(_, r). \<not> purges C T now s r) ?bs (fm_bucket ?m)\<rparr>"
    "agent_ok (is_agent s1)"
    using process_buckets_visited [of s0 ?bs C T now] assms by (auto simp: 0)
  have v: "ag_flows (is_agent s1) = ag_flows (is_agent s)"
    "ag_queue (is_agent s1) = ag_queue (is_agent s) @ ask_entries C T now s (table_flows s)"
    "is_held s1 = is_held s" "is_conntrack s1 = is_conntrack s" "is_ndpi s1 = is_ndpi s"
    "length (ag_store (is_agent s1)) = length (ag_store (is_agent s))"
    "\<forall>k < length (ag_store (is_agent s)). flow_at s1 k = (if k \<in> set (table_flows s) then visit C T now (flow_at s k) else flow_at s k)"
    "si_flows_purged (is_status s1) = length (filter (purges C T now s) (table_flows s))"
    using s1(2) by (simp_all add: visited_def 0)
  have fr: "fm_free ?m" "fm_free (ag_map (is_agent s1))" using assms s1(4) by (simp_all add: agent_ok_def)
  have r: "ProcessFlows C T now s = CDone (upd_agent (\<lambda>A. A\<lparr>ag_flows := size_minus (ag_flows (is_agent s)) (length (filter (purges C T now s) (table_flows s)))\<rparr>)
      (upd_status (\<lambda>i. i\<lparr>si_flows_prev := ag_flows (is_agent s)\<rparr>) s1))"
    unfolding ProcessFlows_def Let_def s0_def [symmetric] by (simp add: 0(1) s1(1) v(1,8))
  have find: "\<forall>d. fm_find (ag_map (is_agent s1)) d
      = (case fm_find ?m d of None \<Rightarrow> None | Some r \<Rightarrow> if purges C T now s r then None else Some r)"
    using fm_find_purged [OF fr s1(3)] by (simp split: option.split)
  have g: "GetBuckets (ag_map (is_agent s1)) = GetBuckets ?m" by (simp add: s1(3) GetBuckets_def filter_buckets_def)
  have "table_flows s1 = filter (\<lambda>r. \<not> purges C T now s r) (table_flows s)"
    unfolding g unfolding bucket_flows_def s1(3)
    by (auto simp: filter_concat filter_buckets_def GetBuckets_def filter_map o_def case_prod_unfold
        intro!: arg_cong [of _ _ concat] map_cong)
  then show ?thesis using r v(2-7) s1(4) find by blast
qed

text \<open>
  C6. The update removes exactly the flows that are expired, after idle flows have been
  marked, and that nothing but the table refers to; it visits every other flow of the table
  once and leaves no bucket locked.
\<close>

theorem flows_purged_exactly:
  assumes "agent_ok (is_agent s)"
  shows "\<exists>s'. ProcessFlows C T now s = CDone s' \<and> agent_ok (is_agent s')
    \<and> (\<forall>d. fm_find (ag_map (is_agent s')) d = (case fm_find (ag_map (is_agent s)) d of None \<Rightarrow> None
         | Some r \<Rightarrow> if ff_expired (fl_flags (aged C T now (flow_at s r))) \<and> use_count s r = 1 then None else Some r))
    \<and> (\<forall>d r. fm_find (ag_map (is_agent s)) d = Some r \<longrightarrow> flow_at s' r = visit C T now (flow_at s r))"
proof -
  obtain s1 where s1: "ProcessFlows C T now s = CDone (upd_agent (\<lambda>A. A\<lparr>ag_flows := size_minus (ag_flows (is_agent s)) (length (filter (purges C T now s) (table_flows s)))\<rparr>)
          (upd_status (\<lambda>i. i\<lparr>si_flows_prev := ag_flows (is_agent s)\<rparr>) s1))"
    "\<forall>k < length (ag_store (is_agent s)). flow_at s1 k = (if k \<in> set (table_flows s) then visit C T now (flow_at s k) else flow_at s k)"
    "agent_ok (is_agent s1)"
    "\<forall>d. fm_find (ag_map (is_agent s1)) d
         = (case fm_find (ag_map (is_agent s)) d of None \<Rightarrow> None | Some r \<Rightarrow> if purges C T now s r then None else Some r)"
    using ProcessFlows_result [OF assms, of C T now] by blast
  have "flow_at s1 r = visit C T now (flow_at s r)" if "fm_find (ag_map (is_agent s)) d = Some r" for d r
  proof -
    have "r < length (ag_store (is_agent s))" using assms that by (auto simp: agent_ok_def)
    moreover have "r \<in> set (table_flows s)" using table_flows_set [OF assms] that by blast
    ultimately show ?thesis using s1(2) by simp
  qed
  moreover have "agent_ok (is_agent s1\<lparr>ag_flows := n\<rparr>)" for n using s1(3) by (simp add: agent_ok_def)
  ultimately show ?thesis using s1(1) s1(4) [unfolded purges_def] by simp
qed

section \<open>Flows through the capture\<close>

text \<open>What a packet keeps of the detection, and of the end of a flow; only a full reset takes the end back.\<close>

definition app_part :: "nd_flow \<Rightarrow> nat \<times> string \<times> nat" where
  "app_part f = (fl_detected_application f, fl_detected_application_name f, fc_application (fl_category f))"

definition end_part :: "nd_flow \<Rightarrow> bool \<times> bool" where
  "end_part f = (ff_expiring (fl_flags f), ff_expired (fl_flags f))"

definition packet_keeps :: "nd_flow \<Rightarrow> nd_flow \<Rightarrow> bool" where
  "packet_keeps f f' \<longleftrightarrow> app_part f' = app_part f \<and> (end_part f' = end_part f \<or> end_part f' = (False, False))"

lemma packet_keeps_refl: "packet_keeps f f"
  by (simp add: packet_keeps_def)

lemma packet_keeps_trans: "packet_keeps f g \<Longrightarrow> packet_keeps g h \<Longrightarrow> packet_keeps f h"
  by (auto simp: packet_keeps_def)

lemma packet_keeps_step:
  "packet_keeps f (set_teid l teid f)" "packet_keeps f (account_flow E p ts c f)" "packet_keeps f (flow_Reset full f)"
  "packet_keeps f (f\<lparr>fl_dpi_thread_id := k\<rparr>)" "packet_keeps f (f\<lparr>fl_union := u\<rparr>)" "packet_keeps f (f\<lparr>fl_host_server_name := h\<rparr>)"
  "packet_keeps f (f\<lparr>fl_dns_host_name := h\<rparr>)"
  by (simp_all add: packet_keeps_def app_part_def end_part_def set_teid_def account_flow_def flow_Reset_def Let_def)

lemma update_teid_keeps: "update_teid p gtp c nf = CDone nf' \<Longrightarrow> packet_keeps nf nf'"
  using packet_keeps_step(1) packet_keeps_refl
  by (auto simp: update_teid_def cbind_CDone_iff split: if_splits option.splits flow_origin.splits)

lemma new_teid_keeps: "new_teid p gtp nf = CDone nf' \<Longrightarrow> packet_keeps nf nf'"
  using packet_keeps_step(1) packet_keeps_refl
  by (auto simp: new_teid_def cbind_CDone_iff split: option.splits flow_origin.splits tunnel_type.splits)

lemma account_tcp_keeps: "account_tcp tcp nf st = (nf', st') \<Longrightarrow> packet_keeps nf nf'"
  by (auto simp: account_tcp_def Let_def packet_keeps_def app_part_def end_part_def split: option.splits if_splits)

lemma dns_answer_keeps: "dns_answer E n m proto host rr (f, c) = CDone (f', c') \<Longrightarrow> packet_keeps f f'"
  using packet_keeps_step(5) packet_keeps_refl
  by (auto simp: dns_answer_def cbind_CDone_iff Let_def split: if_splits option.splits)

lemma dns_answers_keeps: "dns_answers E n m proto host rrs (f, c) = CDone (f', c') \<Longrightarrow> packet_keeps f f'"
proof (induction rrs arbitrary: f c)
  case (Cons rr rrs)
  show ?case
  proof (cases rr)
    case (Some r)
    then obtain f1 c1 where a: "dns_answer E n m proto host r (f, c) = CDone (f1, c1)"
      and b: "dns_answers E n m proto host rrs (f1, c1) = CDone (f', c')"
      using Cons.prems by (auto simp: cbind_CDone_iff)
    show ?thesis by (rule packet_keeps_trans [OF dns_answer_keeps [OF a] Cons.IH [OF b]])
  qed (use Cons packet_keeps_refl in auto)
qed (simp add: packet_keeps_refl)

lemma dns_stage_keeps:
  assumes "dns_stage E n p payload f nf A = CDone (nf', A')"
  shows "packet_keeps nf nf'" "ag_queue A' = ag_queue A"
proof -
  have d: "packet_keeps nf nf1" if "ProcessDNSPacket E n m proto nf c = CDone (q, nf1, c1)" for m proto c q nf1 c1
    using that packet_keeps_refl
    by (auto simp: ProcessDNSPacket_def Let_def cbind_CDone_iff dest: dns_answers_keeps split: option.splits if_splits)
  have r: "packet_keeps nf1 ((flow_Reset True nf1)\<lparr>fl_stats := st\<rparr>)" for nf1 st
    using packet_keeps_step(3) [of nf1 True] by (simp add: packet_keeps_def app_part_def end_part_def)
  show "packet_keeps nf nf'"
    using assms packet_keeps_refl [of nf] packet_keeps_trans [OF d r] d
    by (auto simp: dns_stage_def cbind_CDone_iff Let_def split: option.splits if_splits)
  show "ag_queue A' = ag_queue A"
    using assms by (auto simp: dns_stage_def cbind_CDone_iff Let_def split: option.splits if_splits)
qed

lemma queue_stage_keeps:
  assumes "queue_stage C p l2 r nf t A = CDone (q, nf', t', A')"
  shows "packet_keeps nf nf'" "\<exists>es. ag_queue A' = ag_queue A @ es \<and> (\<forall>(k, i, e) \<in> set es. i = r)"
  using assms packet_keeps_refl packet_keeps_step(4) by (auto simp: queue_stage_def Let_def split: if_splits)

lemma account_keeps:
  assumes "account_tcp tcp (account_flow E p ts c nf) st = (nf1, st1)"
  shows "packet_keeps nf nf1"
  by (rule packet_keeps_trans [OF packet_keeps_step(2) account_tcp_keeps [OF assms]])

text \<open>The two ways in which a packet gets its flow.\<close>

lemma find_flow_cases:
  assumes "find_flow C ts p d c gtp tcp f A = CDone (FFlow r A')" "agent_ok A"
  obtains (old) nf where "fm_find (ag_map A) d = Some r" "packet_keeps (ag_store A ! r) nf" "A' = A\<lparr>ag_store := (ag_store A)[r := nf]\<rparr>"
  | (new) nf m where "fm_find (ag_map A) d = None" "r = length (ag_store A)" "fm_insert (ag_map A) d r = (True, m)"
      "packet_keeps (new_flow C ts c tcp f) nf" "cf_max_flows C > 0 \<longrightarrow> ag_flows A < cf_max_flows C"
      "A' = A\<lparr>ag_map := m, ag_store := ag_store A @ [nf], ag_flows := ag_flows A + 1, ag_events := ag_events A + 1\<rparr>"
proof -
  let ?r = "length (ag_store A)"
  have m: "fm_free (ag_map A)" using assms(2) by (simp add: agent_ok_def)
  note session = fm_locked_session [OF m, of d]
  show thesis
  proof (cases "fm_find (ag_map A) d")
    case (Some k)
    then obtain nf where nf: "update_teid p gtp c (ag_store A ! k) = CDone nf" "r = k" "A' = A\<lparr>ag_store := (ag_store A)[k := nf]\<rparr>"
      using assms(1) by (auto simp: find_flow_def session(1,2) cbind_CDone_iff Let_def)
    show thesis using old Some nf update_teid_keeps [OF nf(1)] by simp
  next
    case None
    obtain m2 where m2: "fm_InsertUnlocked (fm_lock (ag_map A) (HashToBucket (ag_map A) d)) d ?r = Done (True, m2)"
      "fm_Release_digest m2 d = Done (snd (fm_insert (ag_map A) d ?r))"
      using session(3) [of ?r] None by auto
    obtain nf where nf: "new_teid p gtp (new_flow C ts c tcp f) = CDone nf" "cf_max_flows C > 0 \<longrightarrow> ag_flows A < cf_max_flows C"
      "r = ?r" "A' = A\<lparr>ag_map := snd (fm_insert (ag_map A) d ?r), ag_store := ag_store A @ [nf],
                          ag_flows := ag_flows A + 1, ag_events := ag_events A + 1\<rparr>"
      using assms(1) None by (auto simp: find_flow_def session(1,2) cbind_CDone_iff Let_def m2 split: if_splits)
    have "fst (fm_insert (ag_map A) d ?r)" using fm_Insert_free [OF m, of d ?r] None by (auto simp: fm_insert_def)
    then show thesis using new [OF None nf(3) _ new_teid_keeps [OF nf(1)] nf(2)] nf(3,4)
      by (cases "fm_insert (ag_map A) d ?r") simp
  qed
qed

definition table_size :: "agent \<Rightarrow> nat" where
  "table_size A = length (concat (fm_bucket (ag_map A)))"

lemma length_concat_update:
  "b < length xss \<Longrightarrow> length (concat (xss[b := ys])) + length (xss ! b) = length (concat xss) + length ys"
proof (induction xss arbitrary: b)
  case (Cons x xss)
  show ?case
  proof (cases b)
    case (Suc c)
    then show ?thesis using Cons.IH [of c] Cons.prems by simp
  qed simp
qed simp

lemma fm_insert_size:
  assumes "fm_free m" "fm_insert m d f = (True, m')"
  shows "length (concat (fm_bucket m')) = Suc (length (concat (fm_bucket m)))"
proof -
  let ?b = "HashToBucket m d"
  have b: "?b < length (fm_bucket m)" using assms(1) HashToBucket_lt [of m d] by (simp add: fm_free_def GetBuckets_def)
  have "fm_bucket m' = (fm_bucket m)[?b := (d, f) # fm_bucket m ! ?b]"
    using assms fm_locks(1) [OF assms(1), of d]
    by (auto simp: fm_insert_def fm_Insert_def Let_def fm_lock_def fm_unlock_def HashToBucket_def GetBuckets_def split: if_splits)
  then show ?thesis using length_concat_update [OF b, of "(d, f) # fm_bucket m ! ?b"] by simp
qed

text \<open>A flow about which nothing is known, as it is inserted.\<close>

definition fresh_part :: "nd_flow \<Rightarrow> bool" where
  "fresh_part f \<longleftrightarrow> app_part f = (0, [], 0) \<and> end_part f = (False, False)"

lemma new_flow_fresh: "fresh_part (new_flow C ts c tcp f)"
  by (simp add: fresh_part_def new_flow_def nd_flow_copy_def nd_flow_new_def flow_flags_new_def app_part_def end_part_def Let_def)

lemma fresh_keeps: "fresh_part f \<Longrightarrow> packet_keeps f g \<Longrightarrow> fresh_part g"
  by (auto simp: fresh_part_def packet_keeps_def)

definition packet_effect :: "capture_config \<Rightarrow> agent \<Rightarrow> agent \<Rightarrow> bool" where
  "packet_effect C A A' \<longleftrightarrow> agent_ok A' \<and> fm_find (ag_map A) \<subseteq>\<^sub>m fm_find (ag_map A')
     \<and> (\<exists>es. ag_queue A' = ag_queue A @ es \<and> (\<forall>(k, i, e) \<in> set es. \<exists>d. fm_find (ag_map A') d = Some i))
     \<and> length (ag_store A) \<le> length (ag_store A')
     \<and> (\<forall>k < length (ag_store A). packet_keeps (ag_store A ! k) (ag_store A' ! k))
     \<and> (\<forall>k < length (ag_store A'). length (ag_store A) \<le> k \<longrightarrow> fresh_part (ag_store A' ! k))
     \<and> (\<forall>d r. fm_find (ag_map A') d = Some r \<longrightarrow> fm_find (ag_map A) d = Some r \<or> length (ag_store A) \<le> r)
     \<and> ag_flows A' + table_size A = ag_flows A + table_size A'
     \<and> (0 < cf_max_flows C \<and> ag_flows A \<le> cf_max_flows C \<longrightarrow> ag_flows A' \<le> cf_max_flows C)"

lemma flow_packet_effect:
  assumes "flow_packet E C passes ts p s l t A = CDone (q, t', A')" "agent_ok A"
  shows "packet_effect C A A'"
  using assms
proof (cases rule: flow_packet_cases)
  case dropped
  then show ?thesis using assms(2) by (simp add: packet_effect_def packet_keeps_refl)
next
  case (found r A1 nf1 st nf2 A2 nf)
  note table = flow_packet_table [OF assms]
  obtain A3 t1 where q: "queue_stage C p (ip_l2_len s) r nf2 t1 A2 = CDone (q, nf, t', A3)"
    "A' = A3\<lparr>ag_store := (ag_store A3)[r := nf]\<rparr>" using found(4) by auto
  have k: "packet_keeps (ag_store A1 ! r) nf"
    by (rule packet_keeps_trans [OF packet_keeps_trans [OF account_keeps [OF found(2)] dns_stage_keeps(1) [OF found(3)]]
          queue_stage_keeps(1) [OF q(1)]])
  obtain es where es: "ag_queue A3 = ag_queue A2 @ es" "\<forall>(k, i, e) \<in> set es. i = r"
    using queue_stage_keeps(2) [OF q(1)] by blast
  note D = dns_stage_kept [OF found(3)] dns_stage_keeps(2) [OF found(3)] and Q = queue_stage_kept [OF q(1)]
  have A': "ag_map A' = ag_map A1" "ag_store A' = (ag_store A1)[r := nf]" "ag_queue A' = ag_queue A1 @ es" "ag_flows A' = ag_flows A1"
    using q(2) Q D es(1) by simp_all
  from found(1) assms(2) show ?thesis
  proof (cases rule: find_flow_cases)
    case (old nf0)
    have r: "r < length (ag_store A)" using old(1) assms(2) by (auto simp: agent_ok_def)
    have "packet_keeps (ag_store A ! r) nf" using packet_keeps_trans [OF old(2)] k r old(3) by simp
    then have keeps: "\<forall>j < length (ag_store A). packet_keeps (ag_store A ! j) (ag_store A' ! j)"
      using r by (simp add: A' old(3) nth_list_update packet_keeps_refl)
    have "\<exists>d. fm_find (ag_map A') d = Some r" using old(1) by (auto simp: A' old(3))
    then show ?thesis using table keeps es(2) by (auto simp: packet_effect_def A' old(3) table_size_def)
  next
    case (new nf0 m)
    have "fresh_part nf" using fresh_keeps [OF fresh_keeps [OF new_flow_fresh new(4)]] k new(2,6) by simp
    moreover have "fm_find m = (fm_find (ag_map A))(fl_digest_lower (flow_Hash (ce_sha1 E) 0 [] (ct_tag t) False None (l4_flow l)) \<mapsto> r)"
      using new(1,3) fm_Insert_free [of "ag_map A" "fl_digest_lower (flow_Hash (ce_sha1 E) 0 [] (ct_tag t) False None (l4_flow l))" r]
        assms(2) by (auto simp: agent_ok_def fm_insert_def)
    moreover have "table_size A' = Suc (table_size A)"
      using fm_insert_size [OF _ new(3)] assms(2) by (simp add: table_size_def A' new(6) agent_ok_def)
    ultimately show ?thesis using table es(2) new(1,2,5)
      by (auto simp: packet_effect_def A' new(6) nth_append nth_list_update packet_keeps_refl less_Suc_eq)
  qed
qed

lemma ProcessPacket_effect:
  assumes "ProcessPacket E C jumps passes p t A = CDone (q, t', A')" "agent_ok A"
  shows "packet_effect C A A'"
  using assms(1)
proof (cases rule: ProcessPacket_done)
  case discarded
  then show ?thesis using assms(2) by (simp add: packet_effect_def packet_keeps_refl)
next
  case (flow s l)
  then show ?thesis using flow_packet_effect assms(2) by blast
qed

section \<open>The invariant of the agent\<close>

abbreviation in_table :: "instance_state \<Rightarrow> nat \<Rightarrow> bool" where
  "in_table s r \<equiv> \<exists>d. fm_find (ag_map (is_agent s)) d = Some r"

definition flows_ok :: "'rx det_env \<Rightarrow> instance_state \<Rightarrow> bool" where
  "flows_ok E s \<longleftrightarrow> (\<forall>d r. fm_find (ag_map (is_agent s)) d = Some r \<longrightarrow> r < length (ag_store (is_agent s)) \<and> fl_digest_lower (flow_at s r) = d)
     \<and> (\<forall>k < length (ag_store (is_agent s)). app_ok E (flow_at s k))"

text \<open>Whatever refers to a flow refers to one of the table, and an expiring flow has the request for its end in a queue.\<close>

definition refs_ok :: "capture_config \<Rightarrow> instance_state \<Rightarrow> bool" where
  "refs_ok C s \<longleftrightarrow> (\<forall>(k, r, e) \<in> set (ag_queue (is_agent s)). in_table s r) \<and> (\<forall>r \<in> set (is_held s). in_table s r)
     \<and> (\<forall>r. in_table s r \<and> ff_expiring (fl_flags (flow_at s r)) \<and> \<not> ff_expired (fl_flags (flow_at s r))
          \<longrightarrow> (\<exists>k. 0 \<le> k \<and> k < int (cf_threads C) \<and> (k, r, None) \<in> set (ag_queue (is_agent s))))"

definition size_ok :: "capture_config \<Rightarrow> agent \<Rightarrow> bool" where
  "size_ok C A \<longleftrightarrow> ag_flows A = table_size A \<and> (0 < cf_max_flows C \<longrightarrow> ag_flows A \<le> cf_max_flows C)"

definition conntrack_ok :: "instance_state \<Rightarrow> bool" where
  "conntrack_ok s \<longleftrightarrow> (case is_conntrack s of None \<Rightarrow> True | Some c \<Rightarrow> \<not> ct_locked c)"

definition inst_ok :: "capture_config \<Rightarrow> 'rx det_env \<Rightarrow> instance_state \<Rightarrow> bool" where
  "inst_ok C E s \<longleftrightarrow> fm_free (ag_map (is_agent s)) \<and> flows_ok E s \<and> refs_ok C s \<and> size_ok C (is_agent s) \<and> conntrack_ok s"

lemma inst_agent_ok: "inst_ok C E s \<Longrightarrow> agent_ok (is_agent s)"
  by (simp add: inst_ok_def flows_ok_def agent_ok_def)

lemma app_ok_part: "app_part f = app_part g \<Longrightarrow> app_ok E f = app_ok E g"
  by (simp add: app_part_def app_ok_def)

lemma fresh_app_ok: "fresh_part f \<Longrightarrow> app_ok E f"
  by (simp add: fresh_part_def app_part_def app_ok_def ND_APP_UNKNOWN_def ND_CAT_UNKNOWN_def)

lemma end_part_eq: "end_part f = end_part g \<longleftrightarrow> ff_expiring (fl_flags f) = ff_expiring (fl_flags g) \<and> ff_expired (fl_flags f) = ff_expired (fl_flags g)"
  by (auto simp: end_part_def)

lemma capture_inst_ok:
  assumes "inst_ok C E s" "ProcessPacket CE C jumps passes p t (is_agent s) = CDone (q, t', A')"
  shows "inst_ok C E (s\<lparr>is_agent := A'\<rparr>)"
proof -
  let ?A = "is_agent s" and ?s' = "s\<lparr>is_agent := A'\<rparr>"
  note e = ProcessPacket_effect [OF assms(2) inst_agent_ok [OF assms(1)], unfolded packet_effect_def]
  have le: "fm_find (ag_map ?A) \<subseteq>\<^sub>m fm_find (ag_map A')" using e by blast
  have sub: "in_table ?s' r" if r: "in_table s r" for r
  proof -
    obtain d where "fm_find (ag_map ?A) d = Some r" using r by blast
    then have "fm_find (ag_map A') d = Some r" using le by (metis domI map_le_def)
    then show ?thesis by auto
  qed
  obtain es where es: "ag_queue A' = ag_queue ?A @ es" "\<forall>(k, i, e) \<in> set es. \<exists>d. fm_find (ag_map A') d = Some i" using e by blast
  have keeps: "packet_keeps (flow_at s k) (ag_store A' ! k)" if "k < length (ag_store ?A)" for k using e that by blast
  have fresh: "fresh_part (ag_store A' ! k)" if "k < length (ag_store A')" "length (ag_store ?A) \<le> k" for k using e that by blast
  have ok: "agent_ok A'" using e by blast
  have flows: "flows_ok E ?s'"
  proof -
    have "app_ok E (ag_store A' ! k)" if k: "k < length (ag_store A')" for k
    proof (cases "k < length (ag_store ?A)")
      case True
      then have "app_part (ag_store A' ! k) = app_part (flow_at s k)" using keeps by (simp add: packet_keeps_def)
      then show ?thesis using app_ok_part assms(1) True unfolding inst_ok_def flows_ok_def by blast
    qed (use fresh [OF k] fresh_app_ok in auto)
    then show ?thesis using ok by (auto simp: flows_ok_def agent_ok_def)
  qed
  have "\<exists>k. 0 \<le> k \<and> k < int (cf_threads C) \<and> (k, r, None) \<in> set (ag_queue A')"
    if t: "fm_find (ag_map A') d = Some r" and x: "ff_expiring (fl_flags (ag_store A' ! r))" "\<not> ff_expired (fl_flags (ag_store A' ! r))" for d r
  proof -
    have r: "r < length (ag_store A')" using t ok by (auto simp: agent_ok_def)
    have "\<not> fresh_part (ag_store A' ! r)" using x by (simp add: fresh_part_def end_part_def)
    then have l: "r < length (ag_store ?A)" using fresh [OF r] by (meson not_less)
    then have o: "in_table s r" using t e by (meson not_less)
    have "end_part (ag_store A' ! r) = end_part (flow_at s r)" using keeps [OF l] x by (auto simp: packet_keeps_def end_part_def)
    then have "ff_expiring (fl_flags (flow_at s r))" "\<not> ff_expired (fl_flags (flow_at s r))" using x by (simp_all add: end_part_eq)
    then show ?thesis using o assms(1) es(1) unfolding inst_ok_def refs_ok_def by (metis UnCI set_append)
  qed
  moreover have "in_table ?s' i" if q: "(k, i, e) \<in> set (ag_queue A')" for k i e
  proof (cases "(k, i, e) \<in> set (ag_queue ?A)")
    case True
    then have "in_table s i" using assms(1) unfolding inst_ok_def refs_ok_def by blast
    then show ?thesis by (rule sub)
  qed (use q es in auto)
  moreover have "in_table ?s' i" if "i \<in> set (is_held s)" for i
    using assms(1) that sub [of i] unfolding inst_ok_def refs_ok_def by blast
  ultimately have refs: "refs_ok C ?s'" by (auto simp: refs_ok_def)
  have size: "size_ok C A'" using e assms(1) by (auto simp: inst_ok_def size_ok_def)
  show ?thesis using ok flows refs size assms(1) by (simp add: inst_ok_def agent_ok_def conntrack_ok_def)
qed

lemma process_entry_result:
  assumes "det_ready E s" "process_entry E packet s = CDone s'"
  shows "entry_done E (ds_flow s) s'"
proof (cases "entry_last E (entry_count E (ds_flow s)) \<longrightarrow> fl_ndpi_flow (ds_flow s) \<or> packet \<noteq> None \<or> entry_counted E (ds_flow s)")
  case True
  show ?thesis by (rule ends_CDoneD [OF process_entry_done [OF assms(1) True] assms(2)])
next
  case False
  then have c: "\<not> entry_counted E (ds_flow s)" "\<not> fl_ndpi_flow (ds_flow s)" "packet = None" "entry_last E (ds_flow s)"
    by (auto simp: entry_count_def)
  have "process_entry E packet s
      = cbind (if entry_counted E (ds_flow s) then det_ProcessPacket E (case packet of None \<Rightarrow> [] | Some d \<Rightarrow> d) (upd_flow bump_packets s) else CDone s)
          (\<lambda>t. cbind (if entry_last E (ds_flow t) then finish_entry E packet t else CDone t)
            (\<lambda>u. CDone (if is_complete u then upd_flow flow_Release u else u)))"
    by (simp only: process_entry_def Let_def entry_counted_def entry_last_def flow_packets_def bump_packets_def)
  then show ?thesis using assms(2) c by (simp add: finish_entry_def ProcessFlow_def)
qed

lemma after_entry_end:
  assumes "conn_part f' = conn_part (after_entry E f)"
  shows "ff_expiring (fl_flags f') \<longrightarrow> ff_expired (fl_flags f')" "fl_digest_lower f' = fl_digest_lower f"
proof -
  have "fl_digest_lower f' = fl_digest_lower (after_entry E f)" using assms by (simp add: conn_part_def)
  then show "fl_digest_lower f' = fl_digest_lower f" by (simp add: after_entry_def entry_expire_def entry_count_def bump_packets_def)
  show "ff_expiring (fl_flags f') \<longrightarrow> ff_expired (fl_flags f')"
    using conn_flags [OF assms] by (auto simp: after_entry_def entry_expire_def entry_last_def)
qed

lemma det_state_ready:
  assumes "inst_ok C E s" "in_table s r"
  shows "det_ready E (det_state_of r s)"
proof -
  have "r < length (ag_store (is_agent s))" using assms by (auto simp: inst_ok_def flows_ok_def)
  then show ?thesis using assms(1) by (simp add: det_ready_def det_state_of_def inst_ok_def flows_ok_def ct_free_def conntrack_ok_def)
qed

lemma detect_inst_ok:
  assumes "inst_ok C E s" "dpi_step E k s = CDone s'"
  shows "inst_ok C E s'"
proof (cases "take_entry k (ag_queue (is_agent s))")
  case (Some x)
  obtain r packet q where x: "x = ((r, packet), q)" by (metis surj_pair)
  obtain xs ys where q: "ag_queue (is_agent s) = xs @ (k, r, packet) # ys" "q = xs @ ys"
    using take_entry_split Some x by metis
  obtain d where d: "process_entry E (map_option entry_data packet) (det_state_of r s) = CDone d"
    "s' = put_det r d (upd_agent (\<lambda>A. A\<lparr>ag_queue := q\<rparr>) s)"
    using assms(2) Some x by (auto simp: dpi_step_def cbind_CDone_iff)
  have t: "in_table s r" using assms(1) q(1) by (auto simp: inst_ok_def refs_ok_def)
  then have r: "r < length (ag_store (is_agent s))" using assms(1) by (auto simp: inst_ok_def flows_ok_def)
  have ended: "entry_done E (flow_at s r) d"
    using process_entry_result [OF det_state_ready [OF assms(1) t] d(1)] by (simp add: det_state_of_def)
  note e = after_entry_end [of "ds_flow d" E "flow_at s r"]
  have f: "flow_at s' j = (if j = r then ds_flow d else flow_at s j)" if "j < length (ag_store (is_agent s))" for j
    using that by (simp add: d(2) put_det_def put_flow_def nth_list_update)
  have same: "ag_map (is_agent s') = ag_map (is_agent s)" "length (ag_store (is_agent s')) = length (ag_store (is_agent s))"
    "ag_queue (is_agent s') = q" "is_held s' = is_held s" "ag_flows (is_agent s') = ag_flows (is_agent s)"
    "is_conntrack s' = ds_conntrack d"
    by (simp_all add: d(2) put_det_def put_flow_def)
  have flows: "flows_ok E s'"
    using assms(1) ended e f unfolding inst_ok_def flows_ok_def same entry_done_def det_ready_def by simp
  have refs: "refs_ok C s'"
    unfolding refs_ok_def same
  proof (intro conjI allI impI)
    fix j assume j: "in_table s j \<and> ff_expiring (fl_flags (flow_at s' j)) \<and> \<not> ff_expired (fl_flags (flow_at s' j))"
    have l: "j < length (ag_store (is_agent s))" using j assms(1) by (auto simp: inst_ok_def flows_ok_def)
    have n: "j \<noteq> r" using j f [OF r] e(1) ended by (auto simp: entry_done_def)
    then have "ff_expiring (fl_flags (flow_at s j)) \<and> \<not> ff_expired (fl_flags (flow_at s j))" using j f [OF l] by simp
    then obtain i where i: "0 \<le> i" "i < int (cf_threads C)" "(i, j, None) \<in> set (ag_queue (is_agent s))"
      using j assms(1) unfolding inst_ok_def refs_ok_def by blast
    then show "\<exists>k. 0 \<le> k \<and> k < int (cf_threads C) \<and> (k, j, None) \<in> set q" using n q by auto
  qed (use assms(1) q in \<open>auto simp: inst_ok_def refs_ok_def\<close>)
  have "conntrack_ok s'" using ended by (simp add: conntrack_ok_def same entry_done_def det_ready_def ct_free_def)
  then show ?thesis using assms(1) flows refs by (auto simp: inst_ok_def same size_ok_def table_size_def)
qed (use assms in \<open>simp add: dpi_step_def\<close>)

lemma table_size_flows: "table_size (is_agent s) = length (table_flows s)"
proof -
  have "map (\<lambda>b. map snd (fm_bucket (ag_map (is_agent s)) ! b)) [0..<length (fm_bucket (ag_map (is_agent s)))]
      = map (map snd) (fm_bucket (ag_map (is_agent s)))"
    by (rule nth_equalityI) auto
  then have "bucket_flows s [0..<GetBuckets (ag_map (is_agent s))] = map snd (concat (fm_bucket (ag_map (is_agent s))))"
    by (simp add: bucket_flows_def GetBuckets_def map_concat)
  then show ?thesis by (simp add: table_size_def)
qed

lemma referred_not_purged:
  "(k, r, e) \<in> set (ag_queue (is_agent s)) \<Longrightarrow> \<not> purges C T now s r" "r \<in> set (is_held s) \<Longrightarrow> \<not> purges C T now s r"
  by (auto simp: purges_def use_count_def filter_empty_conv count_list_0_iff)

lemma asks_not_expired: "asks C T now f \<Longrightarrow> \<not> ff_expired (fl_flags (aged C T now f))"
  by (auto simp: asks_def aged_def)

lemma visit_parts: "app_part (visit C T now f) = app_part f" "end_part (visit C T now f) = end_part (aged C T now f)"
proof -
  have a: "app_part (aged C T now f) = app_part f" by (simp add: aged_def app_part_def)
  have "app_part (flow_Reset False g) = app_part g" "end_part (flow_Reset False g) = end_part g" for g
    by (simp_all add: app_part_def end_part_def flow_Reset_def Let_def)
  then show "app_part (visit C T now f) = app_part f" "end_part (visit C T now f) = end_part (aged C T now f)"
    using a by (simp_all add: visit_def Let_def)
qed

lemma aged_end:
  "ff_expiring (fl_flags (aged C T now f)) \<Longrightarrow> \<not> ff_expired (fl_flags (aged C T now f)) \<Longrightarrow>
     asks C T now f \<or> ff_expiring (fl_flags f) \<and> \<not> ff_expired (fl_flags f)"
  by (auto simp: aged_def split: if_splits)

lemma update_inst_ok:
  assumes "inst_ok C E s" "ProcessFlows C T now s = CDone s'"
  shows "inst_ok C E s'"
proof -
  let ?t = "table_flows s"
  note ok = inst_agent_ok [OF assms(1)]
  obtain s1 where s1: "s' = upd_agent (\<lambda>A. A\<lparr>ag_flows := size_minus (ag_flows (is_agent s)) (length (filter (purges C T now s) ?t))\<rparr>)
          (upd_status (\<lambda>i. i\<lparr>si_flows_prev := ag_flows (is_agent s)\<rparr>) s1)"
    and q: "ag_queue (is_agent s1) = ag_queue (is_agent s) @ ask_entries C T now s ?t"
    and same: "is_held s1 = is_held s" "is_conntrack s1 = is_conntrack s"
      "length (ag_store (is_agent s1)) = length (ag_store (is_agent s))"
    and f: "\<forall>k < length (ag_store (is_agent s)). flow_at s1 k = (if k \<in> set ?t then visit C T now (flow_at s k) else flow_at s k)"
    and ok1: "agent_ok (is_agent s1)"
    and find: "\<forall>d. fm_find (ag_map (is_agent s1)) d
         = (case fm_find (ag_map (is_agent s)) d of None \<Rightarrow> None | Some r \<Rightarrow> if purges C T now s r then None else Some r)"
    and t1: "table_flows s1 = filter (\<lambda>r. \<not> purges C T now s r) ?t"
    using ProcessFlows_result [OF ok, of C T now] assms(2) by auto
  have tab: "in_table s1 r \<longleftrightarrow> in_table s r \<and> \<not> purges C T now s r" for r
    using find by (auto split: option.splits if_splits)
  have mem: "r \<in> set ?t \<longleftrightarrow> in_table s r" for r by (rule table_flows_set [OF ok])
  have less: "r < length (ag_store (is_agent s))" if "in_table s r" for r using that ok by (auto simp: agent_ok_def)
  have flows: "flows_ok E s1"
  proof -
    have "app_ok E (flow_at s1 k)" if "k < length (ag_store (is_agent s))" for k
    proof -
      have "app_part (flow_at s1 k) = app_part (flow_at s k)" using f that visit_parts(1) by simp
      then show ?thesis using app_ok_part assms(1) that unfolding inst_ok_def flows_ok_def by blast
    qed
    then show ?thesis using ok1 same(3) by (simp add: flows_ok_def agent_ok_def)
  qed
  have refs: "refs_ok C s1"
    unfolding refs_ok_def same(1) tab
  proof (intro conjI allI impI ballI)
    fix x assume x: "x \<in> set (ag_queue (is_agent s1))"
    obtain k r e where e: "x = (k, r, e)" by (cases x)
    have "in_table s r \<and> \<not> purges C T now s r"
    proof (cases "x \<in> set (ag_queue (is_agent s))")
      case True
      then show ?thesis using assms(1) referred_not_purged(1) e unfolding inst_ok_def refs_ok_def by blast
    next
      case False
      then have "r \<in> set ?t" "asks C T now (flow_at s r)" using x q e by (auto simp: ask_entries_def)
      then show ?thesis using mem asks_not_expired by (auto simp: purges_def)
    qed
    then show "case x of (k, r, e) \<Rightarrow> in_table s r \<and> \<not> purges C T now s r" by (simp add: e)
  next
    fix r assume "r \<in> set (is_held s)"
    then show "in_table s r" "\<not> purges C T now s r"
      using assms(1) referred_not_purged(2) unfolding inst_ok_def refs_ok_def by blast+
  next
    fix r assume r: "(in_table s r \<and> \<not> purges C T now s r) \<and> ff_expiring (fl_flags (flow_at s1 r)) \<and> \<not> ff_expired (fl_flags (flow_at s1 r))"
    then have "flow_at s1 r = visit C T now (flow_at s r)" using f less mem by auto
    then have "end_part (flow_at s1 r) = end_part (aged C T now (flow_at s r))" using visit_parts(2) by simp
    then have "ff_expiring (fl_flags (aged C T now (flow_at s r)))" "\<not> ff_expired (fl_flags (aged C T now (flow_at s r)))"
      using r by (simp_all add: end_part_eq)
    from aged_end [OF this] show "\<exists>k. 0 \<le> k \<and> k < int (cf_threads C) \<and> (k, r, None) \<in> set (ag_queue (is_agent s1))"
    proof
      assume a: "asks C T now (flow_at s r)"
      then have "(fl_dpi_thread_id (flow_at s r), r, None) \<in> set (ask_entries C T now s ?t)"
        using r mem by (auto simp: ask_entries_def)
      then show ?thesis using a q unfolding asks_def by auto
    next
      assume "ff_expiring (fl_flags (flow_at s r)) \<and> \<not> ff_expired (fl_flags (flow_at s r))"
      then obtain k where "0 \<le> k" "k < int (cf_threads C)" "(k, r, None) \<in> set (ag_queue (is_agent s))"
        using r assms(1) unfolding inst_ok_def refs_ok_def by blast
      then show ?thesis using q by auto
    qed
  qed
  have size: "size_ok C (is_agent s')"
  proof -
    have "ag_flows (is_agent s) = length ?t" using assms(1) table_size_flows by (auto simp: inst_ok_def size_ok_def)
    moreover have "table_size (is_agent s') = length (filter (\<lambda>r. \<not> purges C T now s r) ?t)"
      using table_size_flows [of s1] t1 by (simp add: s1 table_size_def)
    moreover have "ag_flows (is_agent s') = size_minus (ag_flows (is_agent s)) (length (filter (purges C T now s) ?t))" by (simp add: s1)
    ultimately show ?thesis
      using sum_length_filter_compl [of "purges C T now s" ?t] assms(1) by (auto simp: size_ok_def size_minus_def inst_ok_def)
  qed
  show ?thesis using flows refs size ok1 same(2) assms(1)
    by (simp add: inst_ok_def s1 agent_ok_def flows_ok_def refs_ok_def conntrack_ok_def)
qed

definition core_ok :: "capture_config \<Rightarrow> 'rx det_env \<Rightarrow> instance_state \<Rightarrow> bool" where
  "core_ok C E s \<longleftrightarrow> flows_ok E s \<and> refs_ok C s \<and> size_ok C (is_agent s) \<and> conntrack_ok s"

lemma put_flow_core:
  assumes "core_ok C E s" "in_table s r" "app_part f = app_part (flow_at s r)" "fl_digest_lower f = fl_digest_lower (flow_at s r)"
    and "ff_expiring (fl_flags f) \<longrightarrow> ff_expired (fl_flags f)"
  shows "core_ok C E (put_flow r f s)"
proof -
  have at: "flow_at (put_flow r f s) k = (if k = r then f else flow_at s k)" if "k < length (ag_store (is_agent s))" for k
    using that by (simp add: put_flow_def nth_list_update)
  have less: "k < length (ag_store (is_agent s))" if "in_table s k" for k
    using that assms(1) by (auto simp: core_ok_def flows_ok_def)
  have same: "ag_map (is_agent (put_flow r f s)) = ag_map (is_agent s)" "ag_queue (is_agent (put_flow r f s)) = ag_queue (is_agent s)"
    "is_held (put_flow r f s) = is_held s" "length (ag_store (is_agent (put_flow r f s))) = length (ag_store (is_agent s))"
    by (simp_all add: put_flow_def)
  have "flows_ok E (put_flow r f s)"
    using assms(1,4) at app_ok_part [OF assms(3), of E] less [OF assms(2)] by (auto simp: core_ok_def flows_ok_def same)
  moreover have "refs_ok C (put_flow r f s)"
  proof -
    have "\<exists>k. 0 \<le> k \<and> k < int (cf_threads C) \<and> (k, j, None) \<in> set (ag_queue (is_agent s))"
      if j: "in_table s j" "ff_expiring (fl_flags (flow_at (put_flow r f s) j))" "\<not> ff_expired (fl_flags (flow_at (put_flow r f s) j))" for j
    proof -
      have "j \<noteq> r" using j at [OF less [OF j(1)]] assms(5) by auto
      then show ?thesis using j at [OF less [OF j(1)]] assms(1) unfolding core_ok_def refs_ok_def by auto
    qed
    then show ?thesis using assms(1) by (simp add: core_ok_def refs_ok_def same)
  qed
  moreover have "size_ok C (is_agent (put_flow r f s)) = size_ok C (is_agent s)" "conntrack_ok (put_flow r f s) = conntrack_ok s"
    by (simp_all add: put_flow_def size_ok_def table_size_def conntrack_ok_def)
  ultimately show ?thesis using assms(1) by (simp add: core_ok_def)
qed

lemma ExpireFlow_core:
  assumes "core_ok C E s" "in_table s r" "\<not> ff_expiring (fl_flags (flow_at s r))" "ExpireFlow C r s = (waits, s')"
  shows "core_ok C E s' \<and> ag_map (is_agent s') = ag_map (is_agent s)"
proof -
  let ?f = "flow_at s r"
  have p: "core_ok C E (put_flow r (upd_flags g ?f) s)"
    if "ff_expiring (g (fl_flags ?f)) \<longrightarrow> ff_expired (g (fl_flags ?f))" for g
    by (rule put_flow_core [OF assms(1,2)]) (use that in \<open>simp_all add: app_part_def\<close>)
  have r: "r < length (ag_store (is_agent s))" using assms(1,2) by (auto simp: core_ok_def flows_ok_def)
  show ?thesis
  proof (cases "waits")
    case False
    consider "s' = put_flow r (upd_flags (\<lambda>g. g\<lparr>ff_expired := True\<rparr>) ?f) s"
      | "s' = put_flow r (upd_flags (\<lambda>g. g\<lparr>ff_expiring := True, ff_expired := True\<rparr>) ?f) s"
      using assms(3,4) False by (auto simp: ExpireFlow_def Let_def split: if_splits)
    then show ?thesis
    proof cases
      case 1
      then show ?thesis using p [of "\<lambda>g. g\<lparr>ff_expired := True\<rparr>"] by (simp add: put_flow_def)
    next
      case 2
      then show ?thesis using p [of "\<lambda>g. g\<lparr>ff_expiring := True, ff_expired := True\<rparr>"] by (simp add: put_flow_def)
    qed
  next
    case True
    let ?g = "upd_flags (\<lambda>g. g\<lparr>ff_expiring := True\<rparr>) ?f" and ?k = "fl_dpi_thread_id ?f"
    have k: "0 \<le> ?k" "?k < int (cf_threads C)" and s': "s' = (upd_agent (\<lambda>A. A\<lparr>ag_queue := ag_queue A @ [(?k, r, None)]\<rparr>) (put_flow r ?g s))
        \<lparr>is_events := is_events s @ [EVENT_FLOW_EXPIRING r]\<rparr>"
      using assms(4) True by (auto simp: ExpireFlow_def Let_def split: if_splits)
    have at: "flow_at s' j = (if j = r then ?g else flow_at s j)" if "j < length (ag_store (is_agent s))" for j
      using that by (simp add: s' put_flow_def nth_list_update)
    have less: "j < length (ag_store (is_agent s))" if "in_table s j" for j
      using that assms(1) by (auto simp: core_ok_def flows_ok_def)
    have same: "ag_map (is_agent s') = ag_map (is_agent s)" "ag_queue (is_agent s') = ag_queue (is_agent s) @ [(?k, r, None)]"
      "is_held s' = is_held s" "length (ag_store (is_agent s')) = length (ag_store (is_agent s))"
      by (simp_all add: s' put_flow_def)
    have "app_ok E ?g = app_ok E ?f" by (rule app_ok_part) (simp add: app_part_def)
    then have "flows_ok E s'" using assms(1) at r by (auto simp: core_ok_def flows_ok_def same)
    moreover have "refs_ok C s'"
      unfolding refs_ok_def same
    proof (intro conjI allI impI)
      fix j assume j: "in_table s j \<and> ff_expiring (fl_flags (flow_at s' j)) \<and> \<not> ff_expired (fl_flags (flow_at s' j))"
      show "\<exists>i. 0 \<le> i \<and> i < int (cf_threads C) \<and> (i, j, None) \<in> set (ag_queue (is_agent s) @ [(?k, r, None)])"
      proof (cases "j = r")
        case False
        have "flow_at s' j = flow_at s j" using at less j False by auto
        then have "\<exists>i. 0 \<le> i \<and> i < int (cf_threads C) \<and> (i, j, None) \<in> set (ag_queue (is_agent s))"
          using j assms(1) unfolding core_ok_def refs_ok_def by simp
        then show ?thesis by auto
      qed (use k in auto)
    qed (use assms(1,2) in \<open>auto simp: core_ok_def refs_ok_def\<close>)
    moreover have "size_ok C (is_agent s') = size_ok C (is_agent s)" "conntrack_ok s' = conntrack_ok s"
      by (simp_all add: s' put_flow_def size_ok_def table_size_def conntrack_ok_def)
    ultimately show ?thesis using assms(1) same(1) by (simp add: core_ok_def)
  qed
qed

lemma expire_flows_core:
  assumes "core_ok C E s" "\<forall>r \<in> set (map snd es). in_table s r"
  shows "core_ok C E (expire_flows C es s) \<and> ag_map (is_agent (expire_flows C es s)) = ag_map (is_agent s)"
  using assms
proof (induction es arbitrary: s)
  case (Cons e es)
  obtain d r where e: "e = (d, r)" by force
  let ?b = "\<not> ff_expired (fl_flags (flow_at s r)) \<and> \<not> ff_expiring (fl_flags (flow_at s r))"
  let ?s = "if ?b then snd (ExpireFlow C r s) else s"
  have "core_ok C E ?s \<and> ag_map (is_agent ?s) = ag_map (is_agent s)"
    using ExpireFlow_core [OF Cons.prems(1), of r "fst (ExpireFlow C r s)" "snd (ExpireFlow C r s)"] Cons.prems e by auto
  then show ?case using Cons.IH [of ?s] Cons.prems(2) e by simp
qed simp

lemma core_same:
  assumes "fm_bucket (ag_map (is_agent s')) = fm_bucket (ag_map (is_agent s))" "ag_store (is_agent s') = ag_store (is_agent s)"
    "ag_queue (is_agent s') = ag_queue (is_agent s)" "ag_flows (is_agent s') = ag_flows (is_agent s)"
    "is_held s' = is_held s" "is_conntrack s' = is_conntrack s"
  shows "core_ok C E s' = core_ok C E s"
  using assms by (simp add: core_ok_def flows_ok_def refs_ok_def size_ok_def table_size_def conntrack_ok_def fm_find_def)

lemma inst_core: "inst_ok C E s \<longleftrightarrow> fm_free (ag_map (is_agent s)) \<and> core_ok C E s"
  by (simp add: inst_ok_def core_ok_def)

lemma lock_unlock: "fm_free m \<Longrightarrow> fm_unlock (fm_lock m b) b = m"
proof -
  assume "fm_free m"
  then have "(fm_locked m)[b := False] = fm_locked m" by (cases "b < length (fm_locked m)") (simp_all add: fm_free_def list_update_same_conv list_update_beyond)
  then show ?thesis by (cases m) (simp add: fm_lock_def fm_unlock_def)
qed

lemma expire_buckets_ok:
  assumes "inst_ok C E s" "set bs \<subseteq> {..< GetBuckets (ag_map (is_agent s))}"
  shows "\<exists>s'. expire_buckets C bs s = CDone s' \<and> inst_ok C E s'"
  using assms
proof (induction bs arbitrary: s)
  case (Cons b bs)
  let ?m = "ag_map (is_agent s)" and ?es = "fm_bucket (ag_map (is_agent s)) ! b"
  let ?l = "upd_agent (\<lambda>A. A\<lparr>ag_map := fm_lock ?m b\<rparr>) s"
  have b: "b < GetBuckets ?m" and free: "fm_free ?m" using Cons.prems by (auto simp: inst_ok_def)
  have a: "fm_Acquire ?m b = Done (?es, fm_lock ?m b)"
    using b free by (simp add: fm_Acquire_def fm_free_def)
  have core: "core_ok C E ?l" using Cons.prems(1) core_same [of ?l s C E] by (simp add: inst_core fm_lock_def)
  have "\<forall>r \<in> set (map snd ?es). in_table ?l r"
    using bucket_entry(1) [OF inst_agent_ok [OF Cons.prems(1)] b] by (fastforce simp: fm_lock_def fm_find_def)
  from expire_flows_core [OF core this] have e: "core_ok C E (expire_flows C ?es ?l)"
    "ag_map (is_agent (expire_flows C ?es ?l)) = fm_lock ?m b" by simp_all
  let ?u = "upd_agent (\<lambda>A. A\<lparr>ag_map := ?m\<rparr>) (expire_flows C ?es ?l)"
  have "fm_Release (fm_lock ?m b) b = Done ?m" using b lock_unlock [OF free] by (simp add: fm_Release_def) (simp add: fm_lock_def GetBuckets_def)
  then have step: "expire_buckets C (b # bs) s = expire_buckets C bs ?u" by (simp add: a e(2) Let_def)
  have "core_ok C E ?u" using e core_same [of ?u "expire_flows C ?es ?l" C E] by (simp add: fm_lock_def)
  then have "inst_ok C E ?u" using free by (simp add: inst_core)
  then show ?case using Cons.IH [of ?u] Cons.prems(2) unfolding step by simp
qed simp

lemma destroy_inst_ok:
  assumes "inst_ok C E s"
  shows "\<exists>s'. DestroyCaptureThreads C expire s = CDone s' \<and> inst_ok C E s'"
  using expire_buckets_ok [OF assms, of "[0..<GetBuckets (ag_map (is_agent s))]"] assms
  by (auto simp: DestroyCaptureThreads_def atLeast0LessThan)

lemma ProcessUpdate_inst_ok:
  assumes "inst_ok C E s"
  shows "\<exists>s'. ProcessUpdate C T clock now s = CDone s' \<and> inst_ok C E s'"
proof -
  let ?s = "upd_agent (\<lambda>A. A\<lparr>ag_dhc := map_option (\<lambda>c. snd (dhc_Purge clock c)) (ag_dhc A)\<rparr>) s"
  have ok: "inst_ok C E ?s" using assms core_same [of ?s s C E] by (simp add: inst_core)
  then show ?thesis
    using ProcessFlows_result [OF inst_agent_ok [OF ok], of C T now] update_inst_ok [OF ok] unfolding ProcessUpdate_def by blast
qed

section \<open>Runs of the agent\<close>

text \<open>
  The steps of the threads, in any order: a captured packet, an entry of a detection queue, an
  event of the connection tracker, the update, the end of a capture, and the references that
  plugins take and drop. The tables of applications and categories stay as they were loaded.
\<close>

inductive agent_step :: "capture_config \<Rightarrow> 'rx det_env \<Rightarrow> instance_state \<Rightarrow> instance_state \<Rightarrow> bool" for C E where
  capture: "ProcessPacket CE C jumps passes p t (is_agent s) = CDone (q, t', A') \<Longrightarrow> agent_step C E s (s\<lparr>is_agent := A'\<rparr>)"
| detect: "dpi_step (E\<lparr>de_now := now\<rparr>) k s = CDone s' \<Longrightarrow> agent_step C E s s'"
| track: "is_conntrack s = Some c \<Longrightarrow> ct_event_callback sha1 now junk type ct (due, c) = Done (None, due', c')
    \<Longrightarrow> agent_step C E s (s\<lparr>is_conntrack := Some c'\<rparr>)"
| update: "ProcessUpdate C T clock now s = CDone s' \<Longrightarrow> agent_step C E s s'"
| leave: "DestroyCaptureThreads C expire s = CDone s' \<Longrightarrow> agent_step C E s s'"
| hold: "fm_find (ag_map (is_agent s)) d = Some r \<Longrightarrow> agent_step C E s (s\<lparr>is_held := r # is_held s\<rparr>)"
| drop: "agent_step C E s (s\<lparr>is_held := remove1 r (is_held s)\<rparr>)"

inductive_cases agent_stepE: "agent_step C E s s'"

definition agent_start :: "instance_state \<Rightarrow> bool" where
  "agent_start s \<longleftrightarrow> (\<exists>n > 0. ag_map (is_agent s) = ndFlowMap_new n) \<and> ag_store (is_agent s) = [] \<and> ag_flows (is_agent s) = 0
     \<and> ag_queue (is_agent s) = [] \<and> is_held s = [] \<and> is_conntrack s \<in> {None, Some ct_empty}"

inductive agent_run :: "capture_config \<Rightarrow> 'rx det_env \<Rightarrow> instance_state \<Rightarrow> bool" for C E where
  start: "agent_start s \<Longrightarrow> agent_run C E s"
| step: "agent_run C E s \<Longrightarrow> agent_step C E s s' \<Longrightarrow> agent_run C E s'"

lemma start_inst_ok: "agent_start s \<Longrightarrow> inst_ok C E s"
  by (auto simp: agent_start_def inst_ok_def fm_free_def fm_wf_def ndFlowMap_new_def GetBuckets_def flows_ok_def refs_ok_def
      size_ok_def table_size_def conntrack_ok_def ct_empty_def fm_find_def)

lemma inst_ok_time: "inst_ok C (E\<lparr>de_now := now\<rparr>) s = inst_ok C E s"
  by (simp add: inst_ok_def flows_ok_def app_ok_def)

lemma ct_event_free: "ct_event_callback sha1 now junk type ct (due, c) = Done (None, due', c') \<Longrightarrow> \<not> ct_locked c \<and> \<not> ct_locked c'"
  by (auto simp: ct_event_callback_def ProcessConntrackEvent_def ct_PurgeFlows_def Let_def
      split: if_splits nfct_type.splits option.splits prod.splits)

lemma held_inst_ok:
  "inst_ok C E s \<Longrightarrow> \<forall>r \<in> set h. in_table s r \<Longrightarrow> inst_ok C E (s\<lparr>is_held := h\<rparr>)"
  by (simp add: inst_ok_def flows_ok_def refs_ok_def conntrack_ok_def)

lemma step_inst_ok:
  assumes "agent_step C E s s'" "inst_ok C E s"
  shows "inst_ok C E s'"
  using assms(1)
proof (cases rule: agent_step.cases)
  case (capture CE jumps passes p t q t' A')
  then show ?thesis using capture_inst_ok [OF assms(2)] by blast
next
  case (detect now k)
  then show ?thesis using detect_inst_ok [of C "E\<lparr>de_now := now\<rparr>" s k s'] assms(2) by (simp add: inst_ok_time)
next
  case (track c sha1 now junk type ct due due' c')
  then show ?thesis using ct_event_free [OF track(3)] assms(2)
    by (simp add: inst_ok_def flows_ok_def refs_ok_def conntrack_ok_def)
next
  case (update T clock now)
  then show ?thesis using ProcessUpdate_inst_ok [OF assms(2), of T clock now] by auto
next
  case (leave expire)
  then show ?thesis using destroy_inst_ok [OF assms(2), of expire] by auto
next
  case (hold d r)
  then show ?thesis using held_inst_ok [OF assms(2), of "r # is_held s"] assms(2) by (auto simp: inst_ok_def refs_ok_def)
next
  case (drop r)
  have "\<forall>r \<in> set (is_held s). in_table s r" using assms(2) by (simp add: inst_ok_def refs_ok_def)
  then have "\<forall>q \<in> set (remove1 r (is_held s)). in_table s q" using set_remove1_subset [of r "is_held s"] by blast
  then show ?thesis using held_inst_ok [OF assms(2)] drop by simp
qed

lemma run_inst_ok: "agent_run C E s \<Longrightarrow> inst_ok C E s"
  by (induction rule: agent_run.induct) (blast intro: start_inst_ok step_inst_ok)+

text \<open>
  C3. However the threads interleave, between their steps no bucket is locked, the counter of
  flows is the number of flows in the table and keeps to the configured maximum, each flow is
  stored under its own digest, whatever a queue or a plugin refers to is still in the table, and
  an expiring flow has the request for its end in the queue of a detection thread.
\<close>

theorem instance_invariant:
  assumes "agent_run C E s"
  shows "fm_free (ag_map (is_agent s))
    \<and> ag_flows (is_agent s) = length (concat (fm_bucket (ag_map (is_agent s))))
    \<and> (0 < cf_max_flows C \<longrightarrow> ag_flows (is_agent s) \<le> cf_max_flows C)
    \<and> (\<forall>d r. fm_find (ag_map (is_agent s)) d = Some r \<longrightarrow> r < length (ag_store (is_agent s)) \<and> fl_digest_lower (flow_at s r) = d
         \<and> (ff_expiring (fl_flags (flow_at s r)) \<and> \<not> ff_expired (fl_flags (flow_at s r))
              \<longrightarrow> (\<exists>k. 0 \<le> k \<and> k < int (cf_threads C) \<and> (k, r, None) \<in> set (ag_queue (is_agent s)))))
    \<and> (\<forall>(k, r, e) \<in> set (ag_queue (is_agent s)). fm_find (ag_map (is_agent s)) (fl_digest_lower (flow_at s r)) = Some r)
    \<and> (\<forall>r \<in> set (is_held s). fm_find (ag_map (is_agent s)) (fl_digest_lower (flow_at s r)) = Some r)"
proof -
  have ok: "inst_ok C E s" by (rule run_inst_ok [OF assms])
  then have t: "fm_find (ag_map (is_agent s)) (fl_digest_lower (flow_at s r)) = Some r" if "in_table s r" for r
    using that by (auto simp: inst_ok_def flows_ok_def)
  from ok have r: "refs_ok C s" "flows_ok E s" "size_ok C (is_agent s)" "fm_free (ag_map (is_agent s))" by (simp_all add: inst_ok_def)
  then show ?thesis using t by (auto simp: refs_ok_def flows_ok_def size_ok_def table_size_def)
qed

end
