(* ===== verification/NdExpiry.thy ===== *)
theory NdExpiry
  imports NdInstance
begin

text \<open>
  The end of idle flows, across the update (\<open>src/src/nd-instance.cpp\<close>) and the detection
  threads (\<open>src/src/nd-detection.cpp\<close>): the update asks for the end of a flow, the thread of
  the flow ends it, and the next update removes it.
\<close>

section \<open>Requests for an end\<close>

text \<open>The queue has requests only, each for another flow, and the detection of each can end.\<close>

definition endable :: "nd_flow \<Rightarrow> bool" where
  "endable f \<longleftrightarrow> fl_ndpi_flow f \<or> flow_packets f = 0"

definition requests_only :: "instance_state \<Rightarrow> bool" where
  "requests_only s \<longleftrightarrow> distinct (map (fst \<circ> snd) (ag_queue (is_agent s)))
     \<and> (\<forall>(k, r, e) \<in> set (ag_queue (is_agent s)). e = None \<and> ff_expiring (fl_flags (flow_at s r))
          \<and> \<not> ff_expired (fl_flags (flow_at s r)) \<and> endable (flow_at s r))"

text \<open>One request ends its flow and leaves the others.\<close>

lemma request_ends:
  assumes "inst_ok C E s" "requests_only s" "take_entry k (ag_queue (is_agent s)) = Some ((r, e), q)"
  shows "\<exists>s'. dpi_step E k s = CDone s' \<and> inst_ok C E s' \<and> requests_only s' \<and> ag_queue (is_agent s') = q
    \<and> ag_map (is_agent s') = ag_map (is_agent s) \<and> is_held s' = is_held s
    \<and> length (ag_store (is_agent s')) = length (ag_store (is_agent s)) \<and> ff_expired (fl_flags (flow_at s' r))
    \<and> (\<forall>j < length (ag_store (is_agent s)). j \<noteq> r \<longrightarrow> flow_at s' j = flow_at s j)"
proof -
  obtain xs ys where q: "ag_queue (is_agent s) = xs @ (k, r, e) # ys" "q = xs @ ys" using take_entry_split [OF assms(3)] by auto
  then have e: "e = None" "ff_expiring (fl_flags (flow_at s r))" "\<not> ff_expired (fl_flags (flow_at s r))" "endable (flow_at s r)"
    using assms(2) by (auto simp: requests_only_def)
  have t: "in_table s r" using assms(1) q(1) by (auto simp: inst_ok_def refs_ok_def)
  then have r: "r < length (ag_store (is_agent s))" using assms(1) by (auto simp: inst_ok_def flows_ok_def)
  let ?d = "det_state_of r s" and ?f = "flow_at s r"
  have f: "ds_flow ?d = ?f" by (simp add: det_state_of_def)
  have "fl_ndpi_flow ?f \<or> entry_counted E ?f" using e(4) by (auto simp: endable_def entry_counted_def)
  then obtain d where d: "process_entry E None ?d = CDone d" "entry_done E ?f d"
    using process_entry_done [OF det_state_ready [OF assms(1) t], of None] f unfolding ends_def by auto
  define s' where "s' = put_det r d (upd_agent (\<lambda>A. A\<lparr>ag_queue := q\<rparr>) s)"
  have step: "dpi_step E k s = CDone s'" by (simp add: dpi_step_def assms(3) e(1) d(1) s'_def)
  have l: "entry_last E (entry_count E ?f)" "ff_expiring (fl_flags (entry_count E ?f))"
    using e(2,3) by (simp_all add: entry_last_def entry_count_def bump_packets_def)
  have x: "ff_expired (fl_flags (ds_flow d))"
    using d(2) l conn_flags [of "ds_flow d" "after_entry E ?f"] by (auto simp: entry_done_def after_entry_def entry_expire_def)
  have at: "flow_at s' j = (if j = r then ds_flow d else flow_at s j)" if "j < length (ag_store (is_agent s))" for j
    using that by (simp add: s'_def put_det_def put_flow_def nth_list_update)
  have other: "i \<noteq> r" "i < length (ag_store (is_agent s))" if "(c, i, m) \<in> set q" for c i m
  proof -
    have "r \<notin> (fst \<circ> snd) ` set q" using assms(2) q by (auto simp: requests_only_def)
    moreover have "i \<in> (fst \<circ> snd) ` set q" using that by (intro image_eqI [of _ _ "(c, i, m)"]) simp_all
    ultimately show "i \<noteq> r" by blast
    have "(c, i, m) \<in> set (ag_queue (is_agent s))" using that q by auto
    then have "in_table s i" using assms(1) unfolding inst_ok_def refs_ok_def by blast
    then show "i < length (ag_store (is_agent s))" using assms(1) by (auto simp: inst_ok_def flows_ok_def)
  qed
  have "ag_queue (is_agent s') = q" by (simp add: s'_def put_det_def put_flow_def)
  moreover have "m = None \<and> ff_expiring (fl_flags (flow_at s' i)) \<and> \<not> ff_expired (fl_flags (flow_at s' i)) \<and> endable (flow_at s' i)"
    if "(c, i, m) \<in> set q" for c i m
  proof -
    have "(c, i, m) \<in> set (ag_queue (is_agent s))" using that q by auto
    then show ?thesis using assms(2) other [OF that] at unfolding requests_only_def by auto
  qed
  moreover have "distinct (map (fst \<circ> snd) q)" using assms(2) q by (auto simp: requests_only_def)
  ultimately have "requests_only s'" unfolding requests_only_def by blast
  then show ?thesis
    using step detect_inst_ok [OF assms(1) step] at x r by (auto simp: s'_def put_det_def put_flow_def)
qed

text \<open>The thread takes all its requests.\<close>

lemma thread_drains:
  assumes "inst_ok C E s" "requests_only s"
  shows "\<exists>s'. ProcessPacketQueue E k s = CDone s' \<and> inst_ok C E s'
    \<and> ag_queue (is_agent s') = filter (\<lambda>e. fst e \<noteq> k) (ag_queue (is_agent s))
    \<and> ag_map (is_agent s') = ag_map (is_agent s) \<and> is_held s' = is_held s
    \<and> length (ag_store (is_agent s')) = length (ag_store (is_agent s))
    \<and> (\<forall>j < length (ag_store (is_agent s)). if (k, j, None) \<in> set (ag_queue (is_agent s))
         then ff_expired (fl_flags (flow_at s' j)) else flow_at s' j = flow_at s j)"
  using assms
proof (induction "length (ag_queue (is_agent s))" arbitrary: s rule: less_induct)
  case less
  show ?case
  proof (cases "take_entry k (ag_queue (is_agent s))")
    case None
    then have n: "k \<notin> fst ` set (ag_queue (is_agent s))" by (simp add: take_entry_none)
    then have "filter (\<lambda>e. fst e \<noteq> k) (ag_queue (is_agent s)) = ag_queue (is_agent s)" by (auto simp: filter_id_conv)
    moreover have "(k, j, None) \<notin> set (ag_queue (is_agent s))" for j using n by force
    ultimately show ?thesis using None less.prems by (simp add: ProcessPacketQueue.simps)
  next
    case (Some x)
    obtain r e q where x: "x = ((r, e), q)" by (metis surj_pair)
    obtain xs ys where q: "ag_queue (is_agent s) = xs @ (k, r, e) # ys" "q = xs @ ys" using take_entry_split Some x by metis
    have e: "e = None" using less.prems(2) q(1) by (auto simp: requests_only_def)
    obtain s1 where s1: "dpi_step E k s = CDone s1" "inst_ok C E s1" "requests_only s1" "ag_queue (is_agent s1) = q"
      "ag_map (is_agent s1) = ag_map (is_agent s)" "is_held s1 = is_held s"
      "length (ag_store (is_agent s1)) = length (ag_store (is_agent s))" "ff_expired (fl_flags (flow_at s1 r))"
      "\<forall>j < length (ag_store (is_agent s)). j \<noteq> r \<longrightarrow> flow_at s1 j = flow_at s j"
      using request_ends [OF less.prems] Some x by blast
    have "length (ag_queue (is_agent s1)) < length (ag_queue (is_agent s))" by (simp add: s1(4) q)
    from less.hyps [OF this s1(2,3)] obtain s' where s': "ProcessPacketQueue E k s1 = CDone s'" "inst_ok C E s'"
      "ag_queue (is_agent s') = filter (\<lambda>e. fst e \<noteq> k) q" "ag_map (is_agent s') = ag_map (is_agent s1)" "is_held s' = is_held s1"
      "length (ag_store (is_agent s')) = length (ag_store (is_agent s1))"
      "\<forall>j < length (ag_store (is_agent s1)). if (k, j, None) \<in> set q
         then ff_expired (fl_flags (flow_at s' j)) else flow_at s' j = flow_at s1 j"
      unfolding s1(4) by blast
    have "ProcessPacketQueue E k s = CDone s'" using Some s1(1) s'(1) by (simp add: ProcessPacketQueue.simps [of E k s])
    moreover have "if (k, j, None) \<in> set (ag_queue (is_agent s)) then ff_expired (fl_flags (flow_at s' j)) else flow_at s' j = flow_at s j"
      if j: "j < length (ag_store (is_agent s))" for j
      using s'(7) s1(7,8,9) j q e by (cases "j = r"; cases "(k, j, None) \<in> set q") auto
    ultimately show ?thesis using s' s1 q by auto
  qed
qed

text \<open>The requests of an update that found the queues empty.\<close>

lemma visit_endable: "endable (visit C T now f) = endable f" "fl_dpi_thread_id (visit C T now f) = fl_dpi_thread_id f"
proof -
  have a: "endable (aged C T now f) = endable f" "fl_dpi_thread_id (aged C T now f) = fl_dpi_thread_id f"
    by (simp_all add: aged_def endable_def flow_packets_def)
  have "endable (flow_Reset False g) = endable g" "fl_dpi_thread_id (flow_Reset False g) = fl_dpi_thread_id g" for g
    by (simp_all add: flow_Reset_def flow_stats_Reset_def endable_def flow_packets_def Let_def)
  then show "endable (visit C T now f) = endable f" "fl_dpi_thread_id (visit C T now f) = fl_dpi_thread_id f"
    using a by (simp_all add: visit_def Let_def)
qed

lemma asks_aged: "asks C T now f \<Longrightarrow> ff_expiring (fl_flags (aged C T now f)) \<and> \<not> ff_expired (fl_flags (aged C T now f))"
  by (auto simp: asks_def aged_def)

text \<open>What one update does to a quiet agent.\<close>

lemma quiet_update:
  assumes "inst_ok C E s" "ag_queue (is_agent s) = []"
    and "\<forall>d r. fm_find (ag_map (is_agent s)) d = Some r \<longrightarrow> ff_detection_complete (fl_flags (flow_at s r)) \<or> endable (flow_at s r)"
  shows "\<exists>s1. ProcessFlows C T now s = CDone s1 \<and> inst_ok C E s1 \<and> requests_only s1 \<and> is_held s1 = is_held s
    \<and> (\<forall>d. fm_find (ag_map (is_agent s1)) d
         = (case fm_find (ag_map (is_agent s)) d of None \<Rightarrow> None | Some r \<Rightarrow> if purges C T now s r then None else Some r))
    \<and> length (ag_store (is_agent s1)) = length (ag_store (is_agent s))
    \<and> (\<forall>k r. (k, r, None) \<in> set (ag_queue (is_agent s1)) \<longleftrightarrow> in_table s r \<and> asks C T now (flow_at s r) \<and> k = fl_dpi_thread_id (flow_at s r))"
proof -
  let ?t = "table_flows s"
  note ok = inst_agent_ok [OF assms(1)]
  obtain s0 where s0: "ProcessFlows C T now s = CDone (upd_agent (\<lambda>A. A\<lparr>ag_flows := size_minus (ag_flows (is_agent s)) (length (filter (purges C T now s) ?t))\<rparr>)
          (upd_status (\<lambda>i. i\<lparr>si_flows_prev := ag_flows (is_agent s)\<rparr>) s0))"
    and q: "ag_queue (is_agent s0) = ask_entries C T now s ?t" and h: "is_held s0 = is_held s"
    and n: "length (ag_store (is_agent s0)) = length (ag_store (is_agent s))"
    and f: "\<forall>k < length (ag_store (is_agent s)). flow_at s0 k = (if k \<in> set ?t then visit C T now (flow_at s k) else flow_at s k)"
    and find: "\<forall>d. fm_find (ag_map (is_agent s0)) d
         = (case fm_find (ag_map (is_agent s)) d of None \<Rightarrow> None | Some r \<Rightarrow> if purges C T now s r then None else Some r)"
    using ProcessFlows_result [OF ok, of C T now] assms(2) by auto
  define s1 where "s1 = upd_agent (\<lambda>A. A\<lparr>ag_flows := size_minus (ag_flows (is_agent s)) (length (filter (purges C T now s) ?t))\<rparr>)
          (upd_status (\<lambda>i. i\<lparr>si_flows_prev := ag_flows (is_agent s)\<rparr>) s0)"
  note r = s0 [folded s1_def]
  have mem: "r \<in> set ?t \<longleftrightarrow> in_table s r" for r by (rule table_flows_set [OF ok])
  have less: "r < length (ag_store (is_agent s))" if "in_table s r" for r using that ok by (auto simp: agent_ok_def)
  have entry: "(k, r, e) \<in> set (ag_queue (is_agent s1)) \<longleftrightarrow>
      e = None \<and> in_table s r \<and> asks C T now (flow_at s r) \<and> k = fl_dpi_thread_id (flow_at s r)" for k r e
    using q mem by (auto simp: s1_def ask_entries_def)
  have "map (fst \<circ> snd) (ag_queue (is_agent s1)) = filter (\<lambda>r. asks C T now (flow_at s r)) ?t"
    by (simp add: s1_def q ask_entries_def o_def)
  then have d: "distinct (map (fst \<circ> snd) (ag_queue (is_agent s1)))" using bucket_flows_distinct [OF ok] by simp
  have "ff_expiring (fl_flags (flow_at s1 r)) \<and> \<not> ff_expired (fl_flags (flow_at s1 r)) \<and> endable (flow_at s1 r)"
    if "in_table s r" "asks C T now (flow_at s r)" for r
  proof -
    have v: "flow_at s1 r = visit C T now (flow_at s r)" using f less [OF that(1)] mem that(1) by (simp add: s1_def)
    have e: "end_part (flow_at s1 r) = end_part (aged C T now (flow_at s r))" by (simp add: v visit_parts)
    have "endable (flow_at s r)" using assms(3) that by (auto simp: asks_def)
    then show ?thesis using e asks_aged [OF that(2)] by (simp add: end_part_eq v visit_endable)
  qed
  then have "requests_only s1" using d entry by (auto simp: requests_only_def)
  then show ?thesis using r update_inst_ok [OF assms(1) r] h n find entry by (auto simp: s1_def)
qed

text \<open>
  C5. When nothing waits for detection and no plugin keeps it, a flow that stays idle is gone
  after one update, one run of its detection thread and the next update, whatever other flows
  end on the way and whatever the time of the later update: none of the three fails or waits.
\<close>

theorem idle_flow_removed:
  assumes "inst_ok C E s" "ag_queue (is_agent s) = []"
    and "\<forall>d r. fm_find (ag_map (is_agent s)) d = Some r \<longrightarrow> ff_detection_complete (fl_flags (flow_at s r)) \<or> endable (flow_at s r)"
    and "fm_find (ag_map (is_agent s)) d = Some r" "flow_idle T now (flow_at s r)" "r \<notin> set (is_held s)"
  shows "\<exists>s1 s2 s3. ProcessFlows C T now s = CDone s1
    \<and> ProcessPacketQueue E (fl_dpi_thread_id (flow_at s r)) s1 = CDone s2
    \<and> ProcessFlows C T later s2 = CDone s3 \<and> fm_find (ag_map (is_agent s3)) d = None"
proof -
  let ?f = "flow_at s r" and ?k = "fl_dpi_thread_id (flow_at s r)"
  obtain s1 where s1: "ProcessFlows C T now s = CDone s1" "inst_ok C E s1" "requests_only s1" "is_held s1 = is_held s"
    "\<forall>d. fm_find (ag_map (is_agent s1)) d
       = (case fm_find (ag_map (is_agent s)) d of None \<Rightarrow> None | Some r \<Rightarrow> if purges C T now s r then None else Some r)"
    "length (ag_store (is_agent s1)) = length (ag_store (is_agent s))"
    "\<forall>k r. (k, r, None) \<in> set (ag_queue (is_agent s1)) \<longleftrightarrow> in_table s r \<and> asks C T now (flow_at s r) \<and> k = fl_dpi_thread_id (flow_at s r)"
    using quiet_update [OF assms(1-3)] by blast
  obtain s2 where s2: "ProcessPacketQueue E ?k s1 = CDone s2" "inst_ok C E s2"
    "ag_queue (is_agent s2) = filter (\<lambda>e. fst e \<noteq> ?k) (ag_queue (is_agent s1))"
    "ag_map (is_agent s2) = ag_map (is_agent s1)" "is_held s2 = is_held s1"
    "\<forall>j < length (ag_store (is_agent s1)). if (?k, j, None) \<in> set (ag_queue (is_agent s1))
       then ff_expired (fl_flags (flow_at s2 j)) else flow_at s2 j = flow_at s1 j"
    using thread_drains [OF s1(2,3)] by blast
  obtain s3 where s3: "ProcessFlows C T later s2 = CDone s3"
    "\<forall>d. fm_find (ag_map (is_agent s3)) d
       = (case fm_find (ag_map (is_agent s2)) d of None \<Rightarrow> None | Some r \<Rightarrow> if purges C T later s2 r then None else Some r)"
    using ProcessFlows_result [OF inst_agent_ok [OF s2(2)], of C T later] by auto
  have "fm_find (ag_map (is_agent s2)) d = None \<or> purges C T later s2 r \<and> fm_find (ag_map (is_agent s2)) d = Some r"
  proof (cases "purges C T now s r")
    case True
    then show ?thesis using assms(4) s1(5) by (simp add: s2(4))
  next
    case False
    have t: "in_table s r" using assms(4) by blast
    have len: "r < length (ag_store (is_agent s))" using assms(1,4) by (auto simp: inst_ok_def flows_ok_def)
    have one: "use_count s r = 1" using assms(2,6) by (simp add: use_count_def count_list_0_iff)
    have "\<not> (ff_expiring (fl_flags ?f) \<and> \<not> ff_expired (fl_flags ?f))"
      using assms(1,2) t unfolding inst_ok_def refs_ok_def by auto
    then have a: "asks C T now ?f"
      using False one assms(5) unfolding purges_def by (auto simp: aged_def split: if_splits)
    have "(?k, r, None) \<in> set (ag_queue (is_agent s1))" using s1(7) t a by blast
    then have x: "ff_expired (fl_flags (flow_at s2 r))" using s2(6) s1(6) len by simp
    have "i \<noteq> r" if "(c, i, m) \<in> set (ag_queue (is_agent s2))" for c i m
    proof -
      have e: "(c, i, m) \<in> set (ag_queue (is_agent s1))" "c \<noteq> ?k" using that s2(3) by auto
      then have "m = None" using s1(3) by (auto simp: requests_only_def)
      then have "c = fl_dpi_thread_id (flow_at s i)" using e(1) s1(7) by blast
      then show ?thesis using e(2) by auto
    qed
    then have "use_count s2 r = 1"
      using assms(6) by (auto simp: use_count_def s2(5) s1(4) filter_empty_conv count_list_0_iff)
    then have "purges C T later s2 r" using x by (simp add: purges_def aged_def)
    then show ?thesis using False assms(4) s1(5) by (simp add: s2(4))
  qed
  then have "fm_find (ag_map (is_agent s3)) d = None" using s3(2) by auto
  then show ?thesis using s1(1) s2(1) s3(1) by blast
qed

section \<open>An agent with one idle flow\<close>

definition sample_state :: instance_state where
  "sample_state =
     \<lparr>is_agent = \<lparr>ag_map = \<lparr>fm_bucket = [[([], 0)]], fm_locked = [False]\<rparr>, ag_store = [sample_flow\<lparr>fl_digest_lower := [], fl_dpi_thread_id := 0\<rparr>],
        ag_flows = 1, ag_events = 0, ag_queue = [], ag_dhc = None\<rparr>,
      is_ndpi = (\<lambda>_. ndpi_flow_zero), is_fhc = None, is_conntrack = None, is_endpoints = [], is_held = [], is_dpi_events = [],
      is_dpi_flows = 0, is_events = [],
      is_status = \<lparr>si_flows_prev = 0, si_flows_purged = 0, si_flows_expiring = 0, si_flows_expired = 0, si_flows_active = 0, si_flows_in_use = 0\<rparr>\<rparr>"

definition sample_ttls :: flow_ttls where
  "sample_ttls = \<lparr>tl_idle_flow = 30, tl_idle_tcp_flow = 300\<rparr>"

lemma sample_state_find: "fm_find (ag_map (is_agent sample_state)) d = Some r \<longleftrightarrow> d = [] \<and> r = 0"
  by (auto simp: sample_state_def fm_find_def)

lemma sample_state_ok: "inst_ok sample_config sample_det_env sample_state"
proof -
  have "fm_free (ag_map (is_agent sample_state))"
    by (simp add: sample_state_def fm_free_def fm_wf_def GetBuckets_def HashToBucket_def)
  moreover have "flows_ok sample_det_env sample_state"
    unfolding flows_ok_def sample_state_find
    by (simp add: sample_state_def app_ok_def sample_flow_def nd_flow_new_def ND_APP_UNKNOWN_def ND_CAT_UNKNOWN_def)
  moreover have "refs_ok sample_config sample_state"
  proof -
    have "\<not> ff_expiring (fl_flags (flow_at sample_state 0))"
      by (simp add: sample_state_def sample_flow_def nd_flow_new_def flow_flags_new_def)
    moreover have "ag_queue (is_agent sample_state) = []" "is_held sample_state = []" by (simp_all add: sample_state_def)
    ultimately show ?thesis unfolding refs_ok_def sample_state_find by (metis empty_iff list.set(1))
  qed
  ultimately show ?thesis
    by (simp add: inst_ok_def size_ok_def table_size_def conntrack_ok_def sample_state_def sample_config_def)
qed

theorem flows_purged_exactly_witness:
  "\<exists>s'. ProcessFlows sample_config sample_ttls 100 sample_state = CDone s' \<and> agent_ok (is_agent s')
    \<and> flow_at s' 0 = visit sample_config sample_ttls 100 (flow_at sample_state 0)"
proof -
  have "fm_find (ag_map (is_agent sample_state)) [] = Some 0" by (simp add: sample_state_find)
  then show ?thesis
    using flows_purged_exactly [OF inst_agent_ok [OF sample_state_ok], of sample_config sample_ttls 100] by blast
qed

theorem idle_flow_removed_witness:
  "\<exists>s1 s2 s3. ProcessFlows sample_config sample_ttls 100 sample_state = CDone s1
    \<and> ProcessPacketQueue sample_det_env 0 s1 = CDone s2
    \<and> ProcessFlows sample_config sample_ttls 115 s2 = CDone s3 \<and> fm_find (ag_map (is_agent s3)) [] = None"
proof -
  have e: "endable (flow_at sample_state 0)"
    by (simp add: sample_state_def endable_def flow_packets_def sample_flow_def nd_flow_new_def flow_stats_new_def)
  have i: "flow_idle sample_ttls 100 (flow_at sample_state 0)"
    by (simp add: sample_state_def flow_idle_def flow_ttl_def sample_ttls_def sample_flow_def nd_flow_new_def)
  have k: "fl_dpi_thread_id (flow_at sample_state 0) = 0" "ag_queue (is_agent sample_state) = []" "0 \<notin> set (is_held sample_state)"
    by (simp_all add: sample_state_def)
  have f: "fm_find (ag_map (is_agent sample_state)) [] = Some 0" by (simp add: sample_state_find)
  have "\<forall>d r. fm_find (ag_map (is_agent sample_state)) d = Some r
      \<longrightarrow> ff_detection_complete (fl_flags (flow_at sample_state r)) \<or> endable (flow_at sample_state r)"
    using e by (simp add: sample_state_find)
  from idle_flow_removed [OF sample_state_ok k(2) this f i k(3), of 115] show ?thesis by (simp only: k(1))
qed

text \<open>The agent after its first packet.\<close>

definition sample_begin :: instance_state where
  "sample_begin = sample_state\<lparr>is_agent := sample_agent\<rparr>"

theorem instance_invariant_witness:
  "\<exists>q t' A'. ProcessPacket sample_env sample_config 43 82 sample_packet sample_thread sample_agent = CDone (q, t', A')
    \<and> fm_free (ag_map A') \<and> ag_flows A' = length (concat (fm_bucket (ag_map A'))) \<and> ag_flows A' \<le> 2"
proof -
  obtain q t' A' where r: "ProcessPacket sample_env sample_config 43 82 sample_packet sample_thread sample_agent = CDone (q, t', A')"
    by (rule sample_run)
  have "agent_start sample_begin"
    unfolding agent_start_def by (intro conjI exI [of _ 4]) (simp_all add: sample_begin_def sample_state_def sample_agent_def)
  moreover have "agent_step sample_config sample_det_env sample_begin (sample_begin\<lparr>is_agent := A'\<rparr>)"
    by (rule agent_step.capture) (use r in \<open>simp add: sample_begin_def\<close>)
  ultimately have "agent_run sample_config sample_det_env (sample_begin\<lparr>is_agent := A'\<rparr>)"
    using agent_run.start agent_run.step by blast
  from instance_invariant [OF this] r show ?thesis by (auto simp: sample_config_def)
qed

end
