(* ===== verification/NdExprTables.thy ===== *)
theory NdExprTables
  imports NdPrelude
begin

text \<open>
  The tables of the generated parser of flow expressions (\<open>src/src/nd-flow-expr.cpp\<close>), what
  it does in a state with a token, and, computed from the tables, the row of each state.
\<close>

section \<open>Tables\<close>

definition YYFINAL :: nat where "YYFINAL = 2"
definition YYLAST :: int where "YYLAST = 335"
definition YYNTOKENS :: nat where "YYNTOKENS = 68"
definition YYPACT_NINF :: int where "YYPACT_NINF = -44"

definition yytranslate_table :: "nat list" where
  "yytranslate_table =
    [0, 2, 2, 2, 2, 2, 2, 2, 2, 2, 2, 2, 2, 2, 2, 2, 2, 2,
     2, 2, 2, 2, 2, 2, 2, 2, 2, 2, 2, 2, 2, 2, 2, 65, 2, 2,
     2, 2, 2, 2, 63, 64, 2, 2, 2, 2, 2, 2, 2, 2, 2, 2, 2, 2,
     2, 2, 2, 2, 2, 62, 67, 2, 66, 2, 2, 2, 2, 2, 2, 2, 2, 2,
     2, 2, 2, 2, 2, 2, 2, 2, 2, 2, 2, 2, 2, 2, 2, 2, 2, 2,
     2, 2, 2, 2, 2, 2, 2, 2, 2, 2, 2, 2, 2, 2, 2, 2, 2, 2,
     2, 2, 2, 2, 2, 2, 2, 2, 2, 2, 2, 2, 2, 2, 2, 2, 2, 2,
     2, 2, 2, 2, 2, 2, 2, 2, 2, 2, 2, 2, 2, 2, 2, 2, 2, 2,
     2, 2, 2, 2, 2, 2, 2, 2, 2, 2, 2, 2, 2, 2, 2, 2, 2, 2,
     2, 2, 2, 2, 2, 2, 2, 2, 2, 2, 2, 2, 2, 2, 2, 2, 2, 2,
     2, 2, 2, 2, 2, 2, 2, 2, 2, 2, 2, 2, 2, 2, 2, 2, 2, 2,
     2, 2, 2, 2, 2, 2, 2, 2, 2, 2, 2, 2, 2, 2, 2, 2, 2, 2,
     2, 2, 2, 2, 2, 2, 2, 2, 2, 2, 2, 2, 2, 2, 2, 2, 2, 2,
     2, 2, 2, 2, 2, 2, 2, 2, 2, 2, 2, 2, 2, 2, 2, 2, 2, 2,
     2, 2, 2, 2, 1, 2, 3, 4, 5, 6, 7, 8, 9, 10, 11, 12, 13, 14,
     15, 16, 17, 18, 19, 20, 21, 22, 23, 24, 25, 26, 27, 28, 29, 30, 31, 32,
     33, 34, 35, 36, 37, 38, 39, 40, 41, 42, 43, 44, 45, 46, 47, 48, 49, 50,
     51, 52, 53, 54, 55, 56, 57, 58, 59, 60, 61]"

definition yypact :: "int list" where
  "yypact =
    [-44, 1, -44, 57, -43, 24, 61, 80, 84, 89, 124, 128, 65, 70, 151, 159, 161, 163,
     165, 74, 97, 101, 167, 169, 171, 173, 175, 177, 179, 105, 109, 181, 132, 31, 69, 18,
     -44, -44, -44, -44, -44, -44, -44, -44, -44, -44, -44, -44, -44, -44, -44, -44, -44, -44,
     -44, -44, -44, -44, -44, -44, -44, -44, -44, -44, -44, -44, -44, -44, -44, -44, 12, 25,
     30, 53, 77, 129, 189, 190, 113, 176, 191, 192, 193, 194, 195, 197, 148, 148, 203, 205,
     206, 207, 143, 143, 143, 143, 201, 202, 204, 208, 209, 210, 211, 212, 213, 214, 215, 216,
     187, 187, 180, 182, 184, 186, 223, 224, 225, 226, 221, 222, 227, 228, 229, 230, 231, 232,
     233, 234, 235, 236, 237, 238, 239, 240, 241, 242, 249, 250, 251, 252, 10, 78, 253, 254,
     133, 134, 255, 256, 185, 188, 257, 258, 259, 260, 261, 262, 263, 264, 265, 266, 267, 268,
     120, 120, 269, 270, 271, 272, 273, 274, 28, -44, -44, -44, -44, -44, -44, -44, -44, -44,
     -44, -44, -44, -44, -44, -44, -44, -44, -44, -44, -44, 31, 31, -44, -44, -44, -44, -44,
     -44, -44, -44, -44, -44, -44, -44, -44, -44, -44, -44, -44, -44, -44, -44, -44, -44, -44,
     -44, -44, -44, -44, -44, -44, -44, -44, -44, -44, -44, -44, -44, -44, -44, -44, -44, -44,
     -44, -44, -44, -44, -44, -44, -44, -44, -44, -44, -44, -44, -44, -44, -44, -44, -44, -44,
     -44, -44, -44, -44, -44, -44, -44, -44, -44, -44, -44, -44, -44, -44, -44, -44, -44, -44,
     -44, -44, -44, -44, -44, -44, -44, -44, -44, -44, -44, -44, -44, -44, -44, -44, -44, -44,
     -44, -44, -44, -44, -44, -44, -44, -44, -44, -44, -44, -44, -44, -44, -44, -44, -44, -44,
     -44, -44, -44, -44, -44, -44, -44, -44, -44, -44, -44, -44, -44, -44, -44, -44, -44, 196,
     196]"

definition yydefact :: "nat list" where
  "yydefact =
    [2, 0, 1, 37, 0, 47, 53, 61, 0, 0, 0, 0, 84, 92, 100, 106, 112, 0,
     128, 132, 140, 148, 0, 0, 118, 0, 162, 0, 172, 186, 194, 202, 178, 0, 0, 0,
     4, 5, 6, 7, 8, 9, 10, 11, 12, 13, 14, 15, 16, 17, 23, 120, 121, 18,
     19, 20, 21, 22, 24, 25, 26, 27, 164, 165, 28, 29, 33, 30, 31, 32, 0, 0,
     0, 0, 0, 0, 0, 0, 0, 0, 0, 0, 0, 0, 0, 0, 0, 0, 0, 0,
     0, 0, 0, 0, 0, 0, 0, 0, 0, 0, 0, 0, 0, 0, 0, 0, 0, 0,
     0, 0, 0, 0, 0, 0, 0, 0, 0, 0, 0, 0, 0, 0, 0, 0, 0, 0,
     0, 0, 0, 0, 0, 0, 0, 0, 0, 0, 0, 0, 0, 0, 0, 0, 0, 0,
     0, 0, 0, 0, 0, 0, 0, 0, 0, 0, 0, 0, 0, 0, 0, 0, 0, 0,
     0, 0, 0, 0, 0, 0, 0, 0, 0, 38, 48, 54, 62, 85, 93, 101, 107, 113,
     129, 133, 141, 149, 119, 163, 173, 187, 195, 203, 179, 0, 0, 3, 39, 40, 41, 42,
     43, 44, 45, 46, 49, 50, 51, 52, 55, 56, 57, 58, 59, 60, 65, 66, 67, 68,
     69, 70, 71, 63, 64, 72, 73, 74, 75, 80, 81, 82, 83, 76, 77, 78, 79, 86,
     87, 88, 89, 90, 91, 94, 95, 96, 97, 98, 99, 104, 105, 102, 103, 108, 109, 110,
     111, 114, 115, 116, 117, 126, 127, 130, 131, 134, 135, 136, 137, 138, 139, 142, 143, 144,
     145, 146, 147, 150, 151, 152, 153, 154, 155, 158, 159, 160, 161, 124, 122, 125, 123, 156,
     157, 168, 166, 169, 167, 170, 171, 174, 176, 175, 177, 188, 189, 190, 191, 192, 193, 196,
     197, 198, 199, 200, 201, 206, 207, 208, 204, 205, 180, 181, 182, 183, 184, 185, 36, 35,
     34]"

definition yypgoto :: "int list" where
  "yypgoto =
    [-44, -44, -33, -44, -44, -44, -44, -44, -8, -44, -44, -44, -44, 98, -44, -44, -44, 138,
     -44, -44, -44, -44, -44, -44, -44, -44, -44, -44, -44, -44, -44, -44, -44, -44, -44, -44,
     -44, -44, -44, -44, 79]"

definition yydefgoto :: "nat list" where
  "yydefgoto =
    [0, 1, 35, 36, 37, 38, 39, 40, 219, 41, 42, 43, 44, 229, 45, 46, 47, 247,
     48, 49, 50, 51, 52, 53, 54, 55, 56, 57, 58, 59, 60, 61, 62, 63, 64, 65,
     66, 67, 68, 69, 314]"

definition yytable :: "int list" where
  "yytable =
    [170, 2, 76, 77, 3, 4, 5, 6, 7, 8, 9, 10, 11, 12, 13, 14, 15, 16,
     17, 18, 19, 20, 21, 22, 23, 24, 25, 26, 27, 28, 29, 30, 31, 32, 3, 4,
     5, 6, 7, 8, 9, 10, 11, 12, 13, 14, 15, 16, 17, 18, 19, 20, 21, 22,
     23, 24, 25, 26, 27, 28, 29, 30, 31, 32, 33, 283, 34, 191, 192, 78, 79, 284,
     171, 194, 172, 173, 174, 191, 192, 220, 193, 175, 176, 177, 178, 179, 195, 180, 181, 182,
     183, 196, 322, 184, 33, 185, 34, 186, 187, 188, 189, 190, 70, 71, 72, 73, 80, 81,
     82, 83, 96, 97, 98, 99, 197, 102, 103, 104, 105, 118, 119, 120, 121, 74, 75, 86,
     87, 84, 85, 88, 89, 100, 101, 285, 90, 91, 106, 107, 198, 286, 122, 123, 124, 125,
     126, 127, 130, 131, 132, 133, 150, 151, 152, 153, 156, 157, 158, 159, 323, 324, 311, 312,
     313, 128, 129, 202, 203, 134, 135, 92, 93, 154, 155, 94, 95, 160, 161, 164, 165, 166,
     167, 212, 213, 214, 215, 216, 217, 218, 289, 291, 199, 230, 231, 232, 290, 292, 108, 109,
     168, 169, 225, 226, 227, 228, 110, 111, 112, 113, 114, 115, 116, 117, 136, 137, 138, 139,
     140, 141, 142, 143, 144, 145, 146, 147, 148, 149, 162, 163, 204, 205, 245, 246, 249, 250,
     251, 252, 253, 254, 255, 256, 295, 296, 315, 297, 298, 191, 192, 248, 0, 0, 200, 201,
     206, 207, 208, 209, 210, 221, 211, 222, 223, 224, 233, 234, 0, 235, 0, 0, 0, 236,
     237, 238, 239, 240, 241, 242, 243, 244, 257, 258, 259, 260, 261, 262, 0, 0, 0, 0,
     263, 264, 265, 266, 267, 268, 269, 270, 271, 272, 273, 274, 275, 276, 277, 278, 279, 280,
     281, 282, 287, 288, 293, 294, 0, 0, 0, 0, 0, 0, 299, 300, 301, 302, 303, 304,
     305, 306, 307, 308, 309, 310, 316, 317, 318, 319, 320, 321]"

definition yycheck :: "int list" where
  "yycheck =
    [33, 0, 45, 46, 3, 4, 5, 6, 7, 8, 9, 10, 11, 12, 13, 14, 15, 16,
     17, 18, 19, 20, 21, 22, 23, 24, 25, 26, 27, 28, 29, 30, 31, 32, 3, 4,
     5, 6, 7, 8, 9, 10, 11, 12, 13, 14, 15, 16, 17, 18, 19, 20, 21, 22,
     23, 24, 25, 26, 27, 28, 29, 30, 31, 32, 63, 55, 65, 49, 50, 45, 46, 61,
     3, 61, 5, 6, 7, 49, 50, 87, 62, 12, 13, 14, 15, 16, 61, 18, 19, 20,
     21, 61, 64, 24, 63, 26, 65, 28, 29, 30, 31, 32, 45, 46, 47, 48, 45, 46,
     47, 48, 45, 46, 47, 48, 61, 45, 46, 47, 48, 45, 46, 47, 48, 66, 67, 45,
     46, 66, 67, 45, 46, 66, 67, 55, 45, 46, 66, 67, 61, 61, 66, 67, 45, 46,
     47, 48, 45, 46, 47, 48, 45, 46, 47, 48, 45, 46, 47, 48, 191, 192, 40, 41,
     42, 66, 67, 52, 53, 66, 67, 45, 46, 66, 67, 45, 46, 66, 67, 45, 46, 47,
     48, 33, 34, 35, 36, 37, 38, 39, 55, 55, 61, 93, 94, 95, 61, 61, 45, 46,
     66, 67, 57, 58, 59, 60, 45, 46, 45, 46, 45, 46, 45, 46, 45, 46, 45, 46,
     45, 46, 45, 46, 45, 46, 45, 46, 45, 46, 45, 46, 52, 53, 43, 44, 52, 53,
     52, 53, 52, 53, 52, 53, 55, 56, 163, 55, 56, 49, 50, 109, -1, -1, 61, 61,
     61, 61, 61, 61, 61, 54, 61, 54, 54, 54, 61, 61, -1, 61, -1, -1, -1, 61,
     61, 61, 61, 61, 61, 61, 61, 61, 55, 55, 55, 55, 61, 61, -1, -1, -1, -1,
     61, 61, 61, 61, 61, 61, 61, 61, 61, 61, 61, 61, 61, 61, 61, 61, 55, 55,
     55, 55, 55, 55, 55, 55, -1, -1, -1, -1, -1, -1, 61, 61, 61, 61, 61, 61,
     61, 61, 61, 61, 61, 61, 61, 61, 61, 61, 61, 61]"

definition yyr1 :: "nat list" where
  "yyr1 =
    [0, 68, 69, 69, 70, 70, 70, 70, 70, 70, 70, 70, 70, 70, 70, 70, 70, 70,
     70, 70, 70, 70, 70, 70, 70, 70, 70, 70, 70, 70, 70, 70, 70, 70, 70, 70,
     70, 71, 71, 71, 71, 71, 71, 71, 71, 72, 72, 73, 73, 73, 73, 73, 73, 74,
     74, 74, 74, 74, 74, 74, 74, 75, 75, 75, 75, 76, 76, 76, 76, 76, 76, 76,
     77, 77, 78, 78, 79, 79, 80, 80, 81, 81, 81, 81, 82, 82, 82, 82, 82, 82,
     82, 82, 83, 83, 83, 83, 83, 83, 83, 83, 84, 84, 84, 84, 85, 85, 86, 86,
     86, 86, 86, 86, 87, 87, 87, 87, 87, 87, 88, 88, 88, 88, 89, 89, 90, 90,
     91, 91, 92, 92, 92, 92, 93, 93, 93, 93, 93, 93, 93, 93, 94, 94, 94, 94,
     94, 94, 94, 94, 95, 95, 95, 95, 95, 95, 95, 95, 96, 96, 97, 97, 98, 98,
     99, 99, 99, 99, 100, 100, 101, 101, 102, 102, 103, 103, 103, 103, 103, 103, 104, 104,
     104, 104, 104, 104, 104, 104, 105, 105, 105, 105, 105, 105, 105, 105, 106, 106, 106, 106,
     106, 106, 106, 106, 107, 107, 107, 107, 108, 108, 108]"

definition yyr2 :: "nat list" where
  "yyr2 =
    [0, 2, 0, 3, 1, 1, 1, 1, 1, 1, 1, 1, 1, 1, 1, 1, 1, 1,
     1, 1, 1, 1, 1, 1, 1, 1, 1, 1, 1, 1, 1, 1, 1, 1, 3, 3,
     3, 1, 2, 3, 3, 3, 3, 3, 3, 3, 3, 1, 2, 3, 3, 3, 3, 1,
     2, 3, 3, 3, 3, 3, 3, 1, 2, 3, 3, 1, 1, 1, 1, 1, 1, 1,
     3, 3, 3, 3, 3, 3, 3, 3, 1, 1, 1, 1, 1, 2, 3, 3, 3, 3,
     3, 3, 1, 2, 3, 3, 3, 3, 3, 3, 1, 2, 3, 3, 1, 1, 1, 2,
     3, 3, 3, 3, 1, 2, 3, 3, 3, 3, 1, 2, 1, 1, 3, 3, 3, 3,
     3, 3, 1, 2, 3, 3, 1, 2, 3, 3, 3, 3, 3, 3, 1, 2, 3, 3,
     3, 3, 3, 3, 1, 2, 3, 3, 3, 3, 3, 3, 3, 3, 3, 3, 3, 3,
     1, 2, 1, 1, 3, 3, 3, 3, 3, 3, 1, 2, 3, 3, 3, 3, 1, 2,
     3, 3, 3, 3, 3, 3, 1, 2, 3, 3, 3, 3, 3, 3, 1, 2, 3, 3,
     3, 3, 3, 3, 1, 2, 3, 3, 1, 1, 1]"

text \<open>A kind that is not positive is the end of the input.\<close>

definition yytranslate :: "int \<Rightarrow> nat" where
  "yytranslate k = (if 0 \<le> k \<and> k \<le> 316 then yytranslate_table ! nat k else 2)"

section \<open>Actions\<close>

datatype yyact = Shift nat | Reduce nat | Fail

definition yydefault :: "nat \<Rightarrow> yyact" where
  "yydefault s = (if yydefact ! s = 0 then Fail else Reduce (yydefact ! s))"

definition yyaction :: "nat \<Rightarrow> nat \<Rightarrow> yyact" where
  "yyaction s t =
     (let n = yypact ! s + int t in
      if n < 0 \<or> YYLAST < n \<or> yycheck ! nat n \<noteq> int t then yydefault s
      else let a = yytable ! nat n in if a \<le> 0 then Reduce (nat (- a)) else Shift (nat a))"

definition yygoto :: "nat \<Rightarrow> nat \<Rightarrow> nat" where
  "yygoto s r =
     (let lhs = yyr1 ! r - YYNTOKENS; i = yypgoto ! lhs + int s in
      if 0 \<le> i \<and> i \<le> YYLAST \<and> yycheck ! nat i = int s then nat (yytable ! nat i) else yydefgoto ! lhs)"

section \<open>Entries\<close>

text \<open>The entries of the tables one by one, so that a search in them is a rewriting step.\<close>

lemma nth_pairs: "zip [0..<length xs] xs = ps \<Longrightarrow> list_all (\<lambda>(i, v). xs ! i = v) ps"
  by (auto simp: list_all_iff set_zip)

lemma yypact_pairs:
  "zip [0..<length yypact] yypact =
    [(0, -44), (1, 1), (2, -44), (3, 57), (4, -43), (5, 24), (6, 61), (7, 80), (8, 84), (9, 89), (10, 124), (11, 128),
     (12, 65), (13, 70), (14, 151), (15, 159), (16, 161), (17, 163), (18, 165), (19, 74), (20, 97), (21, 101), (22, 167), (23, 169),
     (24, 171), (25, 173), (26, 175), (27, 177), (28, 179), (29, 105), (30, 109), (31, 181), (32, 132), (33, 31), (34, 69), (35, 18),
     (36, -44), (37, -44), (38, -44), (39, -44), (40, -44), (41, -44), (42, -44), (43, -44), (44, -44), (45, -44), (46, -44), (47, -44),
     (48, -44), (49, -44), (50, -44), (51, -44), (52, -44), (53, -44), (54, -44), (55, -44), (56, -44), (57, -44), (58, -44), (59, -44),
     (60, -44), (61, -44), (62, -44), (63, -44), (64, -44), (65, -44), (66, -44), (67, -44), (68, -44), (69, -44), (70, 12), (71, 25),
     (72, 30), (73, 53), (74, 77), (75, 129), (76, 189), (77, 190), (78, 113), (79, 176), (80, 191), (81, 192), (82, 193), (83, 194),
     (84, 195), (85, 197), (86, 148), (87, 148), (88, 203), (89, 205), (90, 206), (91, 207), (92, 143), (93, 143), (94, 143), (95, 143),
     (96, 201), (97, 202), (98, 204), (99, 208), (100, 209), (101, 210), (102, 211), (103, 212), (104, 213), (105, 214), (106, 215), (107, 216),
     (108, 187), (109, 187), (110, 180), (111, 182), (112, 184), (113, 186), (114, 223), (115, 224), (116, 225), (117, 226), (118, 221), (119, 222),
     (120, 227), (121, 228), (122, 229), (123, 230), (124, 231), (125, 232), (126, 233), (127, 234), (128, 235), (129, 236), (130, 237), (131, 238),
     (132, 239), (133, 240), (134, 241), (135, 242), (136, 249), (137, 250), (138, 251), (139, 252), (140, 10), (141, 78), (142, 253), (143, 254),
     (144, 133), (145, 134), (146, 255), (147, 256), (148, 185), (149, 188), (150, 257), (151, 258), (152, 259), (153, 260), (154, 261), (155, 262),
     (156, 263), (157, 264), (158, 265), (159, 266), (160, 267), (161, 268), (162, 120), (163, 120), (164, 269), (165, 270), (166, 271), (167, 272),
     (168, 273), (169, 274), (170, 28), (171, -44), (172, -44), (173, -44), (174, -44), (175, -44), (176, -44), (177, -44), (178, -44), (179, -44),
     (180, -44), (181, -44), (182, -44), (183, -44), (184, -44), (185, -44), (186, -44), (187, -44), (188, -44), (189, -44), (190, -44), (191, 31),
     (192, 31), (193, -44), (194, -44), (195, -44), (196, -44), (197, -44), (198, -44), (199, -44), (200, -44), (201, -44), (202, -44), (203, -44),
     (204, -44), (205, -44), (206, -44), (207, -44), (208, -44), (209, -44), (210, -44), (211, -44), (212, -44), (213, -44), (214, -44), (215, -44),
     (216, -44), (217, -44), (218, -44), (219, -44), (220, -44), (221, -44), (222, -44), (223, -44), (224, -44), (225, -44), (226, -44), (227, -44),
     (228, -44), (229, -44), (230, -44), (231, -44), (232, -44), (233, -44), (234, -44), (235, -44), (236, -44), (237, -44), (238, -44), (239, -44),
     (240, -44), (241, -44), (242, -44), (243, -44), (244, -44), (245, -44), (246, -44), (247, -44), (248, -44), (249, -44), (250, -44), (251, -44),
     (252, -44), (253, -44), (254, -44), (255, -44), (256, -44), (257, -44), (258, -44), (259, -44), (260, -44), (261, -44), (262, -44), (263, -44),
     (264, -44), (265, -44), (266, -44), (267, -44), (268, -44), (269, -44), (270, -44), (271, -44), (272, -44), (273, -44), (274, -44), (275, -44),
     (276, -44), (277, -44), (278, -44), (279, -44), (280, -44), (281, -44), (282, -44), (283, -44), (284, -44), (285, -44), (286, -44), (287, -44),
     (288, -44), (289, -44), (290, -44), (291, -44), (292, -44), (293, -44), (294, -44), (295, -44), (296, -44), (297, -44), (298, -44), (299, -44),
     (300, -44), (301, -44), (302, -44), (303, -44), (304, -44), (305, -44), (306, -44), (307, -44), (308, -44), (309, -44), (310, -44), (311, -44),
     (312, -44), (313, -44), (314, -44), (315, -44), (316, -44), (317, -44), (318, -44), (319, -44), (320, -44), (321, -44), (322, -44), (323, 196),
     (324, 196)]"
  by code_simp

lemmas yypact_entries = nth_pairs [OF yypact_pairs, simplified]

lemma yydefact_pairs:
  "zip [0..<length yydefact] yydefact =
    [(0, 2), (1, 0), (2, 1), (3, 37), (4, 0), (5, 47), (6, 53), (7, 61), (8, 0), (9, 0), (10, 0), (11, 0),
     (12, 84), (13, 92), (14, 100), (15, 106), (16, 112), (17, 0), (18, 128), (19, 132), (20, 140), (21, 148), (22, 0), (23, 0),
     (24, 118), (25, 0), (26, 162), (27, 0), (28, 172), (29, 186), (30, 194), (31, 202), (32, 178), (33, 0), (34, 0), (35, 0),
     (36, 4), (37, 5), (38, 6), (39, 7), (40, 8), (41, 9), (42, 10), (43, 11), (44, 12), (45, 13), (46, 14), (47, 15),
     (48, 16), (49, 17), (50, 23), (51, 120), (52, 121), (53, 18), (54, 19), (55, 20), (56, 21), (57, 22), (58, 24), (59, 25),
     (60, 26), (61, 27), (62, 164), (63, 165), (64, 28), (65, 29), (66, 33), (67, 30), (68, 31), (69, 32), (70, 0), (71, 0),
     (72, 0), (73, 0), (74, 0), (75, 0), (76, 0), (77, 0), (78, 0), (79, 0), (80, 0), (81, 0), (82, 0), (83, 0),
     (84, 0), (85, 0), (86, 0), (87, 0), (88, 0), (89, 0), (90, 0), (91, 0), (92, 0), (93, 0), (94, 0), (95, 0),
     (96, 0), (97, 0), (98, 0), (99, 0), (100, 0), (101, 0), (102, 0), (103, 0), (104, 0), (105, 0), (106, 0), (107, 0),
     (108, 0), (109, 0), (110, 0), (111, 0), (112, 0), (113, 0), (114, 0), (115, 0), (116, 0), (117, 0), (118, 0), (119, 0),
     (120, 0), (121, 0), (122, 0), (123, 0), (124, 0), (125, 0), (126, 0), (127, 0), (128, 0), (129, 0), (130, 0), (131, 0),
     (132, 0), (133, 0), (134, 0), (135, 0), (136, 0), (137, 0), (138, 0), (139, 0), (140, 0), (141, 0), (142, 0), (143, 0),
     (144, 0), (145, 0), (146, 0), (147, 0), (148, 0), (149, 0), (150, 0), (151, 0), (152, 0), (153, 0), (154, 0), (155, 0),
     (156, 0), (157, 0), (158, 0), (159, 0), (160, 0), (161, 0), (162, 0), (163, 0), (164, 0), (165, 0), (166, 0), (167, 0),
     (168, 0), (169, 0), (170, 0), (171, 38), (172, 48), (173, 54), (174, 62), (175, 85), (176, 93), (177, 101), (178, 107), (179, 113),
     (180, 129), (181, 133), (182, 141), (183, 149), (184, 119), (185, 163), (186, 173), (187, 187), (188, 195), (189, 203), (190, 179), (191, 0),
     (192, 0), (193, 3), (194, 39), (195, 40), (196, 41), (197, 42), (198, 43), (199, 44), (200, 45), (201, 46), (202, 49), (203, 50),
     (204, 51), (205, 52), (206, 55), (207, 56), (208, 57), (209, 58), (210, 59), (211, 60), (212, 65), (213, 66), (214, 67), (215, 68),
     (216, 69), (217, 70), (218, 71), (219, 63), (220, 64), (221, 72), (222, 73), (223, 74), (224, 75), (225, 80), (226, 81), (227, 82),
     (228, 83), (229, 76), (230, 77), (231, 78), (232, 79), (233, 86), (234, 87), (235, 88), (236, 89), (237, 90), (238, 91), (239, 94),
     (240, 95), (241, 96), (242, 97), (243, 98), (244, 99), (245, 104), (246, 105), (247, 102), (248, 103), (249, 108), (250, 109), (251, 110),
     (252, 111), (253, 114), (254, 115), (255, 116), (256, 117), (257, 126), (258, 127), (259, 130), (260, 131), (261, 134), (262, 135), (263, 136),
     (264, 137), (265, 138), (266, 139), (267, 142), (268, 143), (269, 144), (270, 145), (271, 146), (272, 147), (273, 150), (274, 151), (275, 152),
     (276, 153), (277, 154), (278, 155), (279, 158), (280, 159), (281, 160), (282, 161), (283, 124), (284, 122), (285, 125), (286, 123), (287, 156),
     (288, 157), (289, 168), (290, 166), (291, 169), (292, 167), (293, 170), (294, 171), (295, 174), (296, 176), (297, 175), (298, 177), (299, 188),
     (300, 189), (301, 190), (302, 191), (303, 192), (304, 193), (305, 196), (306, 197), (307, 198), (308, 199), (309, 200), (310, 201), (311, 206),
     (312, 207), (313, 208), (314, 204), (315, 205), (316, 180), (317, 181), (318, 182), (319, 183), (320, 184), (321, 185), (322, 36), (323, 35),
     (324, 34)]"
  by code_simp

lemmas yydefact_entries = nth_pairs [OF yydefact_pairs, simplified]

lemma yypgoto_pairs:
  "zip [0..<length yypgoto] yypgoto =
    [(0, -44), (1, -44), (2, -33), (3, -44), (4, -44), (5, -44), (6, -44), (7, -44), (8, -8), (9, -44), (10, -44), (11, -44),
     (12, -44), (13, 98), (14, -44), (15, -44), (16, -44), (17, 138), (18, -44), (19, -44), (20, -44), (21, -44), (22, -44), (23, -44),
     (24, -44), (25, -44), (26, -44), (27, -44), (28, -44), (29, -44), (30, -44), (31, -44), (32, -44), (33, -44), (34, -44), (35, -44),
     (36, -44), (37, -44), (38, -44), (39, -44), (40, 79)]"
  by code_simp

lemmas yypgoto_entries = nth_pairs [OF yypgoto_pairs, simplified]

lemma yydefgoto_pairs:
  "zip [0..<length yydefgoto] yydefgoto =
    [(0, 0), (1, 1), (2, 35), (3, 36), (4, 37), (5, 38), (6, 39), (7, 40), (8, 219), (9, 41), (10, 42), (11, 43),
     (12, 44), (13, 229), (14, 45), (15, 46), (16, 47), (17, 247), (18, 48), (19, 49), (20, 50), (21, 51), (22, 52), (23, 53),
     (24, 54), (25, 55), (26, 56), (27, 57), (28, 58), (29, 59), (30, 60), (31, 61), (32, 62), (33, 63), (34, 64), (35, 65),
     (36, 66), (37, 67), (38, 68), (39, 69), (40, 314)]"
  by code_simp

lemmas yydefgoto_entries = nth_pairs [OF yydefgoto_pairs, simplified]

lemma yytable_pairs:
  "zip [0..<length yytable] yytable =
    [(0, 170), (1, 2), (2, 76), (3, 77), (4, 3), (5, 4), (6, 5), (7, 6), (8, 7), (9, 8), (10, 9), (11, 10),
     (12, 11), (13, 12), (14, 13), (15, 14), (16, 15), (17, 16), (18, 17), (19, 18), (20, 19), (21, 20), (22, 21), (23, 22),
     (24, 23), (25, 24), (26, 25), (27, 26), (28, 27), (29, 28), (30, 29), (31, 30), (32, 31), (33, 32), (34, 3), (35, 4),
     (36, 5), (37, 6), (38, 7), (39, 8), (40, 9), (41, 10), (42, 11), (43, 12), (44, 13), (45, 14), (46, 15), (47, 16),
     (48, 17), (49, 18), (50, 19), (51, 20), (52, 21), (53, 22), (54, 23), (55, 24), (56, 25), (57, 26), (58, 27), (59, 28),
     (60, 29), (61, 30), (62, 31), (63, 32), (64, 33), (65, 283), (66, 34), (67, 191), (68, 192), (69, 78), (70, 79), (71, 284),
     (72, 171), (73, 194), (74, 172), (75, 173), (76, 174), (77, 191), (78, 192), (79, 220), (80, 193), (81, 175), (82, 176), (83, 177),
     (84, 178), (85, 179), (86, 195), (87, 180), (88, 181), (89, 182), (90, 183), (91, 196), (92, 322), (93, 184), (94, 33), (95, 185),
     (96, 34), (97, 186), (98, 187), (99, 188), (100, 189), (101, 190), (102, 70), (103, 71), (104, 72), (105, 73), (106, 80), (107, 81),
     (108, 82), (109, 83), (110, 96), (111, 97), (112, 98), (113, 99), (114, 197), (115, 102), (116, 103), (117, 104), (118, 105), (119, 118),
     (120, 119), (121, 120), (122, 121), (123, 74), (124, 75), (125, 86), (126, 87), (127, 84), (128, 85), (129, 88), (130, 89), (131, 100),
     (132, 101), (133, 285), (134, 90), (135, 91), (136, 106), (137, 107), (138, 198), (139, 286), (140, 122), (141, 123), (142, 124), (143, 125),
     (144, 126), (145, 127), (146, 130), (147, 131), (148, 132), (149, 133), (150, 150), (151, 151), (152, 152), (153, 153), (154, 156), (155, 157),
     (156, 158), (157, 159), (158, 323), (159, 324), (160, 311), (161, 312), (162, 313), (163, 128), (164, 129), (165, 202), (166, 203), (167, 134),
     (168, 135), (169, 92), (170, 93), (171, 154), (172, 155), (173, 94), (174, 95), (175, 160), (176, 161), (177, 164), (178, 165), (179, 166),
     (180, 167), (181, 212), (182, 213), (183, 214), (184, 215), (185, 216), (186, 217), (187, 218), (188, 289), (189, 291), (190, 199), (191, 230),
     (192, 231), (193, 232), (194, 290), (195, 292), (196, 108), (197, 109), (198, 168), (199, 169), (200, 225), (201, 226), (202, 227), (203, 228),
     (204, 110), (205, 111), (206, 112), (207, 113), (208, 114), (209, 115), (210, 116), (211, 117), (212, 136), (213, 137), (214, 138), (215, 139),
     (216, 140), (217, 141), (218, 142), (219, 143), (220, 144), (221, 145), (222, 146), (223, 147), (224, 148), (225, 149), (226, 162), (227, 163),
     (228, 204), (229, 205), (230, 245), (231, 246), (232, 249), (233, 250), (234, 251), (235, 252), (236, 253), (237, 254), (238, 255), (239, 256),
     (240, 295), (241, 296), (242, 315), (243, 297), (244, 298), (245, 191), (246, 192), (247, 248), (248, 0), (249, 0), (250, 200), (251, 201),
     (252, 206), (253, 207), (254, 208), (255, 209), (256, 210), (257, 221), (258, 211), (259, 222), (260, 223), (261, 224), (262, 233), (263, 234),
     (264, 0), (265, 235), (266, 0), (267, 0), (268, 0), (269, 236), (270, 237), (271, 238), (272, 239), (273, 240), (274, 241), (275, 242),
     (276, 243), (277, 244), (278, 257), (279, 258), (280, 259), (281, 260), (282, 261), (283, 262), (284, 0), (285, 0), (286, 0), (287, 0),
     (288, 263), (289, 264), (290, 265), (291, 266), (292, 267), (293, 268), (294, 269), (295, 270), (296, 271), (297, 272), (298, 273), (299, 274),
     (300, 275), (301, 276), (302, 277), (303, 278), (304, 279), (305, 280), (306, 281), (307, 282), (308, 287), (309, 288), (310, 293), (311, 294),
     (312, 0), (313, 0), (314, 0), (315, 0), (316, 0), (317, 0), (318, 299), (319, 300), (320, 301), (321, 302), (322, 303), (323, 304),
     (324, 305), (325, 306), (326, 307), (327, 308), (328, 309), (329, 310), (330, 316), (331, 317), (332, 318), (333, 319), (334, 320), (335, 321)]"
  by code_simp

lemmas yytable_entries = nth_pairs [OF yytable_pairs, simplified]

lemma yycheck_pairs:
  "zip [0..<length yycheck] yycheck =
    [(0, 33), (1, 0), (2, 45), (3, 46), (4, 3), (5, 4), (6, 5), (7, 6), (8, 7), (9, 8), (10, 9), (11, 10),
     (12, 11), (13, 12), (14, 13), (15, 14), (16, 15), (17, 16), (18, 17), (19, 18), (20, 19), (21, 20), (22, 21), (23, 22),
     (24, 23), (25, 24), (26, 25), (27, 26), (28, 27), (29, 28), (30, 29), (31, 30), (32, 31), (33, 32), (34, 3), (35, 4),
     (36, 5), (37, 6), (38, 7), (39, 8), (40, 9), (41, 10), (42, 11), (43, 12), (44, 13), (45, 14), (46, 15), (47, 16),
     (48, 17), (49, 18), (50, 19), (51, 20), (52, 21), (53, 22), (54, 23), (55, 24), (56, 25), (57, 26), (58, 27), (59, 28),
     (60, 29), (61, 30), (62, 31), (63, 32), (64, 63), (65, 55), (66, 65), (67, 49), (68, 50), (69, 45), (70, 46), (71, 61),
     (72, 3), (73, 61), (74, 5), (75, 6), (76, 7), (77, 49), (78, 50), (79, 87), (80, 62), (81, 12), (82, 13), (83, 14),
     (84, 15), (85, 16), (86, 61), (87, 18), (88, 19), (89, 20), (90, 21), (91, 61), (92, 64), (93, 24), (94, 63), (95, 26),
     (96, 65), (97, 28), (98, 29), (99, 30), (100, 31), (101, 32), (102, 45), (103, 46), (104, 47), (105, 48), (106, 45), (107, 46),
     (108, 47), (109, 48), (110, 45), (111, 46), (112, 47), (113, 48), (114, 61), (115, 45), (116, 46), (117, 47), (118, 48), (119, 45),
     (120, 46), (121, 47), (122, 48), (123, 66), (124, 67), (125, 45), (126, 46), (127, 66), (128, 67), (129, 45), (130, 46), (131, 66),
     (132, 67), (133, 55), (134, 45), (135, 46), (136, 66), (137, 67), (138, 61), (139, 61), (140, 66), (141, 67), (142, 45), (143, 46),
     (144, 47), (145, 48), (146, 45), (147, 46), (148, 47), (149, 48), (150, 45), (151, 46), (152, 47), (153, 48), (154, 45), (155, 46),
     (156, 47), (157, 48), (158, 191), (159, 192), (160, 40), (161, 41), (162, 42), (163, 66), (164, 67), (165, 52), (166, 53), (167, 66),
     (168, 67), (169, 45), (170, 46), (171, 66), (172, 67), (173, 45), (174, 46), (175, 66), (176, 67), (177, 45), (178, 46), (179, 47),
     (180, 48), (181, 33), (182, 34), (183, 35), (184, 36), (185, 37), (186, 38), (187, 39), (188, 55), (189, 55), (190, 61), (191, 93),
     (192, 94), (193, 95), (194, 61), (195, 61), (196, 45), (197, 46), (198, 66), (199, 67), (200, 57), (201, 58), (202, 59), (203, 60),
     (204, 45), (205, 46), (206, 45), (207, 46), (208, 45), (209, 46), (210, 45), (211, 46), (212, 45), (213, 46), (214, 45), (215, 46),
     (216, 45), (217, 46), (218, 45), (219, 46), (220, 45), (221, 46), (222, 45), (223, 46), (224, 45), (225, 46), (226, 45), (227, 46),
     (228, 52), (229, 53), (230, 43), (231, 44), (232, 52), (233, 53), (234, 52), (235, 53), (236, 52), (237, 53), (238, 52), (239, 53),
     (240, 55), (241, 56), (242, 163), (243, 55), (244, 56), (245, 49), (246, 50), (247, 109), (248, -1), (249, -1), (250, 61), (251, 61),
     (252, 61), (253, 61), (254, 61), (255, 61), (256, 61), (257, 54), (258, 61), (259, 54), (260, 54), (261, 54), (262, 61), (263, 61),
     (264, -1), (265, 61), (266, -1), (267, -1), (268, -1), (269, 61), (270, 61), (271, 61), (272, 61), (273, 61), (274, 61), (275, 61),
     (276, 61), (277, 61), (278, 55), (279, 55), (280, 55), (281, 55), (282, 61), (283, 61), (284, -1), (285, -1), (286, -1), (287, -1),
     (288, 61), (289, 61), (290, 61), (291, 61), (292, 61), (293, 61), (294, 61), (295, 61), (296, 61), (297, 61), (298, 61), (299, 61),
     (300, 61), (301, 61), (302, 61), (303, 61), (304, 55), (305, 55), (306, 55), (307, 55), (308, 55), (309, 55), (310, 55), (311, 55),
     (312, -1), (313, -1), (314, -1), (315, -1), (316, -1), (317, -1), (318, 61), (319, 61), (320, 61), (321, 61), (322, 61), (323, 61),
     (324, 61), (325, 61), (326, 61), (327, 61), (328, 61), (329, 61), (330, 61), (331, 61), (332, 61), (333, 61), (334, 61), (335, 61)]"
  by code_simp

lemmas yycheck_entries = nth_pairs [OF yycheck_pairs, simplified]

lemma yyr1_pairs:
  "zip [0..<length yyr1] yyr1 =
    [(0, 0), (1, 68), (2, 69), (3, 69), (4, 70), (5, 70), (6, 70), (7, 70), (8, 70), (9, 70), (10, 70), (11, 70),
     (12, 70), (13, 70), (14, 70), (15, 70), (16, 70), (17, 70), (18, 70), (19, 70), (20, 70), (21, 70), (22, 70), (23, 70),
     (24, 70), (25, 70), (26, 70), (27, 70), (28, 70), (29, 70), (30, 70), (31, 70), (32, 70), (33, 70), (34, 70), (35, 70),
     (36, 70), (37, 71), (38, 71), (39, 71), (40, 71), (41, 71), (42, 71), (43, 71), (44, 71), (45, 72), (46, 72), (47, 73),
     (48, 73), (49, 73), (50, 73), (51, 73), (52, 73), (53, 74), (54, 74), (55, 74), (56, 74), (57, 74), (58, 74), (59, 74),
     (60, 74), (61, 75), (62, 75), (63, 75), (64, 75), (65, 76), (66, 76), (67, 76), (68, 76), (69, 76), (70, 76), (71, 76),
     (72, 77), (73, 77), (74, 78), (75, 78), (76, 79), (77, 79), (78, 80), (79, 80), (80, 81), (81, 81), (82, 81), (83, 81),
     (84, 82), (85, 82), (86, 82), (87, 82), (88, 82), (89, 82), (90, 82), (91, 82), (92, 83), (93, 83), (94, 83), (95, 83),
     (96, 83), (97, 83), (98, 83), (99, 83), (100, 84), (101, 84), (102, 84), (103, 84), (104, 85), (105, 85), (106, 86), (107, 86),
     (108, 86), (109, 86), (110, 86), (111, 86), (112, 87), (113, 87), (114, 87), (115, 87), (116, 87), (117, 87), (118, 88), (119, 88),
     (120, 88), (121, 88), (122, 89), (123, 89), (124, 90), (125, 90), (126, 91), (127, 91), (128, 92), (129, 92), (130, 92), (131, 92),
     (132, 93), (133, 93), (134, 93), (135, 93), (136, 93), (137, 93), (138, 93), (139, 93), (140, 94), (141, 94), (142, 94), (143, 94),
     (144, 94), (145, 94), (146, 94), (147, 94), (148, 95), (149, 95), (150, 95), (151, 95), (152, 95), (153, 95), (154, 95), (155, 95),
     (156, 96), (157, 96), (158, 97), (159, 97), (160, 98), (161, 98), (162, 99), (163, 99), (164, 99), (165, 99), (166, 100), (167, 100),
     (168, 101), (169, 101), (170, 102), (171, 102), (172, 103), (173, 103), (174, 103), (175, 103), (176, 103), (177, 103), (178, 104), (179, 104),
     (180, 104), (181, 104), (182, 104), (183, 104), (184, 104), (185, 104), (186, 105), (187, 105), (188, 105), (189, 105), (190, 105), (191, 105),
     (192, 105), (193, 105), (194, 106), (195, 106), (196, 106), (197, 106), (198, 106), (199, 106), (200, 106), (201, 106), (202, 107), (203, 107),
     (204, 107), (205, 107), (206, 108), (207, 108), (208, 108)]"
  by code_simp

lemmas yyr1_entries = nth_pairs [OF yyr1_pairs, simplified]

lemma yyr2_pairs:
  "zip [0..<length yyr2] yyr2 =
    [(0, 0), (1, 2), (2, 0), (3, 3), (4, 1), (5, 1), (6, 1), (7, 1), (8, 1), (9, 1), (10, 1), (11, 1),
     (12, 1), (13, 1), (14, 1), (15, 1), (16, 1), (17, 1), (18, 1), (19, 1), (20, 1), (21, 1), (22, 1), (23, 1),
     (24, 1), (25, 1), (26, 1), (27, 1), (28, 1), (29, 1), (30, 1), (31, 1), (32, 1), (33, 1), (34, 3), (35, 3),
     (36, 3), (37, 1), (38, 2), (39, 3), (40, 3), (41, 3), (42, 3), (43, 3), (44, 3), (45, 3), (46, 3), (47, 1),
     (48, 2), (49, 3), (50, 3), (51, 3), (52, 3), (53, 1), (54, 2), (55, 3), (56, 3), (57, 3), (58, 3), (59, 3),
     (60, 3), (61, 1), (62, 2), (63, 3), (64, 3), (65, 1), (66, 1), (67, 1), (68, 1), (69, 1), (70, 1), (71, 1),
     (72, 3), (73, 3), (74, 3), (75, 3), (76, 3), (77, 3), (78, 3), (79, 3), (80, 1), (81, 1), (82, 1), (83, 1),
     (84, 1), (85, 2), (86, 3), (87, 3), (88, 3), (89, 3), (90, 3), (91, 3), (92, 1), (93, 2), (94, 3), (95, 3),
     (96, 3), (97, 3), (98, 3), (99, 3), (100, 1), (101, 2), (102, 3), (103, 3), (104, 1), (105, 1), (106, 1), (107, 2),
     (108, 3), (109, 3), (110, 3), (111, 3), (112, 1), (113, 2), (114, 3), (115, 3), (116, 3), (117, 3), (118, 1), (119, 2),
     (120, 1), (121, 1), (122, 3), (123, 3), (124, 3), (125, 3), (126, 3), (127, 3), (128, 1), (129, 2), (130, 3), (131, 3),
     (132, 1), (133, 2), (134, 3), (135, 3), (136, 3), (137, 3), (138, 3), (139, 3), (140, 1), (141, 2), (142, 3), (143, 3),
     (144, 3), (145, 3), (146, 3), (147, 3), (148, 1), (149, 2), (150, 3), (151, 3), (152, 3), (153, 3), (154, 3), (155, 3),
     (156, 3), (157, 3), (158, 3), (159, 3), (160, 3), (161, 3), (162, 1), (163, 2), (164, 1), (165, 1), (166, 3), (167, 3),
     (168, 3), (169, 3), (170, 3), (171, 3), (172, 1), (173, 2), (174, 3), (175, 3), (176, 3), (177, 3), (178, 1), (179, 2),
     (180, 3), (181, 3), (182, 3), (183, 3), (184, 3), (185, 3), (186, 1), (187, 2), (188, 3), (189, 3), (190, 3), (191, 3),
     (192, 3), (193, 3), (194, 1), (195, 2), (196, 3), (197, 3), (198, 3), (199, 3), (200, 3), (201, 3), (202, 1), (203, 2),
     (204, 3), (205, 3), (206, 1), (207, 1), (208, 1)]"
  by code_simp

lemmas yyr2_entries = nth_pairs [OF yyr2_pairs, simplified]

lemmas table_entries = yypact_entries yydefact_entries yypgoto_entries yydefgoto_entries yytable_entries yycheck_entries
  yyr1_entries yyr2_entries

section \<open>Rows\<close>

text \<open>The tokens that a state shifts.\<close>

definition yyrow :: "nat \<Rightarrow> nat list" where
  "yyrow s = filter (\<lambda>t. 0 \<le> yypact ! s + int t \<and> yypact ! s + int t \<le> YYLAST \<and> yycheck ! nat (yypact ! s + int t) = int t) [0..<68]"

lemma yyaction_other: "t < 68 \<Longrightarrow> t \<notin> set (yyrow s) \<Longrightarrow> yyaction s t = yydefault s"
  by (auto simp: yyrow_def yyaction_def Let_def)

lemma tokens_upt: "[0..<68] = [0, 1, 2, 3, 4, 5, 6, 7, 8, 9, 10, 11, 12, 13, 14, 15, 16, 17, 18, 19, 20, 21, 22, 23, 24, 25, 26, 27, 28, 29, 30, 31, 32, 33, 34, 35, 36, 37, 38, 39, 40, 41, 42, 43, 44, 45, 46, 47, 48, 49, 50, 51, 52, 53, 54, 55, 56, 57, 58, 59, 60, 61, 62, 63, 64, 65, 66, 67]" by code_simp

end
