(* ===== verification/NdCriteria.thy ===== *)
theory NdCriteria
  imports NdFlow
begin

text \<open>
  The scanner of flow expressions (\<open>src/src/nd-flow-criteria.l\<close>): regular expressions with the
  longest match, the rules in the order of the file, and the tokens with the values that they
  leave in the union of the parser.
\<close>

section \<open>Regular expressions\<close>

datatype rx = RNone | REmpty | RSet "char \<Rightarrow> bool" | RSeq rx rx | RAlt rx rx | RStar rx

inductive rx_lang :: "rx \<Rightarrow> string \<Rightarrow> bool" where
  "rx_lang REmpty []"
| "P c \<Longrightarrow> rx_lang (RSet P) [c]"
| "rx_lang r s \<Longrightarrow> rx_lang q t \<Longrightarrow> rx_lang (RSeq r q) (s @ t)"
| "rx_lang r s \<Longrightarrow> rx_lang (RAlt r q) s"
| "rx_lang q s \<Longrightarrow> rx_lang (RAlt r q) s"
| "rx_lang (RStar r) []"
| "rx_lang r s \<Longrightarrow> rx_lang (RStar r) t \<Longrightarrow> rx_lang (RStar r) (s @ t)"

inductive_simps rx_lang_seq: "rx_lang (RSeq r q) s"

inductive_simps rx_lang_simps [simp]:
  "rx_lang RNone s" "rx_lang REmpty s" "rx_lang (RSet P) s" "rx_lang (RAlt r q) s"

fun nullable :: "rx \<Rightarrow> bool" where
  "nullable RNone = False"
| "nullable REmpty = True"
| "nullable (RSet P) = False"
| "nullable (RSeq r q) = (nullable r \<and> nullable q)"
| "nullable (RAlt r q) = (nullable r \<or> nullable q)"
| "nullable (RStar r) = True"

text \<open>Concatenation and choice, without the parts that match nothing.\<close>

fun mk_seq :: "rx \<Rightarrow> rx \<Rightarrow> rx" where
  "mk_seq RNone q = RNone"
| "mk_seq REmpty q = q"
| "mk_seq r q = RSeq r q"

fun mk_alt :: "rx \<Rightarrow> rx \<Rightarrow> rx" where
  "mk_alt RNone q = q"
| "mk_alt r RNone = r"
| "mk_alt r q = RAlt r q"

fun deriv_rx :: "char \<Rightarrow> rx \<Rightarrow> rx" where
  "deriv_rx c RNone = RNone"
| "deriv_rx c REmpty = RNone"
| "deriv_rx c (RSet P) = (if P c then REmpty else RNone)"
| "deriv_rx c (RSeq r q) = (if nullable r then mk_alt (mk_seq (deriv_rx c r) q) (deriv_rx c q) else mk_seq (deriv_rx c r) q)"
| "deriv_rx c (RAlt r q) = mk_alt (deriv_rx c r) (deriv_rx c q)"
| "deriv_rx c (RStar r) = mk_seq (deriv_rx c r) (RStar r)"

lemma seq_lang: "rx_lang (RSeq r q) s \<longleftrightarrow> (\<exists>a b. s = a @ b \<and> rx_lang r a \<and> rx_lang q b)"
  unfolding rx_lang_seq by blast

lemma nullable_lang: "nullable r \<longleftrightarrow> rx_lang r []"
  by (induction r) (auto simp: seq_lang intro: rx_lang.intros)

lemma mk_seq_lang [simp]: "rx_lang (mk_seq r q) s \<longleftrightarrow> rx_lang (RSeq r q) s"
  by (cases "(r, q)" rule: mk_seq.cases) (auto simp: seq_lang)

lemma mk_alt_lang [simp]: "rx_lang (mk_alt r q) s \<longleftrightarrow> rx_lang r s \<or> rx_lang q s"
  by (cases "(r, q)" rule: mk_alt.cases) auto

lemma star_lang_Cons: "rx_lang (RStar r) (c # s) \<longleftrightarrow> (\<exists>a b. s = a @ b \<and> rx_lang r (c # a) \<and> rx_lang (RStar r) b)"
proof
  have "rx_lang q t \<Longrightarrow> q = RStar r \<Longrightarrow> t = c # s \<Longrightarrow> \<exists>a b. s = a @ b \<and> rx_lang r (c # a) \<and> rx_lang (RStar r) b" for q t
  proof (induction arbitrary: s rule: rx_lang.induct)
    case (7 r' u t)
    then show ?case by (cases u) auto
  qed simp_all
  then show "rx_lang (RStar r) (c # s) \<Longrightarrow> \<exists>a b. s = a @ b \<and> rx_lang r (c # a) \<and> rx_lang (RStar r) b" by blast
  show "\<exists>a b. s = a @ b \<and> rx_lang r (c # a) \<and> rx_lang (RStar r) b \<Longrightarrow> rx_lang (RStar r) (c # s)"
    using rx_lang.intros(7) [of r] by fastforce
qed

lemma deriv_lang: "rx_lang (deriv_rx c r) s \<longleftrightarrow> rx_lang r (c # s)"
proof (induction r arbitrary: s)
  case (RSeq r q)
  have "rx_lang (RSeq r q) (c # s) \<longleftrightarrow> (\<exists>a b. s = a @ b \<and> rx_lang r (c # a) \<and> rx_lang q b) \<or> rx_lang r [] \<and> rx_lang q (c # s)"
    unfolding seq_lang Cons_eq_append_conv by blast
  then show ?case using RSeq by (auto simp: seq_lang nullable_lang)
next
  case (RStar r)
  then show ?case by (simp add: star_lang_Cons seq_lang)
qed auto

text \<open>The length of the longest prefix that matches.\<close>

fun longest :: "rx \<Rightarrow> string \<Rightarrow> nat option" where
  "longest RNone s = None"
| "longest r [] = (if nullable r then Some 0 else None)"
| "longest r (c # s) =
     (case longest (deriv_rx c r) s of Some n \<Rightarrow> Some (Suc n) | None \<Rightarrow> if nullable r then Some 0 else None)"

lemma longest_Nil [simp]: "longest r [] = (if nullable r then Some 0 else None)"
  by (cases r) simp_all

lemma longest_Cons:
  "longest r (c # s) =
     (case longest (deriv_rx c r) s of Some n \<Rightarrow> Some (Suc n) | None \<Rightarrow> if nullable r then Some 0 else None)"
  by (cases r) (simp_all split: option.split)

lemma longest_None: "longest r s = None \<longleftrightarrow> (\<forall>n \<le> length s. \<not> rx_lang r (take n s))"
proof (induction s arbitrary: r)
  case (Cons c s)
  have "(\<forall>n \<le> length (c # s). \<not> rx_lang r (take n (c # s)))
      \<longleftrightarrow> \<not> nullable r \<and> (\<forall>n \<le> length s. \<not> rx_lang r (c # take n s))"
    by (auto simp: nullable_lang take_Cons split: nat.splits)
  then show ?case using Cons.IH [of "deriv_rx c r"] by (auto simp: longest_Cons deriv_lang split: option.splits)
qed (simp add: nullable_lang)

lemma longest_Some:
  "longest r s = Some n \<Longrightarrow> n \<le> length s \<and> rx_lang r (take n s) \<and> (\<forall>m. n < m \<and> m \<le> length s \<longrightarrow> \<not> rx_lang r (take m s))"
proof (induction s arbitrary: r n)
  case (Cons c s)
  show ?case
  proof (cases "longest (deriv_rx c r) s")
    case None
    then have "n = 0" "nullable r" using Cons.prems by (auto simp: longest_Cons split: if_splits)
    moreover have "\<not> rx_lang r (c # take m s)" if "m \<le> length s" for m
      using None that by (simp add: longest_None deriv_lang)
    ultimately show ?thesis by (auto simp: nullable_lang take_Cons split: nat.splits)
  next
    case (Some k)
    then have n: "n = Suc k" using Cons.prems by (simp add: longest_Cons)
    have "k \<le> length s \<and> rx_lang r (c # take k s) \<and> (\<forall>m. k < m \<and> m \<le> length s \<longrightarrow> \<not> rx_lang r (c # take m s))"
      using Cons.IH [OF Some] by (simp add: deriv_lang)
    then show ?thesis by (auto simp: n take_Cons split: nat.splits)
  qed
qed (simp add: nullable_lang split: if_splits)

section \<open>Tokens\<close>

text \<open>The kinds of \<open>nd-flow-expr.hpp\<close>; a character is its own kind.\<close>

abbreviation FLOW_IP_PROTO :: int where "FLOW_IP_PROTO \<equiv> 258"
abbreviation FLOW_IP_VERSION :: int where "FLOW_IP_VERSION \<equiv> 259"
abbreviation FLOW_IP_NAT :: int where "FLOW_IP_NAT \<equiv> 260"
abbreviation FLOW_VLAN_ID :: int where "FLOW_VLAN_ID \<equiv> 261"
abbreviation FLOW_OTHER_TYPE :: int where "FLOW_OTHER_TYPE \<equiv> 262"
abbreviation FLOW_LOCAL_MAC :: int where "FLOW_LOCAL_MAC \<equiv> 263"
abbreviation FLOW_OTHER_MAC :: int where "FLOW_OTHER_MAC \<equiv> 264"
abbreviation FLOW_LOCAL_IP :: int where "FLOW_LOCAL_IP \<equiv> 265"
abbreviation FLOW_OTHER_IP :: int where "FLOW_OTHER_IP \<equiv> 266"
abbreviation FLOW_LOCAL_PORT :: int where "FLOW_LOCAL_PORT \<equiv> 267"
abbreviation FLOW_OTHER_PORT :: int where "FLOW_OTHER_PORT \<equiv> 268"
abbreviation FLOW_TUNNEL_TYPE :: int where "FLOW_TUNNEL_TYPE \<equiv> 269"
abbreviation FLOW_DETECTION_GUESSED :: int where "FLOW_DETECTION_GUESSED \<equiv> 270"
abbreviation FLOW_DETECTION_UPDATED :: int where "FLOW_DETECTION_UPDATED \<equiv> 271"
abbreviation FLOW_CATEGORY :: int where "FLOW_CATEGORY \<equiv> 272"
abbreviation FLOW_RISKS :: int where "FLOW_RISKS \<equiv> 273"
abbreviation FLOW_NDPI_RISK_SCORE :: int where "FLOW_NDPI_RISK_SCORE \<equiv> 274"
abbreviation FLOW_NDPI_RISK_SCORE_CLIENT :: int where "FLOW_NDPI_RISK_SCORE_CLIENT \<equiv> 275"
abbreviation FLOW_NDPI_RISK_SCORE_SERVER :: int where "FLOW_NDPI_RISK_SCORE_SERVER \<equiv> 276"
abbreviation FLOW_DOMAIN_CATEGORY :: int where "FLOW_DOMAIN_CATEGORY \<equiv> 277"
abbreviation FLOW_NETWORK_CATEGORY :: int where "FLOW_NETWORK_CATEGORY \<equiv> 278"
abbreviation FLOW_APPLICATION :: int where "FLOW_APPLICATION \<equiv> 279"
abbreviation FLOW_APPLICATION_CATEGORY :: int where "FLOW_APPLICATION_CATEGORY \<equiv> 280"
abbreviation FLOW_PROTOCOL :: int where "FLOW_PROTOCOL \<equiv> 281"
abbreviation FLOW_PROTOCOL_CATEGORY :: int where "FLOW_PROTOCOL_CATEGORY \<equiv> 282"
abbreviation FLOW_DETECTED_HOSTNAME :: int where "FLOW_DETECTED_HOSTNAME \<equiv> 283"
abbreviation FLOW_SSL_VERSION :: int where "FLOW_SSL_VERSION \<equiv> 284"
abbreviation FLOW_SSL_CIPHER :: int where "FLOW_SSL_CIPHER \<equiv> 285"
abbreviation FLOW_ORIGIN :: int where "FLOW_ORIGIN \<equiv> 286"
abbreviation FLOW_CT_MARK :: int where "FLOW_CT_MARK \<equiv> 287"
abbreviation FLOW_OTHER_UNKNOWN :: int where "FLOW_OTHER_UNKNOWN \<equiv> 288"
abbreviation FLOW_OTHER_UNSUPPORTED :: int where "FLOW_OTHER_UNSUPPORTED \<equiv> 289"
abbreviation FLOW_OTHER_LOCAL :: int where "FLOW_OTHER_LOCAL \<equiv> 290"
abbreviation FLOW_OTHER_MULTICAST :: int where "FLOW_OTHER_MULTICAST \<equiv> 291"
abbreviation FLOW_OTHER_BROADCAST :: int where "FLOW_OTHER_BROADCAST \<equiv> 292"
abbreviation FLOW_OTHER_REMOTE :: int where "FLOW_OTHER_REMOTE \<equiv> 293"
abbreviation FLOW_OTHER_ERROR :: int where "FLOW_OTHER_ERROR \<equiv> 294"
abbreviation FLOW_ORIGIN_LOCAL :: int where "FLOW_ORIGIN_LOCAL \<equiv> 295"
abbreviation FLOW_ORIGIN_OTHER :: int where "FLOW_ORIGIN_OTHER \<equiv> 296"
abbreviation FLOW_ORIGIN_UNKNOWN :: int where "FLOW_ORIGIN_UNKNOWN \<equiv> 297"
abbreviation FLOW_TUNNEL_NONE :: int where "FLOW_TUNNEL_NONE \<equiv> 298"
abbreviation FLOW_TUNNEL_GTP :: int where "FLOW_TUNNEL_GTP \<equiv> 299"
abbreviation CMP_EQUAL :: int where "CMP_EQUAL \<equiv> 300"
abbreviation CMP_NOTEQUAL :: int where "CMP_NOTEQUAL \<equiv> 301"
abbreviation CMP_GTHANEQUAL :: int where "CMP_GTHANEQUAL \<equiv> 302"
abbreviation CMP_LTHANEQUAL :: int where "CMP_LTHANEQUAL \<equiv> 303"
abbreviation BOOL_AND :: int where "BOOL_AND \<equiv> 304"
abbreviation BOOL_OR :: int where "BOOL_OR \<equiv> 305"
abbreviation VALUE_ADDR_IPMASK :: int where "VALUE_ADDR_IPMASK \<equiv> 306"
abbreviation VALUE_TRUE :: int where "VALUE_TRUE \<equiv> 307"
abbreviation VALUE_FALSE :: int where "VALUE_FALSE \<equiv> 308"
abbreviation VALUE_ADDR_MAC :: int where "VALUE_ADDR_MAC \<equiv> 309"
abbreviation VALUE_NAME :: int where "VALUE_NAME \<equiv> 310"
abbreviation VALUE_REGEX :: int where "VALUE_REGEX \<equiv> 311"
abbreviation VALUE_ADDR_IPV4 :: int where "VALUE_ADDR_IPV4 \<equiv> 312"
abbreviation VALUE_ADDR_IPV4_CIDR :: int where "VALUE_ADDR_IPV4_CIDR \<equiv> 313"
abbreviation VALUE_ADDR_IPV6 :: int where "VALUE_ADDR_IPV6 \<equiv> 314"
abbreviation VALUE_ADDR_IPV6_CIDR :: int where "VALUE_ADDR_IPV6_CIDR \<equiv> 315"
abbreviation VALUE_NUMBER :: int where "VALUE_NUMBER \<equiv> 316"

text \<open>The union of the parser is its 256 bytes; a member is written over the first bytes of it.\<close>

definition put_us :: "nat \<Rightarrow> bytes \<Rightarrow> bytes" where
  "put_us n v = le_bytes 2 n @ drop 2 v"

definition put_ul :: "nat \<Rightarrow> bytes \<Rightarrow> bytes" where
  "put_ul n v = le_bytes 8 n @ drop 8 v"

definition put_bool :: "bool \<Rightarrow> bytes \<Rightarrow> bytes" where
  "put_bool b v = (if b then 1 else 0) # drop 1 v"

text \<open>\<open>strncpy\<close> into the buffer: a long text is left without its end.\<close>

definition put_text :: "string \<Rightarrow> bytes" where
  "put_text s = take 256 (map of_char (takeWhile (\<lambda>c. c \<noteq> CHR 0x00) s) @ replicate 256 0)"

definition get_us :: "bytes \<Rightarrow> nat" where
  "get_us v = le_nat (take 2 v)"

definition get_ul :: "bytes \<Rightarrow> nat" where
  "get_ul v = le_nat (take 8 v)"

definition get_bool :: "bytes \<Rightarrow> bool" where
  "get_bool v \<longleftrightarrow> take 1 v \<noteq> [0]"

definition get_text :: "bytes \<Rightarrow> string option" where
  "get_text v = (if 0 \<in> set v then Some (map (\<lambda>b. char_of (unat b)) (takeWhile (\<lambda>b. b \<noteq> 0) v)) else None)"

section \<open>Rules\<close>

datatype lex_action = Skip | Token "string \<Rightarrow> bytes \<Rightarrow> (int \<times> bytes) option"

fun rx_lit :: "string \<Rightarrow> rx" where
  "rx_lit [] = REmpty"
| "rx_lit [c] = RSet (\<lambda>d. d = c)"
| "rx_lit (c # s) = RSeq (RSet (\<lambda>d. d = c)) (rx_lit s)"

fun rx_times :: "nat \<Rightarrow> rx \<Rightarrow> rx" where
  "rx_times 0 r = REmpty"
| "rx_times (Suc n) r = RSeq r (rx_times n r)"

fun rx_upto :: "nat \<Rightarrow> rx \<Rightarrow> rx" where
  "rx_upto 0 r = REmpty"
| "rx_upto (Suc n) r = RAlt REmpty (RSeq r (rx_upto n r))"

abbreviation rx_plus :: "rx \<Rightarrow> rx" where
  "rx_plus r \<equiv> RSeq r (RStar r)"

definition rx_any :: "string \<Rightarrow> rx" where
  "rx_any cs = RSet (\<lambda>c. c \<in> set cs)"

definition lx_range :: "char \<Rightarrow> char \<Rightarrow> char \<Rightarrow> bool" where
  "lx_range lo hi c \<longleftrightarrow> lo \<le> c \<and> c \<le> hi"

definition lx_digit :: "char \<Rightarrow> bool" where
  "lx_digit = lx_range CHR ''0'' CHR ''9''"

definition lx_hex :: "char \<Rightarrow> bool" where
  "lx_hex c \<longleftrightarrow> lx_range CHR ''a'' CHR ''f'' c \<or> lx_range CHR ''A'' CHR ''F'' c \<or> lx_digit c"

definition lx_alnum :: "char \<Rightarrow> bool" where
  "lx_alnum c \<longleftrightarrow> lx_range CHR ''a'' CHR ''z'' c \<or> lx_range CHR ''A'' CHR ''Z'' c \<or> lx_digit c"

definition lx_dot :: "char \<Rightarrow> bool" where
  "lx_dot c \<longleftrightarrow> c \<noteq> CHR 0x0A"

definition rx_quad :: rx where
  "rx_quad = (let o3 = RSeq (RSet lx_digit) (rx_upto 2 (RSet lx_digit)); dot = rx_lit ''.'' in
     RSeq o3 (RSeq dot (RSeq o3 (RSeq dot (RSeq o3 (RSeq dot o3))))))"

definition rx_mac :: rx where
  "rx_mac = (let h2 = rx_times 2 (RSet lx_hex) in RSeq h2 (rx_times 5 (RSeq (rx_lit '':'') h2)))"

definition rx_ipv6 :: rx where
  "rx_ipv6 = RSeq (RSeq (RSet lx_hex) (rx_upto 3 (RSet lx_hex)))
     (RSeq (RSeq (rx_lit '':'') (rx_upto 1 (rx_lit '':''))) (RStar (RSet (\<lambda>c. lx_hex c \<or> c = CHR '':''))))"

definition rx_prefix :: rx where
  "rx_prefix = RSeq (rx_lit ''/'') (rx_plus (RSet lx_digit))"

definition rx_name :: rx where
  "rx_name = RSeq (RSet (\<lambda>c. c = CHR 0x27)) (RSeq (RSet lx_alnum)
     (RSeq (rx_plus (RSet (\<lambda>c. lx_alnum c \<or> c \<in> set '':/._+() -''))) (RSet (\<lambda>c. c = CHR 0x27))))"

definition rx_regex :: rx where
  "rx_regex = RSeq (RSet (\<lambda>c. c = CHR 0x27)) (RSeq (rx_lit ''rx:'') (RSeq (RStar (RSet lx_dot)) (RSet (\<lambda>c. c = CHR 0x27))))"

text \<open>\<open>strtold\<close>, then a conversion to 64 bits that is undefined out of their range.\<close>

definition hex_value :: "char \<Rightarrow> nat" where
  "hex_value c = (if lx_digit c then of_char c - 48 else if CHR ''a'' \<le> c then of_char c - 87 else of_char c - 55)"

definition text_number :: "string \<Rightarrow> nat option" where
  "text_number s =
     (let n = (if take 2 s = ''0x'' then foldl (\<lambda>n c. 16 * n + hex_value c) 0 (drop 2 s)
               else foldl (\<lambda>n c. 10 * n + hex_value c) 0 s)
      in if n < 2 ^ 64 then Some n else None)"

text \<open>The actions: a kind, with or without a value.\<close>

abbreviation just :: "int \<Rightarrow> lex_action" where
  "just k \<equiv> Token (\<lambda>_ v. Some (k, v))"

abbreviation with_us :: "nat \<Rightarrow> int \<Rightarrow> lex_action" where
  "with_us n k \<equiv> Token (\<lambda>_ v. Some (k, put_us n v))"

abbreviation with_bool :: "bool \<Rightarrow> int \<Rightarrow> lex_action" where
  "with_bool b k \<equiv> Token (\<lambda>_ v. Some (k, put_bool b v))"

abbreviation with_text :: "int \<Rightarrow> lex_action" where
  "with_text k \<equiv> Token (\<lambda>s _. Some (k, put_text s))"

abbreviation with_number :: "int \<Rightarrow> lex_action" where
  "with_number k \<equiv> Token (\<lambda>s v. map_option (\<lambda>n. (k, put_ul n v)) (text_number s))"

text \<open>A character of more than seven bits is negative.\<close>

definition char_kind :: "string \<Rightarrow> int" where
  "char_kind s = (let n = of_char (hd s) :: nat in if n < 128 then int n else int n - 256)"

definition word_rules :: "(rx \<times> lex_action) list" where
  "word_rules = map (\<lambda>(s, a). (rx_lit s, a))
    [(''ip_protocol'', just FLOW_IP_PROTO),
     (''ip_version'', just FLOW_IP_VERSION),
     (''ip_nat'', just FLOW_IP_NAT),
     (''vlan_id'', just FLOW_VLAN_ID),
     (''other_type'', just FLOW_OTHER_TYPE),
     (''other_unknown'', with_us 0 FLOW_OTHER_UNKNOWN),
     (''other_unsupported'', with_us 1 FLOW_OTHER_UNSUPPORTED),
     (''other_local'', with_us 2 FLOW_OTHER_LOCAL),
     (''other_multicast'', with_us 3 FLOW_OTHER_MULTICAST),
     (''other_broadcast'', with_us 4 FLOW_OTHER_BROADCAST),
     (''other_remote'', with_us 5 FLOW_OTHER_REMOTE),
     (''other_error'', with_us 6 FLOW_OTHER_ERROR),
     (''local_mac'', just FLOW_LOCAL_MAC),
     (''other_mac'', just FLOW_OTHER_MAC),
     (''local_ip'', just FLOW_LOCAL_IP),
     (''other_ip'', just FLOW_OTHER_IP),
     (''local_port'', just FLOW_LOCAL_PORT),
     (''other_port'', just FLOW_OTHER_PORT),
     (''tunnel_type'', just FLOW_TUNNEL_TYPE),
     (''tunnel_none'', with_us 0 FLOW_TUNNEL_NONE),
     (''tunnel_gtp'', with_us 1 FLOW_TUNNEL_GTP),
     (''detection_guessed'', just FLOW_DETECTION_GUESSED),
     (''detection_updated'', just FLOW_DETECTION_UPDATED),
     (''app'', just FLOW_APPLICATION),
     (''application'', just FLOW_APPLICATION),
     (''application_id'', just FLOW_APPLICATION),
     (''app_id'', just FLOW_APPLICATION),
     (''cat'', just FLOW_CATEGORY),
     (''category'', just FLOW_CATEGORY),
     (''risks'', just FLOW_RISKS),
     (''ndpi_risk_score'', just FLOW_NDPI_RISK_SCORE),
     (''ndpi_risk_client'', just FLOW_NDPI_RISK_SCORE_CLIENT),
     (''ndpi_risk_server'', just FLOW_NDPI_RISK_SCORE_SERVER),
     (''application_category'', just FLOW_APPLICATION_CATEGORY),
     (''app_category'', just FLOW_APPLICATION_CATEGORY),
     (''domain_category'', just FLOW_DOMAIN_CATEGORY),
     (''dom_category'', just FLOW_DOMAIN_CATEGORY),
     (''protocol'', just FLOW_PROTOCOL),
     (''proto'', just FLOW_PROTOCOL),
     (''protocol_id'', just FLOW_PROTOCOL),
     (''proto_id'', just FLOW_PROTOCOL),
     (''protocol_category'', just FLOW_PROTOCOL_CATEGORY),
     (''proto_category'', just FLOW_PROTOCOL_CATEGORY),
     (''detected_hostname'', just FLOW_DETECTED_HOSTNAME),
     (''ssl_version'', just FLOW_SSL_VERSION),
     (''ssl_cipher'', just FLOW_SSL_CIPHER),
     (''origin'', just FLOW_ORIGIN),
     (''origin_local'', with_us 1 FLOW_ORIGIN_LOCAL),
     (''origin_other'', with_us 2 FLOW_ORIGIN_OTHER),
     (''origin_unknown'', with_us 0 FLOW_ORIGIN_UNKNOWN),
     (''fwmark'', just FLOW_CT_MARK)]"

definition value_rules :: "(rx \<times> lex_action) list" where
  "value_rules =
    [(RSeq (rx_any ''t|T'') (RSeq (rx_any ''r|R'') (RSeq (rx_any ''u|U'') (rx_any ''e|E''))), with_bool True VALUE_TRUE),
     (RSeq (rx_any ''f|F'') (RSeq (rx_any ''a|A'') (RSeq (rx_any ''l|L'') (RSeq (rx_any ''s|S'') (rx_any ''e|E'')))), with_bool False VALUE_FALSE),
     (rx_mac, with_text VALUE_ADDR_MAC),
     (RSeq rx_quad rx_prefix, with_text VALUE_ADDR_IPV4_CIDR),
     (rx_quad, with_text VALUE_ADDR_IPV4),
     (rx_lit ''::1'', with_text VALUE_ADDR_IPV6),
     (RSeq rx_ipv6 rx_prefix, with_text VALUE_ADDR_IPV6_CIDR),
     (rx_ipv6, with_text VALUE_ADDR_IPV6),
     (rx_name, with_text VALUE_NAME),
     (rx_regex, with_text VALUE_REGEX),
     (RSeq (rx_lit ''0x'') (rx_plus (RSet lx_hex)), with_number VALUE_NUMBER),
     (rx_plus (RSet lx_digit), with_number VALUE_NUMBER)]"

definition operator_rules :: "(rx \<times> lex_action) list" where
  "operator_rules =
    [(rx_lit ''=='', just CMP_EQUAL), (rx_lit ''!='', just CMP_NOTEQUAL),
     (rx_lit ''>='', just CMP_GTHANEQUAL), (rx_lit ''<='', just CMP_LTHANEQUAL),
     (rx_lit ''&&'', just BOOL_AND), (RSeq (rx_any ''a|A'') (RSeq (rx_any ''n|N'') (rx_any ''d|D'')), just BOOL_AND),
     (rx_lit ''||'', just BOOL_OR), (RSeq (rx_any ''o|O'') (rx_any ''r|R''), just BOOL_OR),
     (rx_plus (RSet (\<lambda>c. c \<in> {CHR '' '', CHR 0x09, CHR 0x0A})), Skip),
     (RSet lx_dot, Token (\<lambda>s v. Some (char_kind s, v)))]"

definition lex_rules :: "(rx \<times> lex_action) list" where
  "lex_rules = word_rules @ value_rules @ operator_rules"

section \<open>The scanner\<close>

text \<open>The longest match; of those of one length, the first rule.\<close>

fun lex_best :: "(rx \<times> 'a) list \<Rightarrow> string \<Rightarrow> (nat \<times> 'a) option" where
  "lex_best [] s = None"
| "lex_best ((r, a) # rs) s =
     (case longest r s of
        Some (Suc n) \<Rightarrow>
          (case lex_best rs s of
             Some (m, b) \<Rightarrow> if Suc n < m then Some (m, b) else Some (Suc n, a)
           | None \<Rightarrow> Some (Suc n, a))
      | _ \<Rightarrow> lex_best rs s)"

lemma lex_best_pos: "lex_best rs s = Some (n, a) \<Longrightarrow> 0 < n \<and> n \<le> length s"
proof (induction rs)
  case (Cons ra rs)
  obtain r b where ra: "ra = (r, b)" by force
  show ?case using Cons longest_Some [of r s] by (auto simp: ra split: option.splits nat.splits if_splits)
qed simp

text \<open>The tokens of a text up to its end, each with the union after it; a kind that is not positive ends the text.\<close>

datatype yytok = Tok int bytes | TokUndefined

function yylex :: "bytes \<Rightarrow> string \<Rightarrow> yytok list" where
  "yylex v s =
     (case lex_best lex_rules s of
        None \<Rightarrow> []
      | Some (n, Skip) \<Rightarrow> yylex v (drop n s)
      | Some (n, Token f) \<Rightarrow>
          (case f (take n s) v of
             None \<Rightarrow> [TokUndefined]
           | Some (k, v) \<Rightarrow> if k \<le> 0 then [] else Tok k v # yylex v (drop n s)))"
  by pat_completeness auto
termination
  by (relation "measure (\<lambda>(v, s). length s)") (auto dest: lex_best_pos)

declare yylex.simps [simp del]

section \<open>What the scanner takes\<close>

lemma lex_best_None: "lex_best rs s = None \<longleftrightarrow> (\<forall>ra \<in> set rs. \<forall>n. 0 < n \<and> n \<le> length s \<longrightarrow> \<not> rx_lang (fst ra) (take n s))"
proof (induction rs)
  case (Cons ra rs)
  obtain r a where ra: "ra = (r, a)" by force
  show ?case
  proof (cases "longest r s")
    case None
    then show ?thesis using Cons ra None [unfolded longest_None] by simp
  next
    case (Some n)
    note l = longest_Some [OF Some]
    show ?thesis using Cons Some l ra by (cases n) (auto split: option.splits)
  qed
qed simp

lemma lex_best_Some:
  assumes "lex_best rs s = Some (n, a)"
  shows "\<exists>i < length rs. snd (rs ! i) = a \<and> rx_lang (fst (rs ! i)) (take n s) \<and> 0 < n \<and> n \<le> length s
    \<and> (\<forall>j < length rs. \<forall>m. rx_lang (fst (rs ! j)) (take m s) \<and> m \<le> length s \<longrightarrow> m \<le> n \<and> (m = n \<longrightarrow> i \<le> j))"
  using assms
proof (induction rs arbitrary: n a)
  case (Cons rb rs)
  obtain r b where rb: "rb = (r, b)" by force
  have none: "lex_best rs s = None \<Longrightarrow> j < length rs \<Longrightarrow> rx_lang (fst (rs ! j)) (take m s) \<Longrightarrow> m \<le> length s \<Longrightarrow> m = 0" for j m
    by (metis lex_best_None nth_mem gr0I)
  show ?case
  proof (cases "\<exists>k. longest r s = Some (Suc k) \<and> (case lex_best rs s of Some (m, _) \<Rightarrow> m \<le> Suc k | None \<Rightarrow> True)")
    case True
    then obtain k where k: "longest r s = Some (Suc k)" "case lex_best rs s of Some (m, _) \<Rightarrow> m \<le> Suc k | None \<Rightarrow> True" by blast
    then have na: "n = Suc k" "a = b" using Cons.prems by (auto simp: rb split: option.splits if_splits)
    note l = longest_Some [OF k(1)]
    have "m \<le> n" if "j < length (rb # rs)" "rx_lang (fst ((rb # rs) ! j)) (take m s)" "m \<le> length s" for j m
    proof (cases j)
      case 0
      then show ?thesis using l that na rb by (metis fst_conv linorder_le_less_linear nth_Cons_0)
    next
      case (Suc i)
      show ?thesis
      proof (cases "lex_best rs s")
        case None
        then show ?thesis using none [of i m] that Suc by simp
      next
        case (Some x)
        obtain p c where x: "x = (p, c)" by force
        have "m \<le> p" using Cons.IH [OF Some [unfolded x]] that Suc by auto
        then show ?thesis using k(2) Some x na by simp
      qed
    qed
    then show ?thesis using l na rb by (intro exI [of _ 0]) auto
  next
    case False
    then have tail: "lex_best rs s = Some (n, a)" and short: "\<forall>k. longest r s = Some k \<longrightarrow> k < n"
      using Cons.prems lex_best_pos [of rs s] by (auto simp: rb split: option.splits nat.splits if_splits)
    obtain i where i: "i < length rs" "snd (rs ! i) = a" "rx_lang (fst (rs ! i)) (take n s)" "0 < n" "n \<le> length s"
      "\<forall>j < length rs. \<forall>m. rx_lang (fst (rs ! j)) (take m s) \<and> m \<le> length s \<longrightarrow> m \<le> n \<and> (m = n \<longrightarrow> i \<le> j)"
      using Cons.IH [OF tail] by blast
    have "m < n" if "rx_lang r (take m s)" "m \<le> length s" for m
    proof (cases "longest r s")
      case None
      then show ?thesis using that by (simp add: longest_None)
    next
      case (Some k)
      then show ?thesis using longest_Some [OF Some] that short by (meson leI le_less_trans)
    qed
    then show ?thesis using i rb by (intro exI [of _ "Suc i"]) (auto simp: nth_Cons' less_Suc_eq_0_disj intro: less_imp_le)
  qed
qed simp

lemma lex_rules_total: "s \<noteq> [] \<Longrightarrow> lex_best lex_rules s \<noteq> None"
proof
  assume s: "s \<noteq> []" "lex_best lex_rules s = None"
  obtain c t where c: "s = c # t" using s(1) by (cases s) auto
  have dot: "(RSet lx_dot, Token (\<lambda>s v. Some (char_kind s, v))) \<in> set lex_rules"
    by (simp add: lex_rules_def operator_rules_def)
  have blank: "(rx_plus (RSet (\<lambda>c. c \<in> {CHR '' '', CHR 0x09, CHR 0x0A})), Skip) \<in> set lex_rules"
    by (simp add: lex_rules_def operator_rules_def)
  have n: "\<not> rx_lang (fst ra) [c]" if "ra \<in> set lex_rules" for ra
    using bspec [OF s(2) [unfolded lex_best_None] that] by (auto simp: c dest: spec [of _ "1 :: nat"])
  show False
  proof (cases "lx_dot c")
    case True
    then show ?thesis using n [OF dot] by simp
  next
    case False
    then have "c = CHR 0x0A" by (simp add: lx_dot_def)
    then have "rx_lang (rx_plus (RSet (\<lambda>c. c \<in> {CHR '' '', CHR 0x09, CHR 0x0A}))) [c]"
      unfolding seq_lang by (intro exI [of _ "[c]"] exI [of _ "[]"]) (simp add: rx_lang.intros(6))
    then show ?thesis using n [OF blank] by simp
  qed
qed



end
