(* ===== verification/NdExprParser.thy ===== *)
theory NdExprParser
  imports NdExprTables NdCriteria
begin

text \<open>
  The generated parser of flow expressions (\<open>yyparse\<close> in \<open>src/src/nd-flow-expr.cpp\<close>): a stack
  of states with their values, and the steps that the tables say. The semantic actions are an
  argument here. The second part is the grammar with a reading of it by recursive descent, and
  the proof that the parser implements it.
\<close>

section \<open>The parser\<close>

text \<open>An action gives the value of its rule and the result of the expression so far.\<close>

datatype yyeffect = EDone bytes bool | ELoops | EUndefined

type_synonym yyactions = "nat \<Rightarrow> bytes list \<Rightarrow> bool \<Rightarrow> yyeffect"

datatype yyresult = YAccepted bool | YThrown string | YLoops | YUndefined

type_synonym yyconfig = "(nat \<times> bytes) list \<times> yytok list \<times> bool"

datatype yynext = Next yyconfig | Stop yyresult

definition YYMAXDEPTH :: nat where "YYMAXDEPTH = 10000"

text \<open>The value of a rule starts as that of its first symbol; that of an empty rule is never read.\<close>

definition yyreduce :: "yyactions \<Rightarrow> nat \<Rightarrow> yyconfig \<Rightarrow> yynext" where
  "yyreduce act r c = (case c of (stack, ts, res) \<Rightarrow>
     let n = yyr2 ! r; rest = drop n stack in
     case act r (if n = 0 then [snd (hd stack)] else rev (map snd (take n stack))) res of
       EDone v res \<Rightarrow> Next ((yygoto (fst (hd rest)) r, v) # rest, ts, res)
     | ELoops \<Rightarrow> Stop YLoops
     | EUndefined \<Rightarrow> Stop YUndefined)"

definition yytoken :: "yytok list \<Rightarrow> nat" where
  "yytoken ts = (case ts of Tok k _ # _ \<Rightarrow> yytranslate k | _ \<Rightarrow> 0)"

definition yyvalue :: "(nat \<times> bytes) list \<Rightarrow> yytok list \<Rightarrow> bytes" where
  "yyvalue stack ts = (case ts of Tok _ v # _ \<Rightarrow> v | _ \<Rightarrow> snd (hd stack))"

definition yystep :: "yyactions \<Rightarrow> yyconfig \<Rightarrow> yynext" where
  "yystep act c = (case c of (stack, ts, res) \<Rightarrow>
     let s = fst (hd stack) in
     if YYMAXDEPTH \<le> length stack then Stop (YThrown ''memory exhausted'')
     else if s = YYFINAL then Stop (YAccepted res)
     else if yypact ! s = YYPACT_NINF then
       (case yydefault s of Reduce r \<Rightarrow> yyreduce act r c | _ \<Rightarrow> Stop (YThrown ''syntax error''))
     else if take 1 ts = [TokUndefined] then Stop YUndefined
     else (case yyaction s (yytoken ts) of
       Shift q \<Rightarrow> Next ((q, yyvalue stack ts) # stack, drop 1 ts, res)
     | Reduce r \<Rightarrow> yyreduce act r c
     | Fail \<Rightarrow> Stop (YThrown ''syntax error'')))"

partial_function (option) yyrun :: "yyactions \<Rightarrow> yyconfig \<Rightarrow> yyresult option" where
  "yyrun act c = (case yystep act c of Next c \<Rightarrow> yyrun act c | Stop r \<Rightarrow> Some r)"

declare yyrun.simps [code]

definition yyparse :: "yyactions \<Rightarrow> yytok list \<Rightarrow> bool \<Rightarrow> yyresult option" where
  "yyparse act ts res = yyrun act ([(0, replicate 256 0)], ts, res)"

section \<open>The grammar\<close>

text \<open>
  The criteria, by their first symbol: that of the symbol alone, and by the second symbol the
  one that ends there or those that end with a third. A criterion is the rule of its value if
  that has one of its own, its rule, and the rules that make it an expression.
\<close>

type_synonym criterion = "nat option \<times> nat \<times> nat list"

definition criteria :: "(nat \<times> criterion option \<times> (nat \<times> criterion option \<times> (nat \<times> criterion) list) list) list" where
  "criteria =
    [(3, Some (None, 37, [4]),
       [(45, None, [(61, (None, 39, [4]))]),
        (46, None, [(61, (None, 40, [4]))]),
        (47, None, [(61, (None, 41, [4]))]),
        (48, None, [(61, (None, 42, [4]))]),
        (66, None, [(61, (None, 43, [4]))]),
        (67, None, [(61, (None, 44, [4]))])]),
     (4, None,
       [(45, None, [(61, (None, 45, [5]))]),
        (46, None, [(61, (None, 46, [5]))])]),
     (5, Some (None, 47, [6]),
       [(45, None, [(52, (None, 49, [6])), (53, (None, 50, [6]))]),
        (46, None, [(52, (None, 51, [6])), (53, (None, 52, [6]))])]),
     (6, Some (None, 53, [7]),
       [(45, None, [(61, (None, 55, [7]))]),
        (46, None, [(61, (None, 56, [7]))]),
        (47, None, [(61, (None, 57, [7]))]),
        (48, None, [(61, (None, 58, [7]))]),
        (66, None, [(61, (None, 59, [7]))]),
        (67, None, [(61, (None, 60, [7]))])]),
     (7, Some (None, 61, [8]),
       [(45, None, [(33, (Some 65, 63, [8])), (34, (Some 66, 63, [8])), (35, (Some 67, 63, [8])), (36, (Some 68, 63, [8])), (37, (Some 69, 63, [8])), (38, (Some 70, 63, [8])), (39, (Some 71, 63, [8]))]),
        (46, None, [(33, (Some 65, 64, [8])), (34, (Some 66, 64, [8])), (35, (Some 67, 64, [8])), (36, (Some 68, 64, [8])), (37, (Some 69, 64, [8])), (38, (Some 70, 64, [8])), (39, (Some 71, 64, [8]))])]),
     (8, None,
       [(45, None, [(54, (None, 72, [9]))]),
        (46, None, [(54, (None, 73, [9]))])]),
     (9, None,
       [(45, None, [(54, (None, 74, [10]))]),
        (46, None, [(54, (None, 75, [10]))])]),
     (10, None,
       [(45, None, [(57, (Some 80, 76, [11])), (58, (Some 81, 76, [11])), (59, (Some 82, 76, [11])), (60, (Some 83, 76, [11]))]),
        (46, None, [(57, (Some 80, 77, [11])), (58, (Some 81, 77, [11])), (59, (Some 82, 77, [11])), (60, (Some 83, 77, [11]))])]),
     (11, None,
       [(45, None, [(57, (Some 80, 78, [12])), (58, (Some 81, 78, [12])), (59, (Some 82, 78, [12])), (60, (Some 83, 78, [12]))]),
        (46, None, [(57, (Some 80, 79, [12])), (58, (Some 81, 79, [12])), (59, (Some 82, 79, [12])), (60, (Some 83, 79, [12]))])]),
     (12, Some (None, 84, [13]),
       [(45, None, [(61, (None, 86, [13]))]),
        (46, None, [(61, (None, 87, [13]))]),
        (47, None, [(61, (None, 88, [13]))]),
        (48, None, [(61, (None, 89, [13]))]),
        (66, None, [(61, (None, 90, [13]))]),
        (67, None, [(61, (None, 91, [13]))])]),
     (13, Some (None, 92, [14]),
       [(45, None, [(61, (None, 94, [14]))]),
        (46, None, [(61, (None, 95, [14]))]),
        (47, None, [(61, (None, 96, [14]))]),
        (48, None, [(61, (None, 97, [14]))]),
        (66, None, [(61, (None, 98, [14]))]),
        (67, None, [(61, (None, 99, [14]))])]),
     (14, Some (None, 100, [15]),
       [(45, None, [(43, (Some 104, 102, [15])), (44, (Some 105, 102, [15]))]),
        (46, None, [(43, (Some 104, 103, [15])), (44, (Some 105, 103, [15]))])]),
     (15, Some (None, 106, [16]),
       [(45, None, [(52, (None, 108, [16])), (53, (None, 109, [16]))]),
        (46, None, [(52, (None, 110, [16])), (53, (None, 111, [16]))])]),
     (16, Some (None, 112, [17]),
       [(45, None, [(52, (None, 114, [17])), (53, (None, 115, [17]))]),
        (46, None, [(52, (None, 116, [17])), (53, (None, 117, [17]))])]),
     (17, None,
       [(45, None, [(55, (None, 126, [18]))]),
        (46, None, [(55, (None, 127, [18]))])]),
     (18, Some (None, 128, [19]),
       [(45, None, [(55, (None, 130, [19]))]),
        (46, None, [(55, (None, 131, [19]))])]),
     (19, Some (None, 132, [20]),
       [(45, None, [(61, (None, 134, [20]))]),
        (46, None, [(61, (None, 135, [20]))]),
        (47, None, [(61, (None, 136, [20]))]),
        (48, None, [(61, (None, 137, [20]))]),
        (66, None, [(61, (None, 138, [20]))]),
        (67, None, [(61, (None, 139, [20]))])]),
     (20, Some (None, 140, [21]),
       [(45, None, [(61, (None, 142, [21]))]),
        (46, None, [(61, (None, 143, [21]))]),
        (47, None, [(61, (None, 144, [21]))]),
        (48, None, [(61, (None, 145, [21]))]),
        (66, None, [(61, (None, 146, [21]))]),
        (67, None, [(61, (None, 147, [21]))])]),
     (21, Some (None, 148, [22]),
       [(45, None, [(61, (None, 150, [22]))]),
        (46, None, [(61, (None, 151, [22]))]),
        (47, None, [(61, (None, 152, [22]))]),
        (48, None, [(61, (None, 153, [22]))]),
        (66, None, [(61, (None, 154, [22]))]),
        (67, None, [(61, (None, 155, [22]))])]),
     (22, None,
       [(45, None, [(55, (None, 158, [25]))]),
        (46, None, [(55, (None, 159, [25]))])]),
     (23, None,
       [(45, None, [(55, (None, 160, [26]))]),
        (46, None, [(55, (None, 161, [26]))])]),
     (24, Some (None, 118, [23]),
       [(45, None, [(55, (None, 124, [121, 23])), (61, (None, 122, [120, 23]))]),
        (46, None, [(55, (None, 125, [121, 23])), (61, (None, 123, [120, 23]))])]),
     (25, None,
       [(45, None, [(55, (None, 156, [24]))]),
        (46, None, [(55, (None, 157, [24]))])]),
     (26, Some (None, 162, [27]),
       [(45, None, [(55, (None, 168, [165, 27])), (61, (None, 166, [164, 27]))]),
        (46, None, [(55, (None, 169, [165, 27])), (61, (None, 167, [164, 27]))])]),
     (27, None,
       [(45, None, [(55, (None, 170, [28]))]),
        (46, None, [(55, (None, 171, [28]))])]),
     (28, Some (None, 172, [29]),
       [(45, None, [(55, (None, 174, [29])), (56, (None, 176, [29]))]),
        (46, None, [(55, (None, 175, [29])), (56, (None, 177, [29]))])]),
     (29, Some (None, 186, [30]),
       [(45, None, [(61, (None, 188, [30]))]),
        (46, None, [(61, (None, 189, [30]))]),
        (47, None, [(61, (None, 190, [30]))]),
        (48, None, [(61, (None, 191, [30]))]),
        (66, None, [(61, (None, 192, [30]))]),
        (67, None, [(61, (None, 193, [30]))])]),
     (30, Some (None, 194, [31]),
       [(45, None, [(61, (None, 196, [31]))]),
        (46, None, [(61, (None, 197, [31]))]),
        (47, None, [(61, (None, 198, [31]))]),
        (48, None, [(61, (None, 199, [31]))]),
        (66, None, [(61, (None, 200, [31]))]),
        (67, None, [(61, (None, 201, [31]))])]),
     (31, Some (None, 202, [32]),
       [(45, None, [(40, (Some 206, 204, [32])), (41, (Some 207, 204, [32])), (42, (Some 208, 204, [32]))]),
        (46, None, [(40, (Some 206, 205, [32])), (41, (Some 207, 205, [32])), (42, (Some 208, 205, [32]))])]),
     (32, Some (None, 178, [33]),
       [(45, None, [(61, (None, 180, [33]))]),
        (46, None, [(61, (None, 181, [33]))]),
        (47, None, [(61, (None, 182, [33]))]),
        (48, None, [(61, (None, 183, [33]))]),
        (66, None, [(61, (None, 184, [33]))]),
        (67, None, [(61, (None, 185, [33]))])]),
     (65, None,
       [(3, Some (None, 38, [4]), []),
        (5, Some (None, 48, [6]), []),
        (6, Some (None, 54, [7]), []),
        (7, Some (None, 62, [8]), []),
        (12, Some (None, 85, [13]), []),
        (13, Some (None, 93, [14]), []),
        (14, Some (None, 101, [15]), []),
        (15, Some (None, 107, [16]), []),
        (16, Some (None, 113, [17]), []),
        (18, Some (None, 129, [19]), []),
        (19, Some (None, 133, [20]), []),
        (20, Some (None, 141, [21]), []),
        (21, Some (None, 149, [22]), []),
        (24, Some (None, 119, [23]), []),
        (26, Some (None, 163, [27]), []),
        (28, Some (None, 173, [29]), []),
        (29, Some (None, 187, [30]), []),
        (30, Some (None, 195, [31]), []),
        (31, Some (None, 203, [32]), []),
        (32, Some (None, 179, [33]), [])])]"

abbreviation T_AND :: nat where "T_AND \<equiv> 49"
abbreviation T_OR :: nat where "T_OR \<equiv> 50"
abbreviation T_SEMI :: nat where "T_SEMI \<equiv> 62"
abbreviation T_OPEN :: nat where "T_OPEN \<equiv> 63"
abbreviation T_CLOSE :: nat where "T_CLOSE \<equiv> 64"

section \<open>The reading of the grammar\<close>

text \<open>The rest of the tokens after a part, or the end of the parse.\<close>

datatype yyread = Got bytes bool "yytok list" | Halt yyresult

fun eff_bind :: "yyeffect \<Rightarrow> (bytes \<Rightarrow> bool \<Rightarrow> yyread) \<Rightarrow> yyread" where
  "eff_bind (EDone v res) k = k v res"
| "eff_bind ELoops k = Halt YLoops"
| "eff_bind EUndefined k = Halt YUndefined"

fun read_bind :: "yyread \<Rightarrow> (bytes \<Rightarrow> bool \<Rightarrow> yytok list \<Rightarrow> yyread) \<Rightarrow> yyread" where
  "read_bind (Got v res ts) k = k v res ts"
| "read_bind (Halt r) k = Halt r"

definition read_fails :: "yytok list \<Rightarrow> yyread" where
  "read_fails ts = Halt (if take 1 ts = [TokUndefined] then YUndefined else YThrown ''syntax error'')"

fun run_units :: "yyactions \<Rightarrow> nat list \<Rightarrow> bytes \<Rightarrow> bool \<Rightarrow> yytok list \<Rightarrow> yyread" where
  "run_units act [] v res ts = Got v res ts"
| "run_units act (u # us) v res ts = eff_bind (act u [v] res) (\<lambda>v res. run_units act us v res ts)"

definition run_criterion :: "yyactions \<Rightarrow> criterion \<Rightarrow> bytes list \<Rightarrow> bool \<Rightarrow> yytok list \<Rightarrow> yyread" where
  "run_criterion act c vs res ts = (case c of (vr, r, us) \<Rightarrow>
     (case vr of
        None \<Rightarrow> eff_bind (act r vs res) (\<lambda>v res. run_units act us v res ts)
      | Some w \<Rightarrow> eff_bind (act w [last vs] res) (\<lambda>u res.
          eff_bind (act r (butlast vs @ [u]) res) (\<lambda>v res. run_units act us v res ts))))"

text \<open>
  A criterion is read as far as its tokens go on: the second token decides between a test of
  the field alone and one with an operator.
\<close>

definition read_third :: "yyactions \<Rightarrow> (nat \<times> criterion) list \<Rightarrow> bytes \<Rightarrow> bytes \<Rightarrow> yytok list \<Rightarrow> bool \<Rightarrow> yyread" where
  "read_third act thirds a b ts res =
     (case map_of thirds (yytoken ts) of
        None \<Rightarrow> read_fails ts
      | Some x \<Rightarrow> run_criterion act x [a, b, yyvalue [] ts] res (drop 1 ts))"

definition read_second :: "yyactions \<Rightarrow> criterion option \<Rightarrow> (nat \<times> criterion option \<times> (nat \<times> criterion) list) list
    \<Rightarrow> bytes \<Rightarrow> yytok list \<Rightarrow> bool \<Rightarrow> yyread" where
  "read_second act alone seconds a ts res =
     (if take 1 ts = [TokUndefined] then Halt YUndefined
      else case map_of seconds (yytoken ts) of
        None \<Rightarrow> (case alone of None \<Rightarrow> read_fails ts | Some x \<Rightarrow> run_criterion act x [a] res ts)
      | Some (Some x, thirds) \<Rightarrow> run_criterion act x [a, yyvalue [] ts] res (drop 1 ts)
      | Some (None, thirds) \<Rightarrow> read_third act thirds a (yyvalue [] ts) (drop 1 ts) res)"

definition read_criterion :: "yyactions \<Rightarrow> yytok list \<Rightarrow> bool \<Rightarrow> yyread" where
  "read_criterion act ts res =
     (case map_of criteria (yytoken ts) of
        None \<Rightarrow> read_fails ts
      | Some (alone, seconds) \<Rightarrow> read_second act alone seconds (yyvalue [] ts) (drop 1 ts) res)"

text \<open>Both operators have one rank and associate to the right. The first argument is enough when it exceeds the number of tokens.\<close>

fun read_expr :: "nat \<Rightarrow> yyactions \<Rightarrow> yytok list \<Rightarrow> bool \<Rightarrow> yyread" where
  "read_expr 0 act ts res = Halt YUndefined"
| "read_expr (Suc n) act ts res =
     read_bind
       (if yytoken ts = T_OPEN then
          read_bind (read_expr n act (drop 1 ts) res) (\<lambda>v res us.
            if yytoken us = T_CLOSE then
              eff_bind (act 36 [yyvalue [] ts, v, yyvalue [] us] res) (\<lambda>v res. Got v res (drop 1 us))
            else read_fails us)
        else read_criterion act ts res)
       (\<lambda>v res us.
          if yytoken us = T_OR \<or> yytoken us = T_AND then
            read_bind (read_expr n act (drop 1 us) res) (\<lambda>w res ws.
              eff_bind (act (if yytoken us = T_OR then 34 else 35) [v, yyvalue [] us, w] res) (\<lambda>v res. Got v res ws))
          else if take 1 us = [TokUndefined] then Halt YUndefined
          else Got v res us)"

fun read_exprs :: "nat \<Rightarrow> yyactions \<Rightarrow> bytes \<Rightarrow> yytok list \<Rightarrow> bool \<Rightarrow> yyresult" where
  "read_exprs 0 act v ts res = YUndefined"
| "read_exprs (Suc n) act v ts res =
     (if ts = [] then YAccepted res
      else case read_bind (read_expr n act ts res) (\<lambda>w res us.
          if yytoken us = T_SEMI then eff_bind (act 3 [v, w, yyvalue [] us] res) (\<lambda>v res. Got v res (drop 1 us))
          else read_fails us) of
        Got v res us \<Rightarrow> read_exprs n act v us res
      | Halt r \<Rightarrow> r)"

definition read_text :: "yyactions \<Rightarrow> yytok list \<Rightarrow> bool \<Rightarrow> yyresult" where
  "read_text act ts res =
     (case act 2 [replicate 256 0] res of
        EDone v res \<Rightarrow> read_exprs (Suc (Suc (length ts))) act v ts res
      | ELoops \<Rightarrow> YLoops
      | EUndefined \<Rightarrow> YUndefined)"

section \<open>The tables against the grammar\<close>

definition waits_for :: "nat \<Rightarrow> bool" where
  "waits_for s \<longleftrightarrow> s \<noteq> YYFINAL \<and> yypact ! s \<noteq> YYPACT_NINF"

definition reduces_by :: "nat \<Rightarrow> nat \<Rightarrow> bool" where
  "reduces_by s r \<longleftrightarrow> s \<noteq> YYFINAL \<and> yypact ! s = YYPACT_NINF \<and> yydefault s = Reduce r"

fun unit_chain :: "nat \<Rightarrow> nat \<Rightarrow> nat list \<Rightarrow> nat \<Rightarrow> bool" where
  "unit_chain c q [] e \<longleftrightarrow> q = e"
| "unit_chain c q (u # us) e \<longleftrightarrow> reduces_by q u \<and> yyr2 ! u = 1 \<and> unit_chain c (yygoto c u) us e"

fun third_ok :: "nat \<Rightarrow> nat \<times> criterion \<Rightarrow> bool" where
  "third_ok q (d, vr, r, us) \<longleftrightarrow>
     yyr2 ! r = 3 \<and>
     (case yyaction q d of
        Shift p \<Rightarrow>
          (case vr of None \<Rightarrow> reduces_by p r | Some w \<Rightarrow> reduces_by p w \<and> yyr2 ! w = 1 \<and> reduces_by (yygoto q w) r)
      | _ \<Rightarrow> False)"

fun second_ok :: "nat \<Rightarrow> nat \<times> criterion option \<times> (nat \<times> criterion) list \<Rightarrow> bool" where
  "second_ok q (b, Some (vr, r, us), thirds) \<longleftrightarrow>
     vr = None \<and> yyr2 ! r = 2 \<and> (case yyaction q b of Shift p \<Rightarrow> reduces_by p r | _ \<Rightarrow> False)"
| "second_ok q (b, None, thirds) \<longleftrightarrow>
     (case yyaction q b of
        Shift p \<Rightarrow> waits_for p \<and> yydefault p = Fail \<and> yyrow p = map fst thirds \<and> list_all (third_ok p) thirds
      | _ \<Rightarrow> False)"

definition default_ok :: "nat \<Rightarrow> criterion option \<Rightarrow> bool" where
  "default_ok p alone \<longleftrightarrow> (case alone of
     None \<Rightarrow> yydefault p = Fail
   | Some (vr, r, us) \<Rightarrow> vr = None \<and> yydefault p = Reduce r \<and> yyr2 ! r = 1)"

fun first_ok :: "nat \<times> criterion option \<times> (nat \<times> criterion option \<times> (nat \<times> criterion) list) list \<Rightarrow> bool" where
  "first_ok (a, alone, seconds) \<longleftrightarrow>
     (case yyaction 33 a of
        Shift p \<Rightarrow> waits_for p \<and> yyrow p = map fst seconds \<and> list_all (second_ok p) seconds \<and> default_ok p alone
      | _ \<Rightarrow> False)"

text \<open>The states before an expression, with the states after it.\<close>

definition contexts :: "(nat \<times> nat) list" where
  "contexts = [(1, 35), (33, 170), (191, 323), (192, 324)]"

fun criterion_ends :: "nat \<Rightarrow> nat \<Rightarrow> criterion \<Rightarrow> bool" where
  "criterion_ends c e (vr, r, us) \<longleftrightarrow> unit_chain c (yygoto c r) us e"

fun option_list :: "'a option \<Rightarrow> 'a list" where
  "option_list None = []"
| "option_list (Some x) = [x]"

definition entry_criteria :: "criterion option \<Rightarrow> (nat \<times> criterion option \<times> (nat \<times> criterion) list) list \<Rightarrow> criterion list" where
  "entry_criteria alone seconds =
     option_list alone @ concat (map (\<lambda>(b, two, thirds). option_list two @ map snd thirds) seconds)"

definition all_criteria :: "criterion list" where
  "all_criteria = concat (map (\<lambda>(a, alone, seconds). entry_criteria alone seconds) criteria)"

lemmas table_defs = waits_for_def reduces_by_def YYFINAL_def YYPACT_NINF_def YYLAST_def YYNTOKENS_def yydefault_def
  yyaction_def yygoto_def table_entries Let_def

lemma criteria_1_ok: "list_all first_ok (take 7 criteria)"
  by (simp add: criteria_def default_ok_def yyrow_def tokens_upt table_defs)

lemma criteria_2_ok: "list_all first_ok (take 7 (drop 7 criteria))"
  by (simp add: criteria_def default_ok_def yyrow_def tokens_upt table_defs)

lemma criteria_3_ok: "list_all first_ok (take 8 (drop 14 criteria))"
  by (simp add: criteria_def default_ok_def yyrow_def tokens_upt table_defs)

lemma criteria_4_ok: "list_all first_ok (drop 22 criteria)"
  by (simp add: criteria_def default_ok_def yyrow_def tokens_upt table_defs)

lemma criteria_ok: "list_all first_ok criteria"
proof -
  have "criteria = take 7 criteria @ take 7 (drop 7 criteria) @ take 8 (drop 14 criteria) @ drop 22 criteria"
    by (simp add: criteria_def)
  then show ?thesis
    using criteria_1_ok criteria_2_ok criteria_3_ok criteria_4_ok by (metis list_all_append)
qed

lemma criteria_end: "list_all (\<lambda>(c, e). list_all (criterion_ends c e) all_criteria) contexts"
  by (simp add: contexts_def all_criteria_def entry_criteria_def criteria_def table_defs)

lemma row_33: "yyrow 33 = [3, 4, 5, 6, 7, 8, 9, 10, 11, 12, 13, 14, 15, 16, 17, 18, 19, 20, 21, 22, 23, 24, 25, 26, 27, 28, 29, 30, 31, 32, 63, 65]"
  by (simp add: yyrow_def tokens_upt table_entries YYLAST_def)

lemma context_rows: "yyrow 1 = 0 # yyrow 33" "yyrow 191 = yyrow 33" "yyrow 192 = yyrow 33"
  unfolding row_33 by (simp_all add: yyrow_def tokens_upt table_entries YYLAST_def)

lemma criteria_row: "filter (\<lambda>t. t \<noteq> T_OPEN) (yyrow 33) = map fst criteria"
  by (simp add: row_33 criteria_def)

lemma context_shifts: "list_all (\<lambda>t. yyaction 1 t = yyaction 33 t \<and> yyaction 191 t = yyaction 33 t \<and> yyaction 192 t = yyaction 33 t) (yyrow 33)"
  unfolding row_33 list.pred_inject by (simp add: table_defs)

lemma operand_rows: "yyrow 35 = [T_AND, T_OR, T_SEMI]" "yyrow 170 = [T_AND, T_OR, T_CLOSE]" "yyrow 323 = [T_AND, T_OR]" "yyrow 324 = [T_AND, T_OR]"
  by (simp_all add: yyrow_def tokens_upt table_entries YYLAST_def)

end
