(* ===== verification/NdExprGrammar.thy ===== *)
theory NdExprGrammar
  imports NdExprParser
begin

text \<open>
  The generated parser of flow expressions reads the grammar: run from its tables, it gives the
  outcome of the reading by recursive descent, with the same actions in the same order.
\<close>

section \<open>Steps\<close>

definition run_eff :: "yyeffect \<Rightarrow> (bytes \<Rightarrow> bool \<Rightarrow> yyresult option) \<Rightarrow> yyresult option" where
  "run_eff x k = (case x of EDone v res \<Rightarrow> k v res | ELoops \<Rightarrow> Some YLoops | EUndefined \<Rightarrow> Some YUndefined)"

definition resume :: "yyactions \<Rightarrow> nat \<Rightarrow> (nat \<times> bytes) list \<Rightarrow> yyread \<Rightarrow> yyresult option" where
  "resume act e stack rd = (case rd of Got v res ts \<Rightarrow> yyrun act ((e, v) # stack, ts, res) | Halt r \<Rightarrow> Some r)"

lemma resume_simps [simp]:
  "resume act e stack (Got v res ts) = yyrun act ((e, v) # stack, ts, res)"
  "resume act e stack (Halt r) = Some r"
  by (simp_all add: resume_def)

lemma resume_bind: "resume act e stack (eff_bind x k) = run_eff x (\<lambda>v res. resume act e stack (k v res))"
  by (cases x) (simp_all add: run_eff_def)

lemma yyrun_step: "yyrun act c = (case yystep act c of Next c \<Rightarrow> yyrun act c | Stop r \<Rightarrow> Some r)"
  by (rule yyrun.simps)

lemma yyrun_reduce:
  "(case yyreduce act r (stack, ts, res) of Next c \<Rightarrow> yyrun act c | Stop r \<Rightarrow> Some r) =
     run_eff (act r (if yyr2 ! r = 0 then [snd (hd stack)] else rev (map snd (take (yyr2 ! r) stack))) res)
       (\<lambda>v res. yyrun act ((yygoto (fst (hd (drop (yyr2 ! r) stack))) r, v) # drop (yyr2 ! r) stack, ts, res))"
  by (simp add: yyreduce_def run_eff_def Let_def split: yyeffect.split)

lemma step_reduces:
  assumes "reduces_by s r" "yyr2 ! r = Suc (length xs)" "length xs + Suc (length st) < YYMAXDEPTH" "st \<noteq> []"
  shows "yyrun act ((s, v) # xs @ st, ts, res) =
    run_eff (act r (rev (map snd xs) @ [v]) res) (\<lambda>w res. yyrun act ((yygoto (fst (hd st)) r, w) # st, ts, res))"
  using assms yyrun_reduce [of act r "(s, v) # xs @ st" ts res]
  by (subst yyrun_step) (simp add: yystep_def reduces_by_def)

lemma step_default:
  assumes "waits_for s" "yyaction s (yytoken ts) = Reduce r" "take 1 ts \<noteq> [TokUndefined]"
    "yyr2 ! r = Suc (length xs)" "length xs + Suc (length st) < YYMAXDEPTH" "st \<noteq> []"
  shows "yyrun act ((s, v) # xs @ st, ts, res) =
    run_eff (act r (rev (map snd xs) @ [v]) res) (\<lambda>w res. yyrun act ((yygoto (fst (hd st)) r, w) # st, ts, res))"
  using assms yyrun_reduce [of act r "(s, v) # xs @ st" ts res]
  by (subst yyrun_step) (simp add: yystep_def waits_for_def)

lemma step_shifts:
  assumes "waits_for s" "yyaction s (yytoken ts) = Shift q" "take 1 ts \<noteq> [TokUndefined]" "ts \<noteq> []" "Suc (length st) < YYMAXDEPTH"
  shows "yyrun act ((s, v) # st, ts, res) = yyrun act ((q, yyvalue [] ts) # (s, v) # st, drop 1 ts, res)"
proof -
  have "yyvalue ((s, v) # st) ts = yyvalue [] ts" using assms by (cases ts) (auto simp: yyvalue_def split: yytok.split)
  then show ?thesis using assms by (subst yyrun_step) (simp add: yystep_def waits_for_def)
qed

lemma step_fails:
  assumes "waits_for s" "take 1 ts \<noteq> [TokUndefined] \<Longrightarrow> yyaction s (yytoken ts) = Fail" "Suc (length st) < YYMAXDEPTH"
  shows "yyrun act ((s, v) # st, ts, res) = resume act e stack (read_fails ts)"
  using assms by (subst yyrun_step) (auto simp: yystep_def waits_for_def read_fails_def)

lemma step_undefined:
  assumes "waits_for s" "take 1 ts = [TokUndefined]" "Suc (length st) < YYMAXDEPTH"
  shows "yyrun act ((s, v) # st, ts, res) = Some YUndefined"
  using assms by (subst yyrun_step) (simp add: yystep_def waits_for_def)

section \<open>Tokens\<close>

definition tokens_ok :: "yytok list \<Rightarrow> bool" where
  "tokens_ok ts \<longleftrightarrow> (\<forall>k v. Tok k v \<in> set ts \<longrightarrow> 0 < k)"

lemma tokens_ok_drop [simp]: "tokens_ok ts \<Longrightarrow> tokens_ok (drop n ts)"
  by (auto simp: tokens_ok_def dest: in_set_dropD)

lemma yylex_positive: "Tok k w \<in> set (yylex v s) \<Longrightarrow> 0 < k"
proof (induction v s rule: yylex.induct)
  case (1 v s)
  show ?case
    using 1 yylex.simps [of v s] by (force split: option.splits lex_action.splits prod.splits if_splits)
qed

lemma yylex_tokens_ok: "tokens_ok (yylex v s)"
  by (auto simp: tokens_ok_def dest: yylex_positive)

lemma yytranslate_range: "0 < k \<Longrightarrow> 0 < yytranslate k \<and> yytranslate k < 68"
proof -
  have "list_all (\<lambda>t. 0 < t \<and> t < 68) (drop 1 yytranslate_table)" by code_simp
  moreover have "length yytranslate_table = 317" by code_simp
  moreover assume "0 < k"
  ultimately show ?thesis
    by (auto simp: yytranslate_def list_all_length dest: spec [of _ "nat k - 1"])
qed

lemma yytoken_range: "tokens_ok ts \<Longrightarrow> yytoken ts < 68"
  by (cases ts) (auto simp: yytoken_def tokens_ok_def yytranslate_range split: yytok.split)

lemma yytoken_zero: "tokens_ok ts \<Longrightarrow> yytoken ts = 0 \<longleftrightarrow> ts = [] \<or> take 1 ts = [TokUndefined]"
  by (cases ts) (auto simp: yytoken_def tokens_ok_def dest: yytranslate_range split: yytok.splits)

section \<open>A criterion\<close>

lemma units_run:
  assumes "unit_chain c q us e" "Suc (Suc (length st)) < YYMAXDEPTH"
  shows "yyrun act ((q, v) # (c, v0) # st, ts, res) = resume act e ((c, v0) # st) (run_units act us v res ts)"
  using assms(1)
proof (induction us arbitrary: q v res)
  case (Cons u us)
  then have u: "reduces_by q u" "yyr2 ! u = 1" and rest: "unit_chain c (yygoto c u) us e" by simp_all
  show ?case
    using step_reduces [OF u(1), of "[]" "(c, v0) # st"] u(2) assms(2)
    by (simp add: resume_bind Cons.IH [OF rest])
qed simp

lemma criterion_runs:
  assumes "criterion_ends c e (None, r, us)" "yyr2 ! r = Suc (length xs)" "length xs + Suc (Suc (length st)) < YYMAXDEPTH"
    "reduces_by q r \<or> waits_for q \<and> yyaction q (yytoken ts) = Reduce r \<and> take 1 ts \<noteq> [TokUndefined]"
  shows "yyrun act ((q, v) # xs @ (c, v0) # st, ts, res) =
    resume act e ((c, v0) # st) (run_criterion act (None, r, us) (rev (map snd xs) @ [v]) res ts)"
proof -
  have "yyrun act ((q, v) # xs @ (c, v0) # st, ts, res) =
      run_eff (act r (rev (map snd xs) @ [v]) res) (\<lambda>w res. yyrun act ((yygoto c r, w) # (c, v0) # st, ts, res))"
    using assms step_reduces [of q r xs "(c, v0) # st"] step_default [of q ts r xs "(c, v0) # st"] by auto
  also have "\<dots> = resume act e ((c, v0) # st) (run_criterion act (None, r, us) (rev (map snd xs) @ [v]) res ts)"
    using assms by (simp add: run_criterion_def resume_bind units_run)
  finally show ?thesis .
qed

lemma value_criterion_runs:
  assumes "criterion_ends c e (Some w, r, us)" "yyr2 ! r = 3" "reduces_by p w" "yyr2 ! w = 1" "reduces_by (yygoto q w) r"
    "length st + 4 < YYMAXDEPTH"
  shows "yyrun act ((p, z) # (q, b) # (s, a) # (c, v0) # st, ts, res) =
    resume act e ((c, v0) # st) (run_criterion act (Some w, r, us) [a, b, z] res ts)"
proof -
  have "yyrun act ((p, z) # (q, b) # (s, a) # (c, v0) # st, ts, res) =
      run_eff (act w [z] res) (\<lambda>z res. yyrun act ((yygoto q w, z) # (q, b) # (s, a) # (c, v0) # st, ts, res))"
    using assms step_reduces [of p w "[]" "(q, b) # (s, a) # (c, v0) # st"] by simp
  moreover have "yyrun act ((yygoto q w, z) # (q, b) # (s, a) # (c, v0) # st, ts, res) =
      run_eff (act r [a, b, z] res) (\<lambda>v res. yyrun act ((yygoto c r, v) # (c, v0) # st, ts, res))" for z res
    using assms step_reduces [of "yygoto q w" r "[(q, b), (s, a)]" "(c, v0) # st"] by simp
  ultimately show ?thesis
    using assms by (simp add: run_criterion_def resume_bind units_run)
qed

section \<open>The states before and after an expression\<close>

lemma context_states:
  assumes "(c, e) \<in> set contexts"
  shows "waits_for c" "yydefault c = Fail" "yyaction c T_OPEN = Shift 33"
    "waits_for e" "yyaction e T_AND = Shift 191" "yyaction e T_OR = Shift 192"
    "yygoto c 34 = e" "yygoto c 35 = e" "yygoto c 36 = e"
  using assms by (auto simp: contexts_def table_defs)

lemma context_action:
  assumes "(c, e) \<in> set contexts" "t < 68" "t = 0 \<Longrightarrow> c \<noteq> 1"
  shows "yyaction c t = (if t \<in> set (yyrow 33) then yyaction 33 t else Fail)"
proof (cases "t \<in> set (yyrow 33)")
  case True
  then show ?thesis
    using assms(1) context_shifts by (auto simp: contexts_def list_all_iff)
next
  case False
  have "t \<notin> set (yyrow c)" using assms False by (auto simp: contexts_def context_rows context_rows [unfolded One_nat_def])
  then show ?thesis
    using False assms context_states(2) [OF assms(1)] by (simp add: yyaction_other)
qed

lemma context_none:
  assumes "(c, e) \<in> set contexts" "t < 68" "t = 0 \<Longrightarrow> c \<noteq> 1" "t \<noteq> T_OPEN" "map_of criteria t = None"
  shows "yyaction c t = Fail"
proof -
  have "t \<notin> set (yyrow 33)"
    using assms arg_cong [OF criteria_row, of set] by (auto simp: map_of_eq_None_iff)
  then show ?thesis using context_action [OF assms(1-3)] by simp
qed

lemma context_first:
  assumes "(c, e) \<in> set contexts" "t < 68" "t = 0 \<Longrightarrow> c \<noteq> 1" "map_of criteria t = Some (alone, seconds)"
  obtains p where "yyaction c t = Shift p" "waits_for p" "yyrow p = map fst seconds"
    "list_all (second_ok p) seconds" "default_ok p alone"
proof -
  have m: "(t, alone, seconds) \<in> set criteria" using assms by (simp add: map_of_SomeD)
  then have "t \<in> set (map fst criteria)" by force
  then have "t \<in> set (yyrow 33)" using criteria_row by (metis filter_is_subset subsetD)
  moreover have "first_ok (t, alone, seconds)" using m criteria_ok by (auto simp: list_all_iff)
  ultimately show ?thesis using that context_action [OF assms(1-3)] by (auto split: yyact.splits)
qed

lemma entry_criteria_mem:
  "alone = Some x \<Longrightarrow> x \<in> set (entry_criteria alone seconds)"
  "(b, two, thirds) \<in> set seconds \<Longrightarrow> two = Some x \<Longrightarrow> x \<in> set (entry_criteria alone seconds)"
  "(b, two, thirds) \<in> set seconds \<Longrightarrow> (d, x) \<in> set thirds \<Longrightarrow> x \<in> set (entry_criteria alone seconds)"
  unfolding entry_criteria_def by (simp, force, force)

lemma all_criteria_mem:
  assumes "(a, alone, seconds) \<in> set criteria" "x \<in> set (entry_criteria alone seconds)"
  shows "x \<in> set all_criteria"
  unfolding all_criteria_def set_concat
  by (rule UN_I [where a = "entry_criteria alone seconds"]) (use assms in force)+

lemma criteria_ends:
  assumes "(c, e) \<in> set contexts" "x \<in> set all_criteria"
  shows "criterion_ends c e x"
  using assms bspec [OF criteria_end [unfolded list_all_iff] assms(1)] by simp

lemma no_criteria_zero: "map_of criteria 0 = None"
  by (simp add: criteria_def)

section \<open>The reading of a criterion\<close>

abbreviation reads_on :: "yytok list \<Rightarrow> yytok list \<Rightarrow> bool" where
  "reads_on ts us \<equiv> length us < length ts \<and> (tokens_ok ts \<longrightarrow> tokens_ok us)"

lemma run_units_reads: "run_units act us v res ts = Got w res' ws \<Longrightarrow> ws = ts"
proof (induction us arbitrary: v res)
  case (Cons u us)
  then show ?case by (cases "act u [v] res") auto
qed simp

lemma eff_bind_Got: "eff_bind x k = Got w res ws \<Longrightarrow> \<exists>v res'. x = EDone v res' \<and> k v res' = Got w res ws"
  by (cases x) auto

lemma run_criterion_reads: "run_criterion act x vs res ts = Got w res' ws \<Longrightarrow> ws = ts"
  by (auto simp: run_criterion_def dest!: eff_bind_Got run_units_reads split: prod.splits option.splits)

lemma token_reads: "tokens_ok ts \<Longrightarrow> yytoken ts \<noteq> 0 \<Longrightarrow> reads_on ts (drop 1 ts)"
  by (auto simp: yytoken_zero)

lemma reads_on_trans: "reads_on ts us \<Longrightarrow> reads_on us ws \<Longrightarrow> reads_on ts ws"
  by auto

lemma second_not_zero: "map_of criteria t = Some (alone, seconds) \<Longrightarrow> map_of seconds 0 = None"
proof -
  have "list_all (\<lambda>(a, alone, seconds). map_of seconds 0 = None) criteria" by (simp add: criteria_def)
  then show "map_of criteria t = Some (alone, seconds) \<Longrightarrow> map_of seconds 0 = None"
    by (auto simp: list_all_iff dest: map_of_SomeD)
qed

lemma third_not_zero:
  "map_of criteria t = Some (alone, seconds) \<Longrightarrow> map_of seconds u = Some (two, thirds) \<Longrightarrow> map_of thirds 0 = None"
proof -
  have "list_all (\<lambda>(a, alone, seconds). list_all (\<lambda>(b, two, thirds). map_of thirds 0 = None) seconds) criteria"
    by (simp add: criteria_def)
  then show "map_of criteria t = Some (alone, seconds) \<Longrightarrow> map_of seconds u = Some (two, thirds) \<Longrightarrow> map_of thirds 0 = None"
    by (fastforce simp: list_all_iff dest!: map_of_SomeD)
qed

lemma read_third_reads:
  assumes "tokens_ok ts" "map_of thirds 0 = None" "read_third act thirds a b ts res = Got v res' us"
  shows "reads_on ts us"
proof -
  have "us = drop 1 ts"
    using assms(3) by (auto simp: read_third_def read_fails_def dest: run_criterion_reads split: option.splits)
  moreover have "yytoken ts \<noteq> 0"
    using assms(2,3) by (intro notI) (simp add: read_third_def read_fails_def)
  ultimately show ?thesis using token_reads [OF assms(1)] by simp
qed

lemma read_second_reads:
  assumes "tokens_ok ts" "map_of criteria t = Some (alone, seconds)" "read_second act alone seconds a ts res = Got v res' us"
  shows "us = ts \<or> reads_on ts us"
proof (cases "map_of seconds (yytoken ts)")
  case None
  then show ?thesis
    using assms(3) by (auto simp: read_second_def read_fails_def dest: run_criterion_reads split: option.splits if_splits)
next
  case (Some x)
  then have r: "reads_on ts (drop 1 ts)"
    using token_reads [OF assms(1)] second_not_zero [OF assms(2)] by (metis option.distinct(1))
  show ?thesis
  proof (cases "fst x")
    case None
    then obtain thirds where x: "x = (None, thirds)" by (cases x) auto
    have "read_third act thirds a (yyvalue [] ts) (drop 1 ts) res = Got v res' us"
      using assms(3) Some x by (simp add: read_second_def split: if_splits)
    then show ?thesis
      using read_third_reads [OF _ third_not_zero [OF assms(2) Some [unfolded x]]] r assms(1) by (meson reads_on_trans)
  next
    case (Some y)
    then have "us = drop 1 ts"
      using assms(3) \<open>map_of seconds (yytoken ts) = Some x\<close>
      by (cases x) (auto simp: read_second_def dest: run_criterion_reads split: if_splits)
    then show ?thesis using r by simp
  qed
qed

lemma read_criterion_reads:
  assumes "tokens_ok ts" "read_criterion act ts res = Got v res' us"
  shows "reads_on ts us"
proof -
  obtain alone seconds where a: "map_of criteria (yytoken ts) = Some (alone, seconds)"
    "read_second act alone seconds (yyvalue [] ts) (drop 1 ts) res = Got v res' us"
    using assms(2) by (auto simp: read_criterion_def read_fails_def split: option.splits)
  have "reads_on ts (drop 1 ts)"
    using token_reads [OF assms(1)] no_criteria_zero a(1) by (metis option.distinct(1))
  then show ?thesis using read_second_reads [OF _ a] assms(1) by (metis reads_on_trans)
qed

section \<open>The parser on a criterion\<close>

lemma token_there: "tokens_ok ts \<Longrightarrow> yytoken ts \<noteq> 0 \<Longrightarrow> ts \<noteq> [] \<and> take 1 ts \<noteq> [TokUndefined]"
  by (auto simp: yytoken_zero)

lemma row_fails: "tokens_ok ts \<Longrightarrow> yydefault q = Fail \<Longrightarrow> yyrow q = map fst xs \<Longrightarrow> map_of xs (yytoken ts) = None \<Longrightarrow> yyaction q (yytoken ts) = Fail"
  by (simp add: yyaction_other yytoken_range map_of_eq_None_iff)

lemma third_runs:
  assumes ctx: "(c, e) \<in> set contexts" and a: "map_of criteria t = Some (alone, seconds)"
    and b: "map_of seconds u = Some (None, thirds)"
    and q: "waits_for q" "yydefault q = Fail" "yyrow q = map fst thirds" "list_all (third_ok q) thirds"
    and ts: "tokens_ok ts" "length st + 3 + length ts < YYMAXDEPTH"
  shows "yyrun act ((q, y) # (s, x) # (c, v0) # st, ts, res) = resume act e ((c, v0) # st) (read_third act thirds x y ts res)"
proof (cases "map_of thirds (yytoken ts)")
  case None
  then show ?thesis
    using q ts by (simp add: read_third_def step_fails row_fails)
next
  case (Some k)
  obtain vr r us where k: "k = (vr, r, us)" by (cases k)
  have ends: "criterion_ends c e (vr, r, us)"
    using ctx map_of_SomeD [OF a] map_of_SomeD [OF b] map_of_SomeD [OF Some] k by (intro criteria_ends all_criteria_mem) (auto intro: entry_criteria_mem)
  have there: "ts \<noteq> []" "take 1 ts \<noteq> [TokUndefined]"
    using token_there [OF ts(1)] third_not_zero [OF a b] Some by (metis option.distinct(1))+
  have "third_ok q (yytoken ts, vr, r, us)"
    using q(4) map_of_SomeD [OF Some] k by (auto simp: list_all_iff)
  then obtain p where p: "yyaction q (yytoken ts) = Shift p" "yyr2 ! r = 3"
    "case vr of None \<Rightarrow> reduces_by p r | Some w \<Rightarrow> reduces_by p w \<and> yyr2 ! w = 1 \<and> reduces_by (yygoto q w) r"
    by (auto split: yyact.splits)
  have len: "length st + 4 < YYMAXDEPTH" using ts(2) there(1) by (cases ts) auto
  have "yyrun act ((q, y) # (s, x) # (c, v0) # st, ts, res)
      = yyrun act ((p, yyvalue [] ts) # (q, y) # (s, x) # (c, v0) # st, drop 1 ts, res)"
    using step_shifts [OF q(1) p(1) there(2,1)] len by simp
  also have "\<dots> = resume act e ((c, v0) # st) (run_criterion act (vr, r, us) [x, y, yyvalue [] ts] res (drop 1 ts))"
  proof (cases vr)
    case None
    then show ?thesis
      using criterion_runs [of c e r us "[(q, y), (s, x)]" st p] ends p len by simp
  next
    case (Some w)
    then show ?thesis
      using value_criterion_runs [of c e w r us p q] ends p len by simp
  qed
  finally show ?thesis by (simp add: read_third_def Some k)
qed

lemma second_runs:
  assumes ctx: "(c, e) \<in> set contexts" and a: "map_of criteria t = Some (alone, seconds)"
    and p: "waits_for p" "yyrow p = map fst seconds" "list_all (second_ok p) seconds" "default_ok p alone"
    and ts: "tokens_ok ts" "length st + 2 + length ts < YYMAXDEPTH"
  shows "yyrun act ((p, x) # (c, v0) # st, ts, res) = resume act e ((c, v0) # st) (read_second act alone seconds x ts res)"
proof (cases "take 1 ts = [TokUndefined]")
  case True
  then show ?thesis using p ts by (simp add: read_second_def step_undefined)
next
  case False
  show ?thesis
  proof (cases "map_of seconds (yytoken ts)")
    case None
    then have other: "yyaction p (yytoken ts) = yydefault p"
      using p(2) ts(1) by (simp add: yyaction_other yytoken_range map_of_eq_None_iff)
    show ?thesis
    proof (cases alone)
      case None
      then show ?thesis
        using other False p ts \<open>map_of seconds (yytoken ts) = None\<close>
        by (simp add: read_second_def default_ok_def step_fails)
    next
      case (Some k)
      obtain vr r us where k: "k = (vr, r, us)" by (cases k)
      have "criterion_ends c e k"
        using ctx map_of_SomeD [OF a] Some by (intro criteria_ends all_criteria_mem) (auto intro: entry_criteria_mem)
      then show ?thesis
        using criterion_runs [of c e r us "[]" st p ts] other False p ts Some k \<open>map_of seconds (yytoken ts) = None\<close>
        by (simp add: read_second_def default_ok_def)
    qed
  next
    case (Some b)
    obtain two thirds where b: "b = (two, thirds)" by force
    have there: "ts \<noteq> []" using token_there [OF ts(1)] second_not_zero [OF a] Some by (metis option.distinct(1))
    then have len: "length st + 3 + length (drop 1 ts) < YYMAXDEPTH" using ts(2) by (cases ts) auto
    have ok: "second_ok p (yytoken ts, two, thirds)"
      using p(3) map_of_SomeD [OF Some] b by (auto simp: list_all_iff)
    then obtain q where q: "yyaction p (yytoken ts) = Shift q" by (cases two) (auto split: yyact.splits)
    have shift: "yyrun act ((p, x) # (c, v0) # st, ts, res)
        = yyrun act ((q, yyvalue [] ts) # (p, x) # (c, v0) # st, drop 1 ts, res)"
      using step_shifts [OF p(1) q False there] len by simp
    show ?thesis
    proof (cases two)
      case None
      then show ?thesis
        using shift ok q third_runs [OF ctx a, of "yytoken ts" thirds q "drop 1 ts" st] Some b ts(1) len False
        by (simp add: read_second_def)
    next
      case (Some k)
      obtain vr r us where k: "k = (vr, r, us)" by (cases k)
      have "criterion_ends c e k"
        using ctx map_of_SomeD [OF a] map_of_SomeD [OF \<open>map_of seconds (yytoken ts) = Some b\<close>] Some b
        by (intro criteria_ends all_criteria_mem) (auto intro: entry_criteria_mem)
      then show ?thesis
        using shift ok q Some k b len False \<open>map_of seconds (yytoken ts) = Some b\<close>
          criterion_runs [of c e r us "[(p, x)]" st q "drop 1 ts"]
        by (simp add: read_second_def)
    qed
  qed
qed

lemma criterion_parsed:
  assumes ctx: "(c, e) \<in> set contexts" and opn: "yytoken ts \<noteq> T_OPEN" and first: "ts = [] \<Longrightarrow> c \<noteq> 1"
    and ts: "tokens_ok ts" "length st + 1 + length ts < YYMAXDEPTH"
  shows "yyrun act ((c, v0) # st, ts, res) = resume act e ((c, v0) # st) (read_criterion act ts res)"
proof (cases "take 1 ts = [TokUndefined]")
  case True
  then have "yytoken ts = 0" using ts(1) by (simp add: yytoken_zero)
  then show ?thesis
    using True ts(2) context_states(1) [OF ctx] by (simp add: read_criterion_def no_criteria_zero read_fails_def step_undefined)
next
  case False
  then have zero: "yytoken ts = 0 \<Longrightarrow> c \<noteq> 1" using first ts(1) by (simp add: yytoken_zero)
  note range = yytoken_range [OF ts(1)]
  show ?thesis
  proof (cases "map_of criteria (yytoken ts)")
    case None
    then show ?thesis
      using context_none [OF ctx range zero opn] ts(2) context_states(1) [OF ctx]
      by (simp add: read_criterion_def step_fails)
  next
    case (Some b)
    obtain alone seconds where b: "b = (alone, seconds)" by force
    obtain p where p: "yyaction c (yytoken ts) = Shift p" "waits_for p" "yyrow p = map fst seconds"
      "list_all (second_ok p) seconds" "default_ok p alone"
      using context_first [OF ctx range zero Some [unfolded b]] by blast
    have there: "ts \<noteq> []" using token_there [OF ts(1)] no_criteria_zero Some by (metis option.distinct(1))
    then have len: "length st + 2 + length (drop 1 ts) < YYMAXDEPTH" using ts(2) by (cases ts) auto
    have "yyrun act ((c, v0) # st, ts, res) = yyrun act ((p, yyvalue [] ts) # (c, v0) # st, drop 1 ts, res)"
      using step_shifts [OF context_states(1) [OF ctx] p(1) False there] len by simp
    then show ?thesis
      using second_runs [OF ctx Some [unfolded b] p(2-5) _ len] ts(1) Some b by (simp add: read_criterion_def)
  qed
qed

section \<open>The parser on an expression\<close>

definition read_operand :: "nat \<Rightarrow> yyactions \<Rightarrow> yytok list \<Rightarrow> bool \<Rightarrow> yyread" where
  "read_operand n act ts res =
     (if yytoken ts = T_OPEN then
        read_bind (read_expr n act (drop 1 ts) res) (\<lambda>v res us.
          if yytoken us = T_CLOSE then
            eff_bind (act 36 [yyvalue [] ts, v, yyvalue [] us] res) (\<lambda>v res. Got v res (drop 1 us))
          else read_fails us)
      else read_criterion act ts res)"

definition read_rest :: "nat \<Rightarrow> yyactions \<Rightarrow> bytes \<Rightarrow> bool \<Rightarrow> yytok list \<Rightarrow> yyread" where
  "read_rest n act v res us =
     (if yytoken us = T_OR \<or> yytoken us = T_AND then
        read_bind (read_expr n act (drop 1 us) res) (\<lambda>w res ws.
          eff_bind (act (if yytoken us = T_OR then 34 else 35) [v, yyvalue [] us, w] res) (\<lambda>v res. Got v res ws))
      else if take 1 us = [TokUndefined] then Halt YUndefined
      else Got v res us)"

lemma read_expr_Suc: "read_expr (Suc n) act ts res = read_bind (read_operand n act ts res) (read_rest n act)"
  unfolding read_expr.simps read_operand_def read_rest_def [abs_def] ..

lemma read_bind_Got: "read_bind x k = Got w res ws \<Longrightarrow> \<exists>v res' us. x = Got v res' us \<and> k v res' us = Got w res ws"
  by (cases x) auto

lemma resume_read_bind: "resume act e stack (read_bind x k) = (case x of Got v res us \<Rightarrow> resume act e stack (k v res us) | Halt r \<Rightarrow> Some r)"
  by (cases x) simp_all

text \<open>After an expression the next token is none of the two operators and no undefined one.\<close>

definition reads_past :: "yytok list \<Rightarrow> yytok list \<Rightarrow> bool" where
  "reads_past ts us \<longleftrightarrow> reads_on ts us \<and> take 1 us \<noteq> [TokUndefined] \<and> yytoken us \<noteq> T_OR \<and> yytoken us \<noteq> T_AND"

lemma operand_reads:
  assumes inner: "\<And>ts res v res' us. tokens_ok ts \<Longrightarrow> read_expr n act ts res = Got v res' us \<Longrightarrow> reads_past ts us"
    and ts: "tokens_ok ts" and w: "read_operand n act ts res = Got v r ws"
  shows "reads_on ts ws"
proof (cases "yytoken ts = T_OPEN")
  case True
  then obtain v1 r1 us1 where i: "read_expr n act (drop 1 ts) res = Got v1 r1 us1"
    and close: "yytoken us1 = T_CLOSE" "ws = drop 1 us1"
    using w by (auto simp: read_operand_def read_fails_def split: if_splits dest!: read_bind_Got eff_bind_Got)
  have "reads_on ts (drop 1 ts)" "reads_on (drop 1 ts) us1"
    using token_reads [OF ts] True inner [OF _ i] ts by (auto simp: reads_past_def)
  then show ?thesis using close ts by auto
next
  case False
  then show ?thesis using w read_criterion_reads [OF ts] by (simp add: read_operand_def)
qed

lemma read_expr_past: "tokens_ok ts \<Longrightarrow> read_expr n act ts res = Got v res' us \<Longrightarrow> reads_past ts us"
proof (induction n arbitrary: ts res v res' us)
  case (Suc n)
  obtain w r ws where w: "read_operand n act ts res = Got w r ws" "read_rest n act w r ws = Got v res' us"
    using Suc.prems(2) unfolding read_expr_Suc by (auto dest!: read_bind_Got)
  have operand: "reads_on ts ws" by (rule operand_reads [OF Suc.IH Suc.prems(1) w(1)])
  show ?case
  proof (cases "yytoken ws = T_OR \<or> yytoken ws = T_AND")
    case True
    then obtain v1 r1 where "read_expr n act (drop 1 ws) r = Got v1 r1 us"
      using w(2) by (auto simp: read_rest_def dest!: read_bind_Got eff_bind_Got)
    from Suc.IH [OF _ this] have "reads_past (drop 1 ws) us" using operand Suc.prems(1) by simp
    then show ?thesis using operand by (auto simp: reads_past_def)
  next
    case False
    then show ?thesis
      using w(2) operand by (auto simp: read_rest_def reads_past_def split: if_splits)
  qed
qed simp

lemma operator_states:
  "(191, 323) \<in> set contexts" "(192, 324) \<in> set contexts" "(33, 170) \<in> set contexts" "(1, 35) \<in> set contexts"
  "yydefault 323 = Reduce 35" "yydefault 324 = Reduce 34" "yydefault 170 = Fail" "yydefault 35 = Fail"
  "yyr2 ! 34 = 3" "yyr2 ! 35 = 3" "yyr2 ! 36 = 3" "yyr2 ! 2 = 0" "yyr2 ! 3 = 3"
  "yyaction 170 T_CLOSE = Shift 322" "reduces_by 322 36" "yyaction 35 T_SEMI = Shift 193" "reduces_by 193 3"
  "reduces_by 0 2" "yygoto 0 2 = 1" "yygoto 0 3 = 1" "yyaction 1 0 = Shift 2"
  by (simp_all add: contexts_def table_defs)

lemma operator_ends:
  assumes "tokens_ok us" "reads_past ts us"
  shows "yyaction 323 (yytoken us) = Reduce 35" "yyaction 324 (yytoken us) = Reduce 34"
  using assms by (simp_all add: reads_past_def yyaction_other yytoken_range operand_rows operator_states)

lemma operand_parsed:
  assumes inner: "\<And>c e v0 st ts res. (c, e) \<in> set contexts \<Longrightarrow> (ts = [] \<Longrightarrow> c \<noteq> 1) \<Longrightarrow> tokens_ok ts \<Longrightarrow> length ts < n \<Longrightarrow>
      length st + 1 + length ts < YYMAXDEPTH \<Longrightarrow>
      yyrun act ((c, v0) # st, ts, res) = resume act e ((c, v0) # st) (read_expr n act ts res)"
    and ctx: "(c, e) \<in> set contexts" and first: "ts = [] \<Longrightarrow> c \<noteq> 1"
    and ts: "tokens_ok ts" "length ts < Suc n" "length st + 1 + length ts < YYMAXDEPTH"
  shows "yyrun act ((c, v0) # st, ts, res) = resume act e ((c, v0) # st) (read_operand n act ts res)"
proof (cases "yytoken ts = T_OPEN")
  case False
  then show ?thesis using criterion_parsed [OF ctx False first ts(1,3)] by (simp add: read_operand_def)
next
  case True
  then have there: "ts \<noteq> []" "take 1 ts \<noteq> [TokUndefined]" using token_there [OF ts(1)] by simp_all
  have len: "length (drop 1 ts) < n" "length ((c, v0) # st) + 1 + length (drop 1 ts) < YYMAXDEPTH"
    using there(1) ts(2,3) by (cases ts; simp)+
  have "yyrun act ((c, v0) # st, ts, res) = yyrun act ((33, yyvalue [] ts) # (c, v0) # st, drop 1 ts, res)"
    using step_shifts [of c ts 33] context_states(1,3) [OF ctx] True there len by simp
  also have "\<dots> = resume act 170 ((33, yyvalue [] ts) # (c, v0) # st) (read_expr n act (drop 1 ts) res)"
    using inner [OF operator_states(3), of "drop 1 ts"] len ts(1) by simp
  also have "\<dots> = resume act e ((c, v0) # st) (read_operand n act ts res)"
  proof (cases "read_expr n act (drop 1 ts) res")
    case (Halt r)
    then show ?thesis using True by (simp add: read_operand_def)
  next
    case (Got v r us)
    have past: "reads_past (drop 1 ts) us" and us: "tokens_ok us"
      using read_expr_past [OF _ Got] ts(1) by (auto simp: reads_past_def)
    have short: "length st + 4 + length us \<le> YYMAXDEPTH"
      using past len by (simp add: reads_past_def)
    show ?thesis
    proof (cases "yytoken us = T_CLOSE")
      case True
      have there: "us \<noteq> []" "take 1 us \<noteq> [TokUndefined]" using token_there [OF us] True by simp_all
      have len: "length st + 4 < YYMAXDEPTH" using short there(1) by (cases us) auto
      show ?thesis
        using step_shifts [OF context_states(4) [OF operator_states(3)], of us 322] there len True Got \<open>yytoken ts = T_OPEN\<close>
          operator_states(14) context_states(9) [OF ctx]
          step_reduces [OF operator_states(15), of "[(170, v), (33, yyvalue [] ts)]" "(c, v0) # st"] operator_states(11)
        by (simp add: read_operand_def resume_bind)
    next
      case False
      have "yyaction 170 (yytoken us) = Fail"
        using False past us by (simp add: yyaction_other yytoken_range operand_rows operator_states reads_past_def)
      then show ?thesis
        using False Got \<open>yytoken ts = T_OPEN\<close> short step_fails [OF context_states(4) [OF operator_states(3)]]
        by (simp add: read_operand_def)
    qed
  qed
  finally show ?thesis .
qed

lemma operator_parsed:
  assumes inner: "\<And>c e v0 st ts res. (c, e) \<in> set contexts \<Longrightarrow> (ts = [] \<Longrightarrow> c \<noteq> 1) \<Longrightarrow> tokens_ok ts \<Longrightarrow> length ts < n \<Longrightarrow>
      length st + 1 + length ts < YYMAXDEPTH \<Longrightarrow>
      yyrun act ((c, v0) # st, ts, res) = resume act e ((c, v0) # st) (read_expr n act ts res)"
    and ctx: "(c, e) \<in> set contexts"
    and op: "yytoken us = op" "yyaction e op = Shift q" "op \<noteq> 0" "(q, f) \<in> set contexts" "q \<noteq> 1"
      "yyr2 ! r = 3" "yygoto c r = e" "\<And>ws. tokens_ok ws \<Longrightarrow> reads_past (drop 1 us) ws \<Longrightarrow> yyaction f (yytoken ws) = Reduce r"
    and us: "tokens_ok us" "length us < Suc n" "length st + 2 + length us < YYMAXDEPTH"
  shows "yyrun act ((e, v) # (c, v0) # st, us, res) = resume act e ((c, v0) # st)
    (read_bind (read_expr n act (drop 1 us) res) (\<lambda>w res ws. eff_bind (act r [v, yyvalue [] us, w] res) (\<lambda>v res. Got v res ws)))"
proof -
  have there: "us \<noteq> []" "take 1 us \<noteq> [TokUndefined]" using token_there [OF us(1)] op(1,3) by simp_all
  have len: "length (drop 1 us) < n" "length ((e, v) # (c, v0) # st) + 1 + length (drop 1 us) < YYMAXDEPTH"
    using there(1) us(2,3) by (cases us; simp)+
  have "yyrun act ((e, v) # (c, v0) # st, us, res) = yyrun act ((q, yyvalue [] us) # (e, v) # (c, v0) # st, drop 1 us, res)"
    using step_shifts [of e us q] context_states(4) [OF ctx] op(1,2) there len by simp
  also have "\<dots> = resume act f ((q, yyvalue [] us) # (e, v) # (c, v0) # st) (read_expr n act (drop 1 us) res)"
    using inner [OF op(4), of "drop 1 us"] op(5) len us(1) by simp
  also have "\<dots> = resume act e ((c, v0) # st)
    (read_bind (read_expr n act (drop 1 us) res) (\<lambda>w res ws. eff_bind (act r [v, yyvalue [] us, w] res) (\<lambda>v res. Got v res ws)))"
  proof (cases "read_expr n act (drop 1 us) res")
    case (Got w r1 ws)
    have past: "reads_past (drop 1 us) ws" and ws: "tokens_ok ws"
      using read_expr_past [OF _ Got] us(1) by (auto simp: reads_past_def)
    have "length st + 4 < YYMAXDEPTH" using past len by (simp add: reads_past_def)
    then show ?thesis
      using step_default [of f ws r "[(q, yyvalue [] us), (e, v)]" "(c, v0) # st"] op(6,7) op(8) [OF ws past] past
        context_states(4) [OF op(4)] Got
      by (simp add: resume_bind reads_past_def)
  qed simp
  finally show ?thesis .
qed

lemma expr_parsed:
  "(c, e) \<in> set contexts \<Longrightarrow> (ts = [] \<Longrightarrow> c \<noteq> 1) \<Longrightarrow> tokens_ok ts \<Longrightarrow> length ts < n \<Longrightarrow>
    length st + 1 + length ts < YYMAXDEPTH \<Longrightarrow>
    yyrun act ((c, v0) # st, ts, res) = resume act e ((c, v0) # st) (read_expr n act ts res)"
proof (induction n arbitrary: c e v0 st ts res)
  case (Suc n)
  note ctx = Suc.prems(1)
  have "yyrun act ((c, v0) # st, ts, res) = resume act e ((c, v0) # st) (read_operand n act ts res)"
    using operand_parsed [OF Suc.IH Suc.prems] by simp
  also have "\<dots> = resume act e ((c, v0) # st) (read_expr (Suc n) act ts res)"
  proof (cases "read_operand n act ts res")
    case (Halt r)
    then show ?thesis by (simp add: read_expr_Suc del: read_expr.simps)
  next
    case (Got v r us)
    have "reads_on ts us"
      by (rule operand_reads [OF _ Suc.prems(3) Got]) (rule read_expr_past)
    then have us: "tokens_ok us" "length us < Suc n" "length st + 2 + length us < YYMAXDEPTH"
      using Suc.prems(3-5) by auto
    have "yyrun act ((e, v) # (c, v0) # st, us, r) = resume act e ((c, v0) # st) (read_rest n act v r us)"
    proof -
      consider "yytoken us = T_OR" | "yytoken us = T_AND" | "yytoken us \<noteq> T_OR \<and> yytoken us \<noteq> T_AND" by blast
      then show ?thesis
      proof cases
        case 1
        then show ?thesis
          using operator_parsed [OF Suc.IH ctx 1 context_states(6) [OF ctx] _ operator_states(2) _ operator_states(9)
            context_states(7) [OF ctx] operator_ends(2) us] by (simp add: read_rest_def)
      next
        case 2
        then show ?thesis
          using operator_parsed [OF Suc.IH ctx 2 context_states(5) [OF ctx] _ operator_states(1) _ operator_states(10)
            context_states(8) [OF ctx] operator_ends(1) us] by (simp add: read_rest_def)
      next
        case 3
        then show ?thesis
          using step_undefined [OF context_states(4) [OF ctx]] us(3) by (simp add: read_rest_def)
      qed
    qed
    then show ?thesis using Got by (simp add: read_expr_Suc del: read_expr.simps)
  qed
  finally show ?case .
qed simp

section \<open>The parser on a text\<close>

lemma exprs_parsed:
  "tokens_ok ts \<Longrightarrow> length ts + 1 < n \<Longrightarrow> length ts + 3 < YYMAXDEPTH \<Longrightarrow>
    yyrun act ([(1, v), (0, v0)], ts, res) = Some (read_exprs n act v ts res)"
proof (induction n arbitrary: v ts res)
  case (Suc n)
  note ctx = operator_states(4)
  show ?case
  proof (cases "ts = []")
    case True
    have "yyrun act ([(1, v), (0, v0)], ts, res) = yyrun act ([(2, v), (1, v), (0, v0)], [], res)"
      using Suc.prems(3) context_states(1) [OF ctx] operator_states(21) True
      by (subst yyrun_step) (simp add: yystep_def waits_for_def yytoken_def yyvalue_def)
    also have "\<dots> = Some (YAccepted res)"
      by (subst yyrun_step) (simp add: yystep_def YYFINAL_def YYMAXDEPTH_def)
    finally have "yyrun act ([(1, v), (0, v0)], ts, res) = Some (YAccepted res)" .
    then show ?thesis using True by simp
  next
    case False
    have "yyrun act ((1, v) # [(0, v0)], ts, res) = resume act 35 ((1, v) # [(0, v0)]) (read_expr n act ts res)"
      by (rule expr_parsed [OF ctx]) (use False Suc.prems in simp_all)
    also have "\<dots> = Some (read_exprs (Suc n) act v ts res)"
    proof (cases "read_expr n act ts res")
      case (Got w r us)
      have past: "reads_past ts us" and us: "tokens_ok us"
        using read_expr_past [OF _ Got] Suc.prems(1) by (auto simp: reads_past_def)
      show ?thesis
      proof (cases "yytoken us = T_SEMI")
        case True
        have there: "us \<noteq> []" "take 1 us \<noteq> [TokUndefined]" using token_there [OF us] True by simp_all
        have short: "length (drop 1 us) + 1 < n" "length (drop 1 us) + 3 < YYMAXDEPTH"
          using past Suc.prems(2,3) by (auto simp: reads_past_def)
        have "yyrun act ([(35, w), (1, v), (0, v0)], us, r)
            = yyrun act ([(193, yyvalue [] us), (35, w), (1, v), (0, v0)], drop 1 us, r)"
          using step_shifts [OF context_states(4) [OF ctx], of us 193] True operator_states(16) there short by simp
        also have "\<dots> = run_eff (act 3 [v, w, yyvalue [] us] r) (\<lambda>v res. yyrun act ([(1, v), (0, v0)], drop 1 us, res))"
          using step_reduces [OF operator_states(17), of "[(35, w), (1, v)]" "[(0, v0)]"] operator_states(13,20)
          by (simp add: YYMAXDEPTH_def)
        finally show ?thesis
          using True Got False Suc.IH [OF _ short] us
          by (cases "act 3 [v, w, yyvalue [] us] r") (simp_all add: run_eff_def)
      next
        case False
        have "yyaction 35 (yytoken us) = Fail"
          using False past us by (simp add: yyaction_other yytoken_range operand_rows operator_states reads_past_def)
        then show ?thesis
          using False Got \<open>ts \<noteq> []\<close> Suc.prems(3) step_fails [OF context_states(4) [OF ctx], where stack = "[]"]
          by (simp add: read_fails_def)
      qed
    qed (use False in simp)
    finally show ?thesis .
  qed
qed simp

lemma text_parsed:
  assumes "tokens_ok ts" "length ts + 3 < YYMAXDEPTH"
  shows "yyparse act ts res = Some (read_text act ts res)"
proof -
  have "yyparse act ts res = run_eff (act 2 [replicate 256 0] res)
      (\<lambda>v res. yyrun act ([(1, v), (0, replicate 256 0)], ts, res))"
    unfolding yyparse_def
    using assms yyrun_reduce [of act 2 "[(0, replicate 256 0)]" ts res] operator_states(12,18,19)
    by (subst yyrun_step) (simp add: yystep_def reduces_by_def)
  then show ?thesis
    using exprs_parsed [OF assms(1), of "Suc (Suc (length ts))"] assms(2)
    by (cases "act 2 [replicate 256 0] res") (simp_all add: run_eff_def read_text_def del: read_exprs.simps)
qed

lemma yylex_length: "length (yylex v s) \<le> length s"
proof (induction v s rule: yylex.induct)
  case (1 v s)
  show ?case
  proof (cases "lex_best lex_rules s")
    case None
    then show ?thesis by (simp add: yylex.simps [of v s])
  next
    case (Some x)
    obtain n a where x: "x = (n, a)" by force
    have n: "0 < n" "n \<le> length s" using lex_best_pos [of lex_rules s n a] Some x by simp_all
    have skip: "a = Skip \<Longrightarrow> length (yylex v (drop n s)) \<le> length s - n"
      using 1(1) [OF Some x [symmetric]] by simp
    have tok: "a = Token f \<Longrightarrow> f (take n s) v = Some (k, w) \<Longrightarrow> \<not> k \<le> 0 \<Longrightarrow> length (yylex w (drop n s)) \<le> length s - n" for f k w
      using 1(2) [OF Some x [symmetric]] by simp
    show ?thesis
      using Some x n skip tok
      by (subst yylex.simps) (fastforce split: lex_action.split option.split)
  qed
qed

text \<open>
  C4. The generated parser implements the grammar: on the tokens of a text of at most 9996
  characters it ends, with the outcome of the reading by recursive descent, whatever the
  actions are; both operators have one rank there and group from the right.
\<close>

theorem parser_reads_grammar:
  assumes "length s \<le> 9996"
  shows "yyparse act (yylex v s) res = Some (read_text act (yylex v s) res)"
  by (rule text_parsed [OF yylex_tokens_ok]) (use assms yylex_length [of v s] in \<open>simp add: YYMAXDEPTH_def\<close>)

end
