(* ===== verification/NdExpr.thy ===== *)
theory NdExpr
  imports NdExprGrammar NdAddrType NdCategory
begin

text \<open>
  The meaning of flow expressions (\<open>src/src/nd-flow-expr.cpp\<close>): the semantic actions of the
  rules, group by group with the numbers of the generated parser, and \<open>ndFlowParser::Parse\<close>.
\<close>

section \<open>What an expression is about\<close>

text \<open>
  The members of the parser that \<open>Parse\<close> sets: the flow, and its two sides as local and other.
  The environment holds the tables of the agent and, where the build has one, the engine of
  regular expressions, which gives no answer for a pattern that it rejects.
\<close>

record flow_view =
  fp_flow :: nd_flow
  fp_local_mac :: string
  fp_other_mac :: string
  fp_local_ip :: nd_addr
  fp_other_ip :: nd_addr
  fp_local_port :: "16 word"
  fp_other_port :: "16 word"
  fp_origin :: nat

record expr_env =
  ee_ntop :: inet_ntop
  ee_pton :: inet_pton
  ee_categories :: ndcategories
  ee_risk_order :: "(nat \<times> string) list"
  ee_regex :: "(string \<Rightarrow> string \<Rightarrow> bool option) option"

definition is_addr_equal :: "inet_pton \<Rightarrow> nd_addr \<Rightarrow> string \<Rightarrow> bool" where
  "is_addr_equal pton flow_addr compr_addr =
     (let addr = ndAddr_str pton compr_addr in
      if \<not> IsValid addr \<or> \<not> IsIP addr then False
      else if IsIPv4 flow_addr \<noteq> IsIPv4 addr then False
      else if IsIPv6 flow_addr \<noteq> IsIPv6 addr then False
      else let addr = addr\<lparr>na_comparison_flags := 1\<rparr> in
      if \<not> IsNetwork addr then addr_eq addr flow_addr
      else if IsIPv4 addr then
        (case rentry_create re_load4 addr of
           None \<Rightarrow> False
         | Some entry \<Rightarrow>
             let rn = fst (rt_assign rentry_ops rt_empty entry True) in
             (case rentry_query re_load4 flow_addr of
                None \<Rightarrow> False
              | Some entry \<Rightarrow> longest_match rentry_ops rn entry \<noteq> None))
      else
        (case rentry_create re_load6 addr of
           None \<Rightarrow> False
         | Some entry \<Rightarrow>
             let rn = fst (rt_assign rentry_ops rt_empty entry True) in
             (case rentry_query re_load6 flow_addr of
                None \<Rightarrow> False
              | Some entry \<Rightarrow> longest_match rentry_ops rn entry \<noteq> None)))"

section \<open>Forms that the rules share\<close>

definition strncaseeq :: "nat \<Rightarrow> string \<Rightarrow> string \<Rightarrow> bool" where
  "strncaseeq n a b \<longleftrightarrow> map tolower (take n (cstr a)) = map tolower (take n (cstr b))"

text \<open>The value of a rule is written over that of its first symbol, and the result is set to it.\<close>

definition verdict :: "bytes list \<Rightarrow> bool \<Rightarrow> yyeffect" where
  "verdict vs b = EDone (put_bool b (hd vs)) b"

text \<open>A number alone, with \<open>!\<close>, and against a constant by the six comparisons in the order of the rules.\<close>

definition num_forms :: "nat \<Rightarrow> nat \<Rightarrow> bytes list \<Rightarrow> yyeffect" where
  "num_forms k x vs =
     (let n = get_ul (last vs) in
      verdict vs ([x \<noteq> 0, x = 0, x = n, x \<noteq> n, n \<le> x, x \<le> n, n < x, x < n] ! k))"

text \<open>A flag alone, with \<open>!\<close>, equal to true and to false, and not equal to them.\<close>

definition bool_forms :: "nat \<Rightarrow> bool \<Rightarrow> bytes list \<Rightarrow> yyeffect" where
  "bool_forms k x vs = verdict vs ([x, \<not> x, x = True, x = False, x \<noteq> True, x \<noteq> False] ! k)"

text \<open>A text argument without its end is read past the union, which is undefined.\<close>

definition with_arg :: "bytes list \<Rightarrow> (string \<Rightarrow> yyeffect) \<Rightarrow> yyeffect" where
  "with_arg vs k = (case get_text (last vs) of None \<Rightarrow> EUndefined | Some s \<Rightarrow> k s)"

definition unquoted :: "string \<Rightarrow> string" where
  "unquoted s = filter (\<lambda>c. c \<noteq> CHR 0x27) s"

section \<open>The actions\<close>

text \<open>Copies of the first value, the operators and the parentheses.\<close>

definition act_expr :: "nat \<Rightarrow> bytes list \<Rightarrow> yyeffect" where
  "act_expr r vs =
     verdict vs
       (if r = 34 then get_bool (vs ! 0) \<or> get_bool (vs ! 2)
        else if r = 35 then get_bool (vs ! 0) \<and> get_bool (vs ! 2)
        else get_bool (vs ! 1))"

definition act_ip_proto :: "nd_flow \<Rightarrow> nat \<Rightarrow> bytes list \<Rightarrow> yyeffect" where
  "act_ip_proto f r vs = num_forms (r - 37) (unat (fl_ip_protocol f)) vs"

definition act_ip_version :: "nd_flow \<Rightarrow> nat \<Rightarrow> bytes list \<Rightarrow> yyeffect" where
  "act_ip_version f r vs =
     (let n = get_ul (last vs); x = unat (fl_ip_version f) in verdict vs (if r = 45 then x = n else x \<noteq> n))"

definition act_ip_nat :: "nd_flow \<Rightarrow> nat \<Rightarrow> bytes list \<Rightarrow> yyeffect" where
  "act_ip_nat f r vs = bool_forms (r - 47) (ff_ip_nat (fl_flags f)) vs"

definition act_vlan_id :: "nd_flow \<Rightarrow> nat \<Rightarrow> bytes list \<Rightarrow> yyeffect" where
  "act_vlan_id f r vs = num_forms (r - 53) (unat (fl_vlan_id f)) vs"

definition other_types :: "other_type list" where
  "other_types = [OTHER_UNKNOWN, OTHER_UNSUPPORTED, OTHER_LOCAL, OTHER_MULTICAST, OTHER_BROADCAST, OTHER_REMOTE, OTHER_ERROR]"

text \<open>The constants of \<open>nd-flow-parser.hpp\<close> are the positions of the types; another number equals none and differs from none.\<close>

definition act_other_type :: "nd_flow \<Rightarrow> nat \<Rightarrow> bytes list \<Rightarrow> yyeffect" where
  "act_other_type f r vs =
     (let n = get_us (last vs); t = fl_other_type f in
      verdict vs
        (if r = 61 then t \<noteq> OTHER_UNKNOWN
         else if r = 62 then t = OTHER_UNKNOWN
         else n < length other_types \<and> (if r = 63 then t = other_types ! n else t \<noteq> other_types ! n)))"

definition act_value_us :: "bytes list \<Rightarrow> bool \<Rightarrow> yyeffect" where
  "act_value_us vs res = EDone (put_us (get_us (hd vs)) (hd vs)) res"

definition act_value_addr_ip :: "bytes list \<Rightarrow> bool \<Rightarrow> yyeffect" where
  "act_value_addr_ip vs res = EDone (take 256 (takeWhile (\<lambda>b. b \<noteq> 0) (hd vs) @ replicate 256 0)) res"

text \<open>\<open>ND_STR_ETHALEN\<close> characters are compared, so the text of the token is not read past them.\<close>

definition act_mac :: "string \<Rightarrow> bool \<Rightarrow> bytes list \<Rightarrow> yyeffect" where
  "act_mac mac equal vs =
     (let t = map (\<lambda>b. char_of (unat b)) (takeWhile (\<lambda>b. b \<noteq> 0) (last vs)) in
      verdict vs (if equal then strncaseeq 17 mac t else \<not> strncaseeq 17 mac t))"

definition act_ip :: "inet_pton \<Rightarrow> nd_addr \<Rightarrow> bool \<Rightarrow> bytes list \<Rightarrow> yyeffect" where
  "act_ip pton ip equal vs = with_arg vs (\<lambda>t. verdict vs (is_addr_equal pton ip t = equal))"

definition act_local_port :: "flow_view \<Rightarrow> nat \<Rightarrow> bytes list \<Rightarrow> yyeffect" where
  "act_local_port v r vs = num_forms (r - 84) (unat (fp_local_port v)) vs"

definition act_other_port :: "flow_view \<Rightarrow> nat \<Rightarrow> bytes list \<Rightarrow> yyeffect" where
  "act_other_port v r vs = num_forms (r - 92) (unat (fp_other_port v)) vs"

text \<open>The rules with an operator compare the other type of the flow with the number of the tunnel type.\<close>

definition act_tunnel_type :: "nd_flow \<Rightarrow> nat \<Rightarrow> bytes list \<Rightarrow> yyeffect" where
  "act_tunnel_type f r vs =
     (let n = get_us (last vs); t = fl_other_type f in
      verdict vs
        (if r = 100 then fl_tunnel_type f \<noteq> TUNNEL_NONE
         else if r = 101 then fl_tunnel_type f = TUNNEL_NONE
         else n < 2 \<and> (if r = 102 then t = other_types ! n else t \<noteq> other_types ! n)))"

definition act_guessed :: "nd_flow \<Rightarrow> nat \<Rightarrow> bytes list \<Rightarrow> yyeffect" where
  "act_guessed f r vs = bool_forms (r - 106) (ff_detection_guessed (fl_flags f)) vs"

definition act_updated :: "nd_flow \<Rightarrow> nat \<Rightarrow> bytes list \<Rightarrow> yyeffect" where
  "act_updated f r vs = bool_forms (r - 112) (ff_detection_updated (fl_flags f)) vs"

definition act_app :: "nd_flow \<Rightarrow> nat \<Rightarrow> bytes list \<Rightarrow> yyeffect" where
  "act_app f r vs =
     verdict vs (if r = 118 then fl_detected_application f \<noteq> 0 else fl_detected_application f = 0)"

definition act_app_id :: "nd_flow \<Rightarrow> nat \<Rightarrow> bytes list \<Rightarrow> yyeffect" where
  "act_app_id f r vs =
     (let same = (get_ul (last vs) = fl_detected_application f) in verdict vs (if r = 122 then same else \<not> same))"

text \<open>The name of an application, or what follows its first dot; a flow without a name has none of them.\<close>

definition app_name_is :: "string \<Rightarrow> string \<Rightarrow> bool" where
  "app_name_is app search \<longleftrightarrow> strncaseeq 256 app search
     \<or> (case find_first (\<lambda>c. c = CHR ''.'') app of
          None \<Rightarrow> False
        | Some p \<Rightarrow> strncaseeq 256 (drop (p + 1) app) search)"

definition act_app_name :: "nd_flow \<Rightarrow> nat \<Rightarrow> bytes list \<Rightarrow> yyeffect" where
  "act_app_name f r vs =
     (let app = fl_detected_application_name f in
      if app = [] then verdict vs (r = 125)
      else with_arg vs (\<lambda>t. let same = app_name_is app (unquoted t) in verdict vs (if r = 124 then same else \<not> same)))"

definition act_category :: "ndcategories \<Rightarrow> nd_flow \<Rightarrow> nat \<Rightarrow> bytes list \<Rightarrow> yyeffect" where
  "act_category cs f r vs = with_arg vs (\<lambda>t.
     let cat = LookupTag cs TYPE_APP (unquoted t); c = fl_category f in
     verdict vs
       (if r = 126 then cat = fc_application c \<or> cat = fc_domain c \<or> cat = fc_network c
        else cat \<noteq> fc_application c \<or> cat \<noteq> fc_domain c \<or> cat \<noteq> fc_network c))"

text \<open>The rules with an operator set the result alone: their value stays that of the first symbol.\<close>

definition act_risks :: "(nat \<times> string) list \<Rightarrow> nd_flow \<Rightarrow> nat \<Rightarrow> bytes list \<Rightarrow> yyeffect" where
  "act_risks order f r vs =
     (if r = 128 then verdict vs (fl_risks f \<noteq> [])
      else if r = 129 then verdict vs (fl_risks f = [])
      else with_arg vs (\<lambda>t.
        let found = nd_risk_lookup order (unquoted t) \<in> set (fl_risks f) in
        EDone (hd vs) (if r = 130 then found else \<not> found)))"

definition act_risk_score :: "nd_flow \<Rightarrow> nat \<Rightarrow> bytes list \<Rightarrow> yyeffect" where
  "act_risk_score f r vs = num_forms (r - 132) (unat (fl_risk_score f)) vs"

definition act_risk_score_client :: "nd_flow \<Rightarrow> nat \<Rightarrow> bytes list \<Rightarrow> yyeffect" where
  "act_risk_score_client f r vs = num_forms (r - 140) (unat (fl_risk_score_client f)) vs"

definition act_risk_score_server :: "nd_flow \<Rightarrow> nat \<Rightarrow> bytes list \<Rightarrow> yyeffect" where
  "act_risk_score_server f r vs = num_forms (r - 148) (unat (fl_risk_score_server f)) vs"

text \<open>The categories of domains and networks are looked up among those of applications, too.\<close>

definition act_one_category :: "ndcategories \<Rightarrow> cat_type \<Rightarrow> nat \<Rightarrow> bool \<Rightarrow> bytes list \<Rightarrow> yyeffect" where
  "act_one_category cs type cat equal vs =
     with_arg vs (\<lambda>t. verdict vs ((LookupTag cs type (unquoted t) = cat) = equal))"

definition act_app_category :: "ndcategories \<Rightarrow> nd_flow \<Rightarrow> nat \<Rightarrow> bytes list \<Rightarrow> yyeffect" where
  "act_app_category cs f r vs = act_one_category cs TYPE_APP (fc_application (fl_category f)) (r = 156) vs"

definition act_domain_category :: "ndcategories \<Rightarrow> nd_flow \<Rightarrow> nat \<Rightarrow> bytes list \<Rightarrow> yyeffect" where
  "act_domain_category cs f r vs = act_one_category cs TYPE_APP (fc_domain (fl_category f)) (r = 158) vs"

definition act_network_category :: "ndcategories \<Rightarrow> nd_flow \<Rightarrow> nat \<Rightarrow> bytes list \<Rightarrow> yyeffect" where
  "act_network_category cs f r vs = act_one_category cs TYPE_APP (fc_network (fl_category f)) (r = 160) vs"

definition act_proto :: "nd_flow \<Rightarrow> nat \<Rightarrow> bytes list \<Rightarrow> yyeffect" where
  "act_proto f r vs =
     verdict vs (if r = 162 then fl_detected_protocol f \<noteq> 0 else fl_detected_protocol f = 0)"

definition act_proto_id :: "nd_flow \<Rightarrow> nat \<Rightarrow> bytes list \<Rightarrow> yyeffect" where
  "act_proto_id f r vs =
     (let same = (fl_detected_protocol f = get_ul (last vs)) in verdict vs (if r = 166 then same else \<not> same))"

definition act_proto_name :: "nd_flow \<Rightarrow> nat \<Rightarrow> bytes list \<Rightarrow> yyeffect" where
  "act_proto_name f r vs =
     (let name = fl_detected_protocol_name f in
      if name = [] then verdict vs (r = 169)
      else with_arg vs (\<lambda>t.
        let same = strncaseeq 256 name (unquoted t) in verdict vs (if r = 168 then same else \<not> same)))"

definition act_proto_category :: "ndcategories \<Rightarrow> nd_flow \<Rightarrow> nat \<Rightarrow> bytes list \<Rightarrow> yyeffect" where
  "act_proto_category cs f r vs = act_one_category cs TYPE_PROTO (fc_protocol (fl_category f)) (r = 170) vs"

text \<open>
  The loop that cuts the text up to its colon erases nothing once the colon is first, so it
  goes on for ever on a text with one.
\<close>

definition act_hostname :: "(string \<Rightarrow> string \<Rightarrow> bool option) option \<Rightarrow> nd_flow \<Rightarrow> nat \<Rightarrow> bytes list \<Rightarrow> yyeffect" where
  "act_hostname regex f r vs =
     (let host = cstr (fl_host_server_name f) in
      if r = 172 then verdict vs (host \<noteq> [])
      else if r = 173 then verdict vs (host = [])
      else if r = 174 \<or> r = 175 then
        (if host = [] then verdict vs (r = 175)
         else with_arg vs (\<lambda>t.
           let same = strncaseeq 256 (unquoted t) host in verdict vs (if r = 174 then same else \<not> same)))
      else if r = 176 then
        (case regex of
           None \<Rightarrow> verdict vs False
         | Some eng \<Rightarrow>
             if host = [] then verdict vs False
             else with_arg vs (\<lambda>t.
               if CHR '':'' \<in> set (unquoted t) then ELoops
               else verdict vs (case eng (unquoted t) host of None \<Rightarrow> False | Some b \<Rightarrow> b)))
      else verdict vs True)"

text \<open>The mark of a connection is not part of this build.\<close>

definition act_fwmark :: "bytes list \<Rightarrow> yyeffect" where
  "act_fwmark vs = verdict vs False"

definition act_ssl_version :: "nd_flow \<Rightarrow> nat \<Rightarrow> bytes list \<Rightarrow> yyeffect" where
  "act_ssl_version f r vs = num_forms (r - 186) (ssl_version (fl_union f)) vs"

definition act_ssl_cipher :: "nd_flow \<Rightarrow> nat \<Rightarrow> bytes list \<Rightarrow> yyeffect" where
  "act_ssl_cipher f r vs = num_forms (r - 194) (ssl_cipher_suite (fl_union f)) vs"

definition act_origin :: "flow_view \<Rightarrow> nat \<Rightarrow> bytes list \<Rightarrow> yyeffect" where
  "act_origin v r vs =
     (let n = get_us (last vs); side = fp_origin v in
      verdict vs (if r = 202 then side \<noteq> 0 else if r = 203 then side = 0 else if r = 204 then side = n else side \<noteq> n))"

text \<open>The switch on the rule; the rules without an action keep the value of their first symbol.\<close>

definition flow_action :: "expr_env \<Rightarrow> flow_view \<Rightarrow> yyactions" where
  "flow_action E v r vs res =
     (let f = fp_flow v; cs = ee_categories E; pton = ee_pton E; within = (\<lambda>a b. a \<le> r \<and> r \<le> b) in
      if within 34 36 then act_expr r vs
      else if within 37 44 then act_ip_proto f r vs
      else if within 45 46 then act_ip_version f r vs
      else if within 47 52 then act_ip_nat f r vs
      else if within 53 60 then act_vlan_id f r vs
      else if within 61 64 then act_other_type f r vs
      else if within 65 71 \<or> within 104 105 \<or> within 206 208 then act_value_us vs res
      else if within 72 73 then act_mac (fp_local_mac v) (r = 72) vs
      else if within 74 75 then act_mac (fp_other_mac v) (r = 74) vs
      else if within 76 77 then act_ip pton (fp_local_ip v) (r = 76) vs
      else if within 78 79 then act_ip pton (fp_other_ip v) (r = 78) vs
      else if within 80 83 then act_value_addr_ip vs res
      else if within 84 91 then act_local_port v r vs
      else if within 92 99 then act_other_port v r vs
      else if within 100 103 then act_tunnel_type f r vs
      else if within 106 111 then act_guessed f r vs
      else if within 112 117 then act_updated f r vs
      else if within 118 119 then act_app f r vs
      else if within 122 123 then act_app_id f r vs
      else if within 124 125 then act_app_name f r vs
      else if within 126 127 then act_category cs f r vs
      else if within 128 131 then act_risks (ee_risk_order E) f r vs
      else if within 132 139 then act_risk_score f r vs
      else if within 140 147 then act_risk_score_client f r vs
      else if within 148 155 then act_risk_score_server f r vs
      else if within 156 157 then act_app_category cs f r vs
      else if within 158 159 then act_domain_category cs f r vs
      else if within 160 161 then act_network_category cs f r vs
      else if within 162 163 then act_proto f r vs
      else if within 166 167 then act_proto_id f r vs
      else if within 168 169 then act_proto_name f r vs
      else if within 170 171 then act_proto_category cs f r vs
      else if within 172 177 then act_hostname (ee_regex E) f r vs
      else if within 178 185 then act_fwmark vs
      else if within 186 193 then act_ssl_version f r vs
      else if within 194 201 then act_ssl_cipher f r vs
      else if within 202 205 then act_origin v r vs
      else EDone (hd vs) res)"

section \<open>Parse\<close>

text \<open>
  The texts of the hardware addresses are those that \<open>GetString\<close> gives; the flow keeps them.
  A flow whose sides are not known matches nothing.
\<close>

definition local_origin :: "lower_map \<Rightarrow> flow_origin \<Rightarrow> nat" where
  "local_origin m side =
     (case side of
        ORIGIN_LOWER \<Rightarrow> (if m = LOWER_LOCAL then 1 else 2)
      | ORIGIN_UPPER \<Rightarrow> (if m = LOWER_LOCAL then 2 else 1)
      | ORIGIN_UNKNOWN \<Rightarrow> 0)"

definition flow_sides :: "inet_ntop \<Rightarrow> nd_flow \<Rightarrow> flow_view" where
  "flow_sides ntop f =
     (let lower_mac = GetString ntop (fl_lower_mac f) 0; upper_mac = GetString ntop (fl_upper_mac f) 0;
          g = f\<lparr>fl_lower_mac := snd lower_mac, fl_upper_mac := snd upper_mac\<rparr>;
          lower_port = GetPort (fl_lower_addr f) True; upper_port = GetPort (fl_upper_addr f) True;
          origin = local_origin (fl_lower_map f) (fl_origin f) in
      if fl_lower_map f = LOWER_LOCAL then
        \<lparr>fp_flow = g, fp_local_mac = fst lower_mac, fp_other_mac = fst upper_mac,
         fp_local_ip = fl_lower_addr f, fp_other_ip = fl_upper_addr f,
         fp_local_port = lower_port, fp_other_port = upper_port, fp_origin = origin\<rparr>
      else
        \<lparr>fp_flow = g, fp_local_mac = fst upper_mac, fp_other_mac = fst lower_mac,
         fp_local_ip = fl_upper_addr f, fp_other_ip = fl_lower_addr f,
         fp_local_port = upper_port, fp_other_port = lower_port, fp_origin = origin\<rparr>)"

text \<open>The result, that of \<open>yyparse\<close> or false, with the flow after the call.\<close>

definition flow_Parse :: "expr_env \<Rightarrow> nd_flow \<Rightarrow> string \<Rightarrow> (yyresult \<times> nd_flow) option" where
  "flow_Parse E f expr =
     (if fl_lower_map f = LOWER_UNKNOWN then Some (YAccepted False, f)
      else let v = flow_sides (ee_ntop E) f in
        map_option (\<lambda>r. (r, fp_flow v)) (yyparse (flow_action E v) (yylex (replicate 256 0) expr) False))"

end
