(* ===== verification/NdExprProps.thy ===== *)
theory NdExprProps
  imports NdExpr
begin

text \<open>
  What flow expressions mean: the truth of an expression, the side of a flow, the addresses that
  an address criterion takes, and when the evaluation ends.
\<close>

lemmas act_defs = act_expr_def act_ip_proto_def act_ip_version_def act_ip_nat_def act_vlan_id_def act_other_type_def
  act_value_us_def act_value_addr_ip_def act_mac_def act_ip_def act_local_port_def act_other_port_def
  act_tunnel_type_def act_guessed_def act_updated_def act_app_def act_app_id_def act_app_name_def act_category_def
  act_risks_def act_risk_score_def act_risk_score_client_def act_risk_score_server_def act_one_category_def
  act_app_category_def act_domain_category_def act_network_category_def act_proto_def act_proto_id_def
  act_proto_name_def act_proto_category_def act_hostname_def act_fwmark_def act_ssl_version_def act_ssl_cipher_def
  act_origin_def

section \<open>The sides of a flow\<close>

definition flip_sides :: "nd_flow \<Rightarrow> nd_flow" where
  "flip_sides f = (swap_sides f)\<lparr>fl_lower_map := lower_flip (fl_lower_map f)\<rparr>"

text \<open>The actions look at nothing of the flow that depends on which side is the lower one.\<close>

definition same_apart_sides :: "nd_flow \<Rightarrow> nd_flow \<Rightarrow> bool" where
  "same_apart_sides f g \<longleftrightarrow> (\<exists>lm um la ua lt ut org m. g = f\<lparr>fl_lower_mac := lm, fl_upper_mac := um, fl_lower_addr := la,
     fl_upper_addr := ua, fl_lower_type := lt, fl_upper_type := ut, fl_origin := org, fl_lower_map := m\<rparr>)"

lemma kept_fields:
  assumes "same_apart_sides f g"
  shows "fl_ip_protocol g = fl_ip_protocol f" "fl_ip_version g = fl_ip_version f" "fl_flags g = fl_flags f"
    "fl_vlan_id g = fl_vlan_id f" "fl_other_type g = fl_other_type f" "fl_tunnel_type g = fl_tunnel_type f"
    "fl_detected_application g = fl_detected_application f" "fl_detected_protocol g = fl_detected_protocol f"
    "fl_detected_application_name g = fl_detected_application_name f"
    "fl_detected_protocol_name g = fl_detected_protocol_name f" "fl_category g = fl_category f" "fl_risks g = fl_risks f"
    "fl_risk_score g = fl_risk_score f" "fl_risk_score_client g = fl_risk_score_client f"
    "fl_risk_score_server g = fl_risk_score_server f" "fl_host_server_name g = fl_host_server_name f"
    "fl_union g = fl_union f"
  using assms by (auto simp: same_apart_sides_def)

lemma act_sides:
  assumes "same_apart_sides f g"
  shows "act_ip_proto g = act_ip_proto f" "act_ip_version g = act_ip_version f" "act_ip_nat g = act_ip_nat f"
    "act_vlan_id g = act_vlan_id f" "act_other_type g = act_other_type f" "act_tunnel_type g = act_tunnel_type f"
    "act_guessed g = act_guessed f" "act_updated g = act_updated f" "act_app g = act_app f" "act_app_id g = act_app_id f"
    "act_app_name g = act_app_name f" "act_category cs g = act_category cs f" "act_risks order g = act_risks order f"
    "act_risk_score g = act_risk_score f" "act_risk_score_client g = act_risk_score_client f"
    "act_risk_score_server g = act_risk_score_server f" "act_app_category cs g = act_app_category cs f"
    "act_domain_category cs g = act_domain_category cs f" "act_network_category cs g = act_network_category cs f"
    "act_proto g = act_proto f" "act_proto_id g = act_proto_id f" "act_proto_name g = act_proto_name f"
    "act_proto_category cs g = act_proto_category cs f" "act_hostname regex g = act_hostname regex f"
    "act_ssl_version g = act_ssl_version f" "act_ssl_cipher g = act_ssl_cipher f"
  by (simp_all only: fun_eq_iff act_defs kept_fields [OF assms] simp_thms)

lemma flow_action_sides:
  assumes flow: "same_apart_sides (fp_flow v) (fp_flow w)"
    and sides: "fp_local_mac w = fp_local_mac v" "fp_other_mac w = fp_other_mac v"
    "fp_local_ip w = fp_local_ip v" "fp_other_ip w = fp_other_ip v"
    "fp_local_port w = fp_local_port v" "fp_other_port w = fp_other_port v" "fp_origin w = fp_origin v"
  shows "flow_action E v = flow_action E w"
proof -
  have view: "act_local_port w = act_local_port v" "act_other_port w = act_other_port v" "act_origin w = act_origin v"
    by (simp_all add: fun_eq_iff act_defs sides)
  show ?thesis
    unfolding flow_action_def [abs_def] Let_def act_sides [OF flow] sides view ..
qed

lemma flip_sides_view:
  assumes "fl_lower_map f \<noteq> LOWER_UNKNOWN"
  shows "flow_action E (flow_sides ntop (flip_sides f)) = flow_action E (flow_sides ntop f)"
proof -
  have "same_apart_sides (fp_flow (flow_sides ntop (flip_sides f))) (fp_flow (flow_sides ntop f))"
    unfolding same_apart_sides_def
    by (rule exI [of _ "snd (GetString ntop (fl_lower_mac f) 0)"], rule exI [of _ "snd (GetString ntop (fl_upper_mac f) 0)"],
        rule exI [of _ "fl_lower_addr f"], rule exI [of _ "fl_upper_addr f"], rule exI [of _ "fl_lower_type f"],
        rule exI [of _ "fl_upper_type f"], rule exI [of _ "fl_origin f"], rule exI [of _ "fl_lower_map f"])
      (simp add: flow_sides_def flip_sides_def swap_sides_def Let_def)
  then show ?thesis
    using assms
    by (intro flow_action_sides; cases "fl_lower_map f"; cases "fl_origin f")
      (simp_all add: flow_sides_def flip_sides_def swap_sides_def local_origin_def Let_def)
qed

text \<open>
  C11. An expression speaks of the local and the other side of a flow, whichever of its sides is
  the lower one: a flow with its two sides exchanged in every member has the same result, error
  or verdict, for every text.
\<close>

theorem Parse_ignores_lower:
  "map_option fst (flow_Parse E (flip_sides f) expr) = map_option fst (flow_Parse E f expr)"
proof (cases "fl_lower_map f = LOWER_UNKNOWN")
  case True
  then show ?thesis by (simp add: flow_Parse_def flip_sides_def)
next
  case False
  then have "fl_lower_map (flip_sides f) \<noteq> LOWER_UNKNOWN" by (cases "fl_lower_map f") (simp_all add: flip_sides_def)
  then show ?thesis
    using False by (simp add: flow_Parse_def flip_sides_view Let_def map_option.compositionality comp_def)
qed

section \<open>The end of an evaluation\<close>

text \<open>An action loops only on a regular expression, and only when the flow has a host name.\<close>

lemma verdict_ends [simp]: "verdict vs b \<noteq> ELoops"
  by (simp add: verdict_def)

lemma forms_end [simp]: "num_forms k x vs \<noteq> ELoops" "bool_forms k b vs \<noteq> ELoops"
  by (simp_all add: num_forms_def bool_forms_def Let_def)

lemma with_arg_ends: "(\<And>t. k t \<noteq> ELoops) \<Longrightarrow> with_arg vs k \<noteq> ELoops"
  by (simp add: with_arg_def split: option.split)

lemma act_hostname_ends: "regex = None \<or> cstr (fl_host_server_name f) = [] \<Longrightarrow> act_hostname regex f r vs \<noteq> ELoops"
  by (auto simp: act_hostname_def Let_def with_arg_ends split: option.split)

lemma flow_action_ends:
  assumes "ee_regex E = None \<or> cstr (fl_host_server_name (fp_flow v)) = []"
  shows "flow_action E v r vs res \<noteq> ELoops"
proof -
  note host = act_hostname_ends [OF assms]
  show ?thesis
    unfolding flow_action_def act_expr_def act_ip_proto_def act_ip_version_def act_ip_nat_def act_vlan_id_def
      act_other_type_def act_value_us_def act_value_addr_ip_def act_mac_def act_ip_def act_local_port_def
      act_other_port_def act_tunnel_type_def act_guessed_def act_updated_def act_app_def act_app_id_def
      act_app_name_def act_category_def act_risks_def act_risk_score_def act_risk_score_client_def
      act_risk_score_server_def act_one_category_def act_app_category_def act_domain_category_def
      act_network_category_def act_proto_def act_proto_id_def act_proto_name_def act_proto_category_def
      act_fwmark_def act_ssl_version_def act_ssl_cipher_def act_origin_def Let_def
    by (simp add: with_arg_ends host)
qed

text \<open>An outcome that the actions do not have, and that is no error of the reading, is not met.\<close>

definition avoids :: "yyresult \<Rightarrow> yyread \<Rightarrow> bool" where
  "avoids r x \<longleftrightarrow> x \<noteq> Halt r"

definition avoided_by :: "yyresult \<Rightarrow> yyactions \<Rightarrow> bool" where
  "avoided_by r act \<longleftrightarrow> r \<noteq> YUndefined \<and> r \<noteq> YThrown ''syntax error''
     \<and> (r = YLoops \<longrightarrow> (\<forall>u vs res. act u vs res \<noteq> ELoops))"

lemma avoids_Got [simp]: "avoids r (Got v res ts)"
  by (simp add: avoids_def)

lemma avoids_eff: "avoided_by r act \<Longrightarrow> (\<And>v res. avoids r (k v res)) \<Longrightarrow> avoids r (eff_bind (act u vs res) k)"
  by (cases "act u vs res") (auto simp: avoids_def avoided_by_def)

lemma avoids_bind: "avoids r x \<Longrightarrow> (\<And>v res ts. avoids r (k v res ts)) \<Longrightarrow> avoids r (read_bind x k)"
  by (cases x) (auto simp: avoids_def)

lemma avoids_fails: "avoided_by r act \<Longrightarrow> avoids r (read_fails ts)" "avoided_by r act \<Longrightarrow> avoids r (Halt YUndefined)"
  by (auto simp: avoids_def avoided_by_def read_fails_def)

lemma reading_avoids:
  assumes act: "avoided_by r act"
  shows "avoids r (read_criterion act ts res)" "avoids r (read_expr n act ts res)"
proof -
  note fails = avoids_fails [OF act] and eff = avoids_eff [OF act]
  have units: "avoids r (run_units act us v res ts)" for us v res ts
    by (induction us arbitrary: v res) (auto intro!: eff)
  have crit: "avoids r (run_criterion act x vs res ts)" for x vs res ts
    by (cases x) (auto simp: run_criterion_def intro!: eff units split: option.split)
  have third: "avoids r (read_third act thirds a b ts res)" for thirds a b ts res
    by (auto simp: read_third_def crit fails split: option.split)
  have second: "avoids r (read_second act alone seconds a ts res)" for alone seconds a ts res
    by (auto simp: read_second_def crit third fails split: option.split)
  show criterion: "avoids r (read_criterion act ts res)" for ts res
    by (auto simp: read_criterion_def second fails split: option.split)
  show "avoids r (read_expr n act ts res)"
    by (induction n arbitrary: ts res) (auto intro!: avoids_bind eff criterion fails)
qed

lemma read_exprs_ends:
  assumes act: "avoided_by YLoops act"
  shows "read_exprs n act v ts res \<noteq> YLoops"
proof (induction n arbitrary: v ts res)
  case (Suc n)
  have "avoids YLoops (read_bind (read_expr n act ts res) (\<lambda>w res us.
      if yytoken us = T_SEMI then eff_bind (act 3 [v, w, yyvalue [] us] res) (\<lambda>v res. Got v res (drop 1 us))
      else read_fails us))"
    by (auto intro!: avoids_bind avoids_eff act reading_avoids avoids_fails(1) [OF act])
  then show ?case using Suc by (auto simp: avoids_def split: yyread.split)
qed simp

lemma flow_sides_host: "fl_host_server_name (fp_flow (flow_sides ntop f)) = fl_host_server_name f"
  by (simp add: flow_sides_def Let_def)




section \<open>The truth of an expression\<close>

text \<open>The rules that copy, those of the constants, and the tests.\<close>

definition unit_rules :: "nat list" where
  "unit_rules =
    [4, 5, 6, 7, 8, 9, 10, 11, 12, 13, 14, 15, 16, 17, 18, 19, 20, 21, 22, 23, 24, 25, 26, 27, 28, 29, 30,
     31, 32, 33, 120, 121, 164, 165]"

definition value_rules_of :: "nat list" where
  "value_rules_of = [65, 66, 67, 68, 69, 70, 71, 80, 81, 82, 83, 104, 105, 206, 207, 208]"

definition test_rules :: "nat list" where
  "test_rules =
    [37, 38, 39, 40, 41, 42, 43, 44, 45, 46, 47, 48, 49, 50, 51, 52, 53, 54, 55, 56, 57, 58, 59, 60, 61, 62,
     63, 64, 72, 73, 74, 75, 76, 77, 78, 79, 84, 85, 86, 87, 88, 89, 90, 91, 92, 93, 94, 95, 96, 97, 98, 99,
     100, 101, 102, 103, 106, 107, 108, 109, 110, 111, 112, 113, 114, 115, 116, 117, 118, 119, 122, 123, 124,
     125, 126, 127, 128, 129, 130, 131, 132, 133, 134, 135, 136, 137, 138, 139, 140, 141, 142, 143, 144, 145,
     146, 147, 148, 149, 150, 151, 152, 153, 154, 155, 156, 157, 158, 159, 160, 161, 162, 163, 166, 167, 168,
     169, 170, 171, 172, 173, 174, 175, 176, 177, 178, 179, 180, 181, 182, 183, 184, 185, 186, 187, 188, 189,
     190, 191, 192, 193, 194, 195, 196, 197, 198, 199, 200, 201, 202, 203, 204, 205]"

fun criterion_rules :: "criterion \<Rightarrow> bool" where
  "criterion_rules (vr, r, us) \<longleftrightarrow> r \<in> set test_rules \<and> set us \<subseteq> set unit_rules
     \<and> (case vr of None \<Rightarrow> True | Some w \<Rightarrow> w \<in> set value_rules_of)"

lemma criteria_rules: "list_all criterion_rules all_criteria"
  by (simp add: all_criteria_def entry_criteria_def criteria_def test_rules_def unit_rules_def value_rules_of_def)

lemma get_put_bool [simp]: "get_bool (put_bool b v) = b"
  by (simp add: get_bool_def put_bool_def)

text \<open>The effect of a test does not depend on the result before it, and its value is the result after it.\<close>

definition judged :: "yyeffect \<Rightarrow> bool" where
  "judged x \<longleftrightarrow> (case x of EDone w b \<Rightarrow> b = get_bool w | _ \<Rightarrow> True)"

lemma judged_forms [simp]: "judged (verdict vs b)" "judged (num_forms k x vs)" "judged (bool_forms k b vs)" "judged ELoops"
  by (simp_all add: judged_def verdict_def num_forms_def bool_forms_def Let_def)

lemma judged_arg: "(\<And>t. judged (k t)) \<Longrightarrow> judged (with_arg vs k)"
  by (simp add: with_arg_def judged_def split: option.split)

lemma unit_keeps_all: "list_all (\<lambda>u. flow_action E v u vs res = EDone (hd vs) res) unit_rules"
  unfolding unit_rules_def list.pred_inject by (simp add: flow_action_def)

lemma value_keeps_all: "list_all (\<lambda>w. \<exists>y. \<forall>res. flow_action E v w vs res = EDone y res) value_rules_of"
  unfolding value_rules_of_def list.pred_inject by (simp add: flow_action_def act_value_us_def act_value_addr_ip_def)

lemma test_forgets_all: "list_all (\<lambda>r. flow_action E v r vs res = flow_action E v r vs res') test_rules"
  unfolding test_rules_def list.pred_inject by (simp add: flow_action_def)


lemma acts_judged [simp]:
  "judged (act_expr r vs)" "judged (act_ip_proto f r vs)" "judged (act_ip_version f r vs)" "judged (act_ip_nat f r vs)"
  "judged (act_vlan_id f r vs)" "judged (act_other_type f r vs)" "judged (act_mac mac e vs)" "judged (act_ip pton ip e vs)"
  "judged (act_local_port v r vs)" "judged (act_other_port v r vs)" "judged (act_tunnel_type f r vs)"
  "judged (act_guessed f r vs)" "judged (act_updated f r vs)" "judged (act_app f r vs)" "judged (act_app_id f r vs)"
  "judged (act_app_name f r vs)" "judged (act_category cs f r vs)" "judged (act_risk_score f r vs)"
  "judged (act_risk_score_client f r vs)" "judged (act_risk_score_server f r vs)" "judged (act_app_category cs f r vs)"
  "judged (act_domain_category cs f r vs)" "judged (act_network_category cs f r vs)" "judged (act_proto f r vs)"
  "judged (act_proto_id f r vs)" "judged (act_proto_name f r vs)" "judged (act_proto_category cs f r vs)"
  "judged (act_hostname regex f r vs)" "judged (act_fwmark vs)" "judged (act_ssl_version f r vs)"
  "judged (act_ssl_cipher f r vs)" "judged (act_origin v r vs)"
  by (simp_all add: act_defs Let_def judged_arg split: option.split)

lemma test_judged_all: "list_all (\<lambda>r. r \<in> {130, 131} \<or> judged (flow_action E v r vs res)) test_rules"
  unfolding test_rules_def list.pred_inject by (simp add: flow_action_def act_risks_def)

lemmas unit_keeps = bspec [OF unit_keeps_all [unfolded list_all_iff]]
lemmas value_keeps = bspec [OF value_keeps_all [unfolded list_all_iff]]
lemmas test_forgets = bspec [OF test_forgets_all [unfolded list_all_iff]]
lemmas test_judged = bspec [OF test_judged_all [unfolded list_all_iff]]

definition plain :: "criterion \<Rightarrow> bool" where
  "plain x \<longleftrightarrow> criterion_rules x \<and> fst (snd x) \<notin> {130, 131}"

lemma units_keep: "set us \<subseteq> set unit_rules \<Longrightarrow> run_units (flow_action E v) us w res ts = Got w res ts"
  by (induction us) (simp_all add: unit_keeps)

text \<open>A criterion gives one verdict, whatever the result was before it.\<close>

lemma criterion_verdict:
  assumes "plain x" "run_criterion (flow_action E v) x vs res ts = Got w b us"
  shows "b = get_bool w \<and> run_criterion (flow_action E v) x vs res' ts = Got w b us"
proof -
  obtain vr r cs where x: "x = (vr, r, cs)" by (cases x)
  have r: "r \<in> set test_rules" "r \<notin> {130, 131}" and cs: "set cs \<subseteq> set unit_rules"
    using assms(1) by (auto simp: plain_def x)
  have test: "b = get_bool w \<and> eff_bind (flow_action E v r us' res') (\<lambda>v' res. run_units (flow_action E v) cs v' res ts) = Got w b us"
    if "eff_bind (flow_action E v r us' res) (\<lambda>v' res. run_units (flow_action E v) cs v' res ts) = Got w b us" for us'
    using that test_judged [OF r(1), of E v us' res] r(2) test_forgets [OF r(1), of E v us' res res'] cs
    by (cases "flow_action E v r us' res'") (auto simp: judged_def units_keep)
  show ?thesis
  proof (cases vr)
    case None
    then show ?thesis using assms(2) test by (simp add: run_criterion_def x)
  next
    case (Some c)
    then have "c \<in> set value_rules_of" using assms(1) by (simp add: plain_def x)
    then obtain y where "\<forall>res. flow_action E v c [last vs] res = EDone y res" using value_keeps by blast
    then show ?thesis using assms(2) test Some by (simp add: run_criterion_def x)
  qed
qed


abbreviation T_RISKS :: nat where "T_RISKS \<equiv> 18"

lemma criteria_no_risks:
  "list_all (\<lambda>(a, alone, seconds). a = T_RISKS \<or> list_all (\<lambda>x. fst (snd x) \<notin> {130, 131}) (entry_criteria alone seconds)) criteria"
  by (simp add: criteria_def entry_criteria_def)

lemma criteria_plain:
  assumes "map_of criteria a = Some (alone, seconds)" "a \<noteq> T_RISKS" "x \<in> set (entry_criteria alone seconds)"
  shows "plain x"
proof -
  note m = map_of_SomeD [OF assms(1)]
  show ?thesis
    using assms(2,3) bspec [OF criteria_no_risks [unfolded list_all_iff] m]
      bspec [OF criteria_rules [unfolded list_all_iff] all_criteria_mem [OF m assms(3)]]
    by (auto simp: plain_def list_all_iff)
qed

lemma read_criterion_verdict:
  assumes "read_criterion (flow_action E v) ts res = Got w b us" "yytoken ts \<noteq> T_RISKS"
  shows "b = get_bool w \<and> read_criterion (flow_action E v) ts res' = Got w b us"
proof -
  obtain alone seconds where a: "map_of criteria (yytoken ts) = Some (alone, seconds)"
    "read_second (flow_action E v) alone seconds (yyvalue [] ts) (drop 1 ts) res = Got w b us"
    using assms(1) by (auto simp: read_criterion_def read_fails_def split: option.splits)
  let ?x = "yyvalue [] ts" and ?ts = "drop 1 ts"
  note plain = criteria_plain [OF a(1) assms(2)]
  have "b = get_bool w \<and> read_second (flow_action E v) alone seconds ?x ?ts res' = Got w b us"
  proof (cases "map_of seconds (yytoken ?ts)")
    case None
    then obtain x where x: "alone = Some x" using a(2) by (auto simp: read_second_def read_fails_def split: if_splits option.splits)
    have "run_criterion (flow_action E v) x [?x] res ?ts = Got w b us"
      using a(2) None x by (simp add: read_second_def split: if_splits)
    from criterion_verdict [OF plain [OF entry_criteria_mem(1) [OF x]] this, of res'] show ?thesis
      using a(2) None x by (simp add: read_second_def split: if_splits)
  next
    case (Some y)
    obtain two thirds where y: "y = (two, thirds)" by force
    note m = map_of_SomeD [OF Some [unfolded y]]
    show ?thesis
    proof (cases two)
      case None
      then have third: "read_third (flow_action E v) thirds ?x (yyvalue [] ?ts) (drop 1 ?ts) res = Got w b us"
        using a(2) Some y by (simp add: read_second_def split: if_splits)
      then obtain x where x: "map_of thirds (yytoken (drop 1 ?ts)) = Some x"
        by (auto simp: read_third_def read_fails_def split: option.splits)
      have "run_criterion (flow_action E v) x [?x, yyvalue [] ?ts, yyvalue [] (drop 1 ?ts)] res (drop 1 (drop 1 ?ts)) = Got w b us"
        using third x by (simp add: read_third_def)
      from criterion_verdict [OF plain [OF entry_criteria_mem(3) [OF m map_of_SomeD [OF x]]] this, of res'] show ?thesis
        using a(2) x Some None y by (simp add: read_second_def read_third_def split: if_splits)
    next
      case (Some x)
      then have "run_criterion (flow_action E v) x [?x, yyvalue [] ?ts] res (drop 1 ?ts) = Got w b us"
        using a(2) \<open>map_of seconds (yytoken ?ts) = Some y\<close> y by (simp add: read_second_def split: if_splits)
      from criterion_verdict [OF plain [OF entry_criteria_mem(2) [OF m Some]] this, of res'] show ?thesis
        using a(2) \<open>map_of seconds (yytoken ?ts) = Some y\<close> y Some by (simp add: read_second_def split: if_splits)
    qed
  qed
  then show ?thesis by (simp add: read_criterion_def a(1))
qed


text \<open>The syntax tree of an expression over the verdicts of its criteria, and its truth.\<close>

datatype formula = FCrit bool | FOr formula formula | FAnd formula formula

fun ftruth :: "formula \<Rightarrow> bool" where
  "ftruth (FCrit b) \<longleftrightarrow> b"
| "ftruth (FOr e d) \<longleftrightarrow> ftruth e \<or> ftruth d"
| "ftruth (FAnd e d) \<longleftrightarrow> ftruth e \<and> ftruth d"

fun read_formula :: "nat \<Rightarrow> yyactions \<Rightarrow> yytok list \<Rightarrow> (formula \<times> yytok list) option" where
  "read_formula 0 act ts = None"
| "read_formula (Suc n) act ts =
     Option.bind
       (if yytoken ts = T_OPEN then
          Option.bind (read_formula n act (drop 1 ts))
            (\<lambda>(e, us). if yytoken us = T_CLOSE then Some (e, drop 1 us) else None)
        else (case read_criterion act ts False of Got w b us \<Rightarrow> Some (FCrit b, us) | Halt r \<Rightarrow> None))
       (\<lambda>(e, us).
          if yytoken us = T_OR then map_option (\<lambda>(d, ws). (FOr e d, ws)) (read_formula n act (drop 1 us))
          else if yytoken us = T_AND then map_option (\<lambda>(d, ws). (FAnd e d, ws)) (read_formula n act (drop 1 us))
          else Some (e, us))"

fun read_formulas :: "nat \<Rightarrow> yyactions \<Rightarrow> yytok list \<Rightarrow> formula list option" where
  "read_formulas 0 act ts = None"
| "read_formulas (Suc n) act ts =
     (if ts = [] then Some []
      else Option.bind (read_formula n act ts)
        (\<lambda>(e, us). if yytoken us = T_SEMI then map_option ((#) e) (read_formulas n act (drop 1 us)) else None))"

definition without_risks :: "yytok list \<Rightarrow> bool" where
  "without_risks ts \<longleftrightarrow> (\<forall>v. Tok FLOW_RISKS v \<notin> set ts)"

lemma risks_symbol: "yytranslate k = T_RISKS \<Longrightarrow> k = FLOW_RISKS"
proof -
  have "list_all (\<lambda>(i, t). t = T_RISKS \<longrightarrow> i = 273) (zip [0..<317] yytranslate_table)" by code_simp
  moreover have "length yytranslate_table = 317" by code_simp
  ultimately have table: "i < 317 \<Longrightarrow> yytranslate_table ! i = T_RISKS \<Longrightarrow> i = 273" for i
    by (fastforce simp: list_all_length dest: spec [of _ i])
  assume "yytranslate k = T_RISKS"
  then have "0 \<le> k \<and> k \<le> 316 \<and> yytranslate_table ! nat k = T_RISKS"
    by (simp add: yytranslate_def split: if_splits)
  then show "k = FLOW_RISKS" using table [of "nat k"] by (simp add: nat_less_iff nat_eq_iff)
qed

lemma no_risks_token: "without_risks ts \<Longrightarrow> yytoken ts \<noteq> T_RISKS"
  by (cases ts) (auto simp: without_risks_def yytoken_def dest: risks_symbol split: yytok.splits)

lemma without_risks_drop: "without_risks ts \<Longrightarrow> without_risks (drop n ts)"
  by (auto simp: without_risks_def dest: in_set_dropD)

lemma expr_action:
  "flow_action E v 34 vs res = verdict vs (get_bool (vs ! 0) \<or> get_bool (vs ! 2))"
  "flow_action E v 35 vs res = verdict vs (get_bool (vs ! 0) \<and> get_bool (vs ! 2))"
  "flow_action E v 36 vs res = verdict vs (get_bool (vs ! 1))"
  "flow_action E v 2 vs res = EDone (hd vs) res"
  "flow_action E v 3 vs res = EDone (hd vs) res"
  by (simp_all add: flow_action_def act_expr_def)

lemma read_criterion_rest:
  assumes "without_risks ts" "read_criterion act ts res = Got w b us"
  shows "without_risks us"
proof -
  obtain alone seconds where "read_second act alone seconds (yyvalue [] ts) (drop 1 ts) res = Got w b us"
    using assms(2) by (auto simp: read_criterion_def read_fails_def split: option.splits)
  then have "us = drop 1 ts \<or> us = drop 1 (drop 1 ts) \<or> us = drop 1 (drop 1 (drop 1 ts))"
    unfolding read_second_def read_third_def
    by (auto simp: read_fails_def dest: run_criterion_reads split: if_splits option.splits)
  then show ?thesis using assms(1) by (auto intro: without_risks_drop)
qed

definition formula_operand :: "nat \<Rightarrow> yyactions \<Rightarrow> yytok list \<Rightarrow> (formula \<times> yytok list) option" where
  "formula_operand n act ts =
     (if yytoken ts = T_OPEN then
        Option.bind (read_formula n act (drop 1 ts))
          (\<lambda>(e, us). if yytoken us = T_CLOSE then Some (e, drop 1 us) else None)
      else (case read_criterion act ts False of Got w b us \<Rightarrow> Some (FCrit b, us) | Halt r \<Rightarrow> None))"

lemma operand_truth:
  assumes inner: "\<And>ts res w b us. without_risks ts \<Longrightarrow> read_expr n (flow_action E v) ts res = Got w b us \<Longrightarrow>
      \<exists>e. read_formula n (flow_action E v) ts = Some (e, us) \<and> ftruth e = b \<and> get_bool w = b \<and> without_risks us"
    and ts: "without_risks ts" and got: "read_operand n (flow_action E v) ts res = Got w b us"
  shows "\<exists>e. formula_operand n (flow_action E v) ts = Some (e, us)
      \<and> ftruth e = b \<and> get_bool w = b \<and> without_risks us"
proof (cases "yytoken ts = T_OPEN")
  case True
  then obtain w1 b1 us1 where i: "read_expr n (flow_action E v) (drop 1 ts) res = Got w1 b1 us1"
    and close: "yytoken us1 = T_CLOSE" "us = drop 1 us1" "b = get_bool w1" "get_bool w = b"
    using got by (auto simp: read_operand_def read_fails_def expr_action verdict_def split: if_splits dest!: read_bind_Got)
  obtain e where "read_formula n (flow_action E v) (drop 1 ts) = Some (e, us1)" "ftruth e = b1" "get_bool w1 = b1" "without_risks us1"
    using inner [OF without_risks_drop [OF ts] i] by blast
  then show ?thesis using True close without_risks_drop [of us1 1] by (simp add: formula_operand_def)
next
  case False
  then have c: "read_criterion (flow_action E v) ts res = Got w b us" using got by (simp add: read_operand_def)
  from read_criterion_verdict [OF this no_risks_token [OF ts], of False] read_criterion_rest [OF ts c]
  show ?thesis using False by (simp add: formula_operand_def)
qed

lemma expr_truth:
  "without_risks ts \<Longrightarrow> read_expr n (flow_action E v) ts res = Got w b us \<Longrightarrow>
    \<exists>e. read_formula n (flow_action E v) ts = Some (e, us) \<and> ftruth e = b \<and> get_bool w = b \<and> without_risks us"
proof (induction n arbitrary: ts res w b us)
  case (Suc n)
  obtain w1 b1 us1 where o: "read_operand n (flow_action E v) ts res = Got w1 b1 us1"
    and rest: "read_rest n (flow_action E v) w1 b1 us1 = Got w b us"
    using Suc.prems(2) unfolding read_expr_Suc by (auto dest!: read_bind_Got)
  obtain e where first: "formula_operand n (flow_action E v) ts = Some (e, us1)" "ftruth e = b1" "get_bool w1 = b1" "without_risks us1"
    using operand_truth [OF _ Suc.prems(1) o] Suc.IH by blast
  show ?case
  proof (cases "yytoken us1 = T_OR \<or> yytoken us1 = T_AND")
    case True
    then obtain w2 b2 where second: "read_expr n (flow_action E v) (drop 1 us1) b1 = Got w2 b2 us"
      and b: "b = (if yytoken us1 = T_OR then get_bool w1 \<or> get_bool w2 else get_bool w1 \<and> get_bool w2)" "get_bool w = b"
      using rest by (auto simp: read_rest_def expr_action verdict_def split: if_splits dest!: read_bind_Got)
    obtain d where "read_formula n (flow_action E v) (drop 1 us1) = Some (d, us)" "ftruth d = b2" "get_bool w2 = b2" "without_risks us"
      using Suc.IH [OF without_risks_drop [OF first(4)] second] by blast
    then show ?thesis
      using first b True by (auto simp: formula_operand_def [symmetric])
  next
    case False
    then show ?thesis using first rest by (auto simp: read_rest_def formula_operand_def [symmetric] split: if_splits)
  qed
qed simp

lemma exprs_truth:
  "without_risks ts \<Longrightarrow> read_exprs n (flow_action E v) x ts res = YAccepted b \<Longrightarrow>
    \<exists>es. read_formulas n (flow_action E v) ts = Some es \<and> b = (if es = [] then res else ftruth (last es))"
proof (induction n arbitrary: x ts res)
  case (Suc n)
  show ?case
  proof (cases "ts = []")
    case True
    then show ?thesis using Suc.prems(2) by simp
  next
    case False
    then obtain w b1 us where e: "read_expr n (flow_action E v) ts res = Got w b1 us" "yytoken us = T_SEMI"
      and rest: "read_exprs n (flow_action E v) x (drop 1 us) b1 = YAccepted b"
      using Suc.prems(2) reading_avoids(2) [of "YAccepted b" "flow_action E v" n ts res]
      by (cases "read_expr n (flow_action E v) ts res")
        (auto simp: read_fails_def expr_action avoids_def avoided_by_def simp del: read_expr.simps split: if_splits)
    obtain d where d: "read_formula n (flow_action E v) ts = Some (d, us)" "ftruth d = b1" "without_risks us"
      using expr_truth [OF Suc.prems(1) e(1)] by blast
    obtain es where "read_formulas n (flow_action E v) (drop 1 us) = Some es" "b = (if es = [] then b1 else ftruth (last es))"
      using Suc.IH [OF without_risks_drop [OF d(3)] rest] by blast
    then show ?thesis
      using False d e(2) by (intro exI [of _ "d # es"]) (simp del: read_formula.simps)
  qed
qed simp



definition sample_env :: expr_env where
  "sample_env = \<lparr>ee_ntop = hex_ntop, ee_pton = hex_pton, ee_categories = ndCategories_new, ee_risk_order = nd_risks,
     ee_regex = None\<rparr>"

definition sample_view :: flow_view where
  "sample_view = flow_sides hex_ntop ((nd_flow_new 0 False False)\<lparr>fl_lower_map := LOWER_LOCAL, fl_ip_protocol := 6\<rparr>)"

text \<open>The tokens of \<open>!app && (vlan_id || ip_protocol);\<close>.\<close>

definition sample_tokens :: "yytok list" where
  "sample_tokens = map (\<lambda>k. Tok k [0]) [33, FLOW_APPLICATION, BOOL_AND, 40, FLOW_VLAN_ID, BOOL_OR, FLOW_IP_PROTO, 41, 59]"

lemma yytranslate_entries:
  "yytranslate 33 = 65" "yytranslate FLOW_APPLICATION = 24" "yytranslate BOOL_AND = T_AND" "yytranslate 40 = T_OPEN"
  "yytranslate FLOW_VLAN_ID = 6" "yytranslate BOOL_OR = T_OR" "yytranslate FLOW_IP_PROTO = 3" "yytranslate 41 = T_CLOSE"
  "yytranslate 59 = T_SEMI"
  by code_simp+

lemma sample_actions:
  "flow_action sample_env sample_view 119 vs res = verdict vs True"
  "flow_action sample_env sample_view 53 vs res = verdict vs False"
  "flow_action sample_env sample_view 37 vs res = verdict vs True"
  "flow_action sample_env sample_view 23 vs res = EDone (hd vs) res"
  "flow_action sample_env sample_view 7 vs res = EDone (hd vs) res"
  "flow_action sample_env sample_view 4 vs res = EDone (hd vs) res"
  by (simp_all add: flow_action_def act_app_def act_vlan_id_def act_ip_proto_def num_forms_def sample_view_def flow_sides_def
      nd_flow_new_def Let_def)

lemma sample_accepted: "yyparse (flow_action sample_env sample_view) sample_tokens False = Some (YAccepted True)"
proof -
  have fuel: "Suc (Suc (length sample_tokens)) = Suc (Suc (Suc (Suc (Suc (Suc (Suc (Suc (Suc (Suc (Suc 0))))))))))"
    by (simp add: sample_tokens_def)
  have "read_text (flow_action sample_env sample_view) sample_tokens False = YAccepted True"
    unfolding read_text_def expr_action(4) yyeffect.case fuel
    by (simp add: sample_tokens_def read_criterion_def read_second_def run_criterion_def criteria_def yytoken_def
        yytranslate_entries expr_action sample_actions verdict_def)
  then show ?thesis by (subst text_parsed) (simp_all add: tokens_ok_def sample_tokens_def YYMAXDEPTH_def)
qed



section \<open>Criteria on addresses\<close>

lemma one_network:
  assumes "LENGTH('n) \<le> 128" "tree_ok T" "rt_set T = {(e :: ('n :: len) word rentry, True)}" "rentry_query load a = Some q"
  shows "longest_match rentry_ops T q \<noteq> None \<longleftrightarrow> in_network e (re_addr q)"
  using longest_match_best [OF assms(1,2,4)] assms(3)
  by (cases "longest_match rentry_ops T q") (auto simp: best_network_def)

lemma one_network4:
  assumes "rentry_create re_load4 addr = Some e" "rentry_query re_load4 ip = Some q"
  shows "longest_match rentry_ops (fst (rt_assign rentry_ops rt_empty e True)) q \<noteq> None \<longleftrightarrow> in_network e (re_addr q)"
proof -
  have "rt_safe rentry_bits rt_empty e" by (simp add: rt_safe_def)
  from assign4 [OF tree_ok_empty assms(1) this, of True]
  obtain T where T: "rt_assign rentry_ops rt_empty e True = (T, None)" "tree_ok T" "rt_set T = {(e, True)}" by auto
  show ?thesis unfolding T(1) fst_conv by (rule one_network [OF _ T(2,3) assms(2)]) simp
qed

lemma one_network6:
  assumes "rentry_create re_load6 addr = Some e" "rentry_query re_load6 ip = Some q"
  shows "longest_match rentry_ops (fst (rt_assign rentry_ops rt_empty e True)) q \<noteq> None \<longleftrightarrow> in_network e (re_addr q)"
proof -
  have "rt_safe rentry_bits rt_empty e" by (simp add: rt_safe_def)
  from assign6 [OF tree_ok_empty assms(1) this, of True]
  obtain T where T: "rt_assign rentry_ops rt_empty e True = (T, None)" "tree_ok T" "rt_set T = {(e, True)}" by auto
  show ?thesis unfolding T(1) fst_conv by (rule one_network [OF _ T(2,3) assms(2)]) simp
qed


definition sample_pton :: inet_pton where
  "sample_pton fam s = (if fam = AF_INET \<and> s = ''10.1.0.0'' then Some [10, 1, 0, 0] else None)"


theorem parser_reads_grammar_witness:
  "yyparse (flow_action sample_env sample_view) (yylex [0] ''!app && ip_nat;'') False
     = Some (read_text (flow_action sample_env sample_view) (yylex [0] ''!app && ip_nat;'') False)"
  by (rule parser_reads_grammar) simp

section \<open>Where the criteria are not what they are named for\<close>

text \<open>The tunnel type of the flow is not looked at when it is compared.\<close>

lemma tunnel_type_ignored:
  "r \<in> {102, 103} \<Longrightarrow> act_tunnel_type (f\<lparr>fl_tunnel_type := t\<rparr>) r vs = act_tunnel_type f r vs"
  by (auto simp: act_tunnel_type_def Let_def)

text \<open>A criterion on a category can hold together with its negation.\<close>

lemma category_not_negated:
  assumes "get_text (last vs) = Some t" "LookupTag cs TYPE_APP (unquoted t) = fc_application (fl_category f)"
    "fc_application (fl_category f) \<noteq> fc_domain (fl_category f)"
  shows "act_category cs f 126 vs = verdict vs True \<and> act_category cs f 127 vs = verdict vs True"
  using assms by (simp add: act_category_def with_arg_def Let_def)

text \<open>A risk by its name sets the result, but the value that an operator takes is that of the token.\<close>

lemma risk_value_stale:
  assumes "get_text (last vs) = Some t"
  shows "act_risks order f 130 vs = EDone (hd vs) (nd_risk_lookup order (unquoted t) \<in> set (fl_risks f))"
  using assms by (simp add: act_risks_def with_arg_def)

text \<open>A regular expression never returns on a flow with a host name.\<close>

lemma regex_loops:
  assumes "cstr (fl_host_server_name f) \<noteq> []" "get_text (last vs) = Some t" "CHR '':'' \<in> set t"
  shows "act_hostname (Some eng) f 176 vs = ELoops"
  using assms by (simp add: act_hostname_def with_arg_def unquoted_def)

text \<open>The mark of a connection is neither set nor not set.\<close>

lemma fwmark_contradiction:
  "flow_action E v 178 vs res = verdict vs False \<and> flow_action E v 179 ws res' = verdict ws False"
  by (simp add: flow_action_def act_fwmark_def)

text \<open>
  An operator takes the whole rest of the text as its right side, the conjunction as well: the
  text \<open>vlan_id && ip_protocol || ip_protocol\<close> is read as \<open>vlan_id && (ip_protocol || ip_protocol)\<close>.
\<close>

definition and_then_or :: "yytok list" where
  "and_then_or = map (\<lambda>k. Tok k [0]) [FLOW_VLAN_ID, BOOL_AND, FLOW_IP_PROTO, BOOL_OR, FLOW_IP_PROTO]"

lemma operators_one_rank:
  "map_option fst (read_formula 5 (flow_action sample_env sample_view) and_then_or)
     = Some (FAnd (FCrit False) (FOr (FCrit True) (FCrit True)))"
proof -
  have five: "(5 :: nat) = Suc (Suc (Suc (Suc (Suc 0))))" by simp
  show ?thesis
    unfolding five
    by (simp add: and_then_or_def read_criterion_def read_second_def run_criterion_def criteria_def yytoken_def
        yytranslate_entries expr_action sample_actions verdict_def)
qed

end
